(* ===== verification/Prelude.thy ===== *)
theory Prelude
  imports Main "HOL-Library.Sublist" "HOL-Library.List_Lexorder"
begin

text \<open>
  Shared vocabulary of the development: JavaScript strings, the error-or-value result type and
  the loops over lists the TypeScript sources use, with the lemmas every component relies on.

  A JavaScript string is a sequence of UTF-16 code units. Note text and vault paths are modelled
  as \<open>jsstr\<close>, a list of code units, because the sources compare code units (the byte order mark
  0xFEFF, CR, LF, control characters). A code unit is a \<open>nat\<close>: the sources only compare code
  units and never compute with them, so no wrap-around can occur. Identifiers and hashes, which
  are opaque text to every component, are strings of code units too; JavaScript compares strings by
  code units, which is the lexicographic order on lists.
\<close>

section \<open>Names of the model's types\<close>

type_synonym code_unit = nat
type_synonym jsstr = "code_unit list"
type_synonym ident = jsstr

text \<open>
  \<open>js ''abc''\<close> is the string literal \<^verbatim>\<open>'abc'\<close> of the source.
\<close>

definition js :: "string \<Rightarrow> jsstr" where
  "js s = map of_char s"

text \<open>
  A function that can throw returns a sum: \<open>Inl\<close> carries the error, \<open>Inr\<close> the value.
\<close>

fun bind_result :: "'e + 'a \<Rightarrow> ('a \<Rightarrow> 'e + 'b) \<Rightarrow> 'e + 'b" where
  "bind_result (Inl e) f = Inl e"
| "bind_result (Inr a) f = f a"

definition guard_result :: "bool \<Rightarrow> 'e \<Rightarrow> 'e + unit" where
  "guard_result ok e = (if ok then Inr () else Inl e)"

named_theorems result_simps \<open>elimination of the error-or-value plumbing\<close>
named_theorems wf_intros \<open>introduction rules of the components' well-formedness invariants\<close>

lemma bind_result_eq_Inr [result_simps]:
  "bind_result r f = Inr b \<longleftrightarrow> (\<exists>a. r = Inr a \<and> f a = Inr b)"
  by (cases r) auto

lemma bind_result_eq_Inl [result_simps]:
  "bind_result r f = Inl e \<longleftrightarrow> r = Inl e \<or> (\<exists>a. r = Inr a \<and> f a = Inl e)"
  by (cases r) auto

lemma guard_result_eq_Inr [result_simps]: "guard_result ok e = Inr u \<longleftrightarrow> ok"
  by (simp add: guard_result_def)

lemma guard_result_eq_Inl [result_simps]: "guard_result ok e = Inl e' \<longleftrightarrow> \<not> ok \<and> e' = e"
  by (auto simp: guard_result_def)

lemma guard_result_cases [simp]:
  "ok \<Longrightarrow> guard_result ok e = Inr ()"
  "\<not> ok \<Longrightarrow> guard_result ok e = Inl e"
  by (simp_all add: guard_result_def)

section \<open>Splitting and joining\<close>

text \<open>
  \<^verbatim>\<open>text.split(sep)\<close> for a one-unit separator: the empty string splits into one empty piece.
\<close>

fun split_on :: "'a \<Rightarrow> 'a list \<Rightarrow> 'a list list" where
  "split_on c [] = [[]]"
| "split_on c (x # xs) =
     (if x = c then [] # split_on c xs
      else (case split_on c xs of [] \<Rightarrow> [[x]] | p # ps \<Rightarrow> (x # p) # ps))"

text \<open>\<^verbatim>\<open>pieces.join(sep)\<close>.\<close>

fun join_with :: "'a \<Rightarrow> 'a list list \<Rightarrow> 'a list" where
  "join_with c [] = []"
| "join_with c [p] = p"
| "join_with c (p # q # ps) = p @ c # join_with c (q # ps)"

lemma split_on_not_Nil [simp]: "split_on c xs \<noteq> []"
  by (induction xs) (auto split: list.splits)

lemma join_split [simp]: "join_with c (split_on c xs) = xs"
proof (induction xs)
  case (Cons x xs)
  show ?case
  proof (cases "split_on c xs")
    case (Cons p ps)
    with Cons.IH show ?thesis by (cases ps) auto
  qed simp
qed simp

lemma split_on_pieces: "p \<in> set (split_on c xs) \<Longrightarrow> c \<notin> set p"
proof (induction xs arbitrary: p)
  case (Cons x xs)
  then show ?case by (fastforce split: if_splits list.splits)
qed simp

lemma split_on_append_sep:
  "c \<notin> set p \<Longrightarrow> split_on c (p @ c # xs) = p # split_on c xs"
  by (induction p) auto

lemma split_on_single: "c \<notin> set p \<Longrightarrow> split_on c p = [p]"
  by (induction p) auto

lemma split_join:
  "ps \<noteq> [] \<Longrightarrow> \<forall>p \<in> set ps. c \<notin> set p \<Longrightarrow> split_on c (join_with c ps) = ps"
  by (induction c ps rule: join_with.induct) (auto simp: split_on_append_sep split_on_single)

lemma join_with_inject:
  "ps \<noteq> [] \<Longrightarrow> qs \<noteq> [] \<Longrightarrow> \<forall>p \<in> set ps. c \<notin> set p \<Longrightarrow> \<forall>q \<in> set qs. c \<notin> set q \<Longrightarrow>
   join_with c ps = join_with c qs \<longleftrightarrow> ps = qs"
  by (metis split_join)

section \<open>Array slices\<close>

text \<open>
  \<^verbatim>\<open>xs.slice(from, to)\<close>: a negative bound counts from the end, bounds are clamped to the array.
\<close>

definition slice_bound :: "nat \<Rightarrow> int \<Rightarrow> nat" where
  "slice_bound len i = (if i < 0 then nat (max 0 (int len + i)) else min len (nat i))"

definition js_slice :: "'a list \<Rightarrow> int \<Rightarrow> int \<Rightarrow> 'a list" where
  "js_slice xs from to =
     (let f = slice_bound (length xs) from; t = slice_bound (length xs) to
      in take (t - f) (drop f xs))"

text \<open>The half-open range \<open>[i, j)\<close> of a list, the proof-friendly form of a slice.\<close>

definition range_of :: "nat \<Rightarrow> nat \<Rightarrow> 'a list \<Rightarrow> 'a list" where
  "range_of i j xs = take (j - i) (drop i xs)"

lemma js_slice_range:
  "j \<le> length xs \<Longrightarrow> js_slice xs (int i) (int j) = range_of i j xs"
  by (cases "i \<le> length xs") (auto simp: js_slice_def slice_bound_def range_of_def)

lemma range_of_empty [simp]: "range_of i i xs = []"
  by (simp add: range_of_def)

lemma range_of_append:
  "i \<le> j \<Longrightarrow> j \<le> k \<Longrightarrow> range_of i j xs @ range_of j k xs = range_of i k xs"
proof -
  assume le: "i \<le> j" "j \<le> k"
  have "take (k - i) (drop i xs) = take ((j - i) + (k - j)) (drop i xs)"
    using le by simp
  also have "\<dots> = take (j - i) (drop i xs) @ take (k - j) (drop (j - i) (drop i xs))"
    by (rule take_add)
  finally show ?thesis using le by (simp add: range_of_def add.commute)
qed

lemma drop_cut:
  "i \<le> j \<Longrightarrow> j \<le> k \<Longrightarrow> drop i xs = range_of i j xs @ range_of j k xs @ drop k xs"
proof -
  assume le: "i \<le> j" "j \<le> k"
  have "drop i xs = take (k - i) (drop i xs) @ drop (k - i) (drop i xs)"
    by (simp only: append_take_drop_id)
  also have "\<dots> = range_of i k xs @ drop k xs" using le by (simp add: range_of_def)
  finally show ?thesis using range_of_append [OF le, of xs] by simp
qed

lemma length_range_of [simp]: "j \<le> length xs \<Longrightarrow> length (range_of i j xs) = j - i"
  by (auto simp: range_of_def)

lemma range_of_all: "range_of 0 (length xs) xs = xs"
  by (simp add: range_of_def)

lemma range_of_to_end [simp]: "range_of i (length xs) xs = drop i xs"
  by (simp add: range_of_def)

lemma range_of_0: "range_of 0 i xs = take i xs"
  by (simp add: range_of_def)

lemma range_of_Cons:
  "i < j \<Longrightarrow> j \<le> length xs \<Longrightarrow> range_of i j xs = xs ! i # range_of (Suc i) j xs"
  by (simp add: range_of_def Cons_nth_drop_Suc [symmetric] take_Cons' Suc_diff_Suc)

lemma range_of_eq_Nil: "j \<le> i \<Longrightarrow> range_of i j xs = []"
  by (simp add: range_of_def)

lemma set_range_of: "set (range_of i j xs) \<subseteq> set xs"
  by (auto simp: range_of_def dest: in_set_takeD in_set_dropD)

lemma filter_greater_upt: "filter (\<lambda>n. n > k) [1..<m] = [k + 1..<m]"
  by (induction m) auto

lemma distinct_singleton: "distinct xs \<Longrightarrow> set xs = {x} \<Longrightarrow> xs = [x]"
proof (cases xs)
  case (Cons y ys)
  assume "distinct xs" "set xs = {x}"
  with Cons have "y = x" "x \<notin> set ys" "set ys \<subseteq> {x}" by auto
  with Cons show ?thesis by (cases ys) auto
qed simp

lemma filter_append_cut:
  "\<forall>x \<in> set xs. P x \<Longrightarrow> \<forall>y \<in> set ys. \<not> P y \<Longrightarrow> filter P (xs @ ys) = xs"
  by simp

section \<open>Transition systems shared by the stateful components\<close>

text \<open>
  Every stateful component of the program is used the same way: an operation takes the state and
  an input and returns an output and the next state. The contract is one invariant that every
  operation keeps; what is proved here once holds for each component that is shown to satisfy it.
\<close>

locale invariant_machine =
  fixes step :: "'s \<Rightarrow> 'i \<Rightarrow> 'o \<times> 's"
    and inv :: "'s \<Rightarrow> bool"
  assumes step_inv: "inv s \<Longrightarrow> inv (snd (step s i))"
begin

fun run :: "'s \<Rightarrow> 'i list \<Rightarrow> 's" where
  "run s [] = s"
| "run s (i # is) = run (snd (step s i)) is"

lemma run_inv: "inv s \<Longrightarrow> inv (run s is)"
  by (induction "is" arbitrary: s) (auto intro: step_inv)

lemma run_append: "run s (is @ ks) = run (run s is) ks"
  by (induction "is" arbitrary: s) auto

end

section \<open>Maps in insertion order\<close>

text \<open>
  A JavaScript \<^verbatim>\<open>Map\<close>, or a plain object used as a dictionary, is an association list in insertion
  order: \<open>map_set\<close> is \<^verbatim>\<open>m.set(k, v)\<close> and \<^verbatim>\<open>{...m, [k]: v}\<close>, \<open>map_delete\<close> is \<^verbatim>\<open>m.delete(k)\<close>. A plain
  object would list integer-like keys first; the dictionaries of the sources are keyed by UUIDs,
  hashes and file paths.
\<close>

definition map_set :: "('k \<times> 'v) list \<Rightarrow> 'k \<Rightarrow> 'v \<Rightarrow> ('k \<times> 'v) list" where
  "map_set m k v =
     (if map_of m k = None then m @ [(k, v)] else map (\<lambda>(k', v'). if k' = k then (k', v) else (k', v')) m)"

definition map_delete :: "('k \<times> 'v) list \<Rightarrow> 'k \<Rightarrow> ('k \<times> 'v) list" where
  "map_delete m k = filter (\<lambda>e. fst e \<noteq> k) m"

lemma map_of_replace:
  "map_of (map (\<lambda>(k', v'). if k' = k then (k', v) else (k', v')) m) k'' =
     (if k'' = k \<and> map_of m k \<noteq> None then Some v else map_of m k'')"
  by (induction m) auto

lemma map_of_map_set [simp]: "map_of (map_set m k v) k' = (if k' = k then Some v else map_of m k')"
  by (auto simp: map_set_def map_of_replace map_add_def split: option.splits)

lemma map_of_map_delete [simp]: "map_of (map_delete m k) k' = (if k' = k then None else map_of m k')"
  unfolding map_delete_def by (induction m) auto

end
