(* ===== verification/Lcs.thy ===== *)
theory Lcs
  imports Prelude
begin

text \<open>
  The longest common subsequence of two line arrays (\<^verbatim>\<open>lcsMatches\<close> of
  \<^verbatim>\<open>packages/sync-core/src/diff3.ts\<close>): the flat table of the dynamic program, filled backwards by
  two loops, and the walk that reads the matched index pairs off it. The theory shows that the
  table holds the length of the longest common subsequence of every pair of suffixes, that the
  walk returns a strictly increasing matching of equal lines, and that no matching is longer.
\<close>

section \<open>The table\<close>

text \<open>
  The source stores the table in an \<^verbatim>\<open>Int32Array\<close> indexed \<open>i * width + j\<close>. Its entries are at
  most the number of lines, which the guard on \<^verbatim>\<open>maxLcsCells\<close> keeps far below \<open>2 ^ 31\<close>
  (see \<open>lcsTable_int32\<close>), so a list of \<open>nat\<close> is the same table.
\<close>

definition lcsCell :: "'a list \<Rightarrow> 'a list \<Rightarrow> nat \<Rightarrow> nat \<Rightarrow> nat \<Rightarrow> nat list \<Rightarrow> nat" where
  "lcsCell x y width i j table =
     (if x ! i = y ! j then table ! ((i + 1) * width + (j + 1)) + 1
      else max (table ! ((i + 1) * width + j)) (table ! (i * width + (j + 1))))"

text \<open>The inner loop: \<open>j\<close> counts down from \<open>m - 1\<close> to 0.\<close>

fun lcsRow :: "'a list \<Rightarrow> 'a list \<Rightarrow> nat \<Rightarrow> nat \<Rightarrow> nat \<Rightarrow> nat list \<Rightarrow> nat list" where
  "lcsRow x y width i 0 table = table"
| "lcsRow x y width i (Suc j) table =
     lcsRow x y width i j (table[i * width + j := lcsCell x y width i j table])"

text \<open>The outer loop: \<open>i\<close> counts down from \<open>n - 1\<close> to 0.\<close>

fun lcsRows :: "'a list \<Rightarrow> 'a list \<Rightarrow> nat \<Rightarrow> nat \<Rightarrow> nat list \<Rightarrow> nat list" where
  "lcsRows x y width 0 table = table"
| "lcsRows x y width (Suc i) table =
     lcsRows x y width i (lcsRow x y width i (length y) table)"

definition lcsTable :: "'a list \<Rightarrow> 'a list \<Rightarrow> nat list" where
  "lcsTable x y =
     (let width = length y + 1
      in lcsRows x y width (length x) (replicate ((length x + 1) * width) 0))"

text \<open>The walk over the finished table; the pairs come out in increasing order.\<close>

function lcsWalk :: "'a list \<Rightarrow> 'a list \<Rightarrow> nat \<Rightarrow> nat list \<Rightarrow> nat \<Rightarrow> nat \<Rightarrow> (nat \<times> nat) list" where
  "lcsWalk x y width table i j =
     (if i < length x \<and> j < length y then
        if x ! i = y ! j then (i, j) # lcsWalk x y width table (i + 1) (j + 1)
        else if table ! ((i + 1) * width + j) \<ge> table ! (i * width + (j + 1))
        then lcsWalk x y width table (i + 1) j
        else lcsWalk x y width table i (j + 1)
      else [])"
  by pat_completeness auto
termination
  by (relation "measure (\<lambda>(x, y, width, table, i, j). (length x - i) + (length y - j))") auto

declare lcsWalk.simps [simp del]

definition lcsMatches :: "'a list \<Rightarrow> 'a list \<Rightarrow> (nat \<times> nat) list" where
  "lcsMatches x y = lcsWalk x y (length y + 1) (lcsTable x y) 0 0"

section \<open>The reference: length of a longest common subsequence\<close>

fun lcs_len :: "'a list \<Rightarrow> 'a list \<Rightarrow> nat" where
  "lcs_len [] ys = 0"
| "lcs_len xs [] = 0"
| "lcs_len (x # xs) (y # ys) =
     (if x = y then lcs_len xs ys + 1 else max (lcs_len xs (y # ys)) (lcs_len (x # xs) ys))"

lemma lcs_len_Nil2 [simp]: "lcs_len xs [] = 0"
  by (cases xs) auto

lemma lcs_len_le: "lcs_len xs ys \<le> length xs \<and> lcs_len xs ys \<le> length ys"
  by (induction xs ys rule: lcs_len.induct) auto

text \<open>Every common subsequence is at most \<open>lcs_len\<close> long.\<close>

lemma lcs_len_upper: "subseq zs xs \<Longrightarrow> subseq zs ys \<Longrightarrow> length zs \<le> lcs_len xs ys"
proof (induction xs ys arbitrary: zs rule: lcs_len.induct)
  case (3 x xs y ys)
  show ?case
  proof (cases zs)
    case (Cons z zs')
    show ?thesis
    proof (cases "x = y")
      case True
      have "subseq zs' xs" "subseq zs' ys"
        using "3.prems" Cons by (auto split: if_splits dest: subseq_Cons')
      then show ?thesis using "3.IH"(1) [OF True] True Cons by simp
    next
      case False
      then have "z \<noteq> x \<or> z \<noteq> y" by auto
      then consider "subseq zs xs" | "subseq zs ys"
        using "3.prems" Cons by (metis subseq_Cons2_neq)
      then show ?thesis
      proof cases
        case 1
        with "3.IH"(2) [OF False] "3.prems" False show ?thesis by (auto simp: le_max_iff_disj)
      next
        case 2
        with "3.IH"(3) [OF False] "3.prems" False show ?thesis by (auto simp: le_max_iff_disj)
      qed
    qed
  qed simp
qed auto

section \<open>The table holds the reference\<close>

text \<open>The flat index \<open>i * width + j\<close> stays a product inside this section.\<close>

declare mult_Suc [simp del] mult_Suc_right [simp del]

text \<open>
  Row \<open>i\<close> of the table is correct from column \<open>j\<close> on. Rows below are correct everywhere; the last
  row and the last column are the zeros the table starts with.
\<close>

definition cells_ok :: "'a list \<Rightarrow> 'a list \<Rightarrow> (nat \<Rightarrow> nat \<Rightarrow> bool) \<Rightarrow> nat list \<Rightarrow> bool" where
  "cells_ok x y P table \<longleftrightarrow>
     length table = (length x + 1) * (length y + 1) \<and>
     (\<forall>i \<le> length x. \<forall>j \<le> length y. P i j \<longrightarrow>
        table ! (i * (length y + 1) + j) = lcs_len (drop i x) (drop j y))"

lemma cell_index_less:
  "i \<le> n \<Longrightarrow> j \<le> m \<Longrightarrow> i * (m + 1) + j < (n + 1) * (m + (1::nat))"
proof -
  assume "i \<le> n" "j \<le> m"
  then have "i * (m + 1) + j < i * (m + 1) + (m + 1)" by simp
  also have "\<dots> = (i + 1) * (m + 1)" by (simp add: mult_Suc)
  also have "\<dots> \<le> (n + 1) * (m + 1)" using \<open>i \<le> n\<close> by (intro mult_right_mono) auto
  finally show ?thesis .
qed

lemma cell_index_inj:
  assumes "i * (m + 1) + j = i' * (m + 1) + (j' :: nat)" "j \<le> m" "j' \<le> m"
  shows "i = i' \<and> j = j'"
proof -
  have quot: "(k * (m + 1) + l) div (m + 1) = k" if "l \<le> m" for k l :: nat
  proof -
    have "(k * (m + 1) + l) div (m + 1) = k + l div (m + 1)"
      by (metis add.commute add_gr_0 div_mult_self3 less_one not_gr_zero)
    with that show ?thesis by simp
  qed
  have "i = i'" using quot [OF assms(2), of i] quot [OF assms(3), of i'] assms(1) by metis
  with assms(1) show ?thesis by simp
qed

lemma lcs_len_drop:
  "i < length x \<Longrightarrow> j < length y \<Longrightarrow>
   lcs_len (drop i x) (drop j y) =
     (if x ! i = y ! j then lcs_len (drop (Suc i) x) (drop (Suc j) y) + 1
      else max (lcs_len (drop (Suc i) x) (drop j y)) (lcs_len (drop i x) (drop (Suc j) y)))"
  by (simp add: Cons_nth_drop_Suc [symmetric])

lemma cells_ok_set:
  assumes ok: "cells_ok x y P table" and ij: "i < length x" "j < length y"
    and below: "P (Suc i) j" "P (Suc i) (Suc j)" "P i (Suc j)"
  shows "cells_ok x y (\<lambda>i' j'. P i' j' \<or> i' = i \<and> j' = j)
           (table[i * (length y + 1) + j := lcsCell x y (length y + 1) i j table])"
proof -
  let ?w = "length y + 1"
  have len: "length table = (length x + 1) * ?w" using ok by (simp add: cells_ok_def)
  have val: "table ! (i' * ?w + j') = lcs_len (drop i' x) (drop j' y)"
    if "i' \<le> length x" "j' \<le> length y" "P i' j'" for i' j'
    using ok that by (simp add: cells_ok_def)
  have cell: "lcsCell x y ?w i j table = lcs_len (drop i x) (drop j y)"
    using val [of "Suc i" j] val [of "Suc i" "Suc j"] val [of i "Suc j"] ij below
    unfolding lcsCell_def lcs_len_drop [OF ij] by (simp add: add.commute)
  have idx: "i * ?w + j < length table" using cell_index_less ij len by (metis less_imp_le_nat)
  show ?thesis unfolding cells_ok_def
  proof (intro conjI allI impI)
    fix i' j' assume b: "i' \<le> length x" "j' \<le> length y" and "P i' j' \<or> i' = i \<and> j' = j"
    then consider "i' = i" "j' = j" | "P i' j'" "i' \<noteq> i \<or> j' \<noteq> j" by blast
    then show "table[i * ?w + j := lcsCell x y ?w i j table] ! (i' * ?w + j') =
        lcs_len (drop i' x) (drop j' y)"
    proof cases
      case 2
      then have "i * ?w + j \<noteq> i' * ?w + j'" using cell_index_inj [of i "length y" j i' j'] ij b by auto
      with 2 val b show ?thesis by simp
    next
      case 1
      with cell idx show ?thesis by (simp only: nth_list_update_eq)
    qed
  qed (simp add: len)
qed

lemma cells_ok_mono: "cells_ok x y P table \<Longrightarrow> (\<And>i j. Q i j \<Longrightarrow> P i j) \<Longrightarrow> cells_ok x y Q table"
  by (simp add: cells_ok_def)

lemma lcsRow_ok:
  "i < length x \<Longrightarrow> j \<le> length y \<Longrightarrow>
   cells_ok x y (\<lambda>i' j'. i' > i \<or> i' = i \<and> j' \<ge> j \<or> j' = length y) table \<Longrightarrow>
   cells_ok x y (\<lambda>i' j'. i' \<ge> i \<or> j' = length y) (lcsRow x y (length y + 1) i j table)"
proof (induction j arbitrary: table)
  case (Suc j)
  let ?t = "table[i * (length y + 1) + j := lcsCell x y (length y + 1) i j table]"
  have "cells_ok x y (\<lambda>i' j'. (i' > i \<or> i' = i \<and> j' \<ge> Suc j \<or> j' = length y) \<or> i' = i \<and> j' = j) ?t"
    using Suc.prems by (intro cells_ok_set) auto
  then have "cells_ok x y (\<lambda>i' j'. i' > i \<or> i' = i \<and> j' \<ge> j \<or> j' = length y) ?t"
    by (rule cells_ok_mono) auto
  then show ?case using Suc.IH [of ?t] Suc.prems by simp
qed (auto elim: cells_ok_mono)

lemma lcsRows_ok:
  "i \<le> length x \<Longrightarrow> cells_ok x y (\<lambda>i' j'. i' \<ge> i \<or> j' = length y) table \<Longrightarrow>
   cells_ok x y (\<lambda>i' j'. True) (lcsRows x y (length y + 1) i table)"
proof (induction i arbitrary: table)
  case (Suc i)
  have "cells_ok x y (\<lambda>i' j'. i' > i \<or> i' = i \<and> j' \<ge> length y \<or> j' = length y) table"
    using Suc.prems(2) by (auto simp: cells_ok_def Suc_le_eq)
  then have "cells_ok x y (\<lambda>i' j'. i' \<ge> i \<or> j' = length y)
      (lcsRow x y (length y + 1) i (length y) table)"
    using Suc.prems by (intro lcsRow_ok) auto
  then show ?case using Suc by simp
qed (auto elim: cells_ok_mono)

text \<open>The filled table is the reference on every pair of suffixes.\<close>

lemma lcsTable_ok: "cells_ok x y (\<lambda>i j. True) (lcsTable x y)"
proof -
  have "cells_ok x y (\<lambda>i j. i \<ge> length x \<or> j = length y)
      (replicate ((length x + 1) * (length y + 1)) 0)"
    unfolding cells_ok_def using cell_index_less by (auto simp del: mult_Suc mult_Suc_right)
  then show ?thesis unfolding lcsTable_def Let_def by (intro lcsRows_ok) simp_all
qed

lemma lcsTable_nth:
  "i \<le> length x \<Longrightarrow> j \<le> length y \<Longrightarrow>
   lcsTable x y ! (i * (length y + 1) + j) = lcs_len (drop i x) (drop j y)"
  using lcsTable_ok [of x y] by (simp add: cells_ok_def)

text \<open>No entry exceeds the number of cells, so a cell limit below \<open>2 ^ 31\<close> rules out overflow.\<close>

lemma lcsTable_int32:
  assumes "i \<le> length x" "j \<le> length y" "(length x + 1) * (length y + 1) \<le> cells"
  shows "lcsTable x y ! (i * (length y + 1) + j) \<le> cells"
proof -
  have "lcs_len (drop i x) (drop j y) \<le> length y" using lcs_len_le [of "drop i x" "drop j y"] by auto
  also have "\<dots> \<le> (length x + 1) * (length y + 1)" by (simp add: mult_Suc)
  finally show ?thesis using assms(3) lcsTable_nth [OF assms(1,2)] by simp
qed

section \<open>The walk\<close>

text \<open>
  A matching from \<open>(i, j)\<close>: index pairs of equal lines, strictly increasing on both sides.
\<close>

fun matching :: "'a list \<Rightarrow> 'a list \<Rightarrow> nat \<Rightarrow> nat \<Rightarrow> (nat \<times> nat) list \<Rightarrow> bool" where
  "matching x y i j [] \<longleftrightarrow> True"
| "matching x y i j ((a, b) # ms) \<longleftrightarrow>
     i \<le> a \<and> a < length x \<and> j \<le> b \<and> b < length y \<and> x ! a = y ! b \<and>
     matching x y (Suc a) (Suc b) ms"

lemma matching_weaken: "matching x y i j ms \<Longrightarrow> i' \<le> i \<Longrightarrow> j' \<le> j \<Longrightarrow> matching x y i' j' ms"
  by (cases ms) auto

lemma lcsWalk_matching: "matching x y i j (lcsWalk x y width table i j)"
proof (induction x y width table i j rule: lcsWalk.induct)
  case (1 x y width table i j)
  show ?case
  proof (cases "i < length x \<and> j < length y")
    case True
    show ?thesis
    proof (cases "x ! i = y ! j")
      case False
      with "1.IH"(2,3) True show ?thesis
        by (subst lcsWalk.simps) (auto elim!: matching_weaken)
    qed (use "1.IH"(1) True in \<open>subst lcsWalk.simps, simp\<close>)
  qed (subst lcsWalk.simps, auto)
qed

lemma matching_lcsMatches: "matching x y 0 0 (lcsMatches x y)"
  by (simp add: lcsMatches_def lcsWalk_matching)

lemma length_lcsWalk:
  "table = lcsTable x y \<Longrightarrow> width = length y + 1 \<Longrightarrow> i \<le> length x \<Longrightarrow> j \<le> length y \<Longrightarrow>
   length (lcsWalk x y width table i j) = lcs_len (drop i x) (drop j y)"
proof (induction x y width table i j rule: lcsWalk.induct)
  case (1 x y width table i j)
  show ?case
  proof (cases "i < length x \<and> j < length y")
    case True
    note cell = lcsTable_nth [of "Suc i" x j y] lcsTable_nth [of i x "Suc j" y]
    show ?thesis
      using True "1.IH" "1.prems" cell
      by (subst lcsWalk.simps) (auto simp: lcs_len_drop max_def)
  next
    case False
    with "1.prems" show ?thesis by (subst lcsWalk.simps) auto
  qed
qed

lemma length_lcsMatches: "length (lcsMatches x y) = lcs_len x y"
  using length_lcsWalk [of "lcsTable x y" x y "length y + 1" 0 0] by (simp add: lcsMatches_def)

text \<open>A matching reads off a common subsequence, so a longer one cannot exist.\<close>

lemma matching_subseq:
  "matching x y i j ms \<Longrightarrow>
   subseq (map (\<lambda>(a, b). x ! a) ms) (drop i x) \<and> subseq (map (\<lambda>(a, b). x ! a) ms) (drop j y)"
proof (induction x y i j ms rule: matching.induct)
  case (2 x y i j a b ms)
  have ends: "subseq (z # zs) (drop i w)"
    if "subseq zs (drop (Suc a) w)" "i \<le> a" "a < length w" "w ! a = z" for w :: "'a list" and zs z i a
  proof -
    have "subseq (z # zs) (drop a w)"
      using that by (metis Cons_nth_drop_Suc subseq_Cons2)
    moreover have "drop i w = range_of i a w @ drop a w"
      using that(2) by (metis append_take_drop_id drop_drop le_add_diff_inverse2 range_of_def)
    ultimately show ?thesis by (metis list_emb_append2)
  qed
  show ?case using 2 ends [of _ a x i] ends [of _ b y j] by auto
qed simp

declare mult_Suc [simp] mult_Suc_right [simp]

lemma matching_length_le: "matching x y 0 0 ms \<Longrightarrow> length ms \<le> length (lcsMatches x y)"
  using matching_subseq [of x y 0 0 ms] lcs_len_upper [of "map (\<lambda>(a, b). x ! a) ms" x y]
  by (simp add: length_lcsMatches)

end
