(* ===== verification/Diff3.thy ===== *)
theory Diff3
  imports Lcs
begin

text \<open>
  The three-way line merge (\<^verbatim>\<open>packages/sync-core/src/diff3.ts\<close>), definition by definition: the change
  hunks of one side, the segments of a variant that belong to an ancestor range, the recovery of a
  region both sides touched on disjoint lines, and the merge loop itself. The theory
  \<open>Diff3_Correct\<close> proves what the merge promises.

  Line arrays are lists. A hunk's lengths are differences of increasing indices, so \<open>nat\<close>
  subtraction is exact there (\<open>hunk_loop_aligned\<close> in \<open>Diff3_Correct\<close>); the two cut functions
  compute with \<open>int\<close>, since a deletion shifts the variant to the left.
\<close>

section \<open>Hunks\<close>

record hunk =
  oStart :: nat
  oLength :: nat
  abStart :: nat
  abLength :: nat

datatype side = Local | Remote

record sided_hunk = hunk +
  hside :: side

definition with_side :: "side \<Rightarrow> hunk \<Rightarrow> sided_hunk" where
  "with_side s h = \<lparr>oStart = oStart h, oLength = oLength h, abStart = abStart h,
     abLength = abLength h, hside = s\<rparr>"

abbreviation oEnd :: "'a hunk_scheme \<Rightarrow> nat" where
  "oEnd h \<equiv> oStart h + oLength h"

text \<open>\<^verbatim>\<open>'\n'\<close> is code unit 10.\<close>

definition splitLines :: "jsstr \<Rightarrow> jsstr list" where
  "splitLines txt = split_on 10 txt"

text \<open>The loop over the match boundaries, with the cursors behind the last match.\<close>

fun hunk_loop :: "(nat \<times> nat) list \<Rightarrow> nat \<Rightarrow> nat \<Rightarrow> hunk list" where
  "hunk_loop [] oCursor vCursor = []"
| "hunk_loop ((mx, my) # boundaries) oCursor vCursor =
     (let oL = mx - oCursor; abL = my - vCursor
      in (if oL > 0 \<or> abL > 0
          then [\<lparr>oStart = oCursor, oLength = oL, abStart = vCursor, abLength = abL\<rparr>] else [])
         @ hunk_loop boundaries (mx + 1) (my + 1))"

definition diffHunks :: "'a list \<Rightarrow> 'a list \<Rightarrow> hunk list" where
  "diffHunks ancestor variant =
     hunk_loop (lcsMatches ancestor variant @ [(length ancestor, length variant)]) 0 0"

section \<open>Segments of a variant\<close>

definition hunk_delta :: "hunk \<Rightarrow> int" where
  "hunk_delta h = int (abLength h) - int (oLength h)"

definition variantStart :: "hunk list \<Rightarrow> nat \<Rightarrow> int" where
  "variantStart hunks p =
     int p + sum_list (map hunk_delta (filter (\<lambda>h. oEnd h \<le> p \<and> oStart h < p) hunks))"

definition variantEnd :: "hunk list \<Rightarrow> nat \<Rightarrow> int" where
  "variantEnd hunks p = int p + sum_list (map hunk_delta (filter (\<lambda>h. oEnd h \<le> p) hunks))"

definition segmentFor :: "hunk list \<Rightarrow> 'a list \<Rightarrow> nat \<Rightarrow> nat \<Rightarrow> 'a list" where
  "segmentFor hunks variant from to =
     js_slice variant (variantStart hunks from) (variantEnd hunks to)"

definition linesEqual :: "'a list \<Rightarrow> 'a list \<Rightarrow> bool" where
  "linesEqual a b \<longleftrightarrow> length a = length b \<and> list_all (\<lambda>i. a ! i = b ! i) [0..<length a]"

section \<open>A region both sides touched on disjoint lines\<close>

datatype js_error = TypeError

definition inRegion :: "nat \<Rightarrow> nat \<Rightarrow> hunk \<Rightarrow> bool" where
  "inRegion regionStart regionEnd h \<longleftrightarrow> oStart h < regionEnd \<and> oEnd h > regionStart"

definition balanced :: "nat \<Rightarrow> nat \<Rightarrow> hunk list \<Rightarrow> bool" where
  "balanced regionStart regionEnd hunks \<longleftrightarrow>
     list_all (\<lambda>h. oLength h > 0 \<and> oLength h = abLength h \<and>
                   oStart h \<ge> regionStart \<and> oEnd h \<le> regionEnd)
       (filter (inRegion regionStart regionEnd) hunks)"

definition insertionsIn :: "hunk list \<Rightarrow> nat \<Rightarrow> nat \<Rightarrow> hunk list" where
  "insertionsIn hunks regionStart regionEnd =
     filter (\<lambda>h. oLength h = 0 \<and> oStart h \<ge> regionStart \<and> oStart h \<le> regionEnd) hunks"

definition hunkCovering :: "hunk list \<Rightarrow> nat \<Rightarrow> hunk option" where
  "hunkCovering hunks line = find (\<lambda>h. line \<ge> oStart h \<and> line < oEnd h) hunks"

definition regionHasOppositeChange :: "hunk list \<Rightarrow> nat \<Rightarrow> nat \<Rightarrow> bool" where
  "regionHasOppositeChange hunks regionStart regionEnd \<longleftrightarrow>
     list_ex (\<lambda>h. oStart h < regionEnd \<and> oEnd h > regionStart) hunks"

lemma hunkCovering_Some:
  "hunkCovering hunks line = Some h \<Longrightarrow> h \<in> set hunks \<and> oStart h \<le> line \<and> line < oEnd h"
  by (auto simp: hunkCovering_def find_Some_iff)

lemma hunkCovering_None:
  "hunkCovering hunks line = None \<longleftrightarrow> (\<forall>h \<in> set hunks. \<not> (oStart h \<le> line \<and> line < oEnd h))"
  by (auto simp: hunkCovering_def find_None_iff)

text \<open>The replacement lines of a hunk, emitted only when the walk stands on its first line.\<close>

definition hunk_lines :: "hunk \<Rightarrow> 'a list \<Rightarrow> nat \<Rightarrow> 'a list" where
  "hunk_lines h source line =
     (if oStart h \<ge> line then map (\<lambda>k. source ! (abStart h + k)) [0..<abLength h] else [])"

text \<open>
  The walk over the region. \<^verbatim>\<open>own\<close> is read before the case of an unclaimed line is reached, so a
  line that neither side covers raises a \<^verbatim>\<open>TypeError\<close> (\<^verbatim>\<open>own.oStart\<close> of \<^verbatim>\<open>undefined\<close>); the source's
  branch for such a line is never executed. A result \<open>Inr None\<close> is the source's \<^verbatim>\<open>null\<close>.
\<close>

function disjointWalk :: "hunk list \<Rightarrow> hunk list \<Rightarrow> 'a list \<Rightarrow> 'a list \<Rightarrow> nat \<Rightarrow> nat \<Rightarrow>
    js_error + 'a list option" where
  "disjointWalk localHunks remoteHunks a b regionEnd line =
     (if line < regionEnd then
        (case (hunkCovering localHunks line, hunkCovering remoteHunks line) of
           (Some lh, Some rh) \<Rightarrow> Inr None
         | (None, None) \<Rightarrow> Inl TypeError
         | (Some own, None) \<Rightarrow>
             (if regionHasOppositeChange remoteHunks (oStart own) (oEnd own) then Inr None
              else if abLength own = 0 then Inr None
              else bind_result
                (disjointWalk localHunks remoteHunks a b regionEnd (oEnd own))
                (\<lambda>out. Inr (map_option (\<lambda>ls. hunk_lines own a line @ ls) out)))
         | (None, Some own) \<Rightarrow>
             (if regionHasOppositeChange localHunks (oStart own) (oEnd own) then Inr None
              else if abLength own = 0 then Inr None
              else bind_result
                (disjointWalk localHunks remoteHunks a b regionEnd (oEnd own))
                (\<lambda>out. Inr (map_option (\<lambda>ls. hunk_lines own b line @ ls) out))))
      else Inr (Some []))"
  by pat_completeness auto
termination
  by (relation "measure (\<lambda>(lh, rh, a, b, regionEnd, line). regionEnd - line)")
    (auto dest!: hunkCovering_Some [OF sym])

declare disjointWalk.simps [simp del]

definition mergeDisjointRegion :: "hunk list \<Rightarrow> hunk list \<Rightarrow> 'a list \<Rightarrow> 'a list \<Rightarrow> nat \<Rightarrow> nat \<Rightarrow>
    js_error + 'a list option" where
  "mergeDisjointRegion localHunks remoteHunks a b regionStart regionEnd =
     (if \<not> balanced regionStart regionEnd localHunks \<or>
         \<not> balanced regionStart regionEnd remoteHunks then Inr None
      else if insertionsIn localHunks regionStart regionEnd \<noteq> [] \<or>
              insertionsIn remoteHunks regionStart regionEnd \<noteq> [] then Inr None
      else disjointWalk localHunks remoteHunks a b regionEnd regionStart)"

section \<open>The merge loop\<close>

text \<open>
  The comparator orders by \<^verbatim>\<open>oStart\<close>, the local side first; \<^verbatim>\<open>Array.prototype.sort\<close> is stable, as
  \<open>sort_key\<close> is. The key packs the pair into one number.
\<close>

definition event_key :: "sided_hunk \<Rightarrow> nat" where
  "event_key e = 2 * oStart e + (case hside e of Local \<Rightarrow> 0 | Remote \<Rightarrow> 1)"

definition mergeEvents :: "hunk list \<Rightarrow> hunk list \<Rightarrow> sided_hunk list" where
  "mergeEvents localHunks remoteHunks =
     sort_key event_key (map (with_side Local) localHunks @ map (with_side Remote) remoteHunks)"

text \<open>The grouping loop: absorbs every following event closer than \<^verbatim>\<open>adjacency\<close> lines.\<close>

fun absorb :: "int \<Rightarrow> nat \<Rightarrow> side set \<Rightarrow> sided_hunk list \<Rightarrow> nat \<times> side set \<times> sided_hunk list" where
  "absorb adjacency regionEnd sides [] = (regionEnd, sides, [])"
| "absorb adjacency regionEnd sides (nxt # rest) =
     (if int (oStart nxt) - int regionEnd \<ge> adjacency then (regionEnd, sides, nxt # rest)
      else absorb adjacency (max regionEnd (oEnd nxt)) (insert (hside nxt) sides) rest)"

lemma absorb_length: "length (snd (snd (absorb adjacency regionEnd sides evs))) \<le> length evs"
  by (induction adjacency regionEnd sides evs rule: absorb.induct) auto

lemma absorb_shorter:
  "(regionEnd', sides', rest) = absorb adjacency regionEnd sides evs \<Longrightarrow> length rest < Suc (length evs)"
  using absorb_length [of adjacency regionEnd sides evs] by (metis le_imp_less_Suc snd_conv)

text \<open>What the loop pushes for one region; \<open>Inr None\<close> is a conflict.\<close>

definition mergeRegion :: "'a list \<Rightarrow> 'a list \<Rightarrow> 'a list \<Rightarrow> hunk list \<Rightarrow> hunk list \<Rightarrow>
    side set \<Rightarrow> nat \<Rightarrow> nat \<Rightarrow> js_error + 'a list option" where
  "mergeRegion o' a b localHunks remoteHunks sides regionStart regionEnd =
     (let localSegment = segmentFor localHunks a regionStart regionEnd;
          remoteSegment = segmentFor remoteHunks b regionStart regionEnd;
          ancestorSegment = js_slice o' (int regionStart) (int regionEnd)
      in if Remote \<notin> sides \<or> linesEqual remoteSegment ancestorSegment then Inr (Some localSegment)
         else if Local \<notin> sides \<or> linesEqual localSegment ancestorSegment
         then Inr (Some remoteSegment)
         else if linesEqual localSegment remoteSegment then Inr (Some localSegment)
         else mergeDisjointRegion localHunks remoteHunks a b regionStart regionEnd)"

function mergeLoop :: "'a list \<Rightarrow> 'a list \<Rightarrow> 'a list \<Rightarrow> hunk list \<Rightarrow> hunk list \<Rightarrow> int \<Rightarrow>
    nat \<Rightarrow> sided_hunk list \<Rightarrow> 'a list \<Rightarrow> js_error + 'a list option" where
  "mergeLoop o' a b localHunks remoteHunks adjacency oCursor [] merged =
     Inr (Some (merged @ range_of oCursor (length o') o'))"
| "mergeLoop o' a b localHunks remoteHunks adjacency oCursor (first # rest) merged =
     (case absorb adjacency (oEnd first) {hside first} rest of
        (regionEnd, sides, rest') \<Rightarrow>
          bind_result
            (mergeRegion o' a b localHunks remoteHunks sides (oStart first) regionEnd)
            (\<lambda>out. case out of
               None \<Rightarrow> Inr None
             | Some ls \<Rightarrow>
                 mergeLoop o' a b localHunks remoteHunks adjacency regionEnd rest'
                   (merged @ range_of oCursor (oStart first) o' @ ls)))"
  by pat_completeness auto
termination
  by (relation "measure (\<lambda>(o', a, b, lh, rh, adj, c, evs, m). length evs)")
    (auto dest!: absorb_shorter)

datatype diff3_result = Merged jsstr | Conflict

record diff3_options =
  adjacencyLines :: "int option"
  maxLcsCells :: "nat option"

definition default_options :: diff3_options where
  "default_options = \<lparr>adjacencyLines = None, maxLcsCells = None\<rparr>"

definition effective_adjacency :: "diff3_options \<Rightarrow> int" where
  "effective_adjacency opts = (case adjacencyLines opts of None \<Rightarrow> 1 | Some n \<Rightarrow> n)"

definition effective_cells :: "diff3_options \<Rightarrow> nat" where
  "effective_cells opts = (case maxLcsCells opts of None \<Rightarrow> 4000000 | Some n \<Rightarrow> n)"

definition too_large :: "diff3_options \<Rightarrow> 'a list \<Rightarrow> 'a list \<Rightarrow> 'a list \<Rightarrow> bool" where
  "too_large opts o' a b \<longleftrightarrow>
     (length o' + 1) * (length a + 1) > effective_cells opts \<or>
     (length o' + 1) * (length b + 1) > effective_cells opts"

definition mergeText :: "jsstr \<Rightarrow> jsstr \<Rightarrow> jsstr \<Rightarrow> diff3_options \<Rightarrow> js_error + diff3_result" where
  "mergeText ancestor local remote opts =
     (let o' = splitLines ancestor; a = splitLines local; b = splitLines remote
      in if too_large opts o' a b then Inr Conflict
         else
           (let localHunks = diffHunks o' a; remoteHunks = diffHunks o' b
            in bind_result
                 (mergeLoop o' a b localHunks remoteHunks (effective_adjacency opts) 0
                    (mergeEvents localHunks remoteHunks) [])
                 (\<lambda>out. Inr (case out of None \<Rightarrow> Conflict | Some ls \<Rightarrow> Merged (join_with 10 ls)))))"

end
