(* ===== verification/Diff3_Correct.thy ===== *)
theory Diff3_Correct
  imports Diff3
begin

text \<open>
  What the three-way merge promises. The interface between the diff and the merge is the locale
  \<open>line_diff\<close>: a list of hunks that aligns a variant with its ancestor. Everything the merge needs
  of one side is proved there; \<open>diffHunks\<close> is shown to provide it. The abstract specification of
  a merge (\<open>three_way\<close> in \<open>Merge_Correct\<close>) is a partition of the three inputs and the output into
  regions separated by lines both sides kept.
\<close>

section \<open>Aligned hunks\<close>

fun aligned :: "'a list \<Rightarrow> 'a list \<Rightarrow> nat \<Rightarrow> nat \<Rightarrow> hunk list \<Rightarrow> bool" where
  "aligned o' v oc vc [] \<longleftrightarrow> oc \<le> length o' \<and> vc \<le> length v \<and> drop oc o' = drop vc v"
| "aligned o' v oc vc (h # hs) \<longleftrightarrow>
     oc \<le> oStart h \<and> oEnd h \<le> length o' \<and>
     abStart h = vc + (oStart h - oc) \<and> abStart h + abLength h \<le> length v \<and>
     range_of oc (oStart h) o' = range_of vc (abStart h) v \<and>
     (oLength h > 0 \<or> abLength h > 0) \<and>
     (\<forall>h' \<in> set hs. oEnd h < oStart h') \<and>
     aligned o' v (oEnd h) (abStart h + abLength h) hs"

lemma aligned_tail: "aligned o' v oc vc (h # hs) \<Longrightarrow> aligned o' v (oEnd h) (abStart h + abLength h) hs"
  unfolding aligned.simps by blast

lemma aligned_hunk:
  "aligned o' v p pv hs \<Longrightarrow> h \<in> set hs \<Longrightarrow>
   p \<le> oStart h \<and> oEnd h \<le> length o' \<and> abStart h + abLength h \<le> length v \<and> (oLength h > 0 \<or> abLength h > 0)"
proof (induction o' v p pv hs rule: aligned.induct)
  case (2 o' v oc vc h1 hs)
  show ?case
  proof (cases "h \<in> set hs")
    case True
    note tail = "2.IH" [OF aligned_tail [OF "2.prems"(1)] True]
    moreover have "oc \<le> oStart h1" using "2.prems"(1) by simp
    ultimately show ?thesis by linarith
  qed (use "2.prems" in auto)
qed simp

lemma range_of_extend:
  "range_of i j x = range_of i' j' y \<Longrightarrow> i \<le> j \<Longrightarrow> i' \<le> j' \<Longrightarrow> j < length x \<Longrightarrow> j' < length y \<Longrightarrow>
   x ! j = y ! j' \<Longrightarrow> range_of i (Suc j) x = range_of i' (Suc j') y"
proof -
  assume eq: "range_of i j x = range_of i' j' y" and le: "i \<le> j" "i' \<le> j'"
    and less: "j < length x" "j' < length y" and nth: "x ! j = y ! j'"
  have one: "range_of k (Suc k) z = [z ! k]" if "k < length z" for k and z :: "'a list"
    using that by (simp add: range_of_Cons)
  show ?thesis
    using range_of_append [of i j "Suc j" x] range_of_append [of i' j' "Suc j'" y]
      one [OF less(1)] one [OF less(2)] eq le nth by simp
qed

lemma aligned_bounds: "aligned o' v oc vc hs \<Longrightarrow> oc \<le> length o' \<and> vc \<le> length v"
  by (cases hs) auto

text \<open>
  The loop that turns the matches into hunks aligns the two arrays: the boundary list is the
  matching followed by the end of both arrays.
\<close>

lemma hunk_loop_starts:
  "matching x y i j ms \<Longrightarrow> h \<in> set (hunk_loop (ms @ [(length x, length y)]) i j) \<Longrightarrow> i \<le> oStart h"
proof (induction ms arbitrary: i j)
  case (Cons m ms)
  obtain a b where m: "m = (a, b)" by fastforce
  then have "matching x y (Suc a) (Suc b) ms" "i \<le> a" using Cons.prems by auto
  then show ?case using Cons.IH [of "Suc a" "Suc b"] Cons.prems(2)
    by (auto simp: m Let_def split: if_splits)
qed (auto simp: Let_def split: if_splits)

text \<open>
  The cursors stand behind the last match; the lines up to them are aligned already.
\<close>

lemma hunk_loop_aligned:
  assumes "matching x y i j ms" "i \<le> length x" "j \<le> length y"
  shows "aligned x y i j (hunk_loop (ms @ [(length x, length y)]) i j)"
  using assms
proof (induction ms arbitrary: i j)
  case Nil
  then show ?case by (auto simp: Let_def)
next
  case (Cons m ms)
  obtain a b where m: "m = (a, b)" by fastforce
  have ab: "i \<le> a" "a < length x" "j \<le> b" "b < length y" "x ! a = y ! b"
    and rest: "matching x y (Suc a) (Suc b) ms" using Cons.prems m by auto
  let ?hs = "hunk_loop (ms @ [(length x, length y)]) (Suc a) (Suc b)"
  have IH: "aligned x y (Suc a) (Suc b) ?hs" using Cons.IH rest ab by simp
  have starts: "\<And>h. h \<in> set ?hs \<Longrightarrow> Suc a \<le> oStart h" using hunk_loop_starts [OF rest] by blast
  have one: "range_of a (Suc a) x = range_of b (Suc b) y" using ab by (simp add: range_of_Cons)
  have before: "aligned x y a b ?hs"
  proof (cases ?hs)
    case Nil
    then have "drop (Suc a) x = drop (Suc b) y" using IH by simp
    then show ?thesis using Nil ab by (simp add: Cons_nth_drop_Suc [symmetric])
  next
    case (Cons h hs)
    have "range_of a (oStart h) x = range_of a (Suc a) x @ range_of (Suc a) (oStart h) x"
      using starts [of h] Cons by (simp add: range_of_append)
    also have "\<dots> = range_of b (Suc b) y @ range_of (Suc b) (abStart h) y"
      using one IH Cons by simp
    also have "\<dots> = range_of b (abStart h) y"
      using IH Cons by (intro range_of_append) auto
    finally show ?thesis using IH Cons starts [of h] by auto
  qed
  show ?case
  proof (cases "a - i > 0 \<or> b - j > 0")
    case True
    have "\<forall>h' \<in> set ?hs. a < oStart h'" using starts by (auto simp: Suc_le_eq)
    then show ?thesis using True before ab Cons.prems by (auto simp: m Let_def)
  next
    case False
    then have "a = i" "b = j" using ab by auto
    then show ?thesis using before by (simp add: m Let_def)
  qed
qed

lemma diffHunks_aligned: "aligned ancestor variant 0 0 (diffHunks ancestor variant)"
  using hunk_loop_aligned [OF matching_lcsMatches] by (simp add: diffHunks_def)

section \<open>What the merge needs of one side\<close>

definition delta :: "hunk list \<Rightarrow> int" where
  "delta hs = sum_list (map hunk_delta hs)"

lemma delta_simps [simp]:
  "delta [] = 0" "delta (h # hs) = hunk_delta h + delta hs" "delta (xs @ ys) = delta xs + delta ys"
  by (simp_all add: delta_def)

text \<open>Advancing both cursors over lines no remaining hunk touches.\<close>

lemma aligned_advance:
  assumes "aligned o' v p pv hs" "p \<le> e" "e \<le> length o'" "\<forall>h \<in> set hs. e \<le> oStart h"
  shows "aligned o' v e (pv + (e - p)) hs \<and> range_of p e o' = range_of pv (pv + (e - p)) v"
proof (cases hs)
  case Nil
  then have eq: "drop p o' = drop pv v" and b: "pv \<le> length v" using assms(1) by auto
  then have len: "length o' - p = length v - pv" by (metis length_drop)
  have "drop e o' = drop (e - p) (drop p o')" using assms(2) by simp
  also have "\<dots> = drop (pv + (e - p)) v" by (simp add: eq add.commute)
  finally show ?thesis using Nil eq len b assms(2,3) by (auto simp: range_of_def)
next
  case (Cons h hs')
  have le: "p \<le> e" "e \<le> oStart h" using assms Cons by auto
  have ab: "abStart h = pv + (oStart h - p)" "abStart h + abLength h \<le> length v"
    and rng: "range_of p (oStart h) o' = range_of pv (abStart h) v" using assms(1) Cons by auto
  let ?c = "pv + (e - p)"
  have "?c \<le> abStart h" using ab le by simp
  then have split: "range_of p e o' @ range_of e (oStart h) o' = range_of pv ?c v @ range_of ?c (abStart h) v"
    using le rng by (simp add: range_of_append)
  have "length (range_of p e o') = length (range_of pv ?c v)"
    using le assms(3) ab by simp
  then have "range_of p e o' = range_of pv ?c v" "range_of e (oStart h) o' = range_of ?c (abStart h) v"
    using split by (simp_all add: append_eq_append_conv)
  then show ?thesis using assms(1) Cons le ab by simp
qed

text \<open>
  Cutting out a region \<open>[q, e)\<close> that contains the hunks \<open>xs\<close> and no other: the variant's part of
  the region is a range, and the rest stays aligned behind it.
\<close>

lemma aligned_region:
  assumes "aligned o' v p pv (xs @ ys)" "p \<le> q" "q \<le> e" "e \<le> length o'"
    and "\<forall>h \<in> set xs. q \<le> oStart h \<and> oEnd h \<le> e" and "\<forall>h \<in> set ys. e \<le> oStart h"
  obtains ev where "pv + (q - p) \<le> ev" "ev \<le> length v" "aligned o' v e ev ys"
    "int ev = int pv + (int e - int p) + delta xs"
    "xs = [] \<Longrightarrow> range_of q e o' = range_of (pv + (q - p)) ev v"
  using assms
proof (induction xs arbitrary: p pv q thesis)
  case Nil
  then have adv: "aligned o' v q (pv + (q - p)) ys" using aligned_advance [of o' v p pv ys q] by force
  from aligned_advance [OF this] Nil
  have "aligned o' v e (pv + (q - p) + (e - q)) ys"
    "range_of q e o' = range_of (pv + (q - p)) (pv + (q - p) + (e - q)) v" by auto
  then show ?case using Nil.prems(3,4) aligned_bounds [of o' v e]
    by (intro Nil.prems(1) [of "pv + (q - p) + (e - q)"]) auto
next
  case (Cons x xs)
  have al: "aligned o' v (oEnd x) (abStart x + abLength x) (xs @ ys)" and x: "p \<le> oStart x"
    "abStart x = pv + (oStart x - p)" "\<forall>h \<in> set (xs @ ys). oEnd x < oStart h"
    using Cons.prems(2) by auto
  have region: "\<forall>h \<in> set xs. oEnd x \<le> oStart h \<and> oEnd h \<le> e"
    using x(3) Cons.prems(6) by (auto simp: less_imp_le)
  show ?case
  proof (rule Cons.IH [where p = "oEnd x" and pv = "abStart x + abLength x" and q = "oEnd x"])
    fix ev
    assume ev: "abStart x + abLength x + (oEnd x - oEnd x) \<le> ev" "ev \<le> length v"
      "aligned o' v e ev ys"
      "int ev = int (abStart x + abLength x) + (int e - int (oEnd x)) + delta xs"
    show ?case
    proof (rule Cons.prems(1) [of ev])
      show "int ev = int pv + (int e - int p) + delta (x # xs)"
        using ev(4) x by (simp add: hunk_delta_def)
      show "pv + (q - p) \<le> ev" using ev(1) x(1,2) Cons.prems(3,6) by force
    qed (use ev in auto)
  qed (use al region Cons.prems in auto)
qed


locale line_diff =
  fixes ancestor variant :: "'a list" and hunks :: "hunk list"
  assumes hunks_aligned: "aligned ancestor variant 0 0 hunks"
begin

text \<open>
  The merge has consumed the ancestor up to \<open>p\<close> and the variant up to \<open>pv\<close>; the hunks \<open>todo\<close> remain.
\<close>

definition at_cut :: "nat \<Rightarrow> nat \<Rightarrow> hunk list \<Rightarrow> hunk list \<Rightarrow> bool" where
  "at_cut p pv past todo \<longleftrightarrow>
     hunks = past @ todo \<and> aligned ancestor variant p pv todo \<and>
     int pv = int p + delta past \<and> (\<forall>h \<in> set past. oEnd h \<le> p)"

lemma at_cut_start: "at_cut 0 0 [] hunks"
  by (simp add: at_cut_def hunks_aligned)

lemma at_cut_bounds: "at_cut p pv past todo \<Longrightarrow> p \<le> length ancestor \<and> pv \<le> length variant"
  using aligned_bounds [of ancestor variant p pv todo] by (auto simp: at_cut_def)

text \<open>The gap before a region is untouched, and the region's segment is a range of the variant.\<close>

lemma region_segment:
  assumes cut: "at_cut p pv past (xs @ ys)" and le: "p \<le> q" "q \<le> e" "e \<le> length ancestor"
    and region: "\<forall>h \<in> set xs. q \<le> oStart h \<and> oEnd h \<le> e" and after: "\<forall>h \<in> set ys. e < oStart h"
    and past: "\<forall>h \<in> set past. oStart h < q"
  obtains ev where "pv + (q - p) \<le> ev" "ev \<le> length variant" "at_cut e ev (past @ xs) ys"
    "segmentFor hunks variant q e = range_of (pv + (q - p)) ev variant"
    "range_of p q ancestor = range_of pv (pv + (q - p)) variant"
    "xs = [] \<Longrightarrow> segmentFor hunks variant q e = range_of q e ancestor"
proof -
  have al: "aligned ancestor variant p pv (xs @ ys)" and hs: "hunks = past @ xs @ ys"
    and pv: "int pv = int p + delta past" and ends: "\<forall>h \<in> set past. oEnd h \<le> p"
    using cut by (auto simp: at_cut_def)
  from aligned_region [OF al le region] after obtain ev where
    ev: "pv + (q - p) \<le> ev" "ev \<le> length variant" "aligned ancestor variant e ev ys"
    and ev_eq: "int ev = int pv + (int e - int p) + delta xs"
    and none: "xs = [] \<Longrightarrow> range_of q e ancestor = range_of (pv + (q - p)) ev variant"
    by (auto simp: less_imp_le)
  have "filter (\<lambda>h. oEnd h \<le> q \<and> oStart h < q) hunks = past"
    unfolding hs using ends past region after le by (intro filter_append_cut) force+
  then have start: "variantStart hunks q = int (pv + (q - p))"
    using pv le by (simp add: variantStart_def delta_def)
  have "filter (\<lambda>h. oEnd h \<le> e) hunks = past @ xs"
    unfolding hs append_assoc [symmetric] using ends region after le
    by (intro filter_append_cut) force+
  then have "variantEnd hunks e = int ev"
    using pv ev_eq by (simp add: variantEnd_def delta_def)
  with start ev have seg: "segmentFor hunks variant q e = range_of (pv + (q - p)) ev variant"
    by (simp add: segmentFor_def js_slice_range del: of_nat_add)
  have gap: "range_of p q ancestor = range_of pv (pv + (q - p)) variant"
    using aligned_advance [OF al] le region after by fastforce
  have "at_cut e ev (past @ xs) ys"
    unfolding at_cut_def using hs ev ev_eq pv ends region le by auto
  with ev seg gap none show thesis by (intro that) auto
qed

text \<open>Skipping untouched lines, and stepping over the hunk that covers the current line.\<close>

lemma skip_step:
  assumes "at_cut p pv past todo" "p \<le> e" "e \<le> length ancestor" "\<forall>h \<in> set todo. e \<le> oStart h"
  shows "at_cut e (pv + (e - p)) past todo"
    "range_of p e ancestor = range_of pv (pv + (e - p)) variant"
  using aligned_advance [of ancestor variant p pv todo e] assms unfolding at_cut_def by force+

lemma cover_step:
  assumes cut: "at_cut p pv past todo" and cover: "hunkCovering hunks p = Some h"
  obtains todo' where "todo = h # todo'" "oStart h = p"
    "at_cut (oEnd h) (pv + abLength h) (past @ [h]) todo'"
    "hunk_lines h variant p = range_of pv (pv + abLength h) variant"
proof -
  have h: "h \<in> set hunks" "oStart h \<le> p" "p < oEnd h" using hunkCovering_Some [OF cover] by auto
  have al: "aligned ancestor variant p pv todo" and "h \<in> set todo"
    using cut h by (auto simp: at_cut_def)
  then have start: "oStart h = p" using aligned_hunk h by (metis le_antisym)
  obtain h1 todo' where todo: "todo = h1 # todo'" using \<open>h \<in> set todo\<close> by (cases todo) auto
  have "h1 = h"
  proof (rule ccontr)
    assume "h1 \<noteq> h"
    then have "oEnd h1 < oStart h" "p \<le> oStart h1" using \<open>h \<in> set todo\<close> todo al by auto
    then show False using start by simp
  qed
  then have pv: "abStart h = pv" and len: "pv + abLength h \<le> length variant"
    using al todo start by auto
  have lines: "hunk_lines h variant p = range_of pv (pv + abLength h) variant"
    unfolding hunk_lines_def using start pv len
    by (intro nth_equalityI) (auto simp: range_of_def)
  have "at_cut (oEnd h) (pv + abLength h) (past @ [h]) todo'"
    unfolding at_cut_def using cut todo \<open>h1 = h\<close> start pv aligned_tail [of ancestor variant p pv h todo']
    by (auto simp: at_cut_def hunk_delta_def)
  with todo \<open>h1 = h\<close> start lines show thesis by (intro that) auto
qed

text \<open>The opposite side of such a hunk did not touch its lines.\<close>

lemma opposite_step:
  assumes cut: "at_cut p pv past (xs @ ys)" and le: "p \<le> e" "e \<le> length ancestor"
    and opp: "\<not> regionHasOppositeChange hunks p e"
    and xs: "\<forall>h \<in> set xs. oLength h > 0" and ys: "\<forall>h \<in> set ys. e \<le> oStart h"
  shows "at_cut e (pv + (e - p)) past (xs @ ys)"
    "range_of p e ancestor = range_of pv (pv + (e - p)) variant"
proof -
  have "e \<le> oStart h" if "h \<in> set (xs @ ys)" for h
  proof -
    have "p \<le> oStart h" "h \<in> set hunks"
      using cut that aligned_hunk [of ancestor variant p pv "xs @ ys" h] by (auto simp: at_cut_def)
    moreover have "\<not> (oStart h < e \<and> p < oEnd h)"
      using opp \<open>h \<in> set hunks\<close> by (auto simp: regionHasOppositeChange_def list_ex_iff)
    ultimately show ?thesis using that xs ys by (cases "h \<in> set ys") auto
  qed
  then show "at_cut e (pv + (e - p)) past (xs @ ys)"
    "range_of p e ancestor = range_of pv (pv + (e - p)) variant"
    using skip_step [OF cut le] by blast+
qed

lemma at_cut_unique:
  "at_cut p pv past todo \<Longrightarrow> at_cut p pv' past' todo \<Longrightarrow> pv = pv' \<and> past = past'"
  unfolding at_cut_def by auto

lemma at_cut_todo: "at_cut p pv past todo \<Longrightarrow> h \<in> set todo \<Longrightarrow> p \<le> oStart h \<and> oEnd h \<le> length ancestor"
  using aligned_hunk by (fastforce simp: at_cut_def)

end

interpretation dh: line_diff ancestor variant "diffHunks ancestor variant" for ancestor variant
  by unfold_locales (rule diffHunks_aligned)

end
