(* ===== verification/Merge_Correct.thy ===== *)
theory Merge_Correct
  imports Diff3_Correct "HOL-Library.Multiset"
begin

text \<open>
  Correctness of the merge loop of \<^verbatim>\<open>diff3.ts\<close>. The locale \<open>merge_inputs\<close> puts two aligned diffs of
  one ancestor side by side; its step lemma says what one region of the loop consumes of the
  three inputs. On top of it: every successful merge is a three-way merge (\<open>three_way\<close>), it never
  throws with the default adjacency, it does not depend on which side is called local, and edits
  that do not touch never conflict.
\<close>

section \<open>The events of one side\<close>

definition hunks_of :: "side \<Rightarrow> sided_hunk list \<Rightarrow> hunk list" where
  "hunks_of s evs = map hunk.truncate (filter (\<lambda>e. hside e = s) evs)"

lemma hunks_of_simps [simp]:
  "hunks_of s [] = []"
  "hunks_of s (e # evs) = (if hside e = s then [hunk.truncate e] else []) @ hunks_of s evs"
  "hunks_of s (xs @ ys) = hunks_of s xs @ hunks_of s ys"
  by (simp_all add: hunks_of_def)

lemma truncate_simps [simp]:
  "oStart (hunk.truncate e) = oStart e" "oLength (hunk.truncate e) = oLength e"
  "abStart (hunk.truncate e) = abStart e" "abLength (hunk.truncate e) = abLength e"
  by (simp_all add: hunk.truncate_def)

lemma with_side_simps [simp]:
  "oStart (with_side s h) = oStart h" "oLength (with_side s h) = oLength h"
  "hside (with_side s h) = s" "hunk.truncate (with_side s h) = h"
  by (simp_all add: with_side_def hunk.truncate_def)

lemma set_hunks_of: "h \<in> set (hunks_of s evs) \<Longrightarrow> \<exists>e \<in> set evs. h = hunk.truncate e \<and> hside e = s"
  by (auto simp: hunks_of_def)

lemma hunks_of_with_side [simp]:
  "hunks_of s (map (with_side s') hs) = (if s = s' then hs else [])"
  by (induction hs) auto

lemma hunks_of_empty: "s \<notin> hside ` set evs \<Longrightarrow> hunks_of s evs = []"
  by (induction evs) auto

text \<open>Hunks of an aligned diff start at strictly increasing lines.\<close>

lemma aligned_sorted: "aligned o' v p pv hs \<Longrightarrow> sorted (map oStart hs)"
proof (induction o' v p pv hs rule: aligned.induct)
  case (2 o' v oc vc h hs)
  have "oStart h \<le> oStart h'" if "h' \<in> set hs" for h'
  proof -
    have "oEnd h < oStart h'" using "2.prems" that by simp
    then show ?thesis by simp
  qed
  then show ?case using "2.IH" [OF aligned_tail [OF "2.prems"]] by simp
qed simp

lemma event_key_start: "event_key x \<le> event_key y \<Longrightarrow> oStart x \<le> oStart y"
  by (auto simp: event_key_def split: side.splits)

lemma mergeEvents_sorted: "sorted (map oStart (mergeEvents lh rh))"
proof -
  have "sorted (map event_key (mergeEvents lh rh))"
    by (simp add: mergeEvents_def)
  then show ?thesis
    unfolding sorted_map by (rule sorted_wrt_mono_rel [rotated]) (rule event_key_start)
qed

lemma mergeEvents_hunks:
  assumes "sorted (map oStart lh)" "sorted (map oStart rh)"
  shows "hunks_of Local (mergeEvents lh rh) = lh" "hunks_of Remote (mergeEvents lh rh) = rh"
proof -
  have sorted: "sorted (map event_key (map (with_side s) hs))" if "sorted (map oStart hs)" for s hs
    using that unfolding sorted_map sorted_wrt_map
    by (rule sorted_wrt_mono_rel [rotated]) (simp add: event_key_def)
  have filt: "filter (\<lambda>e. hside e = s) (map (with_side s') hs) = (if s = s' then map (with_side s') hs else [])"
    for s s' hs by (induction hs) auto
  show "hunks_of Local (mergeEvents lh rh) = lh" "hunks_of Remote (mergeEvents lh rh) = rh"
    using sorted [OF assms(1), of Local] sorted [OF assms(2), of Remote]
    by (simp_all add: hunks_of_def mergeEvents_def filter_sort filt sort_key_id_if_sorted comp_def)
qed

text \<open>When hunks of different sides never touch, consecutive events are a line apart.\<close>

lemma aligned_apart: "aligned o' v p pv hs \<Longrightarrow> sorted_wrt (\<lambda>x y. oEnd x < oStart y) hs"
proof (induction o' v p pv hs rule: aligned.induct)
  case (2 o' v oc vc h hs)
  then show ?case using "2.IH" [OF aligned_tail [OF "2.prems"]] by simp
qed simp

lemma events_apart:
  assumes "sorted (map oStart evs)" "\<And>s. sorted_wrt (\<lambda>x y. oEnd x < oStart y) (hunks_of s evs)"
    and "\<And>l r. l \<in> set (hunks_of Local evs) \<Longrightarrow> r \<in> set (hunks_of Remote evs) \<Longrightarrow>
      oEnd l < oStart r \<or> oEnd r < oStart l"
  shows "sorted_wrt (\<lambda>x y. oEnd x < oStart y) evs"
  using assms
proof (induction evs)
  case (Cons e evs)
  have "oEnd e < oStart y" if y: "y \<in> set evs" for y
  proof (cases "hside y = hside e")
    case True
    then have "hunk.truncate y \<in> set (hunks_of (hside e) evs)" using y by (auto simp: hunks_of_def)
    then show ?thesis using Cons.prems(2) [of "hside e"] by fastforce
  next
    case False
    have mem: "hunk.truncate x \<in> set (hunks_of (hside x) (e # evs))" if "x \<in> set (e # evs)" for x
      using that by (auto simp: hunks_of_def)
    have "oEnd e < oStart y \<or> oEnd y < oStart e"
      using Cons.prems(3) [of "hunk.truncate e" "hunk.truncate y"] False y
        Cons.prems(3) [of "hunk.truncate y" "hunk.truncate e"] mem [of e] mem [of y]
      by (cases "hside e"; cases "hside y") auto
    moreover have "oStart e \<le> oStart y" using Cons.prems(1) y by simp
    ultimately show ?thesis by linarith
  qed
  moreover have "sorted_wrt (\<lambda>x y. oEnd x < oStart y) evs"
  proof (rule Cons.IH)
    show "sorted_wrt (\<lambda>x y. oEnd x < oStart y) (hunks_of s evs)" for s
      using Cons.prems(2) [of s] by (auto simp: sorted_wrt_append split: if_splits)
    show "oEnd l < oStart r \<or> oEnd r < oStart l"
      if "l \<in> set (hunks_of Local evs)" "r \<in> set (hunks_of Remote evs)" for l r
      using Cons.prems(3) [of l r] that by simp
  qed (use Cons.prems in simp)
  ultimately show ?case by simp
qed simp

lemma mergeEvents_separated:
  assumes "aligned o' v p pv lh" "aligned o'' v' p' pv' rh"
    and "\<And>l r. l \<in> set lh \<Longrightarrow> r \<in> set rh \<Longrightarrow> oEnd l < oStart r \<or> oEnd r < oStart l"
  shows "sorted_wrt (\<lambda>x y. oEnd x < oStart y) (mergeEvents lh rh)"
proof (rule events_apart [OF mergeEvents_sorted])
  note hs = mergeEvents_hunks [OF aligned_sorted [OF assms(1)] aligned_sorted [OF assms(2)]]
  show "sorted_wrt (\<lambda>x y. oEnd x < oStart y) (hunks_of s (mergeEvents lh rh))" for s
    using aligned_apart [OF assms(1)] aligned_apart [OF assms(2)] hs by (cases s) simp_all
  show "oEnd l < oStart r \<or> oEnd r < oStart l"
    if "l \<in> set (hunks_of Local (mergeEvents lh rh))" "r \<in> set (hunks_of Remote (mergeEvents lh rh))" for l r
    using assms(3) that hs by simp
qed

section \<open>Grouping\<close>

text \<open>
  What \<open>absorb\<close> takes off the sorted events: a prefix, which lies inside the region, and no later
  event starts within \<open>adjacency\<close> lines of the region's end.
\<close>

lemma absorb_prefix:
  assumes "absorb adj e S evs = (e', S', rest)"
  shows "\<exists>pre. evs = pre @ rest \<and> e \<le> e' \<and> S' = S \<union> hside ` set pre \<and>
    (\<forall>x \<in> set pre. oEnd x \<le> e') \<and> (e' = e \<or> (\<exists>x \<in> set pre. e' = oEnd x)) \<and>
    (adj \<le> 1 \<longrightarrow> (\<forall>l. e \<le> l \<and> l < e' \<longrightarrow> (\<exists>x \<in> set pre. oStart x \<le> l \<and> l < oEnd x)))"
  using assms
proof (induction adj e S evs rule: absorb.induct)
  case (2 adj e S nxt evs)
  show ?case
  proof (cases "int (oStart nxt) - int e \<ge> adj")
    case False
    with 2 obtain pre where pre: "evs = pre @ rest" "max e (oEnd nxt) \<le> e'"
      "S' = insert (hside nxt) S \<union> hside ` set pre" "\<forall>x \<in> set pre. oEnd x \<le> e'"
      "e' = max e (oEnd nxt) \<or> (\<exists>x \<in> set pre. e' = oEnd x)"
      "adj \<le> 1 \<longrightarrow> (\<forall>l. max e (oEnd nxt) \<le> l \<and> l < e' \<longrightarrow>
         (\<exists>x \<in> set pre. oStart x \<le> l \<and> l < oEnd x))" by auto
    have "\<exists>x \<in> set (nxt # pre). oStart x \<le> l \<and> l < oEnd x" if "adj \<le> 1" "e \<le> l" "l < e'" for l
      using pre(6) that False by (cases "l < oEnd nxt") auto
    then show ?thesis using pre by (intro exI [of _ "nxt # pre"]) (auto simp: max_def split: if_splits)
  qed (use "2.prems" in auto)
qed simp

lemma absorb_after:
  assumes "absorb adj e S evs = (e', S', rest)" "sorted (map oStart evs)" "x \<in> set rest"
  shows "int (oStart x) \<ge> int e' + adj"
  using assms
proof (induction adj e S evs rule: absorb.induct)
  case (2 adj e S nxt evs)
  show ?case
  proof (cases "int (oStart nxt) - int e \<ge> adj")
    case True
    then have "rest = nxt # evs" "e' = e" using "2.prems"(1) by auto
    then have "oStart nxt \<le> oStart x" using "2.prems"(2,3) by auto
    then show ?thesis using True \<open>e' = e\<close> by linarith
  qed (use 2 in auto)
qed simp

text \<open>The region's end is the least one that is closed under the grouping rule.\<close>

lemma absorb_least:
  assumes "absorb adj e S evs = (e', S', rest)" "e \<le> E"
    "\<forall>x \<in> set evs. int (oStart x) < int E + adj \<longrightarrow> oEnd x \<le> E"
  shows "e' \<le> E"
  using assms by (induction adj e S evs rule: absorb.induct) (auto split: if_splits)

text \<open>
  The region's end depends on the events only, not on their order among equal starts, and so do
  the sides it involves and the events it leaves.
\<close>

lemma absorb_near:
  "absorb adj e S evs = (e', S', rest) \<Longrightarrow> \<exists>pre. evs = pre @ rest \<and> (\<forall>x \<in> set pre. int (oStart x) < int e' + adj)"
proof (induction adj e S evs rule: absorb.induct)
  case (2 adj e S nxt evs)
  show ?case
  proof (cases "int (oStart nxt) - int e \<ge> adj")
    case False
    then have ab: "absorb adj (max e (oEnd nxt)) (insert (hside nxt) S) evs = (e', S', rest)"
      using "2.prems" by simp
    then obtain pre where "evs = pre @ rest" "\<forall>x \<in> set pre. int (oStart x) < int e' + adj"
      using "2.IH" False by blast
    moreover have "e \<le> e'" using absorb_prefix [OF ab] by auto
    ultimately show ?thesis using False by (intro exI [of _ "nxt # pre"]) auto
  qed (use "2.prems" in simp)
qed simp

lemma absorb_spec:
  assumes "absorb adj e S evs = (e', S', rest)" "sorted (map oStart evs)"
  shows "rest = filter (\<lambda>x. int (oStart x) \<ge> int e' + adj) evs"
    "S' = S \<union> hside ` {x \<in> set evs. int (oStart x) < int e' + adj}"
    "\<forall>x \<in> set evs. int (oStart x) < int e' + adj \<longrightarrow> oEnd x \<le> e'"
proof -
  obtain pre where pre: "evs = pre @ rest" "S' = S \<union> hside ` set pre" "\<forall>x \<in> set pre. oEnd x \<le> e'"
    using absorb_prefix [OF assms(1)] by auto
  have near: "\<forall>x \<in> set pre. int (oStart x) < int e' + adj"
    using absorb_near [OF assms(1)] pre(1) by auto
  have far: "\<forall>x \<in> set rest. \<not> int (oStart x) < int e' + adj"
    using absorb_after [OF assms] by force
  show "rest = filter (\<lambda>x. int (oStart x) \<ge> int e' + adj) evs"
    "S' = S \<union> hside ` {x \<in> set evs. int (oStart x) < int e' + adj}"
    "\<forall>x \<in> set evs. int (oStart x) < int e' + adj \<longrightarrow> oEnd x \<le> e'"
    using near far pre by (auto simp: not_less filter_empty_conv)
qed

lemma absorb_first:
  "adj \<ge> 1 \<Longrightarrow> absorb adj (oStart first) {} (first # rest) = absorb adj (oEnd first) {hside first} rest"
  by (simp add: max_def)

section \<open>Swapping the sides\<close>

fun flip :: "side \<Rightarrow> side" where
  "flip Local = Remote"
| "flip Remote = Local"

definition flip_event :: "sided_hunk \<Rightarrow> sided_hunk" where
  "flip_event e = e\<lparr>hside := flip (hside e)\<rparr>"

lemma flip_event_simps [simp]:
  "oStart (flip_event e) = oStart e" "oLength (flip_event e) = oLength e"
  "hside (flip_event e) = flip (hside e)" "flip_event (with_side s h) = with_side (flip s) h"
  by (simp_all add: flip_event_def with_side_def)

lemma absorb_flip:
  assumes one: "absorb adj e S evs = (e1, S1, r1)" and two: "absorb adj e (flip ` S) evs2 = (e2, S2, r2)"
    and sorted: "sorted (map oStart evs)" "sorted (map oStart evs2)"
    and perm: "mset evs2 = mset (map flip_event evs)"
  shows "e2 = e1 \<and> S2 = flip ` S1 \<and> mset r2 = mset (map flip_event r1)"
proof -
  have set2: "set evs2 = flip_event ` set evs" using perm by (metis set_map set_mset_mset)
  note spec = absorb_spec [OF one sorted(1)] absorb_spec [OF two sorted(2)]
  have le: "e \<le> e1" "e \<le> e2" using absorb_prefix [OF one] absorb_prefix [OF two] by auto
  have "e1 \<le> e2" using absorb_least [OF one le(2)] spec(6) set2 by auto
  moreover have "e2 \<le> e1" using absorb_least [OF two le(1)] spec(3) set2 by auto
  ultimately have e: "e2 = e1" by simp
  have "S2 = flip ` S1" unfolding spec(2,5) set2 e by force
  moreover have "mset r2 = mset (map flip_event r1)"
    unfolding spec(1,4) e using perm
    by (simp add: mset_filter filter_mset_image_mset comp_def)
  ultimately show ?thesis using e by blast
qed

lemma disjointWalk_swap: "disjointWalk rh lh b a e p = disjointWalk lh rh a b e p"
proof (induction "e - p" arbitrary: p rule: less_induct)
  case less
  have step: "disjointWalk rh lh b a e (oEnd own) = disjointWalk lh rh a b e (oEnd own)"
    if "p < e" "hunkCovering lh p = Some own \<or> hunkCovering rh p = Some own" for own
    using that hunkCovering_Some by (intro less) fastforce
  show ?case
    by (subst (1 2) disjointWalk.simps) (auto simp: step split: option.splits)
qed

lemma mergeDisjointRegion_swap: "mergeDisjointRegion rh lh b a q e = mergeDisjointRegion lh rh a b q e"
  by (auto simp: mergeDisjointRegion_def disjointWalk_swap)

section \<open>The specification of a three-way merge\<close>

text \<open>
  One region of a merge. The sides may differ from the ancestor \<open>c\<close> in three ways only: one side left
  it alone and the output has the lines of the other; both made the identical change; or the three
  texts correspond line by line and no line was changed by both sides (\<open>linewise\<close>), so that the
  output has the changed line wherever there is one. There is no rule for a contested region.
\<close>

inductive linewise :: "'a list \<Rightarrow> 'a list \<Rightarrow> 'a list \<Rightarrow> 'a list \<Rightarrow> bool" where
  linewise_Nil: "linewise [] [] [] []"
| linewise_local: "linewise c l r m \<Longrightarrow> linewise (x # c) (y # l) (x # r) (y # m)"
| linewise_remote: "linewise c l r m \<Longrightarrow> linewise (x # c) (x # l) (z # r) (z # m)"

inductive region_merge :: "'a list \<Rightarrow> 'a list \<Rightarrow> 'a list \<Rightarrow> 'a list \<Rightarrow> bool" where
  only_local: "region_merge c l c l"
| only_remote: "region_merge c c r r"
| same_change: "region_merge c l l l"
| disjoint_lines: "linewise c l r m \<Longrightarrow> region_merge c l r m"

text \<open>
  \<open>three_way o a b m\<close>: the three inputs and the output are the same number of merged regions, any two
  of them separated by a line \<open>s\<close> that the ancestor has, both sides kept and the output repeats. Two
  opposite changes with no such line between them lie in one region, so that a contested span
  cannot be merged by giving each side's lines a region of their own.
\<close>

inductive three_way :: "'a list \<Rightarrow> 'a list \<Rightarrow> 'a list \<Rightarrow> 'a list \<Rightarrow> bool" where
  last_region: "region_merge c l r m \<Longrightarrow> three_way c l r m"
| then_kept: "region_merge c l r m \<Longrightarrow> three_way o' a b m' \<Longrightarrow>
    three_way (c @ s # o') (l @ s # a) (r @ s # b) (m @ s # m')"

inductive_cases linewise_SingleE: "linewise [x] l r m"

lemma linewise_append:
  "linewise c l r m \<Longrightarrow> linewise c2 l2 r2 m2 \<Longrightarrow> linewise (c @ c2) (l @ l2) (r @ r2) (m @ m2)"
  by (induction rule: linewise.induct) (auto intro: linewise.intros)

lemma linewise_one_side:
  "length c = length l \<Longrightarrow> linewise c l c l" "length c = length l \<Longrightarrow> linewise c c l l"
  by (induction c l rule: list_induct2) (auto intro: linewise.intros)

text \<open>
  \<open>kept o a b m\<close>: what may follow a region, that is nothing or a kept line and a merge after it.
\<close>

definition kept :: "'a list \<Rightarrow> 'a list \<Rightarrow> 'a list \<Rightarrow> 'a list \<Rightarrow> bool" where
  "kept o' a b m \<longleftrightarrow> o' = [] \<and> a = [] \<and> b = [] \<and> m = [] \<or>
     (\<exists>s o2 a2 b2 m2. o' = s # o2 \<and> a = s # a2 \<and> b = s # b2 \<and> m = s # m2 \<and> three_way o2 a2 b2 m2)"

lemma region_then_kept:
  "region_merge c l r m \<Longrightarrow> kept o' a b m' \<Longrightarrow> three_way (c @ o') (l @ a) (r @ b) (m @ m')"
  by (auto simp: kept_def intro: three_way.intros)

lemma three_way_gap: "three_way o' a b m \<Longrightarrow> three_way (g @ o') (g @ a) (g @ b) (g @ m)"
proof (induction g)
  case (Cons x g)
  then show ?case using then_kept [OF only_local [of "[]" "[]"]] by fastforce
qed simp

lemma kept_gap: "three_way o' a b m \<Longrightarrow> g \<noteq> [] \<Longrightarrow> kept (g @ o') (g @ a) (g @ b) (g @ m)"
  by (cases g) (auto simp: kept_def intro: three_way_gap)

lemma kept_same: "kept g g g g"
  using three_way_gap [OF last_region [OF only_local [of "[]" "[]"]]]
  by (cases g) (auto simp: kept_def)

text \<open>No line a side added is lost, and no line is invented, counted with multiplicity.\<close>

lemma linewise_counts:
  "linewise o' a b m \<Longrightarrow>
   count (mset a) x \<le> count (mset o') x + count (mset m) x \<and>
   count (mset b) x \<le> count (mset o') x + count (mset m) x \<and>
   count (mset m) x \<le> count (mset a) x + count (mset b) x"
  by (induction rule: linewise.induct) auto

lemma region_counts:
  "region_merge o' a b m \<Longrightarrow>
   count (mset a) x \<le> count (mset o') x + count (mset m) x \<and>
   count (mset b) x \<le> count (mset o') x + count (mset m) x \<and>
   count (mset m) x \<le> count (mset a) x + count (mset b) x"
  by (induction rule: region_merge.induct) (auto dest: linewise_counts [of _ _ _ _ x])

lemma three_way_counts:
  "three_way o' a b m \<Longrightarrow>
   count (mset a) x \<le> count (mset o') x + count (mset m) x \<and>
   count (mset b) x \<le> count (mset o') x + count (mset m) x \<and>
   count (mset m) x \<le> count (mset a) x + count (mset b) x"
proof (induction rule: three_way.induct)
  case (then_kept c l r m o' a b m' s)
  then show ?case using region_counts [OF then_kept.hyps(1), of x] by auto
qed (rule region_counts)

lemma three_way_keeps:
  "three_way o' a b m \<Longrightarrow> mset a - mset o' \<subseteq># mset m \<and> mset b - mset o' \<subseteq># mset m"
  using three_way_counts [of o' a b m] by (auto simp: subseteq_mset_def le_diff_conv add.commute)

lemma three_way_invents_nothing: "three_way o' a b m \<Longrightarrow> mset m \<subseteq># mset a + mset b"
  using three_way_counts [of o' a b m] by (auto simp: subseteq_mset_def)

text \<open>
  A span that shares no kept line is one region; a line both sides rewrote differently has no merge
  at all, whatever the output: not the local line, not the remote one, not both.
\<close>

lemma three_way_no_kept_line:
  "three_way o' a b m \<Longrightarrow> set o' \<inter> set a \<inter> set b = {} \<Longrightarrow> region_merge o' a b m"
  by (induction rule: three_way.induct) auto

lemma contested_line_has_no_merge:
  assumes "x \<noteq> y" "x \<noteq> z" "y \<noteq> z"
  shows "\<not> three_way [x] [y] [z] m"
proof
  assume "three_way [x] [y] [z] m"
  then have "region_merge [x] [y] [z] m"
    using assms by (intro three_way_no_kept_line) auto
  then show False
    using assms by (cases rule: region_merge.cases) (auto elim: linewise_SingleE)
qed

section \<open>The walk returns\<close>

lemma linesEqual_iff: "linesEqual x y \<longleftrightarrow> x = y"
  unfolding linesEqual_def list_eq_iff_nth_eq [of x y] by (auto simp: list_all_iff)

lemma disjointWalk_total:
  assumes "\<forall>l. p \<le> l \<and> l < e \<longrightarrow> hunkCovering lh l \<noteq> None \<or> hunkCovering rh l \<noteq> None"
  shows "\<exists>r. disjointWalk lh rh a b e p = Inr r"
  using assms
proof (induction "e - p" arbitrary: p rule: less_induct)
  case less
  show ?case
  proof (cases "p < e")
    case True
    have next_line: "\<exists>r. disjointWalk lh rh a b e (oEnd own) = Inr r"
      if "hunkCovering lh p = Some own \<or> hunkCovering rh p = Some own" for own
    proof -
      have "p < oEnd own" using that hunkCovering_Some by blast
      then have "e - oEnd own < e - p" using True by simp
      moreover have "\<forall>l. oEnd own \<le> l \<and> l < e \<longrightarrow> hunkCovering lh l \<noteq> None \<or> hunkCovering rh l \<noteq> None"
        using less.prems \<open>p < oEnd own\<close> by (meson le_trans less_imp_le)
      ultimately show ?thesis by (rule less.hyps)
    qed
    then show ?thesis using less.prems [rule_format, of p] True next_line
      by (cases "hunkCovering lh p"; cases "hunkCovering rh p")
        (auto simp: disjointWalk.simps [of lh rh a b e p])
  qed (simp add: disjointWalk.simps [of lh])
qed

section \<open>Two diffs of one ancestor\<close>

locale merge_inputs = lo: line_diff ancestor a lh + re: line_diff ancestor b rh
  for ancestor a b :: "'a list" and lh rh :: "hunk list"
begin

text \<open>
  The loop's state: the cursors into the ancestor and both variants, and the events that remain.
\<close>

definition loop_inv :: "nat \<Rightarrow> nat \<Rightarrow> nat \<Rightarrow> sided_hunk list \<Rightarrow> bool" where
  "loop_inv p pa pb evs \<longleftrightarrow> sorted (map oStart evs) \<and>
     (\<exists>lp rp. lo.at_cut p pa lp (hunks_of Local evs) \<and> re.at_cut p pb rp (hunks_of Remote evs) \<and>
        (\<forall>h \<in> set (lp @ rp). \<forall>e \<in> set evs. oEnd h < oStart e))"

lemma loop_inv_start: "loop_inv 0 0 0 (mergeEvents lh rh)"
  unfolding loop_inv_def
  using lo.at_cut_start re.at_cut_start mergeEvents_sorted
    mergeEvents_hunks [OF aligned_sorted [OF lo.hunks_aligned] aligned_sorted [OF re.hunks_aligned]]
  by (intro conjI exI [of _ "[]"]) auto

lemma loop_inv_end:
  assumes "loop_inv p pa pb []"
  shows "range_of p (length ancestor) ancestor = drop pa a"
    "range_of p (length ancestor) ancestor = drop pb b"
  using assms by (auto simp: loop_inv_def lo.at_cut_def re.at_cut_def)

text \<open>An event that remains lies behind the cursor and inside the ancestor.\<close>

lemma loop_inv_event:
  assumes "loop_inv p pa pb evs" "e \<in> set evs"
  shows "p \<le> oStart e" "oEnd e \<le> length ancestor"
proof -
  have "hunk.truncate e \<in> set (hunks_of (hside e) evs)" using assms(2) by (auto simp: hunks_of_def)
  moreover obtain v pv where "aligned ancestor v p pv (hunks_of (hside e) evs)"
    using assms(1) by (cases "hside e") (auto simp: loop_inv_def lo.at_cut_def re.at_cut_def)
  ultimately have "p \<le> oStart (hunk.truncate e) \<and> oEnd (hunk.truncate e) \<le> length ancestor"
    using aligned_hunk by blast
  then show "p \<le> oStart e" "oEnd e \<le> length ancestor" by simp_all
qed

text \<open>
  The hunks of one region: \<open>lx\<close> and \<open>rx\<close> lie inside it, everything later behind it.
\<close>

lemma region_cut:
  assumes inv: "loop_inv p pa pb (first # rest)" and adj: "adj \<ge> 1"
    and absorb: "absorb adj (oEnd first) {hside first} rest = (e, S, rest')"
  obtains lp lx rp rx where
    "lo.at_cut p pa lp (lx @ hunks_of Local rest')" "re.at_cut p pb rp (rx @ hunks_of Remote rest')"
    "p \<le> oStart first" "oStart first \<le> e" "e \<le> length ancestor"
    "\<forall>h \<in> set (lx @ rx). oStart first \<le> oStart h \<and> oEnd h \<le> e"
    "\<And>s. \<forall>h \<in> set (hunks_of s rest'). e < oStart h"
    "\<forall>h \<in> set (lp @ rp). oStart h < oStart first"
    "Local \<notin> S \<Longrightarrow> lx = []" "Remote \<notin> S \<Longrightarrow> rx = []"
    "\<And>ea eb. lo.at_cut e ea (lp @ lx) (hunks_of Local rest') \<Longrightarrow>
       re.at_cut e eb (rp @ rx) (hunks_of Remote rest') \<Longrightarrow> loop_inv e ea eb rest'"
    "\<And>l. adj = 1 \<Longrightarrow> oStart first \<le> l \<Longrightarrow> l < e \<Longrightarrow> \<exists>h \<in> set (lx @ rx). oStart h \<le> l \<and> l < oEnd h"
proof -
  let ?q = "oStart first"
  from absorb_prefix [OF absorb] obtain pre where pre: "rest = pre @ rest'" "oEnd first \<le> e"
    "S = hside ` set (first # pre)" "\<forall>x \<in> set (first # pre). oEnd x \<le> e"
    "\<exists>x \<in> set (first # pre). e = oEnd x" and cover: "adj = 1 \<Longrightarrow>
       (\<forall>l. oEnd first \<le> l \<and> l < e \<longrightarrow> (\<exists>x \<in> set pre. oStart x \<le> l \<and> l < oEnd x))" by auto
  let ?lx = "hunks_of Local (first # pre)" and ?rx = "hunks_of Remote (first # pre)"
  obtain lp rp where cuts: "lo.at_cut p pa lp (?lx @ hunks_of Local rest')"
      "re.at_cut p pb rp (?rx @ hunks_of Remote rest')"
    and past: "\<forall>h \<in> set (lp @ rp). \<forall>x \<in> set (first # rest). oEnd h < oStart x"
    using inv pre(1) by (auto simp: loop_inv_def)
  have sorted: "sorted (map oStart (first # rest))" using inv by (simp add: loop_inv_def)
  have after: "\<forall>x \<in> set rest'. e < oStart x"
  proof
    fix x assume "x \<in> set rest'"
    then have "int (oStart x) \<ge> int e + adj" using absorb_after [OF absorb] sorted by simp
    then show "e < oStart x" using adj by linarith
  qed
  have le: "p \<le> ?q" "?q \<le> e" "e \<le> length ancestor"
    using loop_inv_event [OF inv, of first] loop_inv_event(2) [OF inv] pre(1,2,5)
    by (simp, simp add: add_leD1, fastforce)
  have region: "\<forall>h \<in> set (?lx @ ?rx). ?q \<le> oStart h \<and> oEnd h \<le> e"
    using sorted pre(1,4) by (auto dest!: set_hunks_of)
  have after': "\<forall>h \<in> set (hunks_of s rest'). e < oStart h" for s
    using after by (auto dest!: set_hunks_of)
  have past_lt: "\<forall>h \<in> set (lp @ rp). oStart h < ?q"
    using past by (auto intro: add_lessD1)
  have step: "loop_inv e ea eb rest'" if "lo.at_cut e ea (lp @ ?lx) (hunks_of Local rest')"
    "re.at_cut e eb (rp @ ?rx) (hunks_of Remote rest')" for ea eb
  proof -
    have "oEnd h < oStart x" if h: "h \<in> set ((lp @ ?lx) @ (rp @ ?rx))" and x: "x \<in> set rest'" for h x
    proof -
      consider "h \<in> set (lp @ rp)" | "h \<in> set (?lx @ ?rx)" using h unfolding set_append by blast
      then show ?thesis
      proof cases
        case 2
        then show ?thesis using region after x by (meson le_less_trans)
      qed (use past pre(1) x in simp)
    qed
    moreover have "sorted (map oStart rest')" using sorted pre(1) by (simp add: sorted_append)
    ultimately show ?thesis unfolding loop_inv_def using that by blast
  qed
  have none: "s \<notin> S \<Longrightarrow> hunks_of s (first # pre) = []" for s
    using pre(3) hunks_of_empty by blast
  have covered: "\<exists>h \<in> set (?lx @ ?rx). oStart h \<le> l \<and> l < oEnd h" if adj1: "adj = 1" and l: "?q \<le> l" "l < e" for l
  proof -
    obtain x where x: "x \<in> set (first # pre)" "oStart x \<le> l" "l < oEnd x"
      using cover [OF adj1, rule_format, of l] l by (cases "l < oEnd first") force+
    then have "hunk.truncate x \<in> set (?lx @ ?rx)" by (cases "hside x") (auto simp: hunks_of_def)
    then show ?thesis using x by (intro bexI [of _ "hunk.truncate x"]) simp_all
  qed
  show thesis
    by (rule that [OF cuts le region after' past_lt none none step covered])
qed

text \<open>What one round of the loop consumes.\<close>

lemma region_step:
  assumes "loop_inv p pa pb (first # rest)" "adj \<ge> 1"
    and "absorb adj (oEnd first) {hside first} rest = (e, S, rest')"
  obtains ea eb where "loop_inv e ea eb rest'"
    "p \<le> oStart first" "oStart first \<le> e" "e \<le> length ancestor"
    "pa + (oStart first - p) \<le> ea" "ea \<le> length a" "pb + (oStart first - p) \<le> eb" "eb \<le> length b"
    "range_of p (oStart first) ancestor = range_of pa (pa + (oStart first - p)) a"
    "range_of p (oStart first) ancestor = range_of pb (pb + (oStart first - p)) b"
    "segmentFor lh a (oStart first) e = range_of (pa + (oStart first - p)) ea a"
    "segmentFor rh b (oStart first) e = range_of (pb + (oStart first - p)) eb b"
    "Local \<notin> S \<Longrightarrow> segmentFor lh a (oStart first) e = range_of (oStart first) e ancestor"
    "Remote \<notin> S \<Longrightarrow> segmentFor rh b (oStart first) e = range_of (oStart first) e ancestor"
proof -
  let ?q = "oStart first"
  obtain lp lx rp rx where
    cuts: "lo.at_cut p pa lp (lx @ hunks_of Local rest')" "re.at_cut p pb rp (rx @ hunks_of Remote rest')"
    and le: "p \<le> ?q" "?q \<le> e" "e \<le> length ancestor"
    and region: "\<forall>h \<in> set (lx @ rx). ?q \<le> oStart h \<and> oEnd h \<le> e"
    and after: "\<And>s. \<forall>h \<in> set (hunks_of s rest'). e < oStart h"
    and past: "\<forall>h \<in> set (lp @ rp). oStart h < ?q"
    and none: "Local \<notin> S \<Longrightarrow> lx = []" "Remote \<notin> S \<Longrightarrow> rx = []"
    and step: "\<And>ea eb. lo.at_cut e ea (lp @ lx) (hunks_of Local rest') \<Longrightarrow>
       re.at_cut e eb (rp @ rx) (hunks_of Remote rest') \<Longrightarrow> loop_inv e ea eb rest'"
    by (rule region_cut [OF assms that])
  have lxr: "\<forall>h \<in> set lx. ?q \<le> oStart h \<and> oEnd h \<le> e" "\<forall>h \<in> set rx. ?q \<le> oStart h \<and> oEnd h \<le> e"
    "\<forall>h \<in> set lp. oStart h < ?q" "\<forall>h \<in> set rp. oStart h < ?q" using region past by auto
  from lo.region_segment [OF cuts(1) le lxr(1) after lxr(3)] obtain ea where
    ea: "pa + (?q - p) \<le> ea" "ea \<le> length a" "lo.at_cut e ea (lp @ lx) (hunks_of Local rest')"
      "segmentFor lh a ?q e = range_of (pa + (?q - p)) ea a"
      "range_of p ?q ancestor = range_of pa (pa + (?q - p)) a"
      "lx = [] \<Longrightarrow> segmentFor lh a ?q e = range_of ?q e ancestor" by blast
  from re.region_segment [OF cuts(2) le lxr(2) after lxr(4)] obtain eb where
    eb: "pb + (?q - p) \<le> eb" "eb \<le> length b" "re.at_cut e eb (rp @ rx) (hunks_of Remote rest')"
      "segmentFor rh b ?q e = range_of (pb + (?q - p)) eb b"
      "range_of p ?q ancestor = range_of pb (pb + (?q - p)) b"
      "rx = [] \<Longrightarrow> segmentFor rh b ?q e = range_of ?q e ancestor" by blast
  show thesis
    by (rule that [OF step [OF ea(3) eb(3)] le ea(1,2) eb(1,2) ea(5) eb(5) ea(4) eb(4)
          ea(6) [OF none(1)] eb(6) [OF none(2)]])
qed

section \<open>Regions both sides touch\<close>

lemma swapped: "merge_inputs ancestor b a rh lh"
  by unfold_locales

text \<open>The walk stands on a line the local side covers: it steps over that hunk on both sides.\<close>

lemma own_step:
  assumes cutL: "lo.at_cut p pa lp (lx @ ly)" and cutR: "re.at_cut p pb rp (rx @ ry)"
    and inside: "\<forall>h \<in> set (lx @ rx). oLength h > 0 \<and> oEnd h \<le> e"
    and behind: "\<forall>h \<in> set (ly @ ry). e < oStart h" and le: "p < e" "e \<le> length ancestor"
    and own: "hunkCovering lh p = Some own"
    and opp: "\<not> regionHasOppositeChange rh (oStart own) (oEnd own)"
  obtains lx' where "lx = own # lx'" "oEnd own \<le> e" "p < oEnd own" "oStart own = p"
    "lo.at_cut (oEnd own) (pa + abLength own) (lp @ [own]) (lx' @ ly)"
    "re.at_cut (oEnd own) (pb + (oEnd own - p)) rp (rx @ ry)"
    "hunk_lines own a p = range_of pa (pa + abLength own) a"
    "range_of p (oEnd own) ancestor = range_of pb (pb + (oEnd own - p)) b"
proof -
  obtain todo where h: "lx @ ly = own # todo" "oStart own = p"
    "lo.at_cut (oEnd own) (pa + abLength own) (lp @ [own]) todo"
    "hunk_lines own a p = range_of pa (pa + abLength own) a"
    by (rule lo.cover_step [OF cutL own])
  obtain lx' where lx: "lx = own # lx'" "todo = lx' @ ly"
    using h(1,2) behind le by (cases lx) auto
  have e: "oEnd own \<le> e" "p < oEnd own" using inside lx h(2) by auto
  have behind': "\<forall>h \<in> set ry. oEnd own \<le> oStart h" using behind e(1) by (auto dest!: bspec)
  have opp': "\<not> regionHasOppositeChange rh p (oEnd own)" using opp h(2) by metis
  have "re.at_cut (oEnd own) (pb + (oEnd own - p)) rp (rx @ ry)"
    "range_of p (oEnd own) ancestor = range_of pb (pb + (oEnd own - p)) b"
    using re.opposite_step [OF cutR _ _ opp'] inside behind' le e by auto
  then show thesis using that lx e h(2-4) by blast
qed

text \<open>
  The walk over disjoint lines consumes the region of all three inputs piece by piece.
\<close>

lemma disjointWalk_linewise:
  assumes "disjointWalk lh rh a b e p = Inr (Some ls)" "p \<le> e" "e \<le> length ancestor"
    and "lo.at_cut p pa lp (lx @ ly)" "re.at_cut p pb rp (rx @ ry)"
    and "\<forall>h \<in> set (lx @ rx). oLength h > 0 \<and> oEnd h \<le> e" "\<forall>h \<in> set (ly @ ry). e < oStart h"
    and "\<forall>h \<in> set (lx @ rx). abLength h = oLength h"
  shows "\<exists>ea eb. lo.at_cut e ea (lp @ lx) ly \<and> re.at_cut e eb (rp @ rx) ry \<and> pa \<le> ea \<and> pb \<le> eb \<and>
    linewise (range_of p e ancestor) (range_of pa ea a) (range_of pb eb b) ls"
  using assms
proof (induction "e - p" arbitrary: p pa pb lp lx rp rx ls rule: less_induct)
  case less
  note cuts = less.prems(4,5) and inside = less.prems(6) and behind = less.prems(7) and even = less.prems(8)
  show ?case
  proof (cases "p < e")
    case False
    have "h \<notin> set (lx @ rx)" for h
      using lo.at_cut_todo [OF cuts(1), of h] re.at_cut_todo [OF cuts(2), of h] inside False by fastforce
    then have "lx = []" "rx = []" by (metis list.set_intros(1) neq_Nil_conv set_append Un_iff)+
    then show ?thesis using False less.prems
      by (intro exI [of _ pa] exI [of _ pb]) (auto simp: disjointWalk.simps [of lh] linewise_Nil)
  next
    case True
    note walk = less.prems(1) [unfolded disjointWalk.simps [of lh rh a b e p]]
    consider own where "hunkCovering lh p = Some own" "hunkCovering rh p = None"
      | own where "hunkCovering lh p = None" "hunkCovering rh p = Some own"
      using walk True by (auto split: option.splits)
    then show ?thesis
    proof cases
      case 1
      obtain ls' where ls: "disjointWalk lh rh a b e (oEnd own) = Inr (Some ls')"
        "ls = hunk_lines own a p @ ls'" "\<not> regionHasOppositeChange rh (oStart own) (oEnd own)"
        using walk True 1 by (auto simp: result_simps split: if_splits)
      obtain lx' where own: "lx = own # lx'" "oEnd own \<le> e" "p < oEnd own" "oStart own = p"
        "lo.at_cut (oEnd own) (pa + abLength own) (lp @ [own]) (lx' @ ly)"
        "re.at_cut (oEnd own) (pb + (oEnd own - p)) rp (rx @ ry)"
        "hunk_lines own a p = range_of pa (pa + abLength own) a"
        "range_of p (oEnd own) ancestor = range_of pb (pb + (oEnd own - p)) b"
        by (rule own_step [OF cuts inside behind True less.prems(3) 1(1) ls(3)])
      have dec: "e - oEnd own < e - p" using own(3) True by simp
      from less.hyps [OF dec ls(1) own(2) less.prems(3) own(5,6) _ behind] own(1) inside even
      obtain ea eb where IH: "lo.at_cut e ea (lp @ lx) ly" "re.at_cut e eb (rp @ rx) ry"
          "pa + abLength own \<le> ea" "pb + (oEnd own - p) \<le> eb"
          "linewise (range_of (oEnd own) e ancestor) (range_of (pa + abLength own) ea a)
            (range_of (pb + (oEnd own - p)) eb b) ls'" by auto
      have parts: "range_of p e ancestor = range_of p (oEnd own) ancestor @ range_of (oEnd own) e ancestor"
        "range_of pa ea a = range_of pa (pa + abLength own) a @ range_of (pa + abLength own) ea a"
        "range_of pb eb b = range_of pb (pb + (oEnd own - p)) b @ range_of (pb + (oEnd own - p)) eb b"
        using own(2,3) IH(3,4) by (simp_all only: range_of_append less_imp_le le_add1)
      have "pa + abLength own \<le> length a" using IH(1,3) lo.at_cut_bounds by (meson le_trans)
      then have len: "length (range_of p (oEnd own) ancestor) = length (range_of pa (pa + abLength own) a)"
        using own(1,2,4) even less.prems(3) by simp
      have "linewise (range_of p e ancestor) (range_of pa ea a) (range_of pb eb b) ls"
        unfolding parts own(8) [symmetric] ls(2) own(7) by (rule linewise_append [OF linewise_one_side(1) [OF len] IH(5)])
      then show ?thesis using IH by (metis add_leD1)
    next
      case 2
      obtain ls' where ls: "disjointWalk lh rh a b e (oEnd own) = Inr (Some ls')"
        "ls = hunk_lines own b p @ ls'" "\<not> regionHasOppositeChange lh (oStart own) (oEnd own)"
        using walk True 2 by (auto simp: result_simps split: if_splits)
      have sw: "\<forall>h \<in> set (rx @ lx). oLength h > 0 \<and> oEnd h \<le> e" "\<forall>h \<in> set (ry @ ly). e < oStart h"
        using inside behind by auto
      obtain rx' where own: "rx = own # rx'" "oEnd own \<le> e" "p < oEnd own" "oStart own = p"
        "re.at_cut (oEnd own) (pb + abLength own) (rp @ [own]) (rx' @ ry)"
        "lo.at_cut (oEnd own) (pa + (oEnd own - p)) lp (lx @ ly)"
        "hunk_lines own b p = range_of pb (pb + abLength own) b"
        "range_of p (oEnd own) ancestor = range_of pa (pa + (oEnd own - p)) a"
        by (rule merge_inputs.own_step [OF swapped cuts(2,1) sw True less.prems(3) 2(2) ls(3)])
      have dec: "e - oEnd own < e - p" using own(3) True by simp
      from less.hyps [OF dec ls(1) own(2) less.prems(3) own(6,5) _ behind] own(1) inside even
      obtain ea eb where IH: "lo.at_cut e ea (lp @ lx) ly" "re.at_cut e eb (rp @ rx) ry"
          "pa + (oEnd own - p) \<le> ea" "pb + abLength own \<le> eb"
          "linewise (range_of (oEnd own) e ancestor) (range_of (pa + (oEnd own - p)) ea a)
            (range_of (pb + abLength own) eb b) ls'" by auto
      have parts: "range_of p e ancestor = range_of p (oEnd own) ancestor @ range_of (oEnd own) e ancestor"
        "range_of pb eb b = range_of pb (pb + abLength own) b @ range_of (pb + abLength own) eb b"
        "range_of pa ea a = range_of pa (pa + (oEnd own - p)) a @ range_of (pa + (oEnd own - p)) ea a"
        using own(2,3) IH(3,4) by (simp_all only: range_of_append less_imp_le le_add1)
      have "pb + abLength own \<le> length b" using IH(2,4) re.at_cut_bounds by (meson le_trans)
      then have len: "length (range_of p (oEnd own) ancestor) = length (range_of pb (pb + abLength own) b)"
        using own(1,2,4) even less.prems(3) by simp
      have "linewise (range_of p e ancestor) (range_of pa ea a) (range_of pb eb b) ls"
        unfolding parts own(8) [symmetric] ls(2) own(7) by (rule linewise_append [OF linewise_one_side(2) [OF len] IH(5)])
      then show ?thesis using IH by (metis add_leD1)
    qed
  qed
qed

lemma mergeDisjointRegion_linewise:
  assumes inv: "loop_inv p pa pb (first # rest)" and adj: "adj \<ge> 1"
    and absorb: "absorb adj (oEnd first) {hside first} rest = (e, S, rest')"
    and merge: "mergeDisjointRegion lh rh a b (oStart first) e = Inr (Some ls)"
  shows "linewise (range_of (oStart first) e ancestor) (segmentFor lh a (oStart first) e)
    (segmentFor rh b (oStart first) e) ls"
proof -
  let ?q = "oStart first"
  obtain lp lx rp rx where
    cuts: "lo.at_cut p pa lp (lx @ hunks_of Local rest')" "re.at_cut p pb rp (rx @ hunks_of Remote rest')"
    and le: "p \<le> ?q" "?q \<le> e" "e \<le> length ancestor"
    and region: "\<forall>h \<in> set (lx @ rx). ?q \<le> oStart h \<and> oEnd h \<le> e"
    and after: "\<And>s. \<forall>h \<in> set (hunks_of s rest'). e < oStart h"
    and past: "\<forall>h \<in> set (lp @ rp). oStart h < ?q"
    by (rule region_cut [OF inv adj absorb that])
  have lxr: "\<forall>h \<in> set lx. ?q \<le> oStart h \<and> oEnd h \<le> e" "\<forall>h \<in> set rx. ?q \<le> oStart h \<and> oEnd h \<le> e"
    "\<forall>h \<in> set lp. oStart h < ?q" "\<forall>h \<in> set rp. oStart h < ?q" using region past by auto
  from lo.region_segment [OF cuts(1) le lxr(1) after lxr(3)] obtain ea where
    ea: "lo.at_cut e ea (lp @ lx) (hunks_of Local rest')"
      "segmentFor lh a ?q e = range_of (pa + (?q - p)) ea a" by blast
  from re.region_segment [OF cuts(2) le lxr(2) after lxr(4)] obtain eb where
    eb: "re.at_cut e eb (rp @ rx) (hunks_of Remote rest')"
      "segmentFor rh b ?q e = range_of (pb + (?q - p)) eb b" by blast
  have ins: "insertionsIn lh ?q e = []" "insertionsIn rh ?q e = []"
    and bal: "balanced ?q e lh" "balanced ?q e rh"
    and walk: "disjointWalk lh rh a b e ?q = Inr (Some ls)"
    using merge by (auto simp: mergeDisjointRegion_def split: if_splits)
  have "set lx \<subseteq> set lh" "set rx \<subseteq> set rh"
    using cuts by (auto simp: lo.at_cut_def re.at_cut_def)
  then have inside: "\<forall>h \<in> set (lx @ rx). oLength h > 0 \<and> oEnd h \<le> e"
    using ins region by (fastforce simp: insertionsIn_def filter_empty_conv)
  then have even: "\<forall>h \<in> set (lx @ rx). abLength h = oLength h"
    using bal region \<open>set lx \<subseteq> set lh\<close> \<open>set rx \<subseteq> set rh\<close>
    by (fastforce simp: balanced_def list_all_iff inRegion_def)
  have starts: "\<forall>h \<in> set (lx @ hunks_of Local rest'). ?q \<le> oStart h"
    "\<forall>h \<in> set (rx @ hunks_of Remote rest'). ?q \<le> oStart h"
    using lxr(1,2) after [of Local] after [of Remote] le(2) by (auto dest!: bspec)
  have len: "?q \<le> length ancestor" using le by simp
  have after': "\<forall>h \<in> set (hunks_of Local rest' @ hunks_of Remote rest'). e < oStart h"
    using after [of Local] after [of Remote] by auto
  from disjointWalk_linewise [OF walk le(2,3) lo.skip_step(1) [OF cuts(1) le(1) len starts(1)]
      re.skip_step(1) [OF cuts(2) le(1) len starts(2)] inside after' even]
  obtain ea' eb' where "lo.at_cut e ea' (lp @ lx) (hunks_of Local rest')"
    "re.at_cut e eb' (rp @ rx) (hunks_of Remote rest')"
    "linewise (range_of ?q e ancestor) (range_of (pa + (?q - p)) ea' a) (range_of (pb + (?q - p)) eb' b) ls"
    by blast
  then show ?thesis
    using ea eb lo.at_cut_unique [OF ea(1)] re.at_cut_unique [OF eb(1)] by metis
qed

lemma mergeRegion_merges:
  assumes round: "loop_inv p pa pb (first # rest)" "adj \<ge> 1"
      "absorb adj (oEnd first) {hside first} rest = (e, S, rest')"
    and merge: "mergeRegion ancestor a b lh rh S (oStart first) e = Inr (Some ls)"
  shows "region_merge (range_of (oStart first) e ancestor) (segmentFor lh a (oStart first) e)
    (segmentFor rh b (oStart first) e) ls"
proof -
  let ?q = "oStart first"
  obtain ea eb where "e \<le> length ancestor"
    "Local \<notin> S \<Longrightarrow> segmentFor lh a ?q e = range_of ?q e ancestor"
    "Remote \<notin> S \<Longrightarrow> segmentFor rh b ?q e = range_of ?q e ancestor"
    by (rule region_step [OF round that])
  then show ?thesis
    using merge mergeDisjointRegion_linewise [OF round, of ls] region_merge.intros
    by (auto simp: mergeRegion_def Let_def js_slice_range linesEqual_iff split: if_splits)
qed

section \<open>The loop\<close>

text \<open>
  A region that merges advances the loop; the events behind it start after at least one kept line.
\<close>

lemma mergeLoop_three_way:
  assumes "loop_inv p pa pb evs" "adj \<ge> 1"
    and "mergeLoop ancestor a b lh rh adj p evs merged = Inr (Some m)"
  shows "\<exists>m'. m = merged @ m' \<and> three_way (drop p ancestor) (drop pa a) (drop pb b) m' \<and>
    ((\<forall>x \<in> set evs. p < oStart x) \<longrightarrow> kept (drop p ancestor) (drop pa a) (drop pb b) m')"
  using assms(1,3)
proof (induction "length evs" arbitrary: p pa pb evs merged rule: less_induct)
  case less
  show ?case
  proof (cases evs)
    case Nil
    then have "drop p ancestor = drop pa a" "drop p ancestor = drop pb b"
      "m = merged @ drop p ancestor"
      using loop_inv_end [of p pa pb] less.prems by simp_all
    then show ?thesis
      using kept_same last_region [OF only_local] by metis
  next
    case (Cons first rest)
    obtain e S rest' where ab: "absorb adj (oEnd first) {hside first} rest = (e, S, rest')"
      using prod_cases3 by blast
    let ?q = "oStart first"
    note round = less.prems(1) [unfolded Cons] assms(2) ab
    obtain ls where ls: "mergeRegion ancestor a b lh rh S ?q e = Inr (Some ls)"
      "mergeLoop ancestor a b lh rh adj e rest' (merged @ range_of p ?q ancestor @ ls) = Inr (Some m)"
      using less.prems(2) by (auto simp: Cons ab result_simps split: option.splits)
    note piece = mergeRegion_merges [OF round ls(1)]
    obtain ea eb where st: "loop_inv e ea eb rest'" "p \<le> ?q" "?q \<le> e" "e \<le> length ancestor"
      "pa + (?q - p) \<le> ea" "ea \<le> length a" "pb + (?q - p) \<le> eb" "eb \<le> length b"
      "range_of p ?q ancestor = range_of pa (pa + (?q - p)) a"
      "range_of p ?q ancestor = range_of pb (pb + (?q - p)) b"
      "segmentFor lh a ?q e = range_of (pa + (?q - p)) ea a"
      "segmentFor rh b ?q e = range_of (pb + (?q - p)) eb b"
      by (rule region_step [OF round that])
    have "\<forall>x \<in> set rest'. e < oStart x"
      using absorb_after [OF ab] less.prems(1) assms(2) by (fastforce simp: Cons loop_inv_def)
    moreover have "length rest' < length evs" using absorb_shorter [OF ab [symmetric]] Cons by simp
    ultimately obtain m' where m': "m = (merged @ range_of p ?q ancestor @ ls) @ m'"
      "kept (drop e ancestor) (drop ea a) (drop eb b) m'" using less.hyps [OF _ st(1) ls(2)] by blast
    note whole = region_then_kept [OF piece m'(2)]
    have cut: "drop p ancestor = range_of p ?q ancestor @ range_of ?q e ancestor @ drop e ancestor"
      "drop pa a = range_of p ?q ancestor @ segmentFor lh a ?q e @ drop ea a"
      "drop pb b = range_of p ?q ancestor @ segmentFor rh b ?q e @ drop eb b"
      using drop_cut [OF st(2,3), of ancestor] drop_cut [OF le_add1 st(5), of a]
        drop_cut [OF le_add1 st(7), of b] st(9-12) by metis+
    have "p < ?q \<Longrightarrow> range_of p ?q ancestor \<noteq> []"
      using st(3,4) by (simp add: range_of_def)
    then show ?thesis unfolding cut
      using three_way_gap [OF whole] kept_gap [OF whole] m'(1) Cons by auto
  qed
qed

text \<open>With adjacency 1 the loop returns: no line of a region is unclaimed.\<close>

lemma mergeRegion_total:
  assumes "loop_inv p pa pb (first # rest)" "absorb 1 (oEnd first) {hside first} rest = (e, S, rest')"
  shows "\<exists>r. mergeRegion ancestor a b lh rh S (oStart first) e = Inr r"
proof -
  let ?q = "oStart first"
  obtain lp lx rp rx where
    cuts: "lo.at_cut p pa lp (lx @ hunks_of Local rest')" "re.at_cut p pb rp (rx @ hunks_of Remote rest')"
    and cover: "\<And>l. (1::int) = 1 \<Longrightarrow> ?q \<le> l \<Longrightarrow> l < e \<Longrightarrow> \<exists>h \<in> set (lx @ rx). oStart h \<le> l \<and> l < oEnd h"
    by (rule region_cut [OF assms(1) order_refl assms(2) that])
  have "set lx \<subseteq> set lh" "set rx \<subseteq> set rh"
    using cuts by (auto simp: lo.at_cut_def re.at_cut_def)
  then have "\<forall>l. ?q \<le> l \<and> l < e \<longrightarrow> hunkCovering lh l \<noteq> None \<or> hunkCovering rh l \<noteq> None"
    using cover unfolding hunkCovering_None by fastforce
  from disjointWalk_total [OF this] show ?thesis
    by (auto simp: mergeRegion_def mergeDisjointRegion_def Let_def)
qed

lemma mergeLoop_total:
  assumes "loop_inv p pa pb evs"
  shows "\<exists>r. mergeLoop ancestor a b lh rh 1 p evs merged = Inr r"
  using assms
proof (induction "length evs" arbitrary: p pa pb evs merged rule: less_induct)
  case less
  show ?case
  proof (cases evs)
    case (Cons first rest)
    obtain e S rest' where ab: "absorb 1 (oEnd first) {hside first} rest = (e, S, rest')"
      using prod_cases3 by blast
    obtain r where r: "mergeRegion ancestor a b lh rh S (oStart first) e = Inr r"
      using mergeRegion_total less.prems Cons ab by blast
    obtain ea eb where "loop_inv e ea eb rest'"
      by (rule region_step [OF less.prems [unfolded Cons] order_refl ab that])
    moreover have "length rest' < length evs" using absorb_shorter [OF ab [symmetric]] Cons by simp
    ultimately show ?thesis using less.hyps r by (cases r) (auto simp: Cons ab)
  qed simp
qed

section \<open>The merge does not depend on the direction\<close>

lemma mergeRegion_swap:
  assumes round: "loop_inv p pa pb (first # rest)" "adj \<ge> 1"
      "absorb adj (oEnd first) {hside first} rest = (e, S, rest')"
  shows "mergeRegion ancestor b a rh lh (flip ` S) (oStart first) e =
    mergeRegion ancestor a b lh rh S (oStart first) e"
proof -
  let ?q = "oStart first"
  obtain ea eb where seg: "e \<le> length ancestor"
    "Local \<notin> S \<Longrightarrow> segmentFor lh a ?q e = range_of ?q e ancestor"
    "Remote \<notin> S \<Longrightarrow> segmentFor rh b ?q e = range_of ?q e ancestor"
    by (rule region_step [OF round that])
  have S: "Local \<in> flip ` S \<longleftrightarrow> Remote \<in> S" "Remote \<in> flip ` S \<longleftrightarrow> Local \<in> S"
    by (auto simp: image_iff) (metis flip.elims flip.simps side.distinct(1))+
  show ?thesis
    using seg by (cases "Local \<in> S"; cases "Remote \<in> S")
      (auto simp: mergeRegion_def Let_def js_slice_range linesEqual_iff S mergeDisjointRegion_swap)
qed

lemma mergeLoop_swap:
  assumes "loop_inv p pa pb evs" "adj \<ge> 1" "sorted (map oStart evs2)"
    "mset evs2 = mset (map flip_event evs)"
  shows "mergeLoop ancestor b a rh lh adj p evs2 merged = mergeLoop ancestor a b lh rh adj p evs merged"
  using assms(1,3,4)
proof (induction "length evs" arbitrary: p pa pb evs evs2 merged rule: less_induct)
  case less
  show ?case
  proof (cases evs)
    case (Cons first rest)
    have sorted: "sorted (map oStart evs)" using less.prems(1) by (simp add: loop_inv_def)
    have "mset (map oStart evs2) = mset (map oStart evs)"
      using less.prems(3) by (simp add: image_mset.compositionality comp_def)
    then have starts: "map oStart evs2 = map oStart evs"
      using sorted less.prems(2) by (metis properties_for_sort)
    then obtain first2 rest2 where evs2: "evs2 = first2 # rest2" "oStart first2 = oStart first"
      using Cons by auto
    obtain e S r where ab: "absorb adj (oEnd first) {hside first} rest = (e, S, r)"
      using prod_cases3 by blast
    obtain e2 S2 r2 where ab2: "absorb adj (oEnd first2) {hside first2} rest2 = (e2, S2, r2)"
      using prod_cases3 by blast
    have flip: "e2 = e" "S2 = flip ` S" "mset r2 = mset (map flip_event r)"
      using absorb_flip [of adj "oStart first" "{}" evs e S r evs2 e2 S2 r2] sorted less.prems(2,3)
        absorb_first [OF assms(2)] ab ab2 evs2 Cons by (metis image_empty)+
    note round = less.prems(1) [unfolded Cons] assms(2) ab
    obtain ea eb where inv: "loop_inv e ea eb r" by (rule region_step [OF round that])
    have "sorted (map oStart r2)"
      using absorb_prefix [OF ab2] less.prems(2) evs2(1) by (auto simp: sorted_append)
    moreover have "length r < length evs" using absorb_shorter [OF ab [symmetric]] Cons by simp
    ultimately have "\<And>acc. mergeLoop ancestor b a rh lh adj e r2 acc = mergeLoop ancestor a b lh rh adj e r acc"
      using less.hyps inv flip(3) by blast
    then show ?thesis
      using mergeRegion_swap [OF round] by (simp add: Cons evs2 ab ab2 [unfolded evs2(2)] flip)
  qed (use less.prems in simp)
qed

section \<open>One side unchanged, or both equal\<close>

lemma mergeLoop_follow_local:
  assumes "loop_inv p pa pb evs" "adj \<ge> 1"
    and takes: "\<And>S q e. e \<le> length ancestor \<Longrightarrow>
      mergeRegion ancestor a b lh rh S q e = Inr (Some (segmentFor lh a q e))"
  shows "mergeLoop ancestor a b lh rh adj p evs merged = Inr (Some (merged @ drop pa a))"
  using assms(1)
proof (induction "length evs" arbitrary: p pa pb evs merged rule: less_induct)
  case less
  show ?case
  proof (cases evs)
    case Nil
    then show ?thesis using loop_inv_end(1) [of p pa pb] less.prems by simp
  next
    case (Cons first rest)
    obtain e S r where ab: "absorb adj (oEnd first) {hside first} rest = (e, S, r)"
      using prod_cases3 by blast
    let ?q = "oStart first"
    obtain ea eb where st: "loop_inv e ea eb r" "e \<le> length ancestor" "pa + (?q - p) \<le> ea"
      "range_of p ?q ancestor = range_of pa (pa + (?q - p)) a"
      "segmentFor lh a ?q e = range_of (pa + (?q - p)) ea a"
      by (rule region_step [OF less.prems [unfolded Cons] assms(2) ab that])
    have "length r < length evs" using absorb_shorter [OF ab [symmetric]] Cons by simp
    note IH = less.hyps [OF this st(1)]
    have "range_of p ?q ancestor @ segmentFor lh a ?q e @ drop ea a = drop pa a"
      unfolding st(4,5) using st(3) by (metis drop_cut le_add1)
    then show ?thesis by (simp add: Cons ab takes st(2) IH)
  qed
qed

section \<open>Edits that do not touch\<close>

lemma absorb_nothing:
  "\<forall>x \<in> set evs. int (oStart x) - int e \<ge> adj \<Longrightarrow> absorb adj e S evs = (e, S, evs)"
  by (cases evs) auto

lemma mergeLoop_separated:
  assumes "loop_inv p pa pb evs" "sorted_wrt (\<lambda>x y. oEnd x < oStart y) evs"
  shows "\<exists>m. mergeLoop ancestor a b lh rh 1 p evs merged = Inr (Some m)"
  using assms
proof (induction evs arbitrary: p pa pb merged)
  case (Cons first rest)
  have ab: "absorb 1 (oEnd first) {hside first} rest = (oEnd first, {hside first}, rest)"
    using Cons.prems(2) by (intro absorb_nothing) force
  obtain ea eb where "loop_inv (oEnd first) ea eb rest"
    by (rule region_step [OF Cons.prems(1) order_refl ab that])
  then have "\<And>acc. \<exists>m. mergeLoop ancestor a b lh rh 1 (oEnd first) rest acc = Inr (Some m)"
    using Cons by simp
  moreover have "\<exists>ls. mergeRegion ancestor a b lh rh {hside first} (oStart first) (oEnd first) = Inr (Some ls)"
    by (cases "hside first") (auto simp: mergeRegion_def Let_def)
  ultimately show ?case by (auto simp: ab)
qed simp

end

interpretation mi: merge_inputs ancestor a b "diffHunks ancestor a" "diffHunks ancestor b" for ancestor a b
  by unfold_locales

end
