(* ===== verification/Merge_Theorems.thy ===== *)
theory Merge_Theorems
  imports Merge_Correct
begin

text \<open>
  The properties of \<^verbatim>\<open>mergeText\<close> and of the diff under it, stated over texts and options as the
  callers of \<^verbatim>\<open>diff3.ts\<close> use them. Hypotheses on \<^verbatim>\<open>adjacencyLines\<close> are met by the default of 1,
  which is the only value the program passes.
\<close>

section \<open>From line arrays to texts\<close>

lemma mergeText_Merged:
  assumes "mergeText old loc rem opts = Inr (Merged t)"
  shows "\<exists>m. t = join_with 10 m \<and>
    mergeLoop (splitLines old) (splitLines loc) (splitLines rem) (diffHunks (splitLines old) (splitLines loc))
      (diffHunks (splitLines old) (splitLines rem)) (effective_adjacency opts) 0
      (mergeEvents (diffHunks (splitLines old) (splitLines loc)) (diffHunks (splitLines old) (splitLines rem))) []
      = Inr (Some m)"
  using assms by (auto simp: mergeText_def Let_def result_simps split: if_splits option.splits)

lemma mergeText_three_way:
  assumes "effective_adjacency opts \<ge> 1" "mergeText old loc rem opts = Inr (Merged t)"
  shows "\<exists>m. t = join_with 10 m \<and> three_way (splitLines old) (splitLines loc) (splitLines rem) m"
proof -
  obtain m where "t = join_with 10 m" "mergeLoop (splitLines old) (splitLines loc) (splitLines rem)
      (diffHunks (splitLines old) (splitLines loc)) (diffHunks (splitLines old) (splitLines rem))
      (effective_adjacency opts) 0
      (mergeEvents (diffHunks (splitLines old) (splitLines loc)) (diffHunks (splitLines old) (splitLines rem))) []
      = Inr (Some m)"
    using mergeText_Merged [OF assms(2)] by blast
  then show ?thesis using mi.mergeLoop_three_way [OF mi.loop_inv_start assms(1)] by fastforce
qed

lemma splitLines_no_newline: "p \<in> set (splitLines t) \<Longrightarrow> 10 \<notin> set p"
  by (simp add: splitLines_def split_on_pieces)

lemma lines_of_join: "\<forall>p \<in> set m. 10 \<notin> set p \<Longrightarrow> mset m \<subseteq># mset (splitLines (join_with 10 m))"
  by (cases m) (auto simp: splitLines_def split_join)

lemma diffHunks_same: "diffHunks x x = []"
proof -
  have walk: "lcsWalk x x w t i i = map (\<lambda>k. (k, k)) [i..<length x]" for w t i
  proof (induction "length x - i" arbitrary: i)
    case (Suc n)
    then have "lcsWalk x x w t (i + 1) (i + 1) = map (\<lambda>k. (k, k)) [Suc i..<length x]" by simp
    then show ?case using Suc.hyps(2) by (subst lcsWalk.simps) (simp add: upt_conv_Cons)
  qed (simp add: lcsWalk.simps)
  have loop: "hunk_loop (map (\<lambda>k. (k, k)) [i..<n] @ [(n, n)]) i i = []" if "i \<le> n" for i n
    using that by (induction "n - i" arbitrary: i) (auto simp: upt_conv_Cons)
  show ?thesis by (simp add: diffHunks_def lcsMatches_def walk loop)
qed

lemma segmentFor_same: "e \<le> length x \<Longrightarrow> segmentFor [] x q e = js_slice x (int q) (int e)"
  by (simp add: segmentFor_def variantStart_def variantEnd_def)

lemma join_splitLines [simp]: "join_with 10 (splitLines t) = t"
  by (simp add: splitLines_def)

lemma mergeText_swap:
  assumes "effective_adjacency opts \<ge> 1"
  shows "mergeText old rem loc opts = mergeText old loc rem opts"
proof -
  let ?o = "splitLines old" and ?l = "diffHunks (splitLines old) (splitLines loc)"
  let ?r = "diffHunks (splitLines old) (splitLines rem)"
  have "mset (mergeEvents ?r ?l) = mset (map flip_event (mergeEvents ?l ?r))"
    by (simp add: mergeEvents_def image_mset.compositionality comp_def)
  then have "mergeLoop ?o (splitLines rem) (splitLines loc) ?r ?l (effective_adjacency opts) 0 (mergeEvents ?r ?l) [] =
    mergeLoop ?o (splitLines loc) (splitLines rem) ?l ?r (effective_adjacency opts) 0 (mergeEvents ?l ?r) []"
    by (intro mi.mergeLoop_swap [OF mi.loop_inv_start assms mergeEvents_sorted])
  then show ?thesis by (simp add: mergeText_def Let_def too_large_def disj_commute)
qed

lemma mergeText_total:
  assumes "effective_adjacency opts = 1"
  shows "\<exists>r. mergeText old loc rem opts = Inr r"
proof -
  let ?o = "splitLines old" and ?l = "diffHunks (splitLines old) (splitLines loc)"
  let ?r = "diffHunks (splitLines old) (splitLines rem)"
  obtain r where "mergeLoop ?o (splitLines loc) (splitLines rem) ?l ?r 1 0 (mergeEvents ?l ?r) [] = Inr r"
    using mi.mergeLoop_total [OF mi.loop_inv_start] by blast
  then show ?thesis using assms by (simp add: mergeText_def Let_def)
qed

lemma too_large_conflicts:
  "too_large opts (splitLines old) (splitLines loc) (splitLines rem) \<Longrightarrow> mergeText old loc rem opts = Inr Conflict"
  by (simp add: mergeText_def Let_def)

section \<open>Properties\<close>

text \<open>
  C1. Whatever \<^verbatim>\<open>mergeText\<close> returns as merged is a three-way merge of its inputs: old, local,
  remote and merged lines split into corresponding regions, any two of them separated by a line
  that both sides kept. In a region one side left the old lines alone and the merged text has the
  other side's, or both sides made the identical change, or the region corresponds line by line and
  every line was changed by at most one side. A span both sides changed differently in any other way
  is in no merged text (\<open>contested_line_has_no_merge\<close>): the merge is then a conflict.
\<close>

theorem merge_is_three_way:
  assumes "effective_adjacency opts \<ge> 1" "mergeText old loc rem opts = Inr (Merged t)"
  shows "\<exists>m. t = join_with 10 m \<and> three_way (splitLines old) (splitLines loc) (splitLines rem) m"
  using assms by (rule mergeText_three_way)

theorem merge_is_three_way_witness:
  "\<exists>m. [100, 10, 98, 10, 101] = join_with 10 m \<and>
     three_way (splitLines [97, 10, 98, 10, 99]) (splitLines [100, 10, 98, 10, 99]) (splitLines [97, 10, 98, 10, 101]) m"
  by (rule merge_is_three_way [of "\<lparr>adjacencyLines = None, maxLcsCells = Some 100\<rparr>"]) code_simp+

text \<open>
  With the default adjacency a line both sides rewrote differently is therefore always a conflict.
\<close>

theorem contested_line_conflicts:
  assumes "x \<noteq> y" "x \<noteq> z" "y \<noteq> z" "10 \<notin> set x" "10 \<notin> set y" "10 \<notin> set z"
    and "effective_adjacency opts = 1"
  shows "mergeText x y z opts = Inr Conflict"
proof -
  have one: "splitLines w = [w]" if "10 \<notin> set w" for w
    using that split_join [of "[w]" 10] by (simp add: splitLines_def)
  obtain r where r: "mergeText x y z opts = Inr r" using mergeText_total [OF assms(7)] by blast
  have "r \<noteq> Merged t" for t
    using mergeText_three_way [of opts x y z t] r assms contested_line_has_no_merge [OF assms(1-3)]
    by (auto simp: one)
  then show ?thesis using r by (cases r) auto
qed

theorem contested_line_conflicts_witness: "mergeText [97] [98] [99] default_options = Inr Conflict"
  by (rule contested_line_conflicts) (simp_all add: effective_adjacency_def default_options_def)

text \<open>
  C2. A successful merge loses nothing that either side wrote: every line a side has more often
  than the ancestor, with its multiplicity, is a line of the merged text.
\<close>

theorem merge_loses_no_added_line:
  assumes "effective_adjacency opts \<ge> 1" "mergeText old loc rem opts = Inr (Merged t)"
  shows "mset (splitLines loc) - mset (splitLines old) \<subseteq># mset (splitLines t) \<and>
    mset (splitLines rem) - mset (splitLines old) \<subseteq># mset (splitLines t)"
proof -
  obtain m where m: "t = join_with 10 m" "three_way (splitLines old) (splitLines loc) (splitLines rem) m"
    using mergeText_three_way [OF assms] by blast
  have "set m \<subseteq> set (splitLines loc) \<union> set (splitLines rem)"
    using three_way_invents_nothing [OF m(2)] by (metis set_mset_mono set_mset_mset set_mset_union)
  then have "mset m \<subseteq># mset (splitLines t)"
    unfolding m(1) by (intro lines_of_join) (use splitLines_no_newline in blast)
  then show ?thesis
    using three_way_keeps [OF m(2)] by (meson subset_mset.order_trans)
qed

theorem merge_loses_no_added_line_witness:
  "mset (splitLines [100, 10, 98, 10, 99]) - mset (splitLines [97, 10, 98, 10, 99]) \<subseteq>#
     mset (splitLines [100, 10, 98, 10, 101])"
  by (rule merge_loses_no_added_line [THEN conjunct1,
      of "\<lparr>adjacencyLines = None, maxLcsCells = Some 100\<rparr>" _ _ "[97, 10, 98, 10, 101]"]) code_simp+

text \<open>
  C3. Convergence: the result does not depend on which side is called local. Two devices that merge
  the same pair of heads from opposite sides get the same text, or both keep the conflict.
\<close>

theorem merge_commutes:
  assumes "effective_adjacency opts \<ge> 1"
  shows "mergeText old rem loc opts = mergeText old loc rem opts"
  using assms by (rule mergeText_swap)

theorem merge_commutes_witness:
  "mergeText [97] [98, 10, 97] [97, 10, 99] default_options = mergeText [97] [97, 10, 99] [98, 10, 97] default_options"
  by (rule merge_commutes) (simp add: effective_adjacency_def default_options_def)

text \<open>
  C4. With the default adjacency \<^verbatim>\<open>mergeText\<close> never throws: it returns a merged text or a conflict.
\<close>

theorem merge_returns:
  assumes "effective_adjacency opts = 1"
  shows "\<exists>r. mergeText old loc rem opts = Inr r"
  using assms by (rule mergeText_total)

theorem merge_returns_witness: "\<exists>r. mergeText [97] [98] [99] default_options = Inr r"
  by (rule merge_returns) (simp add: effective_adjacency_def default_options_def)

text \<open>
  A side that did not change never wins over one that did, and equal sides merge to
  themselves: these are the fast-forward cases of a merge.
\<close>

theorem merge_fast_forward:
  assumes "effective_adjacency opts \<ge> 1" "\<not> too_large opts (splitLines old) (splitLines loc) (splitLines old)"
  shows "mergeText old loc old opts = Inr (Merged loc) \<and> mergeText old old loc opts = Inr (Merged loc) \<and>
    (too_large opts (splitLines old) (splitLines loc) (splitLines loc) \<or>
       mergeText old loc loc opts = Inr (Merged loc))"
proof (intro conjI)
  let ?o = "splitLines old" and ?a = "splitLines loc"
  let ?l = "diffHunks ?o ?a" and ?adj = "effective_adjacency opts"
  have "mergeLoop ?o ?a ?o ?l (diffHunks ?o ?o) ?adj 0 (mergeEvents ?l (diffHunks ?o ?o)) [] = Inr (Some ([] @ drop 0 ?a))"
    by (rule mi.mergeLoop_follow_local [OF mi.loop_inv_start assms(1)])
      (simp add: mergeRegion_def Let_def diffHunks_same segmentFor_same linesEqual_iff)
  then show ff: "mergeText old loc old opts = Inr (Merged loc)"
    using assms(2) by (simp add: mergeText_def Let_def)
  show "mergeText old old loc opts = Inr (Merged loc)"
    using ff mergeText_swap [OF assms(1), of old old loc] by simp
  have "mergeLoop ?o ?a ?a ?l ?l ?adj 0 (mergeEvents ?l ?l) [] = Inr (Some ([] @ drop 0 ?a))"
    by (rule mi.mergeLoop_follow_local [OF mi.loop_inv_start assms(1)])
      (simp add: mergeRegion_def Let_def linesEqual_iff)
  then show "too_large opts ?o ?a ?a \<or> mergeText old loc loc opts = Inr (Merged loc)"
    by (simp add: mergeText_def Let_def)
qed

theorem merge_fast_forward_witness:
  "mergeText [97] [97] [98, 10, 97] default_options = Inr (Merged [98, 10, 97])"
  by (rule merge_fast_forward [THEN conjunct2, THEN conjunct1])
    (simp_all add: effective_adjacency_def default_options_def too_large_def effective_cells_def splitLines_def)



text \<open>
  The branch of \<^verbatim>\<open>mergeDisjointRegion\<close> for a line neither side changed is never reached: with
  \<^verbatim>\<open>adjacencyLines\<close> 2 two edits around one untouched line make the merge throw a \<^verbatim>\<open>TypeError\<close>.
\<close>

theorem merge_adjacency_two_throws:
  "mergeText [97, 10, 98, 10, 99] [100, 10, 98, 10, 99] [97, 10, 98, 10, 101]
     \<lparr>adjacencyLines = Some 2, maxLcsCells = Some 100\<rparr> = Inl TypeError"
  by code_simp

text \<open>
  C6. \<^verbatim>\<open>lcsMatches\<close> returns a longest common subsequence: its pairs match equal lines at strictly
  increasing positions of both arrays, and no common subsequence is longer.
\<close>

theorem lcsMatches_longest:
  "matching x y 0 0 (lcsMatches x y) \<and>
   (\<forall>zs. subseq zs x \<longrightarrow> subseq zs y \<longrightarrow> length zs \<le> length (lcsMatches x y))"
  by (simp add: matching_lcsMatches length_lcsMatches lcs_len_upper)

theorem lcsMatches_longest_witness: "length [2, 3 :: nat] \<le> length (lcsMatches [1, 2, 3 :: nat] [2, 9, 3])"
  using lcsMatches_longest [of "[1, 2, 3 :: nat]" "[2, 9, 3]"] by auto

end
