(* ===== verification/Canonical.thy ===== *)
theory Canonical
  imports Prelude
begin

text \<open>
  Canonical text and canonical vault paths (\<^verbatim>\<open>packages/protocol/src/canonicalization.ts\<close> and
  \<^verbatim>\<open>appearance-scope.ts\<close>): the form of a note used for hashing, the checks a path passes before it
  crosses the wire, and the allowlist of the \<^verbatim>\<open>.obsidian\<close> folder.

  Two Unicode operations of the JavaScript runtime are parameters: \<open>nfc\<close> for
  \<^verbatim>\<open>String.prototype.normalize('NFC')\<close> and \<open>lower\<close> for \<^verbatim>\<open>toLowerCase\<close>. What the proofs use of them
  is stated as hypotheses: normalisation is idempotent (\<open>nfc_idem\<close>) and lower case leaves lower
  case ASCII text alone (\<open>lower_ascii\<close>).

  The checks for a code point are checks on code units here: every code point the sources test is
  below 0xD800, and the halves of a surrogate pair are not.
\<close>

section \<open>Text\<close>

text \<open>\<^verbatim>\<open>.replace(/\r\n?/gu, '\n')\<close>\<close>

fun lf_line_endings :: "jsstr \<Rightarrow> jsstr" where
  "lf_line_endings [] = []"
| "lf_line_endings (c # cs) =
     (if c = 13 then
        (case cs of
           [] \<Rightarrow> [10]
         | d # ds \<Rightarrow> if d = 10 then 10 # lf_line_endings ds else 10 # lf_line_endings cs)
      else c # lf_line_endings cs)"

text \<open>\<^verbatim>\<open>.replace(/\n+$/u, '')\<close>\<close>

definition strip_trailing_newlines :: "jsstr \<Rightarrow> jsstr" where
  "strip_trailing_newlines s = rev (dropWhile (\<lambda>c. c = 10) (rev s))"

definition strip_bom :: "jsstr \<Rightarrow> jsstr" where
  "strip_bom content = (case content of c # cs \<Rightarrow> if c = 0xFEFF then cs else content | [] \<Rightarrow> [])"

definition canonicalizeMarkdown :: "jsstr \<Rightarrow> jsstr" where
  "canonicalizeMarkdown content =
     (let withoutTrailingNewlines = strip_trailing_newlines (lf_line_endings (strip_bom content))
      in if length withoutTrailingNewlines = 0 then [] else withoutTrailingNewlines @ [10])"

section \<open>The allowlist of the configuration folder\<close>

definition lastIndexOf :: "code_unit \<Rightarrow> jsstr \<Rightarrow> int" where
  "lastIndexOf c s =
     (if c \<in> set s then int (length s) - 1 - int (length (takeWhile (\<lambda>x. x \<noteq> c) (rev s))) else -1)"

definition pathExtension :: "(jsstr \<Rightarrow> jsstr) \<Rightarrow> jsstr \<Rightarrow> jsstr" where
  "pathExtension lower path =
     (let dot = lastIndexOf 46 path; slash = lastIndexOf 47 path
      in if dot \<le> slash + 1 then [] else lower (drop (nat (dot + 1)) path))"

definition normalizeSeparators :: "jsstr \<Rightarrow> jsstr" where
  "normalizeSeparators path = map (\<lambda>c. if c = 92 then 47 else c) path"

definition starts_with :: "jsstr \<Rightarrow> jsstr \<Rightarrow> bool" where
  "starts_with p s \<longleftrightarrow> take (length p) s = p"

definition OBSIDIAN_PREFIX :: jsstr where
  "OBSIDIAN_PREFIX = js ''.obsidian/''"

definition ALLOW_EXACT :: "jsstr set" where
  "ALLOW_EXACT =
     {js ''.obsidian/appearance.json'', js ''.obsidian/app.json'', js ''.obsidian/core-plugins.json'',
      js ''.obsidian/graph.json'', js ''.obsidian/hotkeys.json''}"

definition SNIPPETS_PREFIX :: jsstr where
  "SNIPPETS_PREFIX = js ''.obsidian/snippets/''"

definition SNIPPET_EXTENSIONS :: "jsstr set" where
  "SNIPPET_EXTENSIONS = {js ''css''}"

definition THEMES_PREFIX :: jsstr where
  "THEMES_PREFIX = js ''.obsidian/themes/''"

definition THEME_EXTENSIONS :: "jsstr set" where
  "THEME_EXTENSIONS =
     {js ''css'', js ''gif'', js ''jpeg'', js ''jpg'', js ''json'', js ''png'', js ''svg'', js ''webp''}"

definition hasBlockedSegment :: "jsstr list \<Rightarrow> bool" where
  "hasBlockedSegment segments \<longleftrightarrow>
     list_ex (\<lambda>s. length s = 0 \<or> s = js ''.'' \<or> s = js ''..'' \<or> s = js ''data.json'') segments"

definition isSyncableConfigPath :: "(jsstr \<Rightarrow> jsstr) \<Rightarrow> jsstr \<Rightarrow> bool" where
  "isSyncableConfigPath lower path =
     (let normalized = normalizeSeparators path;
          segments = split_on 47 normalized
      in if \<not> starts_with OBSIDIAN_PREFIX normalized then False
         else if hasBlockedSegment segments then False
         else if normalized \<in> ALLOW_EXACT then True
         else if starts_with SNIPPETS_PREFIX normalized then
           length segments = 3 \<and> pathExtension lower normalized \<in> SNIPPET_EXTENSIONS
         else if starts_with THEMES_PREFIX normalized then
           length segments \<ge> 4 \<and> pathExtension lower normalized \<in> THEME_EXTENSIONS
         else False)"

section \<open>Vault paths\<close>

datatype path_error = EmptyPath | NotRelative | ControlCharacter | BadSegment | ReservedRoot

definition CONFLICT_FOLDER :: jsstr where
  "CONFLICT_FOLDER = js ''Havemind Conflicts''"

definition RESERVED_ROOTS :: "(jsstr \<Rightarrow> jsstr) \<Rightarrow> jsstr set" where
  "RESERVED_ROOTS lower = {js ''.obsidian'', js ''.trash'', lower CONFLICT_FOLDER}"

definition containsControlCharacter :: "jsstr \<Rightarrow> bool" where
  "containsControlCharacter value \<longleftrightarrow> list_ex (\<lambda>c. c \<le> 0x1F \<or> (c \<ge> 0x7F \<and> c \<le> 0x9F)) value"

text \<open>\<^verbatim>\<open>/^[a-zA-Z]:/u\<close>\<close>

definition windows_drive_path :: "jsstr \<Rightarrow> bool" where
  "windows_drive_path path =
     (case path of
        c # d # _ \<Rightarrow> ((65 \<le> c \<and> c \<le> 90) \<or> (97 \<le> c \<and> c \<le> 122)) \<and> d = 58
      | _ \<Rightarrow> False)"

definition normalizedVaultPath :: "(jsstr \<Rightarrow> jsstr) \<Rightarrow> jsstr \<Rightarrow> path_error + jsstr" where
  "normalizedVaultPath nfc path =
     (if length path = 0 then Inl EmptyPath
      else if starts_with [47] path \<or> 92 \<in> set path \<or> windows_drive_path path then Inl NotRelative
      else if containsControlCharacter path then Inl ControlCharacter
      else
        (let normalized = nfc path
         in if list_ex (\<lambda>s. length s = 0 \<or> s = js ''.'' \<or> s = js ''..'') (split_on 47 normalized)
            then Inl BadSegment else Inr normalized))"

definition reservedRoot :: "(jsstr \<Rightarrow> jsstr) \<Rightarrow> jsstr \<Rightarrow> bool" where
  "reservedRoot lower path =
     (if lower (hd (split_on 47 path)) \<notin> RESERVED_ROOTS lower then False
      else if isSyncableConfigPath lower path then False
      else True)"

definition canonicalizeVaultPath :: "(jsstr \<Rightarrow> jsstr) \<Rightarrow> (jsstr \<Rightarrow> jsstr) \<Rightarrow> jsstr \<Rightarrow> path_error + jsstr" where
  "canonicalizeVaultPath nfc lower path =
     bind_result (normalizedVaultPath nfc path)
       (\<lambda>normalized. if reservedRoot lower normalized then Inl ReservedRoot else Inr normalized)"

datatype content_kind = Markdown | Binary

definition BINARY_EXTENSIONS :: "jsstr set" where
  "BINARY_EXTENSIONS =
     {js ''png'', js ''jpg'', js ''jpeg'', js ''gif'', js ''webp'', js ''svg'', js ''pdf''}"

definition CONFIG_TEXT_EXTENSIONS :: "jsstr set" where
  "CONFIG_TEXT_EXTENSIONS = {js ''css'', js ''json''}"

definition syncContentKind :: "(jsstr \<Rightarrow> jsstr) \<Rightarrow> jsstr \<Rightarrow> content_kind option" where
  "syncContentKind lower canonicalPath =
     (let extension = pathExtension lower canonicalPath
      in if isSyncableConfigPath lower canonicalPath then
           (if extension \<in> BINARY_EXTENSIONS then Some Binary
            else if extension \<in> CONFIG_TEXT_EXTENSIONS then Some Markdown else None)
         else
           (let kind = (if extension = js ''md'' then Some Markdown
                        else if extension \<in> BINARY_EXTENSIONS then Some Binary else None);
                hidden = list_ex (\<lambda>s. s = [] \<or> starts_with [46] s) (split_on 47 canonicalPath)
            in if kind = None \<or> hidden \<or> reservedRoot lower canonicalPath then None else kind))"

section \<open>Canonical text\<close>

lemma lf_line_endings_no_cr [simp]: "13 \<notin> set (lf_line_endings s)"
  by (induction s rule: lf_line_endings.induct) (auto split: list.splits)

lemma lf_line_endings_id: "13 \<notin> set s \<Longrightarrow> lf_line_endings s = s"
  by (induction s rule: lf_line_endings.induct) (auto split: list.splits)

lemma lf_line_endings_hd:
  "s \<noteq> [] \<Longrightarrow> hd (lf_line_endings s) = (if hd s = 13 then 10 else hd s)"
  by (cases s) (auto split: list.splits)

lemma set_strip_trailing: "set (strip_trailing_newlines s) \<subseteq> set s"
  by (auto simp: strip_trailing_newlines_def dest: set_dropWhileD)

lemma strip_trailing_append: "strip_trailing_newlines (s @ [10]) = strip_trailing_newlines s"
  by (simp add: strip_trailing_newlines_def)

lemma strip_trailing_idem: "strip_trailing_newlines (strip_trailing_newlines s) = strip_trailing_newlines s"
  by (simp add: strip_trailing_newlines_def)

lemma strip_trailing_last: "strip_trailing_newlines s \<noteq> [] \<Longrightarrow> last (strip_trailing_newlines s) \<noteq> 10"
  using hd_dropWhile [of "\<lambda>c. c = 10" "rev s"] by (simp add: strip_trailing_newlines_def last_rev)

lemma strip_trailing_hd: "strip_trailing_newlines s \<noteq> [] \<Longrightarrow> hd (strip_trailing_newlines s) = hd s"
proof -
  assume ne: "strip_trailing_newlines s \<noteq> []"
  have "rev s = takeWhile (\<lambda>c. c = 10) (rev s) @ dropWhile (\<lambda>c. c = 10) (rev s)" by simp
  then have "s = strip_trailing_newlines s @ rev (takeWhile (\<lambda>c. c = 10) (rev s))"
    unfolding strip_trailing_newlines_def by (metis rev_append rev_rev_ident)
  with ne show ?thesis by (metis hd_append2)
qed

lemma canonicalizeMarkdown_cases:
  obtains "canonicalizeMarkdown s = []"
  | t where "canonicalizeMarkdown s = t @ [10]" "t \<noteq> []" "last t \<noteq> 10" "13 \<notin> set t"
      "strip_trailing_newlines t = t" "hd t = hd (lf_line_endings (strip_bom s))"
proof (cases "strip_trailing_newlines (lf_line_endings (strip_bom s)) = []")
  case True
  then show ?thesis using that(1) by (simp add: canonicalizeMarkdown_def)
next
  case False
  let ?t = "strip_trailing_newlines (lf_line_endings (strip_bom s))"
  have "canonicalizeMarkdown s = ?t @ [10]" using False by (simp add: canonicalizeMarkdown_def Let_def)
  moreover have "13 \<notin> set ?t"
    using set_strip_trailing [of "lf_line_endings (strip_bom s)"] lf_line_endings_no_cr [of "strip_bom s"] by blast
  ultimately show ?thesis
    using that(2) False strip_trailing_last [OF False] strip_trailing_hd [OF False] strip_trailing_idem by blast
qed

text \<open>A text without a BOM in front is a fixed point once it is canonical.\<close>

lemma canonicalizeMarkdown_fixed:
  assumes "t \<noteq> []" "hd t \<noteq> 0xFEFF" "13 \<notin> set t" "strip_trailing_newlines t = t"
  shows "canonicalizeMarkdown (t @ [10]) = t @ [10]"
proof -
  have "strip_bom (t @ [10]) = t @ [10]" using assms(1,2) by (cases t) (auto simp: strip_bom_def)
  moreover have "lf_line_endings (t @ [10]) = t @ [10]" using assms(3) by (intro lf_line_endings_id) auto
  ultimately show ?thesis
    using assms by (simp add: canonicalizeMarkdown_def Let_def strip_trailing_append)
qed

section \<open>The allowlist\<close>

definition lower_ascii :: "(jsstr \<Rightarrow> jsstr) \<Rightarrow> bool" where
  "lower_ascii lower \<longleftrightarrow> (\<forall>s. (\<forall>c \<in> set s. c < 128 \<and> \<not> (65 \<le> c \<and> c \<le> 90)) \<longrightarrow> lower s = s)"

lemma starts_with_append: "starts_with p s \<longleftrightarrow> (\<exists>r. s = p @ r)"
  by (auto simp: starts_with_def) (metis append_take_drop_id)

lemma split_prefix:
  "split_on 47 (js ''.obsidian/snippets/'' @ r) = js ''.obsidian'' # js ''snippets'' # split_on 47 r"
  "split_on 47 (js ''.obsidian/themes/'' @ r) = js ''.obsidian'' # js ''themes'' # split_on 47 r"
  by (simp_all add: js_def)

lemma exact_segments:
  "n \<in> ALLOW_EXACT \<Longrightarrow> \<exists>f. split_on 47 n = [js ''.obsidian'', f] \<and>
     f \<in> {js ''appearance.json'', js ''app.json'', js ''core-plugins.json'', js ''graph.json'', js ''hotkeys.json''}"
  by (auto simp: ALLOW_EXACT_def js_def)

lemma exact_extension: "n \<in> ALLOW_EXACT \<Longrightarrow> pathExtension lower n = lower (js ''json'')"
  by (auto simp: ALLOW_EXACT_def js_def pathExtension_def lastIndexOf_def)

text \<open>What the allowlist admits, by the first two segments and the extension.\<close>

definition appearance_segments :: "jsstr list \<Rightarrow> bool" where
  "appearance_segments segs \<longleftrightarrow>
     (case segs of
        root # second # rest \<Rightarrow> root = js ''.obsidian'' \<and>
          second \<in> {js ''appearance.json'', js ''app.json'', js ''core-plugins.json'', js ''graph.json'',
                    js ''hotkeys.json'', js ''snippets'', js ''themes''}
      | _ \<Rightarrow> False)"

lemma isSyncableConfigPath_scope:
  assumes "isSyncableConfigPath lower path" "lower_ascii lower"
  shows "appearance_segments (split_on 47 (normalizeSeparators path))"
    "pathExtension lower (normalizeSeparators path) \<in> THEME_EXTENSIONS"
    "\<not> hasBlockedSegment (split_on 47 (normalizeSeparators path))"
proof -
  let ?n = "normalizeSeparators path"
  have json: "lower (js ''json'') = js ''json''" using assms(2) by (auto simp: lower_ascii_def js_def)
  consider "?n \<in> ALLOW_EXACT"
    | "starts_with SNIPPETS_PREFIX ?n" "pathExtension lower ?n \<in> SNIPPET_EXTENSIONS"
    | "starts_with THEMES_PREFIX ?n" "pathExtension lower ?n \<in> THEME_EXTENSIONS"
    using assms(1) by (auto simp: isSyncableConfigPath_def Let_def split: if_splits)
  then have "appearance_segments (split_on 47 ?n) \<and> pathExtension lower ?n \<in> THEME_EXTENSIONS"
  proof cases
    case 1
    then have "pathExtension lower ?n = js ''json''" using exact_extension json by simp
    moreover have "appearance_segments (split_on 47 ?n)"
      using exact_segments [OF 1] by (auto simp: appearance_segments_def)
    ultimately show ?thesis by (simp add: THEME_EXTENSIONS_def)
  next
    case 2
    then show ?thesis
      by (auto simp: starts_with_append SNIPPETS_PREFIX_def split_prefix appearance_segments_def
          SNIPPET_EXTENSIONS_def THEME_EXTENSIONS_def)
  next
    case 3
    then show ?thesis
      by (auto simp: starts_with_append THEMES_PREFIX_def split_prefix appearance_segments_def)
  qed
  then show "appearance_segments (split_on 47 ?n)" "pathExtension lower ?n \<in> THEME_EXTENSIONS"
    by simp_all
  show "\<not> hasBlockedSegment (split_on 47 ?n)"
    using assms(1) by (auto simp: isSyncableConfigPath_def Let_def split: if_splits)
qed

section \<open>Properties\<close>

text \<open>A lower-casing function that meets the hypothesis, for the witnesses.\<close>

definition ascii_lower :: "jsstr \<Rightarrow> jsstr" where
  "ascii_lower s = map (\<lambda>c. if 65 \<le> c \<and> c \<le> 90 then c + 32 else c) s"

lemma lower_ascii_ascii_lower: "lower_ascii ascii_lower"
  by (auto simp: lower_ascii_def ascii_lower_def map_idI)

text \<open>
  The canonical form of a note has LF line endings only, is empty or ends with exactly one
  newline, and canonicalising it again changes nothing unless the note starts with two byte order
  marks.
\<close>

theorem canonicalizeMarkdown_canonical:
  assumes "take 2 s \<noteq> [0xFEFF, 0xFEFF]"
  shows "canonicalizeMarkdown (canonicalizeMarkdown s) = canonicalizeMarkdown s \<and>
    13 \<notin> set (canonicalizeMarkdown s) \<and>
    (canonicalizeMarkdown s = [] \<or>
     (\<exists>t. canonicalizeMarkdown s = t @ [10] \<and> t \<noteq> [] \<and> last t \<noteq> 10))"
proof (cases rule: canonicalizeMarkdown_cases [of s])
  case 1
  then show ?thesis by (simp add: canonicalizeMarkdown_def strip_bom_def strip_trailing_newlines_def)
next
  case (2 t)
  have "strip_bom s \<noteq> []" using 2(1) by (auto simp: canonicalizeMarkdown_def strip_trailing_newlines_def)
  moreover have "hd (strip_bom s) \<noteq> 0xFEFF" if "strip_bom s \<noteq> []"
    using assms that by (auto simp: strip_bom_def numeral_2_eq_2 neq_Nil_conv split: list.splits if_splits)
  ultimately have "hd t \<noteq> 0xFEFF" using 2(6) lf_line_endings_hd by simp
  then show ?thesis using canonicalizeMarkdown_fixed [of t] 2 by simp
qed

theorem canonicalizeMarkdown_canonical_witness:
  "canonicalizeMarkdown (canonicalizeMarkdown [0xFEFF, 97, 13, 10, 98, 13]) = canonicalizeMarkdown [0xFEFF, 97, 13, 10, 98, 13]"
  using canonicalizeMarkdown_canonical [of "[0xFEFF, 97, 13, 10, 98, 13]"] by simp

text \<open>
  The documented idempotence fails for a note that starts with two byte order marks: each pass
  strips one of them.
\<close>

theorem canonicalizeMarkdown_two_marks:
  "canonicalizeMarkdown [0xFEFF, 0xFEFF, 97] = [0xFEFF, 97, 10] \<and>
   canonicalizeMarkdown (canonicalizeMarkdown [0xFEFF, 0xFEFF, 97]) = [97, 10]"
  by (simp add: canonicalizeMarkdown_def strip_bom_def strip_trailing_newlines_def)

text \<open>
  No path with an empty segment, \<^verbatim>\<open>.\<close> or \<^verbatim>\<open>..\<close> passes the wire check, so an accepted path
  cannot leave the vault; and no accepted path lies in a reserved folder unless the allowlist
  names it.
\<close>

theorem canonical_path_confined:
  assumes "canonicalizeVaultPath nfc lower p = Inr q"
  shows "(\<forall>s \<in> set (split_on 47 q). s \<noteq> [] \<and> s \<noteq> js ''.'' \<and> s \<noteq> js ''..'') \<and>
    (lower (hd (split_on 47 q)) \<in> RESERVED_ROOTS lower \<longrightarrow> isSyncableConfigPath lower q)"
  using assms
  by (auto simp: canonicalizeVaultPath_def normalizedVaultPath_def reservedRoot_def Let_def result_simps list_ex_iff
      split: if_splits)

theorem canonical_path_confined_witness:
  "js ''..'' \<notin> set (split_on 47 (js ''a/b.md''))"
proof -
  have "canonicalizeVaultPath (\<lambda>s. s) ascii_lower (js ''a/b.md'') = Inr (js ''a/b.md'')" by code_simp
  then show ?thesis using canonical_path_confined by blast
qed

text \<open>
  Plugin code never crosses the wire: an accepted path whose top folder is \<^verbatim>\<open>.obsidian\<close> in any
  letter case is one of the named settings files, a snippet or a theme file, it has no
  \<^verbatim>\<open>data.json\<close> segment, and its extension is one of the theme extensions, never \<^verbatim>\<open>js\<close>.
\<close>

theorem plugin_code_never_accepted:
  assumes "canonicalizeVaultPath nfc lower p = Inr q" "lower_ascii lower"
    and "lower (hd (split_on 47 q)) = js ''.obsidian''"
  shows "appearance_segments (split_on 47 (normalizeSeparators q)) \<and>
    js ''data.json'' \<notin> set (split_on 47 (normalizeSeparators q)) \<and>
    pathExtension lower (normalizeSeparators q) \<in> THEME_EXTENSIONS \<and>
    js ''js'' \<notin> THEME_EXTENSIONS"
proof -
  have cfg: "isSyncableConfigPath lower q"
    using assms(1,3)
    by (auto simp: canonicalizeVaultPath_def reservedRoot_def RESERVED_ROOTS_def result_simps split: if_splits)
  have "js ''data.json'' \<notin> set (split_on 47 (normalizeSeparators q))"
    using isSyncableConfigPath_scope(3) [OF cfg assms(2)] by (auto simp: hasBlockedSegment_def list_ex_iff)
  moreover have "js ''js'' \<notin> THEME_EXTENSIONS" by (simp add: THEME_EXTENSIONS_def js_def)
  ultimately show ?thesis using isSyncableConfigPath_scope(1,2) [OF cfg assms(2)] by blast
qed

theorem plugin_code_never_accepted_witness:
  "appearance_segments (split_on 47 (normalizeSeparators (js ''.obsidian/snippets/a.css'')))"
proof -
  have "canonicalizeVaultPath (\<lambda>s. s) ascii_lower (js ''.obsidian/snippets/a.css'') = Inr (js ''.obsidian/snippets/a.css'')"
    by code_simp
  moreover have "ascii_lower (hd (split_on 47 (js ''.obsidian/snippets/a.css''))) = js ''.obsidian''" by code_simp
  ultimately show ?thesis using plugin_code_never_accepted lower_ascii_ascii_lower by blast
qed

text \<open>
  The producer and the wire agree: a path that \<^verbatim>\<open>syncContentKind\<close> would sync and that passes the
  syntax check unchanged is accepted on the wire unchanged.
\<close>

theorem syncable_paths_pass_the_wire:
  assumes "syncContentKind lower p = Some k" "normalizedVaultPath nfc p = Inr p"
  shows "canonicalizeVaultPath nfc lower p = Inr p"
  using assms
  by (auto simp: canonicalizeVaultPath_def syncContentKind_def reservedRoot_def Let_def split: if_splits)

theorem syncable_paths_pass_the_wire_witness:
  "canonicalizeVaultPath (\<lambda>s. s) ascii_lower (js ''a/b.md'') = Inr (js ''a/b.md'')"
proof -
  have "syncContentKind ascii_lower (js ''a/b.md'') = Some Markdown" by code_simp
  moreover have "normalizedVaultPath (\<lambda>s. s) (js ''a/b.md'') = Inr (js ''a/b.md'')" by code_simp
  ultimately show ?thesis by (rule syncable_paths_pass_the_wire)
qed

text \<open>
  A canonical path need not be canonical: the Kelvin sign U+212A normalises to the letter K, so a
  path that starts with it and a colon turns into a drive prefix the next check rejects.
\<close>

theorem canonicalizeVaultPath_kelvin:
  assumes "nfc [0x212A, 58, 97] = [75, 58, 97]" "lower [75, 58, 97] = [107, 58, 97]"
    "lower CONFLICT_FOLDER = js ''havemind conflicts''"
  shows "canonicalizeVaultPath nfc lower [0x212A, 58, 97] = Inr [75, 58, 97] \<and>
    canonicalizeVaultPath nfc lower [75, 58, 97] = Inl NotRelative"
  using assms
  by (simp add: canonicalizeVaultPath_def normalizedVaultPath_def reservedRoot_def RESERVED_ROOTS_def
      containsControlCharacter_def windows_drive_path_def starts_with_def js_def)

end
