(* ===== verification/Schema.thy ===== *)
theory Schema
  imports Canonical Complex_Main
begin

text \<open>
  The wire schemas of \<^verbatim>\<open>packages/protocol/src/revision-schema.ts\<close>: the protected header of a
  revision, the receipt of the server, the payload a client ships inside, and the check of a
  payload against its header. A schema is a partial function on parsed JSON: \<open>None\<close> is the error
  zod throws. The format check of zod for UUIDs is the parameter \<open>uuid\<close>.

  Parsed JSON has distinct keys, so an object is an association list that is only looked up. A
  number that is not an integer is \<open>JFrac\<close>, finite as every JSON number is.
\<close>

section \<open>JSON values\<close>

datatype json =
    JNull
  | JBool bool
  | JInt int
  | JFrac rat
  | JStr jsstr
  | JArr "json list"
  | JObj "(jsstr \<times> json) list"

definition MAX_SAFE_INTEGER :: int where
  "MAX_SAFE_INTEGER = 9007199254740991"

text \<open>\<^verbatim>\<open>z.object({...}).strict()\<close>: the members when every key is known.\<close>

definition strict_object :: "jsstr list \<Rightarrow> json \<Rightarrow> (jsstr \<rightharpoonup> json) option" where
  "strict_object keys j =
     (case j of
        JObj kvs \<Rightarrow> if list_all (\<lambda>(k, v). k \<in> set keys) kvs then Some (map_of kvs) else None
      | _ \<Rightarrow> None)"

fun as_string :: "json option \<Rightarrow> jsstr option" where
  "as_string (Some (JStr s)) = Some s"
| "as_string _ = None"

text \<open>\<^verbatim>\<open>z.number().int().nonnegative()\<close>; zod's integers are safe integers.\<close>

fun as_nonnegative :: "json option \<Rightarrow> nat option" where
  "as_nonnegative (Some (JInt i)) = (if 0 \<le> i \<and> i \<le> MAX_SAFE_INTEGER then Some (nat i) else None)"
| "as_nonnegative _ = None"

fun all_strings :: "json list \<Rightarrow> jsstr list option" where
  "all_strings [] = Some []"
| "all_strings (JStr s # js') = map_option (Cons s) (all_strings js')"
| "all_strings _ = None"

fun as_string_array :: "json option \<Rightarrow> jsstr list option" where
  "as_string_array (Some (JArr xs)) = all_strings xs"
| "as_string_array _ = None"

section \<open>The protected header\<close>

record protected_header =
  protocol :: "nat \<times> nat"
  vaultId :: ident
  fileId :: ident
  revisionId :: ident
  parentRevisionIds :: "ident list"
  expectedMemberId :: ident
  expectedDeviceId :: ident

text \<open>The refinements of the schema; the members that are literals carry no information.\<close>

fun ascending :: "ident list \<Rightarrow> bool" where
  "ascending (previous # current # rest) \<longleftrightarrow> \<not> previous > current \<and> ascending (current # rest)"
| "ascending _ \<longleftrightarrow> True"

definition parents_ok :: "(ident \<Rightarrow> bool) \<Rightarrow> ident list \<Rightarrow> bool" where
  "parents_ok uuid parents \<longleftrightarrow> list_all uuid parents \<and> length parents \<le> 32"

definition header_ok :: "(ident \<Rightarrow> bool) \<Rightarrow> protected_header \<Rightarrow> bool" where
  "header_ok uuid h \<longleftrightarrow>
     int (fst (protocol h)) \<le> MAX_SAFE_INTEGER \<and> int (snd (protocol h)) \<le> MAX_SAFE_INTEGER \<and>
     uuid (vaultId h) \<and> uuid (fileId h) \<and> uuid (revisionId h) \<and>
     uuid (expectedMemberId h) \<and> uuid (expectedDeviceId h) \<and>
     parents_ok uuid (parentRevisionIds h) \<and>
     distinct (parentRevisionIds h) \<and>
     revisionId h \<notin> set (parentRevisionIds h) \<and>
     ascending (parentRevisionIds h)"

definition parse_protocolVersion :: "json option \<Rightarrow> (nat \<times> nat) option" where
  "parse_protocolVersion j =
     Option.bind j (\<lambda>j. Option.bind (strict_object [js ''major'', js ''minor''] j) (\<lambda>m.
       Option.bind (as_nonnegative (m (js ''major''))) (\<lambda>major.
       Option.bind (as_nonnegative (m (js ''minor''))) (\<lambda>minor. Some (major, minor)))))"

definition semantics_json :: json where
  "semantics_json = JObj
     [(js ''payloadFormat'', JStr (js ''revision-payload-v1'')),
      (js ''syncSemantics'', JStr (js ''dag-cas-v1'')),
      (js ''provenanceRecipe'', JStr (js ''source-range-v1'')),
      (js ''pathNormalization'', JStr (js ''nfc-lowercase-v1''))]"

definition requiredSemantics :: "json option \<Rightarrow> bool" where
  "requiredSemantics j =
     (case Option.bind j (strict_object [js ''payloadFormat'', js ''syncSemantics'',
              js ''provenanceRecipe'', js ''pathNormalization'']) of
        None \<Rightarrow> False
      | Some m \<Rightarrow> m (js ''payloadFormat'') = Some (JStr (js ''revision-payload-v1'')) \<and>
                  m (js ''syncSemantics'') = Some (JStr (js ''dag-cas-v1'')) \<and>
                  m (js ''provenanceRecipe'') = Some (JStr (js ''source-range-v1'')) \<and>
                  m (js ''pathNormalization'') = Some (JStr (js ''nfc-lowercase-v1'')))"

definition header_keys :: "jsstr list" where
  "header_keys =
     [js ''protocol'', js ''vaultId'', js ''fileId'', js ''revisionId'', js ''parentRevisionIds'',
      js ''expectedMemberId'', js ''expectedDeviceId'', js ''payloadEncoding'', js ''semantics'']"

definition header_of_members :: "(jsstr \<rightharpoonup> json) \<Rightarrow> protected_header option" where
  "header_of_members m =
     Option.bind (parse_protocolVersion (m (js ''protocol''))) (\<lambda>p.
     Option.bind (as_string (m (js ''vaultId''))) (\<lambda>v.
     Option.bind (as_string (m (js ''fileId''))) (\<lambda>f.
     Option.bind (as_string (m (js ''revisionId''))) (\<lambda>r.
     Option.bind (as_string_array (m (js ''parentRevisionIds''))) (\<lambda>ps.
     Option.bind (as_string (m (js ''expectedMemberId''))) (\<lambda>mem.
     Option.bind (as_string (m (js ''expectedDeviceId''))) (\<lambda>dev.
       Some \<lparr>protocol = p, vaultId = v, fileId = f, revisionId = r, parentRevisionIds = ps,
             expectedMemberId = mem, expectedDeviceId = dev\<rparr>)))))))"

definition parse_header :: "(ident \<Rightarrow> bool) \<Rightarrow> json \<Rightarrow> protected_header option" where
  "parse_header uuid j =
     Option.bind (strict_object header_keys j) (\<lambda>m.
       if m (js ''payloadEncoding'') = Some (JStr (js ''plaintext-json-v1'')) \<and>
          requiredSemantics (m (js ''semantics''))
       then Option.bind (header_of_members m) (\<lambda>h. if header_ok uuid h then Some h else None)
       else None)"

text \<open>The JSON value of a header, as the client builds it and the server stores it.\<close>

definition header_json :: "protected_header \<Rightarrow> json" where
  "header_json h = JObj
     [(js ''protocol'', JObj [(js ''major'', JInt (int (fst (protocol h)))),
                              (js ''minor'', JInt (int (snd (protocol h))))]),
      (js ''vaultId'', JStr (vaultId h)),
      (js ''fileId'', JStr (fileId h)),
      (js ''revisionId'', JStr (revisionId h)),
      (js ''parentRevisionIds'', JArr (map JStr (parentRevisionIds h))),
      (js ''expectedMemberId'', JStr (expectedMemberId h)),
      (js ''expectedDeviceId'', JStr (expectedDeviceId h)),
      (js ''payloadEncoding'', JStr (js ''plaintext-json-v1'')),
      (js ''semantics'', semantics_json)]"

section \<open>The payload\<close>

datatype operation = InitialImport | Create | Update | Rename | Restore | Reconcile | Delete

fun content_operation :: "json option \<Rightarrow> operation option" where
  "content_operation (Some (JStr s)) =
     (if s = js ''initial-import'' then Some InitialImport
      else if s = js ''create'' then Some Create
      else if s = js ''update'' then Some Update
      else if s = js ''rename'' then Some Rename
      else if s = js ''restore'' then Some Restore
      else if s = js ''reconcile'' then Some Reconcile
      else None)"
| "content_operation _ = None"

datatype inner_payload =
    ContentPayload operation jsstr "jsstr option" jsstr jsstr
  | BinaryPayload operation jsstr "jsstr option" jsstr jsstr
  | Tombstone jsstr

fun payload_operation :: "inner_payload \<Rightarrow> operation" where
  "payload_operation (ContentPayload op _ _ _ _) = op"
| "payload_operation (BinaryPayload op _ _ _ _) = op"
| "payload_operation (Tombstone _) = Delete"

fun payload_path :: "inner_payload \<Rightarrow> jsstr" where
  "payload_path (ContentPayload _ p _ _ _) = p"
| "payload_path (BinaryPayload _ p _ _ _) = p"
| "payload_path (Tombstone p) = p"

fun payload_previous :: "inner_payload \<Rightarrow> jsstr option" where
  "payload_previous (ContentPayload _ _ q _ _) = q"
| "payload_previous (BinaryPayload _ _ q _ _) = q"
| "payload_previous (Tombstone _) = None"

definition usesLfLineEndings :: "jsstr \<Rightarrow> bool" where
  "usesLfLineEndings txt \<longleftrightarrow> 13 \<notin> set txt"

definition sha256_hex :: "jsstr \<Rightarrow> bool" where
  "sha256_hex s \<longleftrightarrow> length s = 64 \<and> list_all (\<lambda>c. (48 \<le> c \<and> c \<le> 57) \<or> (97 \<le> c \<and> c \<le> 102)) s"

definition base64_char :: "code_unit \<Rightarrow> bool" where
  "base64_char c \<longleftrightarrow>
     (0x41 \<le> c \<and> c \<le> 0x5A) \<or> (0x61 \<le> c \<and> c \<le> 0x7A) \<or> (0x30 \<le> c \<and> c \<le> 0x39) \<or> c = 0x2B \<or> c = 0x2F"

definition isCanonicalBase64 :: "jsstr \<Rightarrow> bool" where
  "isCanonicalBase64 value =
     (let len = length value
      in if len mod 4 \<noteq> 0 then False
         else
           (let bodyEnd = (if len > 0 \<and> value ! (len - 1) = 0x3D
                           then (if value ! (len - 2) = 0x3D then len - 2 else len - 1) else len)
            in list_all base64_char (take bodyEnd value)))"

definition canonical_path :: "(jsstr \<Rightarrow> jsstr) \<Rightarrow> (jsstr \<Rightarrow> jsstr) \<Rightarrow> jsstr \<Rightarrow> bool" where
  "canonical_path nfc lower path \<longleftrightarrow> canonicalizeVaultPath nfc lower path = Inr path"

text \<open>\<^verbatim>\<open>canonicalPathSchema\<close> and \<^verbatim>\<open>canonicalPathSchema.optional()\<close>\<close>

definition parse_path :: "(jsstr \<Rightarrow> jsstr) \<Rightarrow> (jsstr \<Rightarrow> jsstr) \<Rightarrow> json option \<Rightarrow> jsstr option" where
  "parse_path nfc lower j =
     Option.bind (as_string j) (\<lambda>p. if canonical_path nfc lower p then Some p else None)"

definition parse_optional_path :: "(jsstr \<Rightarrow> jsstr) \<Rightarrow> (jsstr \<Rightarrow> jsstr) \<Rightarrow> json option \<Rightarrow> jsstr option option" where
  "parse_optional_path nfc lower j =
     (case j of None \<Rightarrow> Some None | Some v \<Rightarrow> map_option Some (parse_path nfc lower (Some v)))"

text \<open>The refinement on \<^verbatim>\<open>previousPath\<close> that both content schemas share.\<close>

definition rename_ok :: "operation \<Rightarrow> jsstr \<Rightarrow> jsstr option \<Rightarrow> bool" where
  "rename_ok op path previousPath =
     (if op = Rename then (case previousPath of None \<Rightarrow> False | Some q \<Rightarrow> q \<noteq> path)
      else previousPath = None)"

definition parse_content_payload :: "(jsstr \<Rightarrow> jsstr) \<Rightarrow> (jsstr \<Rightarrow> jsstr) \<Rightarrow> json \<Rightarrow> inner_payload option" where
  "parse_content_payload nfc lower j =
     Option.bind (strict_object [js ''schemaVersion'', js ''operation'', js ''path'', js ''previousPath'',
         js ''content'', js ''plaintextHash'', js ''recipe''] j) (\<lambda>m.
     Option.bind (content_operation (m (js ''operation''))) (\<lambda>op.
     Option.bind (parse_path nfc lower (m (js ''path''))) (\<lambda>path.
     Option.bind (parse_optional_path nfc lower (m (js ''previousPath''))) (\<lambda>prev.
     Option.bind (as_string (m (js ''content''))) (\<lambda>content.
     Option.bind (as_string (m (js ''plaintextHash''))) (\<lambda>hash.
       if m (js ''schemaVersion'') = Some (JInt 1) \<and> usesLfLineEndings content \<and> sha256_hex hash \<and>
          rename_ok op path prev
       then Some (ContentPayload op path prev content hash) else None))))))"

definition parse_binary_payload :: "(jsstr \<Rightarrow> jsstr) \<Rightarrow> (jsstr \<Rightarrow> jsstr) \<Rightarrow> json \<Rightarrow> inner_payload option" where
  "parse_binary_payload nfc lower j =
     Option.bind (strict_object [js ''schemaVersion'', js ''operation'', js ''kind'', js ''path'',
         js ''previousPath'', js ''contentBase64'', js ''blobByteHash'', js ''recipe''] j) (\<lambda>m.
     Option.bind (content_operation (m (js ''operation''))) (\<lambda>op.
     Option.bind (parse_path nfc lower (m (js ''path''))) (\<lambda>path.
     Option.bind (parse_optional_path nfc lower (m (js ''previousPath''))) (\<lambda>prev.
     Option.bind (as_string (m (js ''contentBase64''))) (\<lambda>b64.
     Option.bind (as_string (m (js ''blobByteHash''))) (\<lambda>hash.
       if m (js ''schemaVersion'') = Some (JInt 1) \<and> m (js ''kind'') = Some (JStr (js ''binary'')) \<and>
          isCanonicalBase64 b64 \<and> sha256_hex hash \<and> rename_ok op path prev
       then Some (BinaryPayload op path prev b64 hash) else None))))))"

definition parse_tombstone_payload :: "(jsstr \<Rightarrow> jsstr) \<Rightarrow> (jsstr \<Rightarrow> jsstr) \<Rightarrow> json \<Rightarrow> inner_payload option" where
  "parse_tombstone_payload nfc lower j =
     Option.bind (strict_object [js ''schemaVersion'', js ''operation'', js ''path'', js ''content'',
         js ''plaintextHash'', js ''recipe''] j) (\<lambda>m.
     Option.bind (parse_path nfc lower (m (js ''path''))) (\<lambda>path.
       if m (js ''schemaVersion'') = Some (JInt 1) \<and>
          m (js ''operation'') = Some (JStr (js ''delete'')) \<and>
          m (js ''content'') = Some JNull \<and> m (js ''plaintextHash'') = Some JNull
       then Some (Tombstone path) else None))"

text \<open>\<^verbatim>\<open>z.union\<close> takes the first member that matches.\<close>

definition parse_payload :: "(jsstr \<Rightarrow> jsstr) \<Rightarrow> (jsstr \<Rightarrow> jsstr) \<Rightarrow> json \<Rightarrow> inner_payload option" where
  "parse_payload nfc lower j =
     (case parse_content_payload nfc lower j of
        Some p \<Rightarrow> Some p
      | None \<Rightarrow> (case parse_binary_payload nfc lower j of
                  Some p \<Rightarrow> Some p
                | None \<Rightarrow> parse_tombstone_payload nfc lower j))"

datatype validation_error =
    InvalidHeader | InvalidPayload | RootWithParent | RequiresParent | ReconcileParents

definition validateRevisionPayloadAgainstHeader ::
    "(ident \<Rightarrow> bool) \<Rightarrow> (jsstr \<Rightarrow> jsstr) \<Rightarrow> (jsstr \<Rightarrow> jsstr) \<Rightarrow> json \<Rightarrow> json \<Rightarrow>
     validation_error + protected_header \<times> inner_payload" where
  "validateRevisionPayloadAgainstHeader uuid nfc lower headerInput payloadInput =
     (case parse_header uuid headerInput of
        None \<Rightarrow> Inl InvalidHeader
      | Some header \<Rightarrow>
        (case parse_payload nfc lower payloadInput of
           None \<Rightarrow> Inl InvalidPayload
         | Some payload \<Rightarrow>
           (let op = payload_operation payload;
                isRootOperation = (op = Create \<or> op = InitialImport);
                parents = length (parentRevisionIds header)
            in if isRootOperation \<and> parents \<noteq> 0 then Inl RootWithParent
               else if \<not> isRootOperation \<and> parents = 0 then Inl RequiresParent
               else if op = Reconcile \<and> parents < 2 then Inl ReconcileParents
               else Inr (header, payload))))"

section \<open>Lemmas\<close>

lemma ascending_sorted: "ascending ps \<longleftrightarrow> sorted ps"
  by (induction ps rule: ascending.induct) (auto simp: not_less, force)

lemma header_ok_parents: "header_ok uuid h \<Longrightarrow> sorted_wrt (<) (parentRevisionIds h)"
  by (auto simp: header_ok_def ascending_sorted strict_sorted_iff)

lemma all_strings_map [simp]: "all_strings (map JStr xs) = Some xs"
  by (induction xs) auto

lemma parse_path_Some:
  "parse_path nfc lower j = Some p \<longleftrightarrow> j = Some (JStr p) \<and> canonical_path nfc lower p"
  by (cases j rule: as_string.cases) (auto simp: parse_path_def)

lemma parse_optional_path_Some:
  "parse_optional_path nfc lower j = Some q \<Longrightarrow> (\<forall>p. q = Some p \<longrightarrow> canonical_path nfc lower p)"
  by (auto simp: parse_optional_path_def parse_path_Some split: option.splits)

text \<open>What every accepted payload satisfies.\<close>

definition payload_ok :: "(jsstr \<Rightarrow> jsstr) \<Rightarrow> (jsstr \<Rightarrow> jsstr) \<Rightarrow> inner_payload \<Rightarrow> bool" where
  "payload_ok nfc lower p \<longleftrightarrow>
     canonical_path nfc lower (payload_path p) \<and>
     (\<forall>q. payload_previous p = Some q \<longrightarrow> canonical_path nfc lower q \<and> q \<noteq> payload_path p) \<and>
     (payload_operation p = Rename \<longleftrightarrow> payload_previous p \<noteq> None) \<and>
     (case p of ContentPayload op _ _ content hash \<Rightarrow> op \<noteq> Delete \<and> usesLfLineEndings content \<and> sha256_hex hash
      | BinaryPayload op _ _ b64 hash \<Rightarrow> op \<noteq> Delete \<and> isCanonicalBase64 b64 \<and> sha256_hex hash
      | Tombstone _ \<Rightarrow> True)"

lemma content_operation_not_Delete: "content_operation j = Some op \<Longrightarrow> op \<noteq> Delete"
  by (cases j rule: content_operation.cases) (auto split: if_splits)

lemma rename_ok_iff:
  "rename_ok op path prev \<longleftrightarrow> (op = Rename \<longleftrightarrow> prev \<noteq> None) \<and> (\<forall>q. prev = Some q \<longrightarrow> q \<noteq> path)"
  by (auto simp: rename_ok_def split: option.splits)

lemma parse_content_ok: "parse_content_payload nfc lower j = Some p \<Longrightarrow> payload_ok nfc lower p"
  by (auto simp: parse_content_payload_def bind_eq_Some_conv payload_ok_def parse_path_Some rename_ok_iff
      dest: content_operation_not_Delete parse_optional_path_Some split: if_splits)

lemma parse_binary_ok: "parse_binary_payload nfc lower j = Some p \<Longrightarrow> payload_ok nfc lower p"
  by (auto simp: parse_binary_payload_def bind_eq_Some_conv payload_ok_def parse_path_Some rename_ok_iff
      dest: content_operation_not_Delete parse_optional_path_Some split: if_splits)

lemma parse_tombstone_ok: "parse_tombstone_payload nfc lower j = Some p \<Longrightarrow> payload_ok nfc lower p"
  by (auto simp: parse_tombstone_payload_def bind_eq_Some_conv payload_ok_def parse_path_Some split: if_splits)

lemma parse_payload_ok: "parse_payload nfc lower j = Some p \<Longrightarrow> payload_ok nfc lower p"
  by (auto simp: parse_payload_def split: option.splits
      dest: parse_content_ok parse_binary_ok parse_tombstone_ok)

lemma parse_header_ok: "parse_header uuid j = Some h \<Longrightarrow> header_ok uuid h"
  by (auto simp: parse_header_def bind_eq_Some_conv split: if_splits)

lemma parse_header_json:
  "parse_header uuid (header_json h) = (if header_ok uuid h then Some h else None)"
proof -
  have keys: "strict_object header_keys (header_json h) = Some (map_of (case header_json h of JObj kvs \<Rightarrow> kvs | _ \<Rightarrow> []))"
    by (simp add: strict_object_def header_json_def header_keys_def)
  have ver: "parse_protocolVersion (Some (JObj [(js ''major'', JInt (int a)), (js ''minor'', JInt (int b))])) =
      (if int a \<le> MAX_SAFE_INTEGER \<and> int b \<le> MAX_SAFE_INTEGER then Some (a, b) else None)" for a b
    by (simp add: parse_protocolVersion_def strict_object_def js_def)
  have sem: "requiredSemantics (Some semantics_json)"
    by (simp add: requiredSemantics_def semantics_json_def strict_object_def js_def)
  show ?thesis
    unfolding parse_header_def keys bind.bind_lunit header_of_members_def
    by (cases h) (auto simp: header_json_def ver [unfolded js_def, simplified] sem js_def header_ok_def)
qed

section \<open>Properties\<close>

text \<open>
  A protected header survives the trip through JSON: parsing the JSON of a header gives the
  header back exactly when it satisfies the schema's refinements, and is refused otherwise.
\<close>

theorem header_json_roundtrip:
  "parse_header uuid (header_json h) = (if header_ok uuid h then Some h else None)"
  by (rule parse_header_json)

text \<open>
  C31. A revision that passes \<^verbatim>\<open>validateRevisionPayloadAgainstHeader\<close> is well formed: at most 32
  parents in strictly ascending order and never the revision itself; canonical paths only; a
  create or import has no parent, everything else has one and a reconcile two; exactly a rename
  has a previous path, and it differs from the new one.
\<close>

theorem validated_revision_well_formed:
  assumes "validateRevisionPayloadAgainstHeader uuid nfc lower hj pj = Inr (h, p)"
  shows "sorted_wrt (<) (parentRevisionIds h) \<and> length (parentRevisionIds h) \<le> 32 \<and>
    revisionId h \<notin> set (parentRevisionIds h) \<and> payload_ok nfc lower p \<and>
    (payload_operation p \<in> {Create, InitialImport} \<longleftrightarrow> parentRevisionIds h = []) \<and>
    (payload_operation p = Reconcile \<longrightarrow> length (parentRevisionIds h) \<ge> 2)"
proof -
  have h: "header_ok uuid h" and p: "payload_ok nfc lower p"
    using assms parse_header_ok parse_payload_ok
    by (auto simp: validateRevisionPayloadAgainstHeader_def Let_def split: option.splits if_splits)
  show ?thesis
    using assms p header_ok_parents [OF h] h
    by (auto simp: validateRevisionPayloadAgainstHeader_def Let_def header_ok_def parents_ok_def
        split: option.splits if_splits)
qed

theorem validated_revision_well_formed_witness:
  "payload_ok (\<lambda>s. s) ascii_lower (Tombstone (js ''a.md''))"
proof -
  let ?h = "\<lparr>protocol = (1, 0), vaultId = [1], fileId = [2], revisionId = [3], parentRevisionIds = [[4]],
    expectedMemberId = [5], expectedDeviceId = [6]\<rparr>"
  let ?p = "JObj [(js ''schemaVersion'', JInt 1), (js ''operation'', JStr (js ''delete'')),
    (js ''path'', JStr (js ''a.md'')), (js ''content'', JNull), (js ''plaintextHash'', JNull)]"
  have "canonical_path (\<lambda>s. s) ascii_lower (js ''a.md'')" by code_simp
  then have "parse_payload (\<lambda>s. s) ascii_lower ?p = Some (Tombstone (js ''a.md''))"
    by (simp add: parse_payload_def parse_content_payload_def parse_binary_payload_def
        parse_tombstone_payload_def strict_object_def parse_path_def js_def)
  moreover have "parse_header (\<lambda>s. True) (header_json ?h) = Some ?h"
    unfolding parse_header_json by (simp add: header_ok_def parents_ok_def MAX_SAFE_INTEGER_def)
  ultimately have "validateRevisionPayloadAgainstHeader (\<lambda>s. True) (\<lambda>s. s) ascii_lower (header_json ?h) ?p =
      Inr (?h, Tombstone (js ''a.md''))"
    by (simp add: validateRevisionPayloadAgainstHeader_def)
  then show ?thesis using validated_revision_well_formed by blast
qed

end
