(* ===== verification/OrderBatch.thy ===== *)
theory OrderBatch
  imports Schema "HOL-Library.Multiset"
begin

text \<open>
  The ordering of a pushed batch (\<^verbatim>\<open>orderBatch\<close> in \<^verbatim>\<open>apps/server/src/sync/sync-routes.ts\<close>): Kahn's
  algorithm over the parents that are in the batch themselves. It returns the batch with parents
  before children, and \<open>None\<close> exactly when an id occurs twice or the batch has a cycle.

  The JavaScript map \<^verbatim>\<open>inDegree\<close> is a function from ids to degrees; the one iteration over it is in
  insertion order, which is the order of the batch.
\<close>

section \<open>The algorithm\<close>

record revision_input =
  ri_header :: protected_header
  ri_idempotencyKey :: jsstr
  ri_payload :: "nat list"

abbreviation rid :: "revision_input \<Rightarrow> ident" where
  "rid r \<equiv> revisionId (ri_header r)"

abbreviation rparents :: "revision_input \<Rightarrow> ident list" where
  "rparents r \<equiv> parentRevisionIds (ri_header r)"

text \<open>The parents of \<open>r\<close> that are in the batch.\<close>

definition batch_parents :: "revision_input list \<Rightarrow> revision_input \<Rightarrow> ident list" where
  "batch_parents revisions r = filter (\<lambda>p. p \<in> set (map rid revisions)) (rparents r)"

definition children_of :: "revision_input list \<Rightarrow> ident \<Rightarrow> ident list" where
  "children_of revisions p =
     concat (map (\<lambda>r. map (\<lambda>_. rid r) (filter (\<lambda>q. q = p) (batch_parents revisions r))) revisions)"

text \<open>\<^verbatim>\<open>inDegree.get(id) ?? 0\<close> after the edges are counted.\<close>

definition initial_degree :: "revision_input list \<Rightarrow> ident \<Rightarrow> int" where
  "initial_degree revisions i =
     (case find (\<lambda>r. rid r = i) revisions of
        Some r \<Rightarrow> int (length (batch_parents revisions r)) | None \<Rightarrow> 0)"

text \<open>The inner loop over the children of the id that was taken.\<close>

fun relax :: "(ident \<Rightarrow> int) \<Rightarrow> ident list \<Rightarrow> ident list \<Rightarrow> (ident \<Rightarrow> int) \<times> ident list" where
  "relax inDegree ready [] = (inDegree, ready)"
| "relax inDegree ready (childId # rest) =
     (let next_degree = inDegree childId - 1
      in relax (inDegree(childId := next_degree))
           (if next_degree = 0 then ready @ [childId] else ready) rest)"

definition find_revision :: "revision_input list \<Rightarrow> ident \<Rightarrow> revision_input list" where
  "find_revision revisions i = (case find (\<lambda>r. rid r = i) revisions of Some r \<Rightarrow> [r] | None \<Rightarrow> [])"

lemma children_subset: "set (children_of revisions p) \<subseteq> rid ` set revisions"
  by (auto simp: children_of_def)

text \<open>The work that is left: every id enters \<open>ready\<close> at most once, when its degree drops to zero.\<close>

definition open_ids :: "ident set \<Rightarrow> (ident \<Rightarrow> int) \<Rightarrow> ident set" where
  "open_ids K f = {k \<in> K. f k > 0}"

lemma relax_measure:
  assumes "finite K" "set cs \<subseteq> K" "relax f ready cs = (f', ready')"
  shows "length ready' + card (open_ids K f') \<le> length ready + card (open_ids K f)"
  using assms(2,3)
proof (induction cs arbitrary: f ready)
  case (Cons c cs)
  let ?f = "f(c := f c - 1)"
  have rel: "relax ?f (if f c - 1 = 0 then ready @ [c] else ready) cs = (f', ready')"
    using Cons.prems(2) by (simp add: Let_def)
  have IH: "length ready' + card (open_ids K f') \<le>
      length (if f c - 1 = 0 then ready @ [c] else ready) + card (open_ids K ?f)"
    by (rule Cons.IH [OF _ rel]) (use Cons.prems(1) in simp)
  show ?case
  proof (cases "f c = 1")
    case True
    have "open_ids K ?f = open_ids K f - {c}" "c \<in> open_ids K f"
      using True Cons.prems(1) by (auto simp: open_ids_def)
    moreover have "finite (open_ids K f)" using assms(1) by (simp add: open_ids_def)
    ultimately have "Suc (card (open_ids K ?f)) = card (open_ids K f)" by (metis card.remove)
    then show ?thesis using IH True by simp
  next
    case False
    then have "open_ids K ?f = open_ids K f" by (auto simp: open_ids_def)
    then show ?thesis using IH False by simp
  qed
qed simp

function orderLoop :: "revision_input list \<Rightarrow> (ident \<Rightarrow> int) \<Rightarrow> ident list \<Rightarrow> revision_input list \<Rightarrow> revision_input list" where
  "orderLoop revisions inDegree [] ordered = ordered"
| "orderLoop revisions inDegree (i # ready) ordered =
     (case relax inDegree ready (children_of revisions i) of
        (inDegree', ready') \<Rightarrow>
          orderLoop revisions inDegree' ready' (ordered @ find_revision revisions i))"
  by pat_completeness auto
termination
proof (relation "measure (\<lambda>(revisions, f, ready, ordered).
    length ready + card (open_ids (rid ` set revisions) f))", goal_cases)
  case (2 revisions f i ready ordered f' ready')
  then have "length ready' + card (open_ids (rid ` set revisions) f') \<le>
      length ready + card (open_ids (rid ` set revisions) f)"
    by (intro relax_measure [OF _ children_subset]) auto
  then show ?case by simp
qed simp

definition orderBatch :: "revision_input list \<Rightarrow> revision_input list option" where
  "orderBatch revisions =
     (if \<not> distinct (map rid revisions) then None
      else
        (let ready = filter (\<lambda>i. initial_degree revisions i = 0) (map rid revisions);
             ordered = orderLoop revisions (initial_degree revisions) ready []
         in if length ordered = length revisions then Some ordered else None))"

section \<open>Correctness\<close>

text \<open>The edges of the batch that end in an unfinished parent, counted per child.\<close>

definition pending :: "revision_input list \<Rightarrow> ident set \<Rightarrow> ident \<Rightarrow> int" where
  "pending revisions finished i =
     (case find (\<lambda>r. rid r = i) revisions of
        Some r \<Rightarrow> int (length (filter (\<lambda>p. p \<notin> finished) (batch_parents revisions r))) | None \<Rightarrow> 0)"

lemma find_distinct:
  "distinct (map rid revisions) \<Longrightarrow> r \<in> set revisions \<Longrightarrow> find (\<lambda>x. rid x = rid r) revisions = Some r"
  by (induction revisions) auto

lemma find_no: "i \<notin> rid ` set revisions \<Longrightarrow> find (\<lambda>x. rid x = i) revisions = None"
  by (auto simp: find_None_iff)

lemma count_children:
  assumes "distinct (map rid revisions)" "r \<in> set revisions"
  shows "count_list (children_of revisions p) (rid r) = count_list (batch_parents revisions r) p"
proof -
  have one: "count_list (map (\<lambda>_. rid x) (filter (\<lambda>q. q = p) qs)) i = (if rid x = i then count_list qs p else 0)"
    for x i qs by (induction qs) auto
  have gen: "count_list (concat (map (\<lambda>x. map (\<lambda>_. rid x) (filter (\<lambda>q. q = p) (bp x))) xs)) (rid r) =
      (if r \<in> set xs then count_list (bp r) p else 0)" if "distinct (map rid xs)" "set xs \<subseteq> set revisions" for xs bp
    using that
  proof (induction xs)
    case (Cons x xs)
    have "rid x = rid r \<longleftrightarrow> x = r" using Cons.prems(2) assms by (auto simp: distinct_map dest: inj_onD)
    then show ?case using Cons by (auto simp: one)
  qed simp
  show ?thesis unfolding children_of_def using gen [OF assms(1) order_refl] assms(2) by simp
qed

lemma relax_degrees:
  "relax f ready cs = (f', ready') \<Longrightarrow> f' i = f i - int (count_list cs i)"
proof (induction cs arbitrary: f ready)
  case (Cons c cs)
  have "relax (f(c := f c - 1)) (if f c - 1 = 0 then ready @ [c] else ready) cs = (f', ready')"
    using Cons.prems by (simp add: Let_def)
  then have "f' i = (f(c := f c - 1)) i - int (count_list cs i)" by (rule Cons.IH)
  then show ?case by simp
qed simp

lemma relax_ready:
  assumes "relax f ready cs = (f', ready')" "\<forall>i \<in> set ready. f i \<le> 0" "distinct ready"
    and "\<forall>i. int (count_list cs i) \<le> max 0 (f i)"
  shows "distinct ready' \<and> set ready' = set ready \<union> {i \<in> set cs. f' i = 0} \<and> (\<forall>i \<in> set ready'. f' i \<le> 0)"
  using assms
proof (induction cs arbitrary: f ready)
  case (Cons c cs)
  let ?f = "f(c := f c - 1)" and ?r = "if f c - 1 = 0 then ready @ [c] else ready"
  have rel: "relax ?f ?r cs = (f', ready')" using Cons.prems(1) by (simp add: Let_def)
  have c: "f c \<ge> 1" "int (count_list cs c) \<le> f c - 1"
    using Cons.prems(4) [rule_format, of c] by auto
  have fresh: "c \<notin> set ready" using c Cons.prems(2) by force
  have "\<forall>i \<in> set ?r. ?f i \<le> 0" using Cons.prems(2) fresh by auto
  moreover have "distinct ?r" using Cons.prems(3) fresh by simp
  moreover have "\<forall>i. int (count_list cs i) \<le> max 0 (?f i)"
    using Cons.prems(4) c by (auto simp: max_def split: if_splits)
  ultimately have IH: "distinct ready' \<and> set ready' = set ?r \<union> {i \<in> set cs. f' i = 0} \<and> (\<forall>i \<in> set ready'. f' i \<le> 0)"
    by (rule Cons.IH [OF rel])
  have fc: "f' c = f c - 1 - int (count_list cs c)" using relax_degrees [OF rel, of c] by simp
  have "set ?r \<union> {i \<in> set cs. f' i = 0} = set ready \<union> {i \<in> set (c # cs). f' i = 0}"
  proof (cases "f c = 1")
    case True
    then have "count_list cs c = 0" using c(2) by simp
    then have "f' c = 0" using fc True by simp
    then show ?thesis using True by auto
  next
    case False
    have "c \<in> set cs" if "f' c = 0" using that fc False c by (metis count_notin diff_0_right of_nat_0 diff_eq_eq add_0)
    then show ?thesis using False by auto
  qed
  with IH show ?case by simp
qed auto

lemma pending_insert:
  assumes "distinct (map rid revisions)" "r \<in> set revisions" "i \<notin> D"
  shows "pending revisions (insert i D) (rid r) =
    pending revisions D (rid r) - int (count_list (children_of revisions i) (rid r))"
proof -
  have "length (filter (\<lambda>p. p \<notin> D) xs) = length (filter (\<lambda>p. p \<notin> insert i D) xs) + count_list xs i" for xs
    using assms(3) by (induction xs) auto
  then show ?thesis
    using count_children [OF assms(1,2)] find_distinct [OF assms(1,2)] by (simp add: pending_def)
qed

lemma pending_zero:
  assumes "distinct (map rid revisions)" "r \<in> set revisions"
  shows "pending revisions D (rid r) \<le> 0 \<longleftrightarrow> set (batch_parents revisions r) \<subseteq> D"
  using find_distinct [OF assms] by (auto simp: pending_def filter_empty_conv)

lemma pending_nonneg: "pending revisions D i \<ge> 0"
  by (simp add: pending_def split: option.splits)

definition order_inv :: "revision_input list \<Rightarrow> (ident \<Rightarrow> int) \<Rightarrow> ident list \<Rightarrow> revision_input list \<Rightarrow> bool" where
  "order_inv revisions f ready ordered \<longleftrightarrow>
     set ordered \<subseteq> set revisions \<and> distinct (map rid ordered @ ready) \<and> set ready \<subseteq> rid ` set revisions \<and>
     (\<forall>r \<in> set revisions. f (rid r) = pending revisions (rid ` set ordered) (rid r)) \<and>
     (\<forall>r \<in> set revisions. rid r \<in> set (map rid ordered @ ready) \<longleftrightarrow> f (rid r) = 0) \<and>
     (\<forall>xs r ys. ordered = xs @ r # ys \<longrightarrow> set (batch_parents revisions r) \<subseteq> rid ` set xs)"

lemma order_invD:
  assumes "order_inv revisions f ready ordered"
  shows "set ordered \<subseteq> set revisions" "distinct (map rid ordered @ ready)" "set ready \<subseteq> rid ` set revisions"
    "\<And>r. r \<in> set revisions \<Longrightarrow> f (rid r) = pending revisions (rid ` set ordered) (rid r)"
    "\<And>r. r \<in> set revisions \<Longrightarrow> rid r \<in> set (map rid ordered @ ready) \<longleftrightarrow> f (rid r) = 0"
    "\<And>xs r ys. ordered = xs @ r # ys \<Longrightarrow> set (batch_parents revisions r) \<subseteq> rid ` set xs"
  using assms unfolding order_inv_def by blast+

lemma order_inv_step:
  assumes dist: "distinct (map rid revisions)" and inv: "order_inv revisions f (i # ready) ordered"
    and rel: "relax f ready (children_of revisions i) = (f', ready')"
  shows "order_inv revisions f' ready' (ordered @ find_revision revisions i)"
proof -
  let ?D = "rid ` set ordered" and ?cs = "children_of revisions i"
  obtain r where r: "r \<in> set revisions" "rid r = i" using inv by (auto simp: order_inv_def)
  have find: "find_revision revisions i = [r]" using find_distinct [OF dist r(1)] r(2) by (simp add: find_revision_def)
  note f = order_invD(4) [OF inv] and zero = order_invD(5) [OF inv]
  have iD: "i \<notin> ?D" using order_invD(2) [OF inv] by auto
  have f': "f' (rid x) = pending revisions (insert i ?D) (rid x)" if "x \<in> set revisions" for x
    using relax_degrees [OF rel, of "rid x"] f [OF that] pending_insert [OF dist that iD] by simp
  have cs: "set ?cs \<subseteq> rid ` set revisions" by (rule children_subset)
  have bound: "int (count_list ?cs k) \<le> max 0 (f k)" for k
  proof (cases "k \<in> rid ` set revisions")
    case True
    then obtain x where x: "x \<in> set revisions" "k = rid x" by auto
    have "f' k \<ge> 0" using f' [OF x(1)] pending_nonneg x(2) by simp
    then show ?thesis using relax_degrees [OF rel, of k] by simp
  next
    case False
    then have "k \<notin> set ?cs" using cs by blast
    then show ?thesis by simp
  qed
  have ready0: "\<forall>k \<in> set ready. f k \<le> 0"
  proof
    fix k assume k: "k \<in> set ready"
    then obtain x where x: "x \<in> set revisions" "k = rid x" using inv by (auto simp: order_inv_def)
    then show "f k \<le> 0" using zero [OF x(1)] k by simp
  qed
  have "distinct ready" using inv by (simp add: order_inv_def)
  from relax_ready [OF rel ready0 this] bound have ready':
    "distinct ready'" "set ready' = set ready \<union> {k \<in> set ?cs. f' k = 0}" by auto
  have child_pos: "f k > 0" if "k \<in> set ?cs" for k
    using that bound [of k] count_list_0_iff [of ?cs k] by (auto simp: max_def split: if_splits)
  have "rid x \<in> set (map rid (ordered @ [r]) @ ready') \<longleftrightarrow> f' (rid x) = 0" if x: "x \<in> set revisions" for x
  proof -
    have "f' (rid x) = 0 \<longleftrightarrow> f (rid x) = 0 \<or> rid x \<in> set ?cs \<and> f' (rid x) = 0"
      using relax_degrees [OF rel, of "rid x"] f' [OF x] pending_nonneg count_list_0_iff [of ?cs "rid x"]
      by (smt (verit) of_nat_0_le_iff of_nat_0)
    then show ?thesis using zero [OF x] ready'(2) r(2) by auto
  qed
  moreover have "distinct (map rid (ordered @ [r]) @ ready')"
  proof -
    have "k \<notin> set ?cs" if "k \<in> set (map rid ordered @ i # ready)" "k \<in> rid ` set revisions" for k
      using that zero child_pos by fastforce
    moreover have "set (map rid ordered @ i # ready) \<subseteq> rid ` set revisions"
      using order_invD(1,3) [OF inv] by auto
    ultimately have "set (map rid ordered @ i # ready) \<inter> set ?cs = {}" by blast
    then show ?thesis using order_invD(2) [OF inv] ready' r(2) by auto
  qed
  moreover have "set (batch_parents revisions r) \<subseteq> ?D"
    using pending_zero [OF dist r(1), of ?D] f [OF r(1)] zero [OF r(1)] r(2) by simp
  then have "set (batch_parents revisions x) \<subseteq> rid ` set xs" if "ordered @ [r] = xs @ x # ys" for xs x ys
    using that order_invD(6) [OF inv, of xs x] by (cases ys rule: rev_cases) auto
  moreover have "set ready' \<subseteq> rid ` set revisions" using ready'(2) cs order_invD(3) [OF inv] by auto
  moreover have "set (ordered @ [r]) \<subseteq> set revisions" using order_invD(1) [OF inv] r(1) by simp
  moreover have "f' (rid x) = pending revisions (rid ` set (ordered @ [r])) (rid x)" if "x \<in> set revisions" for x
    using f' [OF that] r(2) by simp
  ultimately show ?thesis unfolding find order_inv_def by blast
qed

lemma orderLoop_inv:
  "distinct (map rid revisions) \<Longrightarrow> order_inv revisions f ready ordered \<Longrightarrow>
   \<exists>f'. order_inv revisions f' [] (orderLoop revisions f ready ordered)"
proof (induction revisions f ready ordered rule: orderLoop.induct)
  case (2 revisions f i ready ordered)
  obtain f' ready' where rel: "relax f ready (children_of revisions i) = (f', ready')" by fastforce
  then have "order_inv revisions f' ready' (ordered @ find_revision revisions i)"
    using order_inv_step "2.prems" by blast
  then show ?case using "2.IH" [OF rel [symmetric]] "2.prems"(1) rel by simp
qed auto

lemma order_inv_start:
  assumes "distinct (map rid revisions)"
  shows "order_inv revisions (initial_degree revisions) (filter (\<lambda>i. initial_degree revisions i = 0) (map rid revisions)) []"
proof -
  have "pending revisions {} = initial_degree revisions"
    by (auto simp: pending_def initial_degree_def fun_eq_iff split: option.splits)
  then show ?thesis using assms by (auto simp: order_inv_def)
qed

text \<open>In-batch edges, child to parent.\<close>

definition batch_edges :: "revision_input list \<Rightarrow> (ident \<times> ident) set" where
  "batch_edges revisions = {(rid r, p) |r p. r \<in> set revisions \<and> p \<in> set (batch_parents revisions r)}"

lemma finite_no_sink_cyclic:
  assumes "finite R" "R \<noteq> {}" "\<forall>x \<in> R. \<exists>y \<in> R. (x, y) \<in> E"
  shows "\<not> acyclic E"
proof
  assume "acyclic E"
  then have "acyclic (E \<inter> R \<times> R)" by (rule acyclic_subset) auto
  moreover have "finite (E \<inter> R \<times> R)" using assms(1) by simp
  ultimately have "wf ((E \<inter> R \<times> R)\<inverse>)" by (simp only: finite_acyclic_wf_converse)
  moreover obtain x where "x \<in> R" using assms(2) by blast
  ultimately have "\<exists>z \<in> R. \<forall>y. (y, z) \<in> (E \<inter> R \<times> R)\<inverse> \<longrightarrow> y \<notin> R"
    unfolding wf_eq_minimal by blast
  then show False using assms(3) by blast
qed

text \<open>The loop ends with the whole batch unless the batch has a cycle.\<close>

lemma orderLoop_complete:
  assumes dist: "distinct (map rid revisions)" and inv: "order_inv revisions f [] out"
    and acyclic: "acyclic (batch_edges revisions)"
  shows "set out = set revisions"
proof (rule ccontr)
  assume "set out \<noteq> set revisions"
  let ?R = "rid ` set revisions - rid ` set out"
  have sub: "set out \<subseteq> set revisions" using inv by (simp add: order_inv_def)
  have "?R \<noteq> {}"
    using \<open>set out \<noteq> set revisions\<close> sub dist inj_on_image_eq_iff [of rid "set revisions" "set out" "set revisions"]
    by (auto simp: distinct_map)
  moreover have "\<exists>y \<in> ?R. (x, y) \<in> batch_edges revisions" if x: "x \<in> ?R" for x
  proof -
    obtain r where r: "r \<in> set revisions" "x = rid r" using x by auto
    have "f (rid r) \<noteq> 0" using order_invD(5) [OF inv r(1)] r x by simp
    then have "\<not> set (batch_parents revisions r) \<subseteq> rid ` set out"
      using order_invD(4) [OF inv r(1)] pending_zero [OF dist r(1), of "rid ` set out"]
        pending_nonneg [of revisions "rid ` set out" "rid r"] by simp
    then obtain p where p: "p \<in> set (batch_parents revisions r)" "p \<notin> rid ` set out" by auto
    then have "p \<in> ?R" by (auto simp: batch_parents_def)
    moreover have "(x, p) \<in> batch_edges revisions" using p r by (auto simp: batch_edges_def)
    ultimately show ?thesis by blast
  qed
  moreover have "finite ?R" by simp
  ultimately show False using finite_no_sink_cyclic [of ?R "batch_edges revisions"] acyclic by simp
qed

lemma takeWhile_stop: "\<not> P x \<Longrightarrow> length (takeWhile P (xs @ x # ys)) \<le> length xs"
  by (induction xs) auto

lemma order_inv_acyclic:
  assumes inv: "order_inv revisions f [] out" and all: "set out = set revisions"
  shows "acyclic (batch_edges revisions)"
proof (rule acyclicI_order [where f = "\<lambda>i. length (takeWhile (\<lambda>r. rid r \<noteq> i) out)"])
  fix a b assume "(a, b) \<in> batch_edges revisions"
  then obtain r where r: "r \<in> set out" "a = rid r" "b \<in> set (batch_parents revisions r)"
    using all by (auto simp: batch_edges_def)
  obtain xs ys where out: "out = xs @ r # ys" using split_list [OF r(1)] by blast
  have "b \<in> rid ` set xs" using order_invD(6) [OF inv out] r(3) by blast
  then obtain us q vs where xs: "xs = us @ q # vs" "rid q = b" by (metis imageE split_list)
  have "length (takeWhile (\<lambda>r. rid r \<noteq> b) out) \<le> length us"
    using takeWhile_stop [of "\<lambda>r. rid r \<noteq> b" q us "vs @ r # ys"] xs out by simp
  moreover have "\<forall>x \<in> set xs. rid x \<noteq> a" using order_invD(2) [OF inv] out r(2) by (auto simp: image_iff)
  then have "takeWhile (\<lambda>r. rid r \<noteq> a) out = xs" using out r(2) by (simp add: takeWhile_tail)
  ultimately show "length (takeWhile (\<lambda>r. rid r \<noteq> b) out) < length (takeWhile (\<lambda>r. rid r \<noteq> a) out)"
    using xs by simp
qed

lemma orderBatch_ordered:
  assumes "orderBatch revisions = Some out"
  shows "mset out = mset revisions \<and>
    (\<forall>xs r ys. out = xs @ r # ys \<longrightarrow> set (rparents r) \<inter> rid ` set revisions \<subseteq> rid ` set xs)"
proof -
  have dist: "distinct (map rid revisions)" and len: "length out = length revisions"
    and out: "out = orderLoop revisions (initial_degree revisions)
      (filter (\<lambda>i. initial_degree revisions i = 0) (map rid revisions)) []"
    using assms by (auto simp: orderBatch_def Let_def split: if_splits)
  obtain f where inv: "order_inv revisions f [] out"
    using orderLoop_inv [OF dist order_inv_start [OF dist]] out by blast
  have sub: "set out \<subseteq> set revisions" and d: "distinct out"
    using inv by (auto simp: order_inv_def distinct_map)
  have dr: "distinct revisions" using dist by (simp add: distinct_map)
  have "card (set out) = card (set revisions)"
    using d dr len by (simp add: distinct_card)
  then have "set out = set revisions" using sub by (simp add: card_subset_eq)
  then have "mset out = mset revisions" using d dr by (simp add: set_eq_iff_mset_eq_distinct)
  moreover have "set (rparents r) \<inter> rid ` set revisions \<subseteq> rid ` set xs" if "out = xs @ r # ys" for xs r ys
    using order_invD(6) [OF inv that] by (auto simp: batch_parents_def)
  ultimately show ?thesis by blast
qed

lemma orderBatch_mset: "orderBatch revisions = Some out \<Longrightarrow> mset out = mset revisions"
  using orderBatch_ordered by blast

section \<open>Properties\<close>

text \<open>
  What \<^verbatim>\<open>orderBatch\<close> returns is the whole batch, each revision once, with every parent that is in
  the batch before its child.
\<close>

theorem orderBatch_sound:
  assumes "orderBatch revisions = Some out"
  shows "mset out = mset revisions \<and>
    (\<forall>xs r ys. out = xs @ r # ys \<longrightarrow> set (rparents r) \<inter> rid ` set revisions \<subseteq> rid ` set xs)"
  using orderBatch_ordered [OF assms] .

definition ex_revision :: "ident \<Rightarrow> ident list \<Rightarrow> revision_input" where
  "ex_revision i ps = \<lparr>ri_header = \<lparr>protocol = (1, 0), vaultId = [8], fileId = [9], revisionId = i,
     parentRevisionIds = ps, expectedMemberId = [6], expectedDeviceId = [5]\<rparr>, ri_idempotencyKey = i, ri_payload = []\<rparr>"

theorem orderBatch_sound_witness:
  "orderBatch [ex_revision [2] [[1]], ex_revision [1] [[7]]] = Some [ex_revision [1] [[7]], ex_revision [2] [[1]]]
   \<and> mset [ex_revision [1] [[7]], ex_revision [2] [[1]]] = mset [ex_revision [2] [[1]], ex_revision [1] [[7]]]"
proof -
  have "orderBatch [ex_revision [2] [[1]], ex_revision [1] [[7]]] = Some [ex_revision [1] [[7]], ex_revision [2] [[1]]]"
    by code_simp
  then show ?thesis using orderBatch_sound by blast
qed

text \<open>
  \<^verbatim>\<open>orderBatch\<close> orders a batch exactly when no id occurs twice and the parents inside the batch
  form no cycle; every other batch gives \<^verbatim>\<open>null\<close>.
\<close>

theorem orderBatch_accepts_exactly:
  "orderBatch revisions \<noteq> None \<longleftrightarrow> distinct (map rid revisions) \<and> acyclic (batch_edges revisions)"
proof (cases "distinct (map rid revisions)")
  case dist: True
  let ?out = "orderLoop revisions (initial_degree revisions)
      (filter (\<lambda>i. initial_degree revisions i = 0) (map rid revisions)) []"
  obtain f where inv: "order_inv revisions f [] ?out"
    using orderLoop_inv [OF dist order_inv_start [OF dist]] by blast
  have d: "distinct ?out" "set ?out \<subseteq> set revisions" using inv by (auto simp: order_inv_def distinct_map)
  have dr: "distinct revisions" using dist by (simp add: distinct_map)
  have len: "length ?out = length revisions \<longleftrightarrow> set ?out = set revisions"
    using d dr by (metis card_subset_eq distinct_card finite_set)
  have "acyclic (batch_edges revisions)" if "set ?out = set revisions"
    using order_inv_acyclic [OF inv that] .
  then show ?thesis
    using orderLoop_complete [OF dist inv] len dist by (auto simp: orderBatch_def Let_def)
qed (simp add: orderBatch_def)

end
