(* ===== verification/Base64.thy ===== *)
theory Base64
  imports Schema
begin

text \<open>
  Base64 (\<^verbatim>\<open>packages/protocol/src/base64.ts\<close>): the encoder and the sliced decoder of the client, over
  models of the platform functions \<^verbatim>\<open>btoa\<close> and \<^verbatim>\<open>atob\<close>, and the decoder \<^verbatim>\<open>Buffer.from(_, 'base64')\<close>
  the server uses. Binary strings and byte arrays are both lists of numbers below 256.
\<close>

section \<open>The alphabet\<close>

definition b64_char :: "nat \<Rightarrow> code_unit" where
  "b64_char v =
     (if v < 26 then 0x41 + v else if v < 52 then 0x61 + (v - 26) else if v < 62 then 0x30 + (v - 52)
      else if v = 62 then 0x2B else 0x2F)"

definition b64_value :: "code_unit \<Rightarrow> nat" where
  "b64_value c =
     (if 0x41 \<le> c \<and> c \<le> 0x5A then c - 0x41 else if 0x61 \<le> c \<and> c \<le> 0x7A then c - 0x61 + 26
      else if 0x30 \<le> c \<and> c \<le> 0x39 then c - 0x30 + 52 else if c = 0x2B then 62 else 63)"

lemma b64_value_char [simp]: "v < 64 \<Longrightarrow> b64_value (b64_char v) = v"
  by (auto simp: b64_value_def b64_char_def)

lemma base64_char_b64_char [simp]: "v < 64 \<Longrightarrow> base64_char (b64_char v)"
  by (auto simp: base64_char_def b64_char_def)

lemma not_base64_char_pad [simp]: "\<not> base64_char 0x3D"
  by (simp add: base64_char_def)

section \<open>The platform functions\<close>

datatype codec_error = InvalidCharacterError

fun encode_groups :: "nat list \<Rightarrow> jsstr" where
  "encode_groups [] = []"
| "encode_groups [x] = [b64_char (x div 4), b64_char (x mod 4 * 16), 0x3D, 0x3D]"
| "encode_groups [x, y] =
     [b64_char (x div 4), b64_char (x mod 4 * 16 + y div 16), b64_char (y mod 16 * 4), 0x3D]"
| "encode_groups (x # y # z # rest) =
     b64_char (x div 4) # b64_char (x mod 4 * 16 + y div 16) # b64_char (y mod 16 * 4 + z div 64) #
     b64_char (z mod 64) # encode_groups rest"

definition btoa :: "jsstr \<Rightarrow> codec_error + jsstr" where
  "btoa binary = (if list_all (\<lambda>c. c < 256) binary then Inr (encode_groups binary) else Inl InvalidCharacterError)"

text \<open>Sextets to bytes; the bits a short last group does not fill are dropped.\<close>

fun decode_groups :: "nat list \<Rightarrow> nat list" where
  "decode_groups (a # b # c # d # rest) =
     (a * 4 + b div 16) # (b mod 16 * 16 + c div 4) # (c mod 4 * 64 + d) # decode_groups rest"
| "decode_groups [a, b, c] = [a * 4 + b div 16, b mod 16 * 16 + c div 4]"
| "decode_groups [a, b] = [a * 4 + b div 16]"
| "decode_groups _ = []"

definition ascii_whitespace :: "code_unit \<Rightarrow> bool" where
  "ascii_whitespace c \<longleftrightarrow> c \<in> {9, 10, 12, 13, 32}"

definition strip_padding :: "jsstr \<Rightarrow> jsstr" where
  "strip_padding s =
     (let n = length s
      in if n mod 4 = 0 \<and> n > 0 \<and> s ! (n - 1) = 0x3D
         then (if s ! (n - 2) = 0x3D then take (n - 2) s else take (n - 1) s) else s)"

definition atob :: "jsstr \<Rightarrow> codec_error + jsstr" where
  "atob s =
     (let t = strip_padding (filter (\<lambda>c. \<not> ascii_whitespace c) s)
      in if length t mod 4 = 1 \<or> \<not> list_all base64_char t then Inl InvalidCharacterError
         else Inr (decode_groups (map b64_value t)))"

text \<open>\<^verbatim>\<open>Buffer.from(s, 'base64')\<close> on what the request schema lets through: characters, then padding.\<close>

definition bufferFromBase64 :: "jsstr \<Rightarrow> nat list" where
  "bufferFromBase64 s = decode_groups (map b64_value (takeWhile base64_char s))"

section \<open>The client's codec\<close>

definition ENCODE_SLICE :: nat where "ENCODE_SLICE = 8192"

definition DECODE_SLICE :: nat where "DECODE_SLICE = 4 * 8192"

function encodeLoop :: "nat list \<Rightarrow> nat \<Rightarrow> jsstr \<Rightarrow> jsstr" where
  "encodeLoop bytes offset binary =
     (if offset < length bytes
      then encodeLoop bytes (offset + ENCODE_SLICE) (binary @ take ENCODE_SLICE (drop offset bytes))
      else binary)"
  by auto
termination
  by (relation "measure (\<lambda>(bytes, offset, _). length bytes - offset)") (auto simp: ENCODE_SLICE_def)

definition bytesToBase64 :: "nat list \<Rightarrow> codec_error + jsstr" where
  "bytesToBase64 bytes = btoa (encodeLoop bytes 0 [])"

text \<open>The inner loop; a write outside a typed array is ignored.\<close>

fun storeBytes :: "nat list \<Rightarrow> nat \<Rightarrow> jsstr \<Rightarrow> nat list" where
  "storeBytes bytes index [] = bytes"
| "storeBytes bytes index (c # binary) = storeBytes (bytes[index := c]) (index + 1) binary"

function decodeLoop :: "jsstr \<Rightarrow> nat \<Rightarrow> nat \<Rightarrow> nat list \<Rightarrow> codec_error + nat list" where
  "decodeLoop base64 offset written bytes =
     (if offset < length base64
      then bind_result (atob (take DECODE_SLICE (drop offset base64))) (\<lambda>binary.
             decodeLoop base64 (offset + DECODE_SLICE) (written + length binary) (storeBytes bytes written binary))
      else Inr bytes)"
  by auto
termination
  by (relation "measure (\<lambda>(base64, offset, _, _). length base64 - offset)") (auto simp: DECODE_SLICE_def)

declare encodeLoop.simps [simp del] decodeLoop.simps [simp del]

definition base64_padding :: "jsstr \<Rightarrow> nat" where
  "base64_padding s = (if suffix [0x3D, 0x3D] s then 2 else if suffix [0x3D] s then 1 else 0)"

definition base64ToBytes :: "jsstr \<Rightarrow> codec_error + nat list" where
  "base64ToBytes base64 =
     decodeLoop base64 0 0 (replicate ((length base64 - base64_padding base64) * 3 div 4) 0)"

section \<open>The encoder\<close>

lemma encodeLoop_eq: "encodeLoop bytes offset binary = binary @ drop offset bytes"
proof (induction bytes offset binary rule: encodeLoop.induct)
  case (1 bytes offset binary)
  show ?case
    by (subst encodeLoop.simps) (simp add: "1.IH", metis add.commute append_take_drop_id drop_drop)
qed

lemma bytesToBase64_eq:
  "\<forall>b \<in> set bytes. b < 256 \<Longrightarrow> bytesToBase64 bytes = Inr (encode_groups bytes)"
  by (simp add: bytesToBase64_def btoa_def encodeLoop_eq list_all_iff)

lemma byte_div:
  "x < 256 \<Longrightarrow> x div 4 < (64::nat)" "x < 256 \<Longrightarrow> x div 16 < (16::nat)" "x < 256 \<Longrightarrow> x div 64 < (4::nat)"
  by (simp_all add: less_mult_imp_div_less)

lemma sextets_less:
  "y < 256 \<Longrightarrow> x mod 4 * 16 + y div 16 < (64::nat)" "z < 256 \<Longrightarrow> y mod 16 * 4 + z div 64 < (64::nat)"
  "x mod 4 * 16 < (64::nat)" "y mod 16 * 4 < (64::nat)"
  using byte_div(2) [of y] byte_div(3) [of z] mod_less_divisor [of 4 x] mod_less_divisor [of 16 y] by simp_all

lemma sextets_bytes:
  "y < 256 \<Longrightarrow> x div 4 * 4 + (x mod 4 * 16 + y div 16) div 16 = (x::nat)"
  "y < 256 \<Longrightarrow> z < 256 \<Longrightarrow> (x mod 4 * 16 + y div 16) mod 16 * 16 + (y mod 16 * 4 + z div 64) div 4 = (y::nat)"
  "z < 256 \<Longrightarrow> (y mod 16 * 4 + z div 64) mod 4 * 64 + z mod 64 = (z::nat)"
  "x div 4 * 4 + x mod 4 * 16 div 16 = (x::nat)"
  "y < 256 \<Longrightarrow> (x mod 4 * 16 + y div 16) mod 16 * 16 + y mod 16 * 4 div 4 = (y::nat)"
  by (simp_all add: byte_div)

text \<open>What the encoder writes: alphabet characters, then at most two pads, in groups of four.\<close>

lemma encode_shape:
  assumes "\<forall>b \<in> set bytes. b < 256"
  shows "\<exists>body pad. encode_groups bytes = body @ replicate pad 0x3D \<and> pad \<le> 2 \<and> list_all base64_char body \<and>
    (length body + pad) mod 4 = 0 \<and> decode_groups (map b64_value body) = bytes"
  using assms
proof (induction bytes rule: encode_groups.induct)
  case (2 x)
  then show ?case
    by (intro exI [of _ "[b64_char (x div 4), b64_char (x mod 4 * 16)]"] exI [of _ 2])
      (simp add: byte_div sextets_less sextets_bytes numeral_2_eq_2)
next
  case (3 x y)
  then show ?case
    by (intro exI [of _ "[b64_char (x div 4), b64_char (x mod 4 * 16 + y div 16), b64_char (y mod 16 * 4)]"] exI [of _ 1])
      (simp add: byte_div sextets_less sextets_bytes)
next
  case (4 x y z rest)
  then obtain body pad where IH: "encode_groups rest = body @ replicate pad 0x3D" "pad \<le> 2" "list_all base64_char body"
    "(length body + pad) mod 4 = 0" "decode_groups (map b64_value body) = rest" by auto
  have b: "x < 256" "y < 256" "z < 256" using "4.prems" by auto
  let ?g = "[b64_char (x div 4), b64_char (x mod 4 * 16 + y div 16), b64_char (y mod 16 * 4 + z div 64), b64_char (z mod 64)]"
  have "(length (?g @ body) + pad) mod 4 = 0" using IH(4) by simp
  then show ?case using IH b
    by (intro exI [of _ "?g @ body"] exI [of _ pad]) (simp add: byte_div sextets_less sextets_bytes)
qed (intro exI [of _ "[]"] exI [of _ 0], simp)

section \<open>The decoders on padded text\<close>

lemma replicate_pad_cases: "pad \<le> 2 \<Longrightarrow> pad = 0 \<or> pad = 1 \<or> pad = (2::nat)"
  by auto

lemma last_not_pad: "list_all base64_char body \<Longrightarrow> body \<noteq> [] \<Longrightarrow> body ! (length body - 1) \<noteq> 0x3D"
  by (metis list_all_length length_greater_0_conv diff_less zero_less_one not_base64_char_pad)

lemma strip_padding_body:
  assumes "list_all base64_char body" "pad \<le> 2" "(length body + pad) mod 4 = 0"
  shows "strip_padding (body @ replicate pad 0x3D) = body"
proof -
  consider "pad = 0" | "pad = 1" "body \<noteq> []" | "pad = 2" using assms(3) replicate_pad_cases [OF assms(2)] by (cases "body = []") auto
  then show ?thesis
  proof cases
    case 1 then show ?thesis using assms last_not_pad [of body] by (auto simp: strip_padding_def Let_def)
  next
    case 2
    then have "(body @ [0x3D]) ! (length body - Suc 0) \<noteq> 0x3D"
      using last_not_pad [OF assms(1)] by (simp add: nth_append)
    then show ?thesis using 2 assms(3) by (simp add: strip_padding_def Let_def nth_append)
  next
    case 3 then show ?thesis using assms(3) by (simp add: strip_padding_def Let_def nth_append numeral_2_eq_2)
  qed
qed

lemma no_whitespace:
  "list_all base64_char body \<Longrightarrow> filter (\<lambda>c. \<not> ascii_whitespace c) (body @ replicate pad 0x3D) = body @ replicate pad 0x3D"
  by (auto simp: filter_id_conv list_all_iff ascii_whitespace_def base64_char_def)

lemma atob_body:
  assumes "list_all base64_char body" "pad \<le> 2" "(length body + pad) mod 4 = 0"
  shows "atob (body @ replicate pad 0x3D) = Inr (decode_groups (map b64_value body))"
proof -
  have "length body mod 4 \<noteq> 1" using assms(2,3) by presburger
  then show ?thesis
    unfolding atob_def no_whitespace [OF assms(1)] strip_padding_body [OF assms] using assms(1) by simp
qed

lemma bufferFromBase64_body:
  assumes "list_all base64_char body"
  shows "bufferFromBase64 (body @ replicate pad 0x3D) = decode_groups (map b64_value body)"
proof -
  have "takeWhile base64_char (body @ replicate pad 0x3D) = body"
    using assms by (cases pad) (auto simp: takeWhile_append list_all_iff intro: takeWhile_eq_all_conv [THEN iffD2])
  then show ?thesis by (simp add: bufferFromBase64_def)
qed

lemma isCanonicalBase64_strip: "isCanonicalBase64 s \<longleftrightarrow> length s mod 4 = 0 \<and> list_all base64_char (strip_padding s)"
  by (simp add: isCanonicalBase64_def strip_padding_def Let_def)

text \<open>\<^verbatim>\<open>isCanonicalBase64\<close> accepts exactly the texts of this shape.\<close>

lemma isCanonicalBase64_body:
  "isCanonicalBase64 s \<longleftrightarrow> (\<exists>body pad. s = body @ replicate pad 0x3D \<and> pad \<le> 2 \<and> list_all base64_char body \<and>
    (length body + pad) mod 4 = 0)"
  (is "_ \<longleftrightarrow> ?R")
proof
  assume c: "isCanonicalBase64 s"
  then have len: "length s mod 4 = 0" and body: "list_all base64_char (strip_padding s)"
    by (simp_all add: isCanonicalBase64_strip)
  show ?R
  proof (cases s rule: rev_cases)
    case (snoc t x)
    then have "t \<noteq> []" using len by auto
    then obtain u y where t: "t = u @ [y]" by (cases t rule: rev_cases) auto
    consider "x \<noteq> 0x3D" | "x = 0x3D" "y \<noteq> 0x3D" | "x = 0x3D" "y = 0x3D" by blast
    then show ?thesis
    proof cases
      case 1
      then have "strip_padding s = s" using snoc by (simp add: strip_padding_def Let_def nth_append)
      then show ?thesis using len body by (intro exI [of _ s] exI [of _ 0]) simp
    next
      case 2
      then have "strip_padding s = t" using snoc t len by (simp add: strip_padding_def Let_def nth_append)
      then show ?thesis using len body snoc 2 by (intro exI [of _ t] exI [of _ 1]) simp
    next
      case 3
      then have "strip_padding s = u" using snoc t len by (simp add: strip_padding_def Let_def nth_append)
      then show ?thesis using len body snoc t 3 by (intro exI [of _ u] exI [of _ 2]) (simp add: numeral_2_eq_2)
    qed
  qed (intro exI [of _ "[]"] exI [of _ 0], simp)
next
  assume ?R
  then obtain body pad where s: "s = body @ replicate pad 0x3D" "pad \<le> 2" "list_all base64_char body"
    "(length body + pad) mod 4 = 0" by auto
  then show "isCanonicalBase64 s"
    using strip_padding_body [OF s(3,2,4)] by (simp add: isCanonicalBase64_strip)
qed

section \<open>The sliced decoder\<close>

lemma decode_groups_append:
  "length u mod 4 = 0 \<Longrightarrow> decode_groups (u @ v) = decode_groups u @ decode_groups v"
proof (induction u rule: decode_groups.induct)
  case (1 a b c d rest)
  then have "length rest mod 4 = 0" by simp
  then show ?case using 1 by simp
qed auto

lemma length_decode_groups: "length (decode_groups u) = length u * 3 div 4"
  by (induction u rule: decode_groups.induct) auto

lemma storeBytes_eq:
  "written + length binary \<le> length bytes \<Longrightarrow>
   storeBytes bytes written binary = take written bytes @ binary @ drop (written + length binary) bytes"
proof (induction binary arbitrary: bytes written)
  case (Cons c binary)
  have "take (Suc written) (bytes[written := c]) = take written bytes @ [c]"
    using Cons.prems by (simp add: take_Suc_conv_app_nth)
  then show ?case using Cons by (simp add: drop_update_cancel)
qed simp

text \<open>
  The loop invariant: at a slice boundary the sextets before it are decoded into the front of the
  array, the rest of the array has the room the remaining text needs.
\<close>

lemma decodeLoop_eq:
  assumes "s = pre @ body @ replicate pad 0x3D" "list_all base64_char body" "pad \<le> 2"
    and "length pre mod 4 = 0" "(length body + pad) mod 4 = 0"
    and "length zs = length body * 3 div 4"
  shows "decodeLoop s (length pre) (length out) (out @ zs) = Inr (out @ decode_groups (map b64_value body))"
  using assms
proof (induction "length body" arbitrary: pre body out zs rule: less_induct)
  case less
  let ?rest = "body @ replicate pad 0x3D"
  have drop: "drop (length pre) s = ?rest" using less.prems(1) by simp
  show ?case
  proof (cases "DECODE_SLICE < length ?rest")
    case False
    have "decodeLoop s (length pre + DECODE_SLICE) w bytes = Inr bytes" for w bytes
      using False less.prems(1) by (subst decodeLoop.simps) simp
    then show ?thesis
    proof (cases "?rest = []")
      case True
      then show ?thesis using less.prems by (subst decodeLoop.simps) simp
    next
      case nonempty: False
      have "take DECODE_SLICE ?rest = ?rest" using False by simp
      then show ?thesis
        using nonempty less.prems atob_body [OF less.prems(2,3,5)]
          \<open>\<And>w bytes. decodeLoop s (length pre + DECODE_SLICE) w bytes = Inr bytes\<close>
        by (subst decodeLoop.simps)
          (auto simp: drop bind_result.simps storeBytes_eq length_decode_groups)
    qed
  next
    case True
    have pad: "DECODE_SLICE \<le> length body"
    proof -
      have "DECODE_SLICE + 4 \<le> length ?rest"
        using True less.prems(5) by (simp add: DECODE_SLICE_def) presburger
      then show ?thesis using less.prems(3) by simp
    qed
    let ?u = "take DECODE_SLICE body" and ?v = "drop DECODE_SLICE body"
    have u: "length ?u = DECODE_SLICE" "length ?u mod 4 = 0" using pad by (simp_all add: DECODE_SLICE_def)
    have allu: "list_all base64_char ?u" "list_all base64_char ?v"
      using less.prems(2) by (auto simp: list_all_iff dest: in_set_takeD in_set_dropD)
    let ?d = "decode_groups (map b64_value ?u)"
    have len_d: "length ?d = DECODE_SLICE * 3 div 4" using u by (simp add: length_decode_groups)
    have slice: "atob (take DECODE_SLICE ?rest) = Inr ?d"
      using atob_body [OF allu(1), of 0] u pad by simp
    have room: "length ?d \<le> length zs"
      using less.prems(6) pad len_d by (simp add: div_le_mono)
    have zs: "length (drop (length ?d) zs) = length ?v * 3 div 4"
    proof -
      obtain n where n: "length body = DECODE_SLICE + n" using pad by (auto simp: le_iff_add)
      show ?thesis unfolding length_drop len_d less.prems(6) n by (simp add: DECODE_SLICE_def)
    qed
    have "decodeLoop s (length (pre @ ?u)) (length (out @ ?d)) ((out @ ?d) @ drop (length ?d) zs) =
        Inr ((out @ ?d) @ decode_groups (map b64_value ?v))"
    proof (rule less.hyps)
      show "length ?v < length body" using pad by (simp add: DECODE_SLICE_def)
      show "s = (pre @ ?u) @ ?v @ replicate pad 0x3D" using less.prems(1) by simp
      show "length (pre @ ?u) mod 4 = 0" using less.prems(4) pad by (simp add: DECODE_SLICE_def flip: mod_add_left_eq)
      show "(length ?v + pad) mod 4 = 0" using less.prems(5) pad by (simp add: DECODE_SLICE_def) presburger
    qed (use allu less.prems(3) zs in auto)
    moreover have "decode_groups (map b64_value body) = ?d @ decode_groups (map b64_value ?v)"
      using decode_groups_append [of "map b64_value ?u" "map b64_value ?v"] u
      by (metis append_take_drop_id length_map map_append)
    moreover have "storeBytes (out @ zs) (length out) ?d = (out @ ?d) @ drop (length ?d) zs"
      using room by (simp add: storeBytes_eq)
    moreover have "body \<noteq> []" using pad by (auto simp: DECODE_SLICE_def)
    ultimately show ?thesis using True slice u(1) less.prems(1)
      by (subst decodeLoop.simps) (simp add: drop)
  qed
qed

lemma base64_padding_body:
  assumes "list_all base64_char body" "pad \<le> 2" "(length body + pad) mod 4 = 0"
  shows "base64_padding (body @ replicate pad 0x3D) = pad"
proof -
  have l: "\<not> suffix [0x3D] body" using assms(1) by (auto simp: suffix_def)
  consider "pad = 0" | "pad = 1" | "pad = 2" using replicate_pad_cases [OF assms(2)] by blast
  then show ?thesis
  proof cases
    case 1
    then have "\<not> suffix [0x3D, 0x3D] body" using assms(1) by (auto simp: suffix_def)
    then show ?thesis using 1 l by (simp add: base64_padding_def)
  next
    case 2
    then have "\<not> suffix [0x3D, 0x3D] (body @ [0x3D])" using l by (auto simp: suffix_def)
    then show ?thesis using 2 by (simp add: base64_padding_def)
  next
    case 3 then show ?thesis by (simp add: base64_padding_def numeral_2_eq_2 suffix_def)
  qed
qed

lemma base64ToBytes_body:
  assumes "list_all base64_char body" "pad \<le> 2" "(length body + pad) mod 4 = 0"
  shows "base64ToBytes (body @ replicate pad 0x3D) = Inr (decode_groups (map b64_value body))"
  using decodeLoop_eq [of "body @ replicate pad 0x3D" "[]" body pad "replicate (length body * 3 div 4) 0" "[]"]
    base64_padding_body [OF assms] assms by (simp add: base64ToBytes_def)

section \<open>Properties\<close>

text \<open>
  No byte of an attachment changes on the way: whatever the client encodes is accepted by the
  payload schema, its own sliced decoder gives the bytes back, and so does the server's decoder.
\<close>

theorem base64_roundtrip:
  assumes "\<forall>b \<in> set bytes. b < 256"
  shows "\<exists>s. bytesToBase64 bytes = Inr s \<and> isCanonicalBase64 s \<and> base64ToBytes s = Inr bytes \<and>
    bufferFromBase64 s = bytes"
proof -
  obtain body pad where b: "encode_groups bytes = body @ replicate pad 0x3D" "pad \<le> 2" "list_all base64_char body"
    "(length body + pad) mod 4 = 0" "decode_groups (map b64_value body) = bytes"
    using encode_shape [OF assms] by (elim exE conjE) (rule that)
  have "isCanonicalBase64 (encode_groups bytes)"
    unfolding isCanonicalBase64_body by (intro exI conjI) (fact b(1-4))+
  then show ?thesis
    using bytesToBase64_eq [OF assms] base64ToBytes_body [OF b(3,2,4)] bufferFromBase64_body [OF b(3), of pad] b(1,5)
    by simp
qed

theorem base64_roundtrip_witness:
  "\<exists>s. bytesToBase64 [0, 255, 10, 13] = Inr s \<and> isCanonicalBase64 s \<and> base64ToBytes s = Inr [0, 255, 10, 13] \<and>
    bufferFromBase64 s = [0, 255, 10, 13]"
  by (rule base64_roundtrip) simp

text \<open>
  Decoding in slices is the same as decoding at once: on every text the payload schema lets
  through the sliced decoder does not throw and returns the bytes one call of \<^verbatim>\<open>atob\<close> on the whole text
  would give; the preallocated array has exactly their number.
\<close>

theorem sliced_decode_agrees:
  assumes "isCanonicalBase64 s"
  shows "base64ToBytes s = atob s \<and>
    (\<exists>bytes. atob s = Inr bytes \<and> length bytes = (length s - base64_padding s) * 3 div 4)"
proof -
  obtain body pad where b: "s = body @ replicate pad 0x3D" "pad \<le> 2" "list_all base64_char body"
    "(length body + pad) mod 4 = 0" 
    using assms unfolding isCanonicalBase64_body by (elim exE conjE) (rule that)
  show ?thesis
    using base64ToBytes_body [OF b(3,2,4)] atob_body [OF b(3,2,4)] base64_padding_body [OF b(3,2,4)] b(1)
    by (simp add: length_decode_groups)
qed

theorem sliced_decode_agrees_witness: "base64ToBytes (js ''QUJDRA=='') = atob (js ''QUJDRA=='')"
proof -
  have "isCanonicalBase64 (js ''QUJDRA=='')" by (simp add: isCanonicalBase64_def js_def Let_def base64_char_def)
  then show ?thesis using sliced_decode_agrees by blast
qed

end
