(* ===== verification/CanonicalJson.thy ===== *)
theory CanonicalJson
  imports Schema
begin

text \<open>
  JSON as text: \<^verbatim>\<open>JSON.stringify\<close> of the platform over UTF-16 code units, and \<^verbatim>\<open>canonicalJson\<close> of
  \<^verbatim>\<open>packages/protocol/src/hashing.ts\<close>, the text whose bytes the server stores and hashes: members sorted by
  key at every level. The decimal text of a fraction is the parameter \<open>ftext\<close>, no value the program prints
  has one. Integer-like keys keep their place, as everywhere in this development.
\<close>

section \<open>Printing\<close>

fun decimal :: "nat \<Rightarrow> jsstr" where
  "decimal n = (if n < 10 then [48 + n] else decimal (n div 10) @ [48 + n mod 10])"

declare decimal.simps [simp del]

definition int_text :: "int \<Rightarrow> jsstr" where
  "int_text n = (if n < 0 then js ''-'' @ decimal (nat (- n)) else decimal (nat n))"

definition high_surrogate :: "code_unit \<Rightarrow> bool" where
  "high_surrogate c \<longleftrightarrow> 55296 \<le> c \<and> c \<le> 56319"

definition low_surrogate :: "code_unit \<Rightarrow> bool" where
  "low_surrogate c \<longleftrightarrow> 56320 \<le> c \<and> c \<le> 57343"

definition hex_lower :: "nat \<Rightarrow> code_unit" where
  "hex_lower d = (if d < 10 then 48 + d else 87 + d)"

definition unicode_escape :: "code_unit \<Rightarrow> jsstr" where
  "unicode_escape c = [92, 117, hex_lower (c div 4096), hex_lower (c div 256 mod 16), hex_lower (c div 16 mod 16), hex_lower (c mod 16)]"

definition quote_unit :: "code_unit \<Rightarrow> jsstr" where
  "quote_unit c =
     (if c = 34 \<or> c = 92 then [92, c]
      else if c = 8 then [92, 98] else if c = 9 then [92, 116] else if c = 10 then [92, 110]
      else if c = 12 then [92, 102] else if c = 13 then [92, 114]
      else if c < 32 \<or> high_surrogate c \<or> low_surrogate c then unicode_escape c
      else [c])"

text \<open>A surrogate without its partner is escaped, so that the text is well-formed UTF-16.\<close>

fun quote_body :: "jsstr \<Rightarrow> jsstr" where
  "quote_body [] = []"
| "quote_body [c] = quote_unit c"
| "quote_body (c # d # cs) =
     (if high_surrogate c \<and> low_surrogate d then c # d # quote_body cs else quote_unit c @ quote_body (d # cs))"

definition quote :: "jsstr \<Rightarrow> jsstr" where
  "quote s = 34 # quote_body s @ [34]"

fun commas :: "jsstr list \<Rightarrow> jsstr" where
  "commas [] = []"
| "commas [s] = s"
| "commas (s # t # ss) = s @ 44 # commas (t # ss)"

fun json_text :: "(rat \<Rightarrow> jsstr) \<Rightarrow> json \<Rightarrow> jsstr" where
  "json_text ftext JNull = js ''null''"
| "json_text ftext (JBool b) = (if b then js ''true'' else js ''false'')"
| "json_text ftext (JInt n) = int_text n"
| "json_text ftext (JFrac q) = ftext q"
| "json_text ftext (JStr s) = quote s"
| "json_text ftext (JArr vs) = 91 # commas (map (json_text ftext) vs) @ [93]"
| "json_text ftext (JObj kvs) = 123 # commas (map (\<lambda>(k, v). quote k @ 58 # json_text ftext v) kvs) @ [125]"

section \<open>Canonical JSON\<close>

text \<open>
  A JSON value is a tree of plain data, so the guards of \<^verbatim>\<open>serializeCanonical\<close> against cycles, sparse arrays,
  prototypes, symbols and non-finite numbers cannot fire on it. \<^verbatim>\<open>sort\<close> compares code units.
\<close>

fun serializeCanonical :: "(rat \<Rightarrow> jsstr) \<Rightarrow> json \<Rightarrow> jsstr" where
  "serializeCanonical ftext (JArr vs) = 91 # commas (map (serializeCanonical ftext) vs) @ [93]"
| "serializeCanonical ftext (JObj kvs) =
     123 # commas (map (\<lambda>(k, v). quote k @ 58 # serializeCanonical ftext v) (sort_key fst kvs)) @ [125]"
| "serializeCanonical ftext v = json_text ftext v"

definition canonicalJson :: "(rat \<Rightarrow> jsstr) \<Rightarrow> json \<Rightarrow> jsstr" where
  "canonicalJson ftext value = serializeCanonical ftext value"

text \<open>The value with the members of every object in the order of their keys.\<close>

fun canonical_order :: "json \<Rightarrow> json" where
  "canonical_order (JArr vs) = JArr (map canonical_order vs)"
| "canonical_order (JObj kvs) = JObj (map (\<lambda>(k, v). (k, canonical_order v)) (sort_key fst kvs))"
| "canonical_order v = v"

lemma canonicalJson_text: "canonicalJson ftext j = json_text ftext (canonical_order j)"
proof -
  have "serializeCanonical ftext j = json_text ftext (canonical_order j)"
  proof (induction ftext j rule: serializeCanonical.induct)
    case (1 ftext vs)
    then show ?case by (simp add: comp_def cong: map_cong)
  next
    case (2 ftext kvs)
    have "map (\<lambda>(k, v). quote k @ 58 # serializeCanonical ftext v) (sort_key fst kvs) =
      map (\<lambda>(k, v). quote k @ 58 # json_text ftext (canonical_order v)) (sort_key fst kvs)"
      using 2 by (intro map_cong) auto
    then show ?case by (simp add: comp_def case_prod_unfold del: map_eq_conv)
  qed simp_all
  then show ?thesis by (simp add: canonicalJson_def)
qed

text \<open>The order in which an object lists its members does not show in its canonical text.\<close>

lemma canonicalJson_order:
  assumes "distinct (map fst kvs)" "distinct (map fst kvs')" "set kvs = set kvs'"
  shows "canonicalJson ftext (JObj kvs) = canonicalJson ftext (JObj kvs')"
proof -
  let ?xs = "sort_key fst kvs" and ?ys = "sort_key fst kvs'"
  have "distinct (map fst (sort_key fst l))" if "distinct (map fst l)" for l :: "(jsstr \<times> json) list"
    using that by (simp add: distinct_map)
  then have "map fst ?xs = map fst ?ys"
    using assms by (intro sorted_distinct_set_unique) simp_all
  moreover have "inj_on fst (set ?xs \<union> set ?ys)" using assms(1,3) by (simp add: distinct_map)
  ultimately have "?xs = ?ys" by (rule map_inj_on)
  then show ?thesis by (simp add: canonicalJson_def)
qed

end
