(* ===== verification/RevisionStore.thy ===== *)
theory RevisionStore
  imports CanonicalJson
begin

text \<open>
  The revision repository of the server (\<^verbatim>\<open>apps/server/src/revision-repository.ts\<close> and
  \<^verbatim>\<open>quota.ts\<close>): the tables it reads and writes, the commit of a revision with its checks in the
  order of the source, the read-only feasibility check, heads, cursor and event pages. The theory
  \<open>RevisionStore_Inv\<close> proves what the store promises.

  The tables are the fields of one record. A table the repository scans or aggregates is the list of
  its rows in insertion order; a table it only looks up by key is a map. A statement that would
  violate a uniqueness constraint of the schema raises \<open>SqliteError\<close>. A transaction that raises
  leaves the tables as they were.

  Code outside the repository is a field of \<open>repo_env\<close>: \<open>env_sha\<close> is the SHA-256 digest of a text's
  UTF-8 bytes in hex, \<open>env_ftext\<close> the decimal text of a fraction (no header has one), \<open>env_jparse\<close> is \<^verbatim>\<open>JSON.parse\<close>, \<open>env_uuid\<close> and
  \<open>env_datetime\<close> are zod's formats, \<open>env_iso\<close> is \<^verbatim>\<open>Date.prototype.toISOString\<close>, and
  \<open>env_readVerified\<close> is the blob store's \<^verbatim>\<open>readVerified\<close>, which the repository gets as an argument.
  JSON columns hold the JSON value.
\<close>

section \<open>Errors, inputs and rows\<close>

datatype repo_error =
    CORRUPT_BLOB | FILE_ALREADY_EXISTS | IDEMPOTENCY_KEY_REUSE | MISSING_BLOB
  | PARENT_FILE_MISMATCH | REPOSITORY_INTEGRITY | FORBIDDEN | HEAD_SET_CHANGED
  | INVALID_REQUEST | MISSING_PARENT | NOT_FOUND | QUOTA_EXCEEDED | REVISION_ID_REUSE
  | ZodError | SqliteError | BlobReadError

record actor =
  deviceId :: ident
  memberId :: ident

record commit_input =
  in_actor :: actor
  in_blobHash :: jsstr
  in_header :: json
  in_idempotencyKey :: jsstr
  in_blobSize :: "nat option"

record receipt =
  rc_revisionId :: ident
  rc_memberId :: ident
  rc_deviceId :: ident
  rc_serverSequence :: nat
  rc_serverTime :: jsstr
  rc_blobHash :: jsstr
  rc_byteLength :: nat
  rc_parentRevisionIds :: "ident list option"

datatype commit_status = Accepted | Replayed

record commit_result =
  res_receipt :: receipt
  res_status :: commit_status

record prepared_commit =
  p_actor :: actor
  p_blobHash :: jsstr
  p_blobSize :: nat
  p_header :: protected_header
  p_headerBytes :: jsstr
  p_headerHash :: jsstr
  p_idempotencyKey :: jsstr
  p_requestHash :: jsstr

record vault_row =
  write_epoch :: nat
  next_server_sequence :: nat
  quota_bytes :: "nat option"
  deleted_at :: "jsstr option"

record membership_row =
  ms_vault_id :: ident
  ms_user_id :: ident
  ms_status :: jsstr

record device_row =
  dv_user_id :: ident
  dv_status :: jsstr

record revision_row =
  rv_id :: ident
  vault_id :: ident
  file_id :: ident
  membership_id :: ident
  device_id :: ident
  server_sequence :: nat
  rv_write_epoch :: nat
  protected_header :: jsstr
  protected_header_hash :: jsstr
  blob_hash :: jsstr
  blob_size :: nat
  accepted_at :: jsstr

record event_row =
  ev_vault_id :: ident
  ev_server_sequence :: nat
  ev_type :: jsstr
  ev_revision_id :: ident
  ev_payload :: json

record idempotency_row =
  request_hash :: jsstr
  response_status :: nat
  response_body :: json
  expires_at :: jsstr

record store =
  vaults :: "ident \<rightharpoonup> vault_row"
  users :: "ident \<rightharpoonup> jsstr"
  memberships :: "(ident \<times> membership_row) list"
  devices :: "ident \<rightharpoonup> device_row"
  files :: "ident \<rightharpoonup> ident"
  revisions :: "revision_row list"
  revision_parents :: "(ident \<times> ident \<times> nat) list"
  file_heads :: "(ident \<times> ident) list"
  vault_events :: "event_row list"
  idempotency_records :: "ident \<times> jsstr \<rightharpoonup> idempotency_row"

datatype blob_read = BlobBytes nat | BlobCorrupt | BlobMissing | BlobOtherError

record repo_env =
  env_uuid :: "ident \<Rightarrow> bool"
  env_datetime :: "jsstr \<Rightarrow> bool"
  env_ftext :: "rat \<Rightarrow> jsstr"
  env_sha :: "jsstr \<Rightarrow> jsstr"
  env_jparse :: "jsstr \<Rightarrow> json option"
  env_iso :: "int \<Rightarrow> jsstr"
  env_readVerified :: "jsstr \<Rightarrow> blob_read"
  env_defaultQuotaBytes :: nat
  env_idempotencyTtlMs :: int

section \<open>Receipts\<close>

definition receipt_ok :: "repo_env \<Rightarrow> receipt \<Rightarrow> bool" where
  "receipt_ok env r \<longleftrightarrow>
     env_uuid env (rc_revisionId r) \<and> env_uuid env (rc_memberId r) \<and> env_uuid env (rc_deviceId r) \<and>
     0 < rc_serverSequence r \<and> int (rc_serverSequence r) \<le> MAX_SAFE_INTEGER \<and>
     env_datetime env (rc_serverTime r) \<and> sha256_hex (rc_blobHash r) \<and>
     int (rc_byteLength r) \<le> MAX_SAFE_INTEGER \<and>
     (case rc_parentRevisionIds r of None \<Rightarrow> True | Some ps \<Rightarrow> parents_ok (env_uuid env) ps)"

definition receipt_json :: "receipt \<Rightarrow> json" where
  "receipt_json r = JObj
     ([(js ''blobHash'', JStr (rc_blobHash r)), (js ''byteLength'', JInt (int (rc_byteLength r))),
       (js ''deviceId'', JStr (rc_deviceId r)), (js ''memberId'', JStr (rc_memberId r)),
       (js ''revisionId'', JStr (rc_revisionId r)),
       (js ''serverSequence'', JInt (int (rc_serverSequence r))),
       (js ''serverTime'', JStr (rc_serverTime r))] @
      (case rc_parentRevisionIds r of None \<Rightarrow> []
       | Some ps \<Rightarrow> [(js ''parentRevisionIds'', JArr (map JStr ps))]))"

definition parse_receipt :: "repo_env \<Rightarrow> json \<Rightarrow> receipt option" where
  "parse_receipt env j =
     Option.bind (strict_object [js ''revisionId'', js ''memberId'', js ''deviceId'', js ''serverSequence'',
         js ''serverTime'', js ''blobHash'', js ''byteLength'', js ''parentRevisionIds''] j) (\<lambda>m.
     Option.bind (as_string (m (js ''revisionId''))) (\<lambda>r.
     Option.bind (as_string (m (js ''memberId''))) (\<lambda>mem.
     Option.bind (as_string (m (js ''deviceId''))) (\<lambda>dev.
     Option.bind (as_nonnegative (m (js ''serverSequence''))) (\<lambda>n.
     Option.bind (as_string (m (js ''serverTime''))) (\<lambda>t.
     Option.bind (as_string (m (js ''blobHash''))) (\<lambda>b.
     Option.bind (as_nonnegative (m (js ''byteLength''))) (\<lambda>len.
     Option.bind (case m (js ''parentRevisionIds'') of None \<Rightarrow> Some None
                  | Some v \<Rightarrow> map_option Some (as_string_array (Some v))) (\<lambda>ps.
       (let rc = \<lparr>rc_revisionId = r, rc_memberId = mem, rc_deviceId = dev, rc_serverSequence = n,
                  rc_serverTime = t, rc_blobHash = b, rc_byteLength = len, rc_parentRevisionIds = ps\<rparr>
        in if receipt_ok env rc then Some rc else None))))))))))"

definition sameReceipt :: "receipt \<Rightarrow> receipt \<Rightarrow> bool" where
  "sameReceipt left right \<longleftrightarrow>
     rc_revisionId left = rc_revisionId right \<and> rc_memberId left = rc_memberId right \<and>
     rc_deviceId left = rc_deviceId right \<and> rc_serverSequence left = rc_serverSequence right \<and>
     rc_serverTime left = rc_serverTime right \<and> rc_blobHash left = rc_blobHash right \<and>
     rc_byteLength left = rc_byteLength right"

definition status_json :: "commit_status \<Rightarrow> json" where
  "status_json st = JStr (case st of Accepted \<Rightarrow> js ''accepted'' | Replayed \<Rightarrow> js ''replayed'')"

definition result_json :: "commit_result \<Rightarrow> json" where
  "result_json r = JObj [(js ''receipt'', receipt_json (res_receipt r)), (js ''status'', status_json (res_status r))]"

definition parse_status :: "json option \<Rightarrow> commit_status option" where
  "parse_status j =
     (if j = Some (JStr (js ''accepted'')) then Some Accepted
      else if j = Some (JStr (js ''replayed'')) then Some Replayed else None)"

fun members :: "json \<Rightarrow> (jsstr \<rightharpoonup> json) option" where
  "members (JObj kvs) = Some (map_of kvs)"
| "members (JArr xs) = Some Map.empty"
| "members _ = None"

definition parseStoredResult :: "repo_env \<Rightarrow> json \<Rightarrow> receipt \<Rightarrow> repo_error + commit_result" where
  "parseStoredResult env responseBody expectedReceipt =
     (case members responseBody of
        None \<Rightarrow> Inl REPOSITORY_INTEGRITY
      | Some m \<Rightarrow>
        (case (parse_status (m (js ''status'')), Option.bind (m (js ''receipt'')) (parse_receipt env)) of
           (Some st, Some rc) \<Rightarrow>
             (if sameReceipt rc expectedReceipt then Inr \<lparr>res_receipt = rc, res_status = st\<rparr>
              else Inl REPOSITORY_INTEGRITY)
         | _ \<Rightarrow> Inl REPOSITORY_INTEGRITY))"

section \<open>Validation of the request\<close>

text \<open>The code units \<^verbatim>\<open>String.prototype.trim\<close> removes.\<close>

definition js_whitespace :: "code_unit \<Rightarrow> bool" where
  "js_whitespace c \<longleftrightarrow>
     c \<in> {9, 10, 11, 12, 13, 32, 0xA0, 0x1680, 0x2028, 0x2029, 0x202F, 0x205F, 0x3000, 0xFEFF} \<or>
     (0x2000 \<le> c \<and> c \<le> 0x200A)"

definition containsAsciiControlCharacter :: "jsstr \<Rightarrow> bool" where
  "containsAsciiControlCharacter value \<longleftrightarrow> list_ex (\<lambda>c. c \<le> 0x1F \<or> c = 0x7F) value"

definition validateIdempotencyKey :: "jsstr \<Rightarrow> repo_error + jsstr" where
  "validateIdempotencyKey value =
     (if list_all js_whitespace value \<or> length value > 200 \<or> containsAsciiControlCharacter value
      then Inl INVALID_REQUEST else Inr value)"

definition validateIdempotencyTtl :: "int \<Rightarrow> repo_error + int" where
  "validateIdempotencyTtl value =
     (if value \<le> 0 \<or> value > 365 * 24 * 60 * 60 * 1000 then Inl INVALID_REQUEST else Inr value)"

definition requireSafeSequence :: "nat \<Rightarrow> repo_error + nat" where
  "requireSafeSequence value =
     (if int value > MAX_SAFE_INTEGER \<or> value = 0 then Inl REPOSITORY_INTEGRITY else Inr value)"

definition requireSafeNonNegativeInteger :: "nat \<Rightarrow> repo_error + nat" where
  "requireSafeNonNegativeInteger value =
     (if int value > MAX_SAFE_INTEGER then Inl REPOSITORY_INTEGRITY else Inr value)"

section \<open>Lookups\<close>

definition getExistingRevision :: "store \<Rightarrow> ident \<Rightarrow> revision_row option" where
  "getExistingRevision db rid = find (\<lambda>r. rv_id r = rid) (revisions db)"

definition storedRevisionMatches :: "revision_row \<Rightarrow> prepared_commit \<Rightarrow> bool" where
  "storedRevisionMatches stored prepared \<longleftrightarrow>
     rv_id stored = revisionId (p_header prepared) \<and>
     vault_id stored = vaultId (p_header prepared) \<and>
     file_id stored = fileId (p_header prepared) \<and>
     membership_id stored = memberId (p_actor prepared) \<and>
     device_id stored = deviceId (p_actor prepared) \<and>
     protected_header_hash stored = p_headerHash prepared \<and>
     protected_header stored = p_headerBytes prepared \<and>
     blob_hash stored = p_blobHash prepared \<and>
     blob_size stored = p_blobSize prepared"

definition assertStoredRevisionMatches :: "revision_row \<Rightarrow> prepared_commit \<Rightarrow> repo_error + unit" where
  "assertStoredRevisionMatches stored prepared =
     guard_result (storedRevisionMatches stored prepared) REVISION_ID_REUSE"

definition receiptFromStoredRevision :: "repo_env \<Rightarrow> revision_row \<Rightarrow> repo_error + receipt" where
  "receiptFromStoredRevision env stored =
     (case Option.bind (env_jparse env (protected_header stored)) (parse_header (env_uuid env)) of
        None \<Rightarrow> Inl REPOSITORY_INTEGRITY
      | Some header \<Rightarrow>
        (let rc = \<lparr>rc_revisionId = rv_id stored, rc_memberId = membership_id stored,
                   rc_deviceId = device_id stored, rc_serverSequence = server_sequence stored,
                   rc_serverTime = accepted_at stored, rc_blobHash = blob_hash stored,
                   rc_byteLength = blob_size stored,
                   rc_parentRevisionIds = Some (parentRevisionIds header)\<rparr>
         in if receipt_ok env rc then Inr rc else Inl REPOSITORY_INTEGRITY))"

definition assertAuthorizedActor :: "store \<Rightarrow> actor \<Rightarrow> protected_header \<Rightarrow> repo_error + unit" where
  "assertAuthorizedActor db act header =
     (case (map_of (memberships db) (memberId act), devices db (deviceId act)) of
        (Some m, Some d) \<Rightarrow>
          (case users db (ms_user_id m) of
             None \<Rightarrow> Inl FORBIDDEN
           | Some userStatus \<Rightarrow>
               guard_result
                 (ms_vault_id m = vaultId header \<and> ms_user_id m = dv_user_id d \<and>
                  ms_status m = js ''active'' \<and> userStatus = js ''active'' \<and>
                  dv_status d = js ''approved'') FORBIDDEN)
      | _ \<Rightarrow> Inl FORBIDDEN)"

definition getVault :: "store \<Rightarrow> ident \<Rightarrow> repo_error + vault_row" where
  "getVault db v =
     (case vaults db v of
        Some row \<Rightarrow> if deleted_at row = None then Inr row else Inl NOT_FOUND
      | None \<Rightarrow> Inl NOT_FOUND)"

definition getIdempotencyRecord :: "store \<Rightarrow> prepared_commit \<Rightarrow> idempotency_row option" where
  "getIdempotencyRecord db prepared =
     idempotency_records db (deviceId (p_actor prepared), p_idempotencyKey prepared)"

definition assertIdempotencyRequest :: "idempotency_row \<Rightarrow> prepared_commit \<Rightarrow> repo_error + unit" where
  "assertIdempotencyRequest stored prepared =
     guard_result (request_hash stored = p_requestHash prepared) IDEMPOTENCY_KEY_REUSE"

definition getHeads :: "store \<Rightarrow> ident \<Rightarrow> ident \<Rightarrow> ident list" where
  "getHeads db v f =
     (if files db f = Some v then sort (map snd (filter (\<lambda>h. fst h = f) (file_heads db))) else [])"

definition getCursor :: "store \<Rightarrow> ident \<Rightarrow> repo_error + nat" where
  "getCursor db v =
     bind_result (getVault db v) (\<lambda>row.
     bind_result (requireSafeSequence (next_server_sequence row)) (\<lambda>n. Inr (n - 1)))"

section \<open>Quota\<close>

definition vault_rows :: "store \<Rightarrow> ident \<Rightarrow> revision_row list" where
  "vault_rows db v = filter (\<lambda>r. vault_id r = v) (revisions db)"

text \<open>\<^verbatim>\<open>SELECT MAX(blob_size) ... GROUP BY blob_hash\<close>, then the sum.\<close>

definition computeVaultStorageBytes :: "store \<Rightarrow> ident \<Rightarrow> nat" where
  "computeVaultStorageBytes db v =
     (let rows = vault_rows db v
      in sum_list (map (\<lambda>h. fold max (map blob_size (filter (\<lambda>r. blob_hash r = h) rows)) 0)
                       (remdups (map blob_hash rows))))"

definition readVaultQuotaBytes :: "store \<Rightarrow> ident \<Rightarrow> nat option" where
  "readVaultQuotaBytes db v = Option.bind (vaults db v) quota_bytes"

definition resolveEffectiveQuotaBytes :: "nat option \<Rightarrow> nat \<Rightarrow> nat" where
  "resolveEffectiveQuotaBytes rawQuota defaultQuotaBytes =
     (case rawQuota of Some q \<Rightarrow> q | None \<Rightarrow> defaultQuotaBytes)"

definition vaultContainsBlob :: "store \<Rightarrow> ident \<Rightarrow> jsstr \<Rightarrow> bool" where
  "vaultContainsBlob db v h \<longleftrightarrow> list_ex (\<lambda>r. vault_id r = v \<and> blob_hash r = h) (revisions db)"

definition assertWithinQuota :: "repo_env \<Rightarrow> store \<Rightarrow> prepared_commit \<Rightarrow> vault_row \<Rightarrow> repo_error + unit" where
  "assertWithinQuota env db prepared vault =
     (if vaultContainsBlob db (vaultId (p_header prepared)) (p_blobHash prepared) then Inr ()
      else guard_result
        (\<not> computeVaultStorageBytes db (vaultId (p_header prepared)) + p_blobSize prepared >
           resolveEffectiveQuotaBytes (quota_bytes vault) (env_defaultQuotaBytes env)) QUOTA_EXCEEDED)"

section \<open>The file graph\<close>

fun assertParents :: "store \<Rightarrow> ident \<Rightarrow> ident \<Rightarrow> ident list \<Rightarrow> repo_error + unit" where
  "assertParents db v f [] = Inr ()"
| "assertParents db v f (parentId # rest) =
     (case getExistingRevision db parentId of
        None \<Rightarrow> Inl MISSING_PARENT
      | Some parent \<Rightarrow>
          if vault_id parent \<noteq> v \<or> file_id parent \<noteq> f then Inl PARENT_FILE_MISMATCH
          else assertParents db v f rest)"

text \<open>Returns \<open>True\<close> for the first revision of a file.\<close>

definition assertFileGraphCommittable :: "store \<Rightarrow> prepared_commit \<Rightarrow> repo_error + bool" where
  "assertFileGraphCommittable db prepared =
     (let f = fileId (p_header prepared); v = vaultId (p_header prepared);
          parents = parentRevisionIds (p_header prepared)
      in if length parents = 0 then
           (case files db f of
              Some fv \<Rightarrow> Inl (if fv = v then FILE_ALREADY_EXISTS else PARENT_FILE_MISMATCH)
            | None \<Rightarrow> Inr True)
         else
           (case files db f of
              None \<Rightarrow> Inl MISSING_PARENT
            | Some fv \<Rightarrow>
                if fv \<noteq> v then Inl PARENT_FILE_MISMATCH
                else bind_result (assertParents db v f parents) (\<lambda>_.
                  if length parents \<ge> 2 \<and> getHeads db v f \<noteq> parents then Inl HEAD_SET_CHANGED
                  else Inr False)))"

definition validateAndPrepareFileGraph :: "store \<Rightarrow> prepared_commit \<Rightarrow> repo_error + store" where
  "validateAndPrepareFileGraph db prepared =
     bind_result (assertFileGraphCommittable db prepared) (\<lambda>isRootCreate.
       Inr (if isRootCreate
            then db\<lparr>files := (files db)(fileId (p_header prepared) \<mapsto> vaultId (p_header prepared))\<rparr>
            else db))"

section \<open>The writes of a commit\<close>

definition insertRevision :: "store \<Rightarrow> prepared_commit \<Rightarrow> vault_row \<Rightarrow> nat \<Rightarrow> jsstr \<Rightarrow> repo_error + store" where
  "insertRevision db prepared vault serverSequence serverTime =
     bind_result (requireSafeNonNegativeInteger (write_epoch vault)) (\<lambda>epoch.
       (let h = p_header prepared;
            row = \<lparr>rv_id = revisionId h, vault_id = vaultId h, file_id = fileId h,
                   membership_id = memberId (p_actor prepared), device_id = deviceId (p_actor prepared),
                   server_sequence = serverSequence, rv_write_epoch = epoch,
                   protected_header = p_headerBytes prepared,
                   protected_header_hash = p_headerHash prepared,
                   blob_hash = p_blobHash prepared, blob_size = p_blobSize prepared,
                   accepted_at = serverTime\<rparr>
        in if list_ex (\<lambda>r. rv_id r = rv_id row \<or> protected_header_hash r = protected_header_hash row \<or>
                           vault_id r = vault_id row \<and> server_sequence r = serverSequence) (revisions db)
           then Inl SqliteError
           else Inr (db\<lparr>revisions := revisions db @ [row]\<rparr>)))"

text \<open>The loop over the parents: record the edge, retire the head.\<close>

fun retireParents :: "store \<Rightarrow> ident \<Rightarrow> ident \<Rightarrow> nat \<Rightarrow> ident list \<Rightarrow> store" where
  "retireParents db f r index [] = db"
| "retireParents db f r index (parentId # rest) =
     retireParents
       (db\<lparr>revision_parents := revision_parents db @ [(r, parentId, index)],
           file_heads := filter (\<lambda>h. h \<noteq> (f, parentId)) (file_heads db)\<rparr>)
       f r (index + 1) rest"

definition replaceParentHeads :: "store \<Rightarrow> prepared_commit \<Rightarrow> store" where
  "replaceParentHeads db prepared =
     (let h = p_header prepared;
          db' = retireParents db (fileId h) (revisionId h) 0 (parentRevisionIds h)
      in db'\<lparr>file_heads := file_heads db' @ [(fileId h, revisionId h)]\<rparr>)"

definition insertRevisionEvent :: "store \<Rightarrow> prepared_commit \<Rightarrow> receipt \<Rightarrow> repo_error + store" where
  "insertRevisionEvent db prepared rc =
     (let h = p_header prepared
      in if list_ex (\<lambda>e. ev_vault_id e = vaultId h \<and> ev_server_sequence e = rc_serverSequence rc) (vault_events db)
         then Inl SqliteError
         else Inr (db\<lparr>vault_events := vault_events db @
           [\<lparr>ev_vault_id = vaultId h, ev_server_sequence = rc_serverSequence rc,
             ev_type = js ''revision-accepted'', ev_revision_id = revisionId h,
             ev_payload = JObj [(js ''fileId'', JStr (fileId h)), (js ''receipt'', receipt_json rc)]\<rparr>]\<rparr>))"

definition advanceCursor :: "store \<Rightarrow> ident \<Rightarrow> nat \<Rightarrow> repo_error + store" where
  "advanceCursor db v serverSequence =
     (case vaults db v of
        None \<Rightarrow> Inl REPOSITORY_INTEGRITY
      | Some row \<Rightarrow>
          if next_server_sequence row = serverSequence
          then Inr (db\<lparr>vaults := (vaults db)(v \<mapsto> row\<lparr>next_server_sequence := next_server_sequence row + 1\<rparr>)\<rparr>)
          else Inl REPOSITORY_INTEGRITY)"

definition insertIdempotencyRecord ::
    "repo_env \<Rightarrow> store \<Rightarrow> prepared_commit \<Rightarrow> commit_result \<Rightarrow> nat \<Rightarrow> int \<Rightarrow> repo_error + store" where
  "insertIdempotencyRecord env db prepared result status now =
     (let key = (deviceId (p_actor prepared), p_idempotencyKey prepared)
      in if idempotency_records db key \<noteq> None then Inl SqliteError
         else Inr (db\<lparr>idempotency_records := (idempotency_records db)(key \<mapsto>
           \<lparr>request_hash = p_requestHash prepared, response_status = status,
            response_body = result_json result,
            expires_at = env_iso env (now + env_idempotencyTtlMs env)\<rparr>)\<rparr>))"

text \<open>\<^verbatim>\<open>readNow\<close>: the clock is an argument, \<open>None\<close> when it returns an invalid date.\<close>

definition readNow :: "int option \<Rightarrow> repo_error + int" where
  "readNow clock = (case clock of None \<Rightarrow> Inl REPOSITORY_INTEGRITY | Some now \<Rightarrow> Inr now)"

definition new_receipt :: "prepared_commit \<Rightarrow> nat \<Rightarrow> jsstr \<Rightarrow> receipt" where
  "new_receipt prepared serverSequence serverTime =
     \<lparr>rc_revisionId = revisionId (p_header prepared), rc_memberId = memberId (p_actor prepared),
      rc_deviceId = deviceId (p_actor prepared), rc_serverSequence = serverSequence,
      rc_serverTime = serverTime, rc_blobHash = p_blobHash prepared, rc_byteLength = p_blobSize prepared,
      rc_parentRevisionIds = Some (parentRevisionIds (p_header prepared))\<rparr>"

definition commitNewRevision ::
    "repo_env \<Rightarrow> int option \<Rightarrow> store \<Rightarrow> prepared_commit \<Rightarrow> vault_row \<Rightarrow> repo_error + commit_result \<times> store" where
  "commitNewRevision env clock db prepared vault =
     bind_result (readNow clock) (\<lambda>now.
     (let serverTime = env_iso env now in
     bind_result (requireSafeSequence (next_server_sequence vault)) (\<lambda>serverSequence.
     if int serverSequence \<ge> MAX_SAFE_INTEGER then Inl REPOSITORY_INTEGRITY else
     bind_result (assertWithinQuota env db prepared vault) (\<lambda>_.
     bind_result (validateAndPrepareFileGraph db prepared) (\<lambda>db1.
     bind_result (insertRevision db1 prepared vault serverSequence serverTime) (\<lambda>db2.
     (let db3 = replaceParentHeads db2 prepared;
          rc = new_receipt prepared serverSequence serverTime
      in if \<not> receipt_ok env rc then Inl ZodError else
     bind_result (insertRevisionEvent db3 prepared rc) (\<lambda>db4.
     bind_result (advanceCursor db4 (vaultId (p_header prepared)) serverSequence) (\<lambda>db5.
     (let accepted = \<lparr>res_receipt = rc, res_status = Accepted\<rparr> in
     bind_result (insertIdempotencyRecord env db5 prepared accepted 201 now) (\<lambda>db6.
     Inr (accepted, db6))))))))))))"

definition replayExisting ::
    "repo_env \<Rightarrow> int option \<Rightarrow> store \<Rightarrow> prepared_commit \<Rightarrow> revision_row \<Rightarrow> idempotency_row option \<Rightarrow>
     repo_error + commit_result \<times> store" where
  "replayExisting env clock db prepared existing idempotency =
     bind_result (assertStoredRevisionMatches existing prepared) (\<lambda>_.
     bind_result (receiptFromStoredRevision env existing) (\<lambda>rc.
     (case idempotency of
        Some idem \<Rightarrow>
          bind_result (assertIdempotencyRequest idem prepared) (\<lambda>_.
          bind_result (parseStoredResult env (response_body idem) rc) (\<lambda>res. Inr (res, db)))
      | None \<Rightarrow>
          (let replayed = \<lparr>res_receipt = rc, res_status = Replayed\<rparr> in
           bind_result (readNow clock) (\<lambda>now.
           bind_result (insertIdempotencyRecord env db prepared replayed 200 now) (\<lambda>db'.
           Inr (replayed, db')))))))"

definition commitPrepared ::
    "repo_env \<Rightarrow> int option \<Rightarrow> store \<Rightarrow> prepared_commit \<Rightarrow> repo_error + commit_result \<times> store" where
  "commitPrepared env clock db prepared =
     bind_result (assertAuthorizedActor db (p_actor prepared) (p_header prepared)) (\<lambda>_.
     bind_result (getVault db (vaultId (p_header prepared))) (\<lambda>vault.
     (let existing = getExistingRevision db (revisionId (p_header prepared));
          idempotency = getIdempotencyRecord db prepared
      in case existing of
           Some ex \<Rightarrow> replayExisting env clock db prepared ex idempotency
         | None \<Rightarrow>
           (case idempotency of
              Some idem \<Rightarrow>
                bind_result (assertIdempotencyRequest idem prepared) (\<lambda>_. Inl REPOSITORY_INTEGRITY)
            | None \<Rightarrow> commitNewRevision env clock db prepared vault))))"

text \<open>The read-only mirror.\<close>

definition assertWouldCommit :: "repo_env \<Rightarrow> store \<Rightarrow> prepared_commit \<Rightarrow> repo_error + unit" where
  "assertWouldCommit env db prepared =
     bind_result (assertAuthorizedActor db (p_actor prepared) (p_header prepared)) (\<lambda>_.
     bind_result (getVault db (vaultId (p_header prepared))) (\<lambda>vault.
     (case getExistingRevision db (revisionId (p_header prepared)) of
        Some ex \<Rightarrow> assertStoredRevisionMatches ex prepared
      | None \<Rightarrow>
        (case getIdempotencyRecord db prepared of
           Some idem \<Rightarrow>
             bind_result (assertIdempotencyRequest idem prepared) (\<lambda>_. Inl REPOSITORY_INTEGRITY)
         | None \<Rightarrow>
             bind_result (assertWithinQuota env db prepared vault) (\<lambda>_.
             bind_result (assertFileGraphCommittable db prepared) (\<lambda>_. Inr ()))))))"

section \<open>Preparation\<close>

definition actor_json :: "actor \<Rightarrow> json" where
  "actor_json a = JObj [(js ''deviceId'', JStr (deviceId a)), (js ''memberId'', JStr (memberId a))]"

definition request_json :: "actor \<Rightarrow> jsstr \<Rightarrow> protected_header \<Rightarrow> json" where
  "request_json a blobHash h =
     JObj [(js ''actor'', actor_json a), (js ''blobHash'', JStr blobHash), (js ''header'', header_json h)]"

definition hashCanonicalJson :: "repo_env \<Rightarrow> json \<Rightarrow> jsstr" where
  "hashCanonicalJson env j = env_sha env (canonicalJson (env_ftext env) j)"

text \<open>The prepared commit before its blob size is known carries size 0.\<close>

definition prepareHeader :: "repo_env \<Rightarrow> store \<Rightarrow> commit_input \<Rightarrow> repo_error + prepared_commit" where
  "prepareHeader env db input =
     (case parse_header (env_uuid env) (in_header input) of
        None \<Rightarrow> Inl ZodError
      | Some header \<Rightarrow>
        if \<not> sha256_hex (in_blobHash input) then Inl ZodError else
        bind_result (validateIdempotencyKey (in_idempotencyKey input)) (\<lambda>key.
        if expectedMemberId header \<noteq> memberId (in_actor input) \<or>
           expectedDeviceId header \<noteq> deviceId (in_actor input) then Inl FORBIDDEN else
        bind_result (assertAuthorizedActor db (in_actor input) header) (\<lambda>_.
        (let prepared = \<lparr>p_actor = in_actor input, p_blobHash = in_blobHash input, p_blobSize = 0,
               p_header = header, p_headerBytes = canonicalJson (env_ftext env) (header_json header),
               p_headerHash = hashCanonicalJson env (header_json header), p_idempotencyKey = key,
               p_requestHash = hashCanonicalJson env (request_json (in_actor input) (in_blobHash input) header)\<rparr>
         in case getExistingRevision db (revisionId header) of
              None \<Rightarrow> Inr prepared
            | Some existing \<Rightarrow>
                if blob_hash existing \<noteq> in_blobHash input \<or>
                   protected_header_hash existing \<noteq> p_headerHash prepared \<or>
                   protected_header existing \<noteq> p_headerBytes prepared
                then Inl REVISION_ID_REUSE
                else bind_result (assertStoredRevisionMatches existing (prepared\<lparr>p_blobSize := blob_size existing\<rparr>))
                       (\<lambda>_. Inr prepared)))))"

definition readVerifiedBlob :: "repo_env \<Rightarrow> jsstr \<Rightarrow> repo_error + nat" where
  "readVerifiedBlob env h =
     (case env_readVerified env h of
        BlobBytes n \<Rightarrow> Inr n
      | BlobCorrupt \<Rightarrow> Inl CORRUPT_BLOB
      | BlobMissing \<Rightarrow> Inl MISSING_BLOB
      | BlobOtherError \<Rightarrow> Inl BlobReadError)"

definition prepareCommit :: "repo_env \<Rightarrow> store \<Rightarrow> commit_input \<Rightarrow> repo_error + prepared_commit" where
  "prepareCommit env db input =
     bind_result (prepareHeader env db input) (\<lambda>base.
     bind_result (case in_blobSize input of Some n \<Rightarrow> Inr n | None \<Rightarrow> readVerifiedBlob env (p_blobHash base))
       (\<lambda>n. Inr (base\<lparr>p_blobSize := n\<rparr>)))"

text \<open>
  The preparation awaits the hashes, so other requests may write between it and the transaction:
  \<open>snapshot\<close> is the state the preparation read, \<open>db\<close> the state of the transaction.
\<close>

definition commitRevision ::
    "repo_env \<Rightarrow> int option \<Rightarrow> store \<Rightarrow> store \<Rightarrow> commit_input \<Rightarrow> (repo_error + commit_result) \<times> store" where
  "commitRevision env clock snapshot db input =
     (case bind_result (prepareCommit env snapshot input) (commitPrepared env clock db) of
        Inl e \<Rightarrow> (Inl e, db)
      | Inr (res, db') \<Rightarrow> (Inr res, db'))"

definition assertCommittable :: "repo_env \<Rightarrow> store \<Rightarrow> store \<Rightarrow> commit_input \<Rightarrow> nat \<Rightarrow> repo_error + unit" where
  "assertCommittable env snapshot db input blobSize =
     bind_result (prepareHeader env snapshot input) (\<lambda>base.
       assertWouldCommit env db (base\<lparr>p_blobSize := blobSize\<rparr>))"

section \<open>Events\<close>

record stored_event =
  se_fileId :: ident
  se_receipt :: receipt
  se_revisionId :: ident
  se_serverSequence :: nat

definition parseEventRow :: "repo_env \<Rightarrow> event_row \<Rightarrow> repo_error + stored_event" where
  "parseEventRow env row =
     (if ev_type row \<noteq> js ''revision-accepted'' then Inl REPOSITORY_INTEGRITY
      else
        (case members (ev_payload row) of
           None \<Rightarrow> Inl REPOSITORY_INTEGRITY
         | Some m \<Rightarrow>
           (case (as_string (m (js ''fileId'')), Option.bind (m (js ''receipt'')) (parse_receipt env)) of
              (Some f, Some rc) \<Rightarrow>
                (if rc_revisionId rc \<noteq> ev_revision_id row \<or> rc_serverSequence rc \<noteq> ev_server_sequence row
                 then Inl REPOSITORY_INTEGRITY
                 else Inr \<lparr>se_fileId = f, se_receipt = rc, se_revisionId = ev_revision_id row,
                           se_serverSequence = ev_server_sequence row\<rparr>)
            | _ \<Rightarrow> Inl REPOSITORY_INTEGRITY)))"

fun map_result :: "('a \<Rightarrow> 'e + 'b) \<Rightarrow> 'a list \<Rightarrow> 'e + 'b list" where
  "map_result f [] = Inr []"
| "map_result f (x # xs) = bind_result (f x) (\<lambda>y. bind_result (map_result f xs) (\<lambda>ys. Inr (y # ys)))"

definition listEvents :: "repo_env \<Rightarrow> store \<Rightarrow> ident \<Rightarrow> int \<Rightarrow> int \<Rightarrow> repo_error + stored_event list" where
  "listEvents env db v afterSequence limit =
     (if afterSequence > MAX_SAFE_INTEGER \<or> afterSequence < 0 then Inl INVALID_REQUEST
      else if limit \<le> 0 \<or> limit > 1000 then Inl INVALID_REQUEST
      else
        (let rows = take (nat limit) (sort_key ev_server_sequence
               (filter (\<lambda>e. ev_vault_id e = v \<and> int (ev_server_sequence e) > afterSequence) (vault_events db)))
         in map_result (parseEventRow env) rows))"

end
