(* ===== verification/RevisionStore_Inv.thy ===== *)
theory RevisionStore_Inv
  imports RevisionStore
begin

text \<open>
  What the revision store promises, for every sequence of commits: ids are unique, a revision's
  parents are earlier revisions of the same file, the heads of a file are exactly its revisions
  without a child, and the event log of a vault is the contiguous sequence of its revisions.
\<close>

section \<open>A successful commit in one equation\<close>

lemma retireParents_eq:
  "retireParents db f r n ps =
     db\<lparr>revision_parents := revision_parents db @ map (\<lambda>(i, p). (r, p, i)) (enumerate n ps),
        file_heads := filter (\<lambda>h. \<forall>p \<in> set ps. h \<noteq> (f, p)) (file_heads db)\<rparr>"
  by (induction db f r n ps rule: retireParents.induct) (auto simp: conj_commute)

definition new_row :: "prepared_commit \<Rightarrow> vault_row \<Rightarrow> nat \<Rightarrow> jsstr \<Rightarrow> revision_row" where
  "new_row prepared vault n t =
     \<lparr>rv_id = revisionId (p_header prepared), vault_id = vaultId (p_header prepared),
      file_id = fileId (p_header prepared), membership_id = memberId (p_actor prepared),
      device_id = deviceId (p_actor prepared), server_sequence = n, rv_write_epoch = write_epoch vault,
      protected_header = p_headerBytes prepared, protected_header_hash = p_headerHash prepared,
      blob_hash = p_blobHash prepared, blob_size = p_blobSize prepared, accepted_at = t\<rparr>"

definition event_of :: "ident \<Rightarrow> ident \<Rightarrow> receipt \<Rightarrow> event_row" where
  "event_of v f rc =
     \<lparr>ev_vault_id = v, ev_server_sequence = rc_serverSequence rc, ev_type = js ''revision-accepted'',
      ev_revision_id = rc_revisionId rc,
      ev_payload = JObj [(js ''fileId'', JStr f), (js ''receipt'', receipt_json rc)]\<rparr>"

text \<open>The tables after a commit of a new revision, the idempotency table aside.\<close>

definition committed :: "store \<Rightarrow> prepared_commit \<Rightarrow> vault_row \<Rightarrow> jsstr \<Rightarrow> store" where
  "committed db prepared vault t =
     (let h = p_header prepared; n = next_server_sequence vault; rc = new_receipt prepared n t
      in db\<lparr>files := (if parentRevisionIds h = [] then (files db)(fileId h \<mapsto> vaultId h) else files db),
            revisions := revisions db @ [new_row prepared vault n t],
            revision_parents := revision_parents db @
              map (\<lambda>(i, p). (revisionId h, p, i)) (enumerate 0 (parentRevisionIds h)),
            file_heads := filter (\<lambda>e. \<forall>p \<in> set (parentRevisionIds h). e \<noteq> (fileId h, p)) (file_heads db)
              @ [(fileId h, revisionId h)],
            vault_events := vault_events db @ [event_of (vaultId h) (fileId h) rc],
            vaults := (vaults db)(vaultId h \<mapsto> vault\<lparr>next_server_sequence := n + 1\<rparr>)\<rparr>)"

lemma assertFileGraph_root:
  "assertFileGraphCommittable db prepared = Inr isRoot \<Longrightarrow> isRoot \<longleftrightarrow> parentRevisionIds (p_header prepared) = []"
  by (auto simp: assertFileGraphCommittable_def Let_def result_simps split: if_splits option.splits)

text \<open>Each write of the commit as an update of one table.\<close>

lemma validateAndPrepareFileGraph_Inr:
  "validateAndPrepareFileGraph db prepared = Inr db' \<longleftrightarrow>
   assertFileGraphCommittable db prepared = Inr (parentRevisionIds (p_header prepared) = []) \<and>
   db' = db\<lparr>files := (if parentRevisionIds (p_header prepared) = []
      then (files db)(fileId (p_header prepared) \<mapsto> vaultId (p_header prepared)) else files db)\<rparr>"
  using assertFileGraph_root [of db prepared]
  by (auto simp: validateAndPrepareFileGraph_def result_simps)

lemma insertRevision_Inr:
  "insertRevision db prepared vault n t = Inr db' \<longleftrightarrow>
   int (write_epoch vault) \<le> MAX_SAFE_INTEGER \<and>
   (\<forall>r \<in> set (revisions db). rv_id r \<noteq> revisionId (p_header prepared) \<and>
      protected_header_hash r \<noteq> p_headerHash prepared \<and>
      (vault_id r = vaultId (p_header prepared) \<longrightarrow> server_sequence r \<noteq> n)) \<and>
   db' = db\<lparr>revisions := revisions db @ [new_row prepared vault n t]\<rparr>"
  by (auto simp: insertRevision_def requireSafeNonNegativeInteger_def result_simps Let_def list_ex_iff new_row_def)

lemma insertRevisionEvent_Inr:
  "insertRevisionEvent db prepared rc = Inr db' \<Longrightarrow> rc_revisionId rc = revisionId (p_header prepared) \<Longrightarrow>
   db' = db\<lparr>vault_events := vault_events db @ [event_of (vaultId (p_header prepared)) (fileId (p_header prepared)) rc]\<rparr>"
  by (auto simp: insertRevisionEvent_def Let_def event_of_def split: if_splits)

lemma advanceCursor_Inr:
  "advanceCursor db v n = Inr db' \<Longrightarrow> vaults db v = Some row \<Longrightarrow>
   db' = db\<lparr>vaults := (vaults db)(v \<mapsto> row\<lparr>next_server_sequence := n + 1\<rparr>)\<rparr>"
  by (auto simp: advanceCursor_def split: if_splits)

lemma insertIdempotencyRecord_Inr:
  "insertIdempotencyRecord env db prepared res st now = Inr db' \<Longrightarrow>
   db' = db\<lparr>idempotency_records := (idempotency_records db)
     ((deviceId (p_actor prepared), p_idempotencyKey prepared) \<mapsto>
       \<lparr>request_hash = p_requestHash prepared, response_status = st, response_body = result_json res,
        expires_at = env_iso env (now + env_idempotencyTtlMs env)\<rparr>)\<rparr>"
  by (auto simp: insertIdempotencyRecord_def Let_def split: if_splits)

lemma requireSafeSequence_Inr:
  "requireSafeSequence n = Inr m \<longleftrightarrow> m = n \<and> 0 < n \<and> int n \<le> MAX_SAFE_INTEGER"
  by (auto simp: requireSafeSequence_def)

lemma replaceParentHeads_eq:
  "replaceParentHeads db prepared =
     db\<lparr>revision_parents := revision_parents db @
          map (\<lambda>(i, p). (revisionId (p_header prepared), p, i)) (enumerate 0 (parentRevisionIds (p_header prepared))),
        file_heads := filter (\<lambda>e. \<forall>p \<in> set (parentRevisionIds (p_header prepared)).
            e \<noteq> (fileId (p_header prepared), p)) (file_heads db)
          @ [(fileId (p_header prepared), revisionId (p_header prepared))]\<rparr>"
  by (simp add: replaceParentHeads_def Let_def retireParents_eq)

lemma commitNewRevision_Inr:
  assumes commit: "commitNewRevision env clock db prepared vault = Inr (res, db')"
    and vault: "vaults db (vaultId (p_header prepared)) = Some vault"
  obtains now where "clock = Some now"
    "res = \<lparr>res_receipt = new_receipt prepared (next_server_sequence vault) (env_iso env now), res_status = Accepted\<rparr>"
    "db' = (committed db prepared vault (env_iso env now))\<lparr>idempotency_records := idempotency_records db'\<rparr>"
    "0 < next_server_sequence vault" "int (next_server_sequence vault) < MAX_SAFE_INTEGER"
    "assertWithinQuota env db prepared vault = Inr ()"
    "assertFileGraphCommittable db prepared = Inr (parentRevisionIds (p_header prepared) = [])"
    "receipt_ok env (new_receipt prepared (next_server_sequence vault) (env_iso env now))"
    "idempotency_records db' = (idempotency_records db)
       ((deviceId (p_actor prepared), p_idempotencyKey prepared) \<mapsto>
        \<lparr>request_hash = p_requestHash prepared, response_status = 201, response_body = result_json res,
         expires_at = env_iso env (now + env_idempotencyTtlMs env)\<rparr>)"
    "\<forall>r \<in> set (revisions db). protected_header_hash r \<noteq> p_headerHash prepared"
proof -
  let ?h = "p_header prepared" and ?n = "next_server_sequence vault"
  from commit obtain now db1 db2 db4 db5 where
    now: "clock = Some now" and n: "0 < ?n" "int ?n < MAX_SAFE_INTEGER"
    and quota: "assertWithinQuota env db prepared vault = Inr ()"
    and db1: "validateAndPrepareFileGraph db prepared = Inr db1"
    and db2: "insertRevision db1 prepared vault ?n (env_iso env now) = Inr db2"
    and rc: "receipt_ok env (new_receipt prepared ?n (env_iso env now))"
    and db4: "insertRevisionEvent (replaceParentHeads db2 prepared) prepared
                (new_receipt prepared ?n (env_iso env now)) = Inr db4"
    and db5: "advanceCursor db4 (vaultId ?h) ?n = Inr db5"
    and res: "res = \<lparr>res_receipt = new_receipt prepared ?n (env_iso env now), res_status = Accepted\<rparr>"
    and db6: "insertIdempotencyRecord env db5 prepared res 201 now = Inr db'"
    unfolding commitNewRevision_def
    by (auto simp: readNow_def requireSafeSequence_Inr Let_def result_simps split: option.splits if_splits)
  note e1 = db1 [unfolded validateAndPrepareFileGraph_Inr]
  note e2 = db2 [unfolded insertRevision_Inr]
  have e4: "db4 = (replaceParentHeads db2 prepared)\<lparr>vault_events := vault_events (replaceParentHeads db2 prepared) @
      [event_of (vaultId ?h) (fileId ?h) (new_receipt prepared ?n (env_iso env now))]\<rparr>"
    using insertRevisionEvent_Inr [OF db4] by (simp add: new_receipt_def)
  have "vaults db4 (vaultId ?h) = Some vault"
    using vault e1 e2 by (simp add: e4 replaceParentHeads_eq)
  note e5 = advanceCursor_Inr [OF db5 this] and e6 = insertIdempotencyRecord_Inr [OF db6]
  have eq: "db5 = committed db prepared vault (env_iso env now)"
    using e1 e2 by (simp add: e5 e4 replaceParentHeads_eq committed_def Let_def)
  have "idempotency_records db5 = idempotency_records db"
    using e1 e2 by (simp add: e5 e4 replaceParentHeads_eq)
  with e6 have "idempotency_records db' = (idempotency_records db)
       ((deviceId (p_actor prepared), p_idempotencyKey prepared) \<mapsto>
        \<lparr>request_hash = p_requestHash prepared, response_status = 201, response_body = result_json res,
         expires_at = env_iso env (now + env_idempotencyTtlMs env)\<rparr>)" by simp
  moreover have "db' = (committed db prepared vault (env_iso env now))\<lparr>idempotency_records := idempotency_records db'\<rparr>"
    using e6 eq by simp
  moreover have "\<forall>r \<in> set (revisions db). protected_header_hash r \<noteq> p_headerHash prepared"
    using e1 e2 by auto
  ultimately show thesis using that now n quota rc res e1 by blast
qed

section \<open>The invariant\<close>

definition superseded :: "store \<Rightarrow> ident \<Rightarrow> bool" where
  "superseded db p \<longleftrightarrow> (\<exists>c i. (c, p, i) \<in> set (revision_parents db))"

definition edges_ok :: "store \<Rightarrow> bool" where
  "edges_ok db \<longleftrightarrow> (\<forall>(c, p, i) \<in> set (revision_parents db). \<exists>rc \<in> set (revisions db). \<exists>rp \<in> set (revisions db).
     rv_id rc = c \<and> rv_id rp = p \<and> file_id rc = file_id rp \<and> vault_id rc = vault_id rp \<and>
     server_sequence rp < server_sequence rc)"

definition heads_ok :: "store \<Rightarrow> bool" where
  "heads_ok db \<longleftrightarrow> distinct (file_heads db) \<and>
     set (file_heads db) = {(file_id r, rv_id r) |r. r \<in> set (revisions db) \<and> \<not> superseded db (rv_id r)}"

definition files_ok :: "store \<Rightarrow> bool" where
  "files_ok db \<longleftrightarrow> (\<forall>r \<in> set (revisions db). files db (file_id r) = Some (vault_id r))"

definition sequences_ok :: "store \<Rightarrow> bool" where
  "sequences_ok db \<longleftrightarrow>
     (\<forall>v row. vaults db v = Some row \<longrightarrow> 0 < next_server_sequence row \<and>
        map server_sequence (vault_rows db v) = [1..<next_server_sequence row]) \<and>
     (\<forall>r \<in> set (revisions db). vaults db (vault_id r) \<noteq> None)"

definition vault_log :: "store \<Rightarrow> ident \<Rightarrow> event_row list" where
  "vault_log db v = filter (\<lambda>e. ev_vault_id e = v) (vault_events db)"

definition events_ok :: "repo_env \<Rightarrow> store \<Rightarrow> bool" where
  "events_ok env db \<longleftrightarrow>
     (\<forall>v. map (\<lambda>e. (ev_server_sequence e, ev_revision_id e)) (vault_log db v) =
          map (\<lambda>r. (server_sequence r, rv_id r)) (vault_rows db v)) \<and>
     (\<forall>e \<in> set (vault_events db). \<exists>f rc. receipt_ok env rc \<and> e = event_of (ev_vault_id e) f rc)"

definition store_inv :: "repo_env \<Rightarrow> store \<Rightarrow> bool" where
  "store_inv env db \<longleftrightarrow>
     distinct (map rv_id (revisions db)) \<and> edges_ok db \<and> heads_ok db \<and> files_ok db \<and>
     sequences_ok db \<and> events_ok env db"

text \<open>The invariant does not look at the idempotency table.\<close>

lemma store_inv_idempotency [simp]: "store_inv env (db\<lparr>idempotency_records := m\<rparr>) = store_inv env db"
  by (simp add: store_inv_def edges_ok_def heads_ok_def superseded_def files_ok_def sequences_ok_def
      vault_rows_def events_ok_def vault_log_def)

lemma getExistingRevision_None:
  "getExistingRevision db rid = None \<longleftrightarrow> (\<forall>r \<in> set (revisions db). rv_id r \<noteq> rid)"
  by (auto simp: getExistingRevision_def find_None_iff)

lemma getExistingRevision_Some:
  "getExistingRevision db rid = Some r \<Longrightarrow> r \<in> set (revisions db) \<and> rv_id r = rid"
  by (auto simp: getExistingRevision_def find_Some_iff)

lemma assertParents_Inr:
  "assertParents db v f ps = Inr () \<Longrightarrow> p \<in> set ps \<Longrightarrow>
   \<exists>r \<in> set (revisions db). rv_id r = p \<and> vault_id r = v \<and> file_id r = f"
  by (induction db v f ps rule: assertParents.induct)
    (auto split: option.splits if_splits dest: getExistingRevision_Some)

text \<open>What the graph check establishes.\<close>

lemma assertFileGraph_Inr:
  assumes "assertFileGraphCommittable db prepared = Inr isRoot"
  shows "\<forall>p \<in> set (parentRevisionIds (p_header prepared)). \<exists>r \<in> set (revisions db).
      rv_id r = p \<and> vault_id r = vaultId (p_header prepared) \<and> file_id r = fileId (p_header prepared)"
    and "parentRevisionIds (p_header prepared) = [] \<longrightarrow> files db (fileId (p_header prepared)) = None"
    and "parentRevisionIds (p_header prepared) \<noteq> [] \<longrightarrow>
      files db (fileId (p_header prepared)) = Some (vaultId (p_header prepared))"
    and "length (parentRevisionIds (p_header prepared)) \<ge> 2 \<longrightarrow>
      getHeads db (vaultId (p_header prepared)) (fileId (p_header prepared)) = parentRevisionIds (p_header prepared)"
  using assms assertParents_Inr
  by (auto simp: assertFileGraphCommittable_def Let_def result_simps split: if_splits option.splits)

lemma committed_simps [simp]:
  "revisions (committed db prepared vault t) = revisions db @ [new_row prepared vault (next_server_sequence vault) t]"
  "files (committed db prepared vault t) = (if parentRevisionIds (p_header prepared) = []
     then (files db)(fileId (p_header prepared) \<mapsto> vaultId (p_header prepared)) else files db)"
  "revision_parents (committed db prepared vault t) = revision_parents db @
     map (\<lambda>(i, p). (revisionId (p_header prepared), p, i)) (enumerate 0 (parentRevisionIds (p_header prepared)))"
  "file_heads (committed db prepared vault t) =
     filter (\<lambda>e. \<forall>p \<in> set (parentRevisionIds (p_header prepared)). e \<noteq> (fileId (p_header prepared), p)) (file_heads db)
     @ [(fileId (p_header prepared), revisionId (p_header prepared))]"
  "vault_events (committed db prepared vault t) = vault_events db @
     [event_of (vaultId (p_header prepared)) (fileId (p_header prepared)) (new_receipt prepared (next_server_sequence vault) t)]"
  "vaults (committed db prepared vault t) =
     (vaults db)(vaultId (p_header prepared) \<mapsto> vault\<lparr>next_server_sequence := next_server_sequence vault + 1\<rparr>)"
  by (simp_all add: committed_def Let_def)

lemma new_row_simps [simp]:
  "rv_id (new_row prepared vault n t) = revisionId (p_header prepared)"
  "vault_id (new_row prepared vault n t) = vaultId (p_header prepared)"
  "file_id (new_row prepared vault n t) = fileId (p_header prepared)"
  "server_sequence (new_row prepared vault n t) = n"
  "blob_hash (new_row prepared vault n t) = p_blobHash prepared"
  "blob_size (new_row prepared vault n t) = p_blobSize prepared"
  by (simp_all add: new_row_def)

lemma event_of_simps [simp]:
  "ev_vault_id (event_of v f rc) = v" "ev_server_sequence (event_of v f rc) = rc_serverSequence rc"
  "ev_revision_id (event_of v f rc) = rc_revisionId rc"
  by (simp_all add: event_of_def)

lemma new_receipt_simps [simp]:
  "rc_revisionId (new_receipt prepared n t) = revisionId (p_header prepared)"
  "rc_serverSequence (new_receipt prepared n t) = n"
  by (simp_all add: new_receipt_def)

lemma ex_enumerate: "(\<exists>i. (i, p) \<in> set (enumerate n ps)) \<longleftrightarrow> p \<in> set ps"
  by (induction ps arbitrary: n) auto

lemma superseded_committed:
  "superseded (committed db prepared vault t) p \<longleftrightarrow>
   superseded db p \<or> p \<in> set (parentRevisionIds (p_header prepared))"
proof -
  have e: "(c, p, i) \<in> set (map (\<lambda>(i, p). (r, p, i)) xs) \<longleftrightarrow> c = r \<and> (i, p) \<in> set xs"
    for r c i and xs :: "(nat \<times> ident) list"
    by (induction xs) auto
  have "(\<exists>c i. (c, p, i) \<in> set (map (\<lambda>(i, p). (r, p, i)) xs)) \<longleftrightarrow> (\<exists>i. (i, p) \<in> set xs)"
    for r and xs :: "(nat \<times> ident) list" unfolding e by simp
  from this [of "revisionId (p_header prepared)" "enumerate 0 (parentRevisionIds (p_header prepared))"]
  show ?thesis
    unfolding superseded_def ex_enumerate committed_simps(3) set_append Un_iff by blast
qed

lemma edges_committed:
  assumes "edges_ok db" "sequences_ok db" "vaults db (vaultId (p_header prepared)) = Some vault"
    and "assertFileGraphCommittable db prepared = Inr isRoot"
  shows "edges_ok (committed db prepared vault t)"
proof -
  let ?row = "new_row prepared vault (next_server_sequence vault) t"
  have below: "server_sequence r < next_server_sequence vault"
    if "r \<in> set (revisions db)" "vault_id r = vaultId (p_header prepared)" for r
  proof -
    have "server_sequence r \<in> set (map server_sequence (vault_rows db (vaultId (p_header prepared))))"
      using that by (auto simp: vault_rows_def)
    also have "map server_sequence (vault_rows db (vaultId (p_header prepared))) = [1..<next_server_sequence vault]"
      using assms(2,3) by (simp add: sequences_ok_def)
    finally show ?thesis by simp
  qed
  have "\<exists>rp \<in> set (revisions db). rv_id rp = p \<and> file_id ?row = file_id rp \<and> vault_id ?row = vault_id rp \<and>
      server_sequence rp < server_sequence ?row" if "p \<in> set (parentRevisionIds (p_header prepared))" for p
    using assertFileGraph_Inr(1) [OF assms(4)] below that by fastforce
  then have "\<exists>rc \<in> set (revisions (committed db prepared vault t)). \<exists>rp \<in> set (revisions (committed db prepared vault t)).
      rv_id rc = c \<and> rv_id rp = p \<and> file_id rc = file_id rp \<and> vault_id rc = vault_id rp \<and>
      server_sequence rp < server_sequence rc" if "(c, p, i) \<in> set (revision_parents (committed db prepared vault t))" for c p i
    using that assms(1) by (fastforce simp: edges_ok_def dest: in_set_enumerate_eq [THEN iffD1])
  then show ?thesis unfolding edges_ok_def by blast
qed

lemma files_committed:
  assumes "files_ok db" "assertFileGraphCommittable db prepared = Inr isRoot"
  shows "files_ok (committed db prepared vault t)"
  using assms(1) assertFileGraph_Inr(2,3) [OF assms(2)] by (auto simp: files_ok_def)

lemma heads_committed:
  assumes "heads_ok db" "edges_ok db" "files_ok db" "distinct (map rv_id (revisions db))"
    and new: "\<forall>r \<in> set (revisions db). rv_id r \<noteq> revisionId (p_header prepared)"
    and graph: "assertFileGraphCommittable db prepared = Inr isRoot"
    and own: "revisionId (p_header prepared) \<notin> set (parentRevisionIds (p_header prepared))"
  shows "heads_ok (committed db prepared vault t)"
proof -
  let ?h = "p_header prepared"
  have fresh: "\<not> superseded db (revisionId ?h)"
    using assms(2) new by (fastforce simp: superseded_def edges_ok_def)
  have H: "set (file_heads db) = {(file_id r, rv_id r) |r. r \<in> set (revisions db) \<and> \<not> superseded db (rv_id r)}"
    using assms(1) by (simp add: heads_ok_def)
  have "r \<in> set (revisions db) \<Longrightarrow> rv_id r \<in> set (parentRevisionIds ?h) \<Longrightarrow> file_id r = fileId ?h" for r
    using assertFileGraph_Inr(1) [OF graph] assms(4) by (metis (no_types, lifting) distinct_map inj_onD)
  then have keep: "{(file_id r, rv_id r) |r. r \<in> set (revisions db) \<and>
        \<not> (superseded db (rv_id r) \<or> rv_id r \<in> set (parentRevisionIds ?h))} =
      {e \<in> set (file_heads db). \<forall>p \<in> set (parentRevisionIds ?h). e \<noteq> (fileId ?h, p)}"
    unfolding H by auto
  have "{(file_id r, rv_id r) |r. r \<in> set (revisions (committed db prepared vault t)) \<and>
        \<not> superseded (committed db prepared vault t) (rv_id r)} =
      {(file_id r, rv_id r) |r. r \<in> set (revisions db) \<and>
        \<not> (superseded db (rv_id r) \<or> rv_id r \<in> set (parentRevisionIds ?h))} \<union> {(fileId ?h, revisionId ?h)}"
    using fresh own unfolding superseded_committed by (auto simp: new_row_simps) (metis new_row_simps(1,3))
  moreover have "(fileId ?h, revisionId ?h) \<notin> set (file_heads db)"
    using assms(1) new by (auto simp: heads_ok_def)
  ultimately show ?thesis using assms(1) keep by (simp add: heads_ok_def)
qed

lemma sequences_committed:
  assumes "sequences_ok db" "vaults db (vaultId (p_header prepared)) = Some vault"
  shows "sequences_ok (committed db prepared vault t)"
proof -
  have "1 \<le> next_server_sequence vault" using assms by (auto simp: sequences_ok_def Suc_le_eq)
  then show ?thesis using assms by (auto simp: sequences_ok_def vault_rows_def)
qed

lemma events_committed:
  assumes "events_ok env db" "receipt_ok env (new_receipt prepared (next_server_sequence vault) t)"
  shows "events_ok env (committed db prepared vault t)"
  using assms by (fastforce simp: events_ok_def vault_log_def vault_rows_def)

lemma store_inv_committed:
  assumes "store_inv env db" "vaults db (vaultId (p_header prepared)) = Some vault"
    and "\<forall>r \<in> set (revisions db). rv_id r \<noteq> revisionId (p_header prepared)"
    and "assertFileGraphCommittable db prepared = Inr isRoot"
    and "revisionId (p_header prepared) \<notin> set (parentRevisionIds (p_header prepared))"
    and "receipt_ok env (new_receipt prepared (next_server_sequence vault) t)"
  shows "store_inv env (committed db prepared vault t)"
  using assms unfolding store_inv_def
  by (auto intro: edges_committed files_committed heads_committed sequences_committed events_committed
      simp del: committed_simps(2-6))

section \<open>Every commit keeps the invariant\<close>

text \<open>What the preparation establishes; it reads a snapshot, so only facts about the request survive.\<close>

lemma prepareHeader_Inr:
  assumes "prepareHeader env snapshot input = Inr p"
  obtains h where "parse_header (env_uuid env) (in_header input) = Some h" "header_ok (env_uuid env) h"
    "p = \<lparr>p_actor = in_actor input, p_blobHash = in_blobHash input, p_blobSize = 0, p_header = h,
       p_headerBytes = canonicalJson (env_ftext env) (header_json h), p_headerHash = hashCanonicalJson env (header_json h),
       p_idempotencyKey = in_idempotencyKey input,
       p_requestHash = hashCanonicalJson env (request_json (in_actor input) (in_blobHash input) h)\<rparr>"
    "expectedMemberId h = memberId (in_actor input)" "expectedDeviceId h = deviceId (in_actor input)"
  using assms parse_header_ok [of "env_uuid env" "in_header input"]
  by (auto simp: prepareHeader_def validateIdempotencyKey_def Let_def result_simps intro: that
      split: option.splits if_splits)

lemma prepareCommit_header:
  assumes "prepareCommit env snapshot input = Inr p"
  shows "header_ok (env_uuid env) (p_header p)" "parse_header (env_uuid env) (in_header input) = Some (p_header p)"
  using assms by (auto simp: prepareCommit_def result_simps elim!: prepareHeader_Inr)

lemma getVault_Inr: "getVault db v = Inr row \<longleftrightarrow> vaults db v = Some row \<and> deleted_at row = None"
  by (auto simp: getVault_def split: option.splits)

lemma replayExisting_db:
  "replayExisting env clock db p ex idem = Inr (res, db') \<Longrightarrow> \<exists>m. db' = db\<lparr>idempotency_records := m\<rparr>"
proof -
  assume "replayExisting env clock db p ex idem = Inr (res, db')"
  then consider "db' = db" | r st now where "insertIdempotencyRecord env db p r st now = Inr db'"
    by (auto simp: replayExisting_def Let_def result_simps split: option.splits)
  then show ?thesis
  proof cases
    case 1
    then show ?thesis by (intro exI [of _ "idempotency_records db"]) simp
  qed (use insertIdempotencyRecord_Inr in blast)
qed

lemma commitPrepared_cases:
  assumes "commitPrepared env clock db p = Inr (res, db')"
  obtains (replay) m ex where "db' = db\<lparr>idempotency_records := m\<rparr>"
      "getExistingRevision db (revisionId (p_header p)) = Some ex"
  | (accept) vault where "vaults db (vaultId (p_header p)) = Some vault" "deleted_at vault = None"
      "getExistingRevision db (revisionId (p_header p)) = None" "getIdempotencyRecord db p = None"
      "assertAuthorizedActor db (p_actor p) (p_header p) = Inr ()"
      "commitNewRevision env clock db p vault = Inr (res, db')"
proof -
  from assms obtain vault where v: "vaults db (vaultId (p_header p)) = Some vault" "deleted_at vault = None"
      "assertAuthorizedActor db (p_actor p) (p_header p) = Inr ()"
    and rest: "(case getExistingRevision db (revisionId (p_header p)) of
        Some ex \<Rightarrow> replayExisting env clock db p ex (getIdempotencyRecord db p)
      | None \<Rightarrow> (case getIdempotencyRecord db p of
            Some idem \<Rightarrow> bind_result (assertIdempotencyRequest idem p) (\<lambda>_. Inl REPOSITORY_INTEGRITY)
          | None \<Rightarrow> commitNewRevision env clock db p vault)) = Inr (res, db')"
    unfolding commitPrepared_def Let_def by (auto simp: result_simps getVault_Inr)
  show thesis
  proof (cases "getExistingRevision db (revisionId (p_header p))")
    case None
    then show thesis using rest v accept
      by (cases "getIdempotencyRecord db p") (simp_all add: result_simps)
  next
    case (Some ex)
    then show thesis using rest replay replayExisting_db by fastforce
  qed
qed

lemma commitPrepared_inv:
  assumes inv: "store_inv env db" and ok: "header_ok (env_uuid env) (p_header p)"
    and commit: "commitPrepared env clock db p = Inr (res, db')"
  shows "store_inv env db'"
  using commit
proof (cases rule: commitPrepared_cases)
  case (accept vault)
  from commitNewRevision_Inr [OF accept(6,1)] obtain now where
    eq: "db' = (committed db p vault (env_iso env now))\<lparr>idempotency_records := idempotency_records db'\<rparr>"
    and graph: "assertFileGraphCommittable db p = Inr (parentRevisionIds (p_header p) = [])"
    and rc: "receipt_ok env (new_receipt p (next_server_sequence vault) (env_iso env now))" by metis
  have "store_inv env (committed db p vault (env_iso env now))"
    using store_inv_committed [OF inv accept(1) _ graph _ rc] accept(3) ok
    by (simp add: getExistingRevision_None header_ok_def)
  then show ?thesis by (metis eq store_inv_idempotency)
qed (use inv in auto)

definition commit_step :: "repo_env \<Rightarrow> store \<Rightarrow> int option \<times> store \<times> commit_input \<Rightarrow> (repo_error + commit_result) \<times> store" where
  "commit_step env db req = (case req of (clock, snapshot, input) \<Rightarrow> commitRevision env clock snapshot db input)"

lemma commitRevision_inv:
  assumes "store_inv env db"
  shows "store_inv env (snd (commitRevision env clock snapshot db input))"
proof (cases "bind_result (prepareCommit env snapshot input) (commitPrepared env clock db)")
  case (Inl e)
  then show ?thesis using assms by (simp add: commitRevision_def)
next
  case (Inr r)
  then obtain p res db' where "prepareCommit env snapshot input = Inr p"
    "commitPrepared env clock db p = Inr (res, db')" "r = (res, db')" by (cases r) (auto simp: result_simps)
  then show ?thesis
    using commitPrepared_inv [OF assms prepareCommit_header(1)] Inr by (simp add: commitRevision_def)
qed

interpretation store: invariant_machine "commit_step env" "store_inv env" for env
  by unfold_locales (auto simp: commit_step_def commitRevision_inv split: prod.splits)

section \<open>Receipts survive JSON\<close>

lemma parse_receipt_json: "receipt_ok env rc \<Longrightarrow> parse_receipt env (receipt_json rc) = Some rc"
  by (cases rc, cases "rc_parentRevisionIds rc")
    (auto simp: parse_receipt_def receipt_json_def strict_object_def receipt_ok_def js_def)

lemma parseEventRow_event_of:
  "receipt_ok env rc \<Longrightarrow> parseEventRow env (event_of v f rc) =
     Inr \<lparr>se_fileId = f, se_receipt = rc, se_revisionId = rc_revisionId rc, se_serverSequence = rc_serverSequence rc\<rparr>"
  by (simp add: parseEventRow_def event_of_def parse_receipt_json) (simp add: js_def)

lemma parseStoredResult_json:
  "receipt_ok env rc \<Longrightarrow> parseStoredResult env (result_json \<lparr>res_receipt = rc, res_status = st\<rparr>) rc =
     Inr \<lparr>res_receipt = rc, res_status = st\<rparr>"
  by (cases st) (simp_all add: parseStoredResult_def result_json_def parse_receipt_json parse_status_def
      status_json_def sameReceipt_def js_def)

end
