(* ===== verification/Blobs.thy ===== *)
theory Blobs
  imports RevisionStore_Inv
begin

text \<open>
  The content-addressed blob store (\<^verbatim>\<open>apps/server/src/blob-store.ts\<close>) and the startup sweep
  (\<^verbatim>\<open>apps/server/src/blob-gc.ts\<close>).

  The directory tree is a list of named nodes: the path of a blob is a function of its name, so the
  name stands for the path. A regular file carries its bytes and whether they are synced. A write
  is a list of file-system operations, so that a crash between any two of them, or one that loses
  everything that was not synced, is a state of the model. \<open>fails\<close> says which calls fail: an I/O error or
  the source's fault injector. The operations for one hash are serialised by the source, so
  \<^verbatim>\<open>put\<close> is \<^verbatim>\<open>putSerialized\<close>; SHA-256 is the parameter \<open>sha\<close>.
\<close>

section \<open>The file system\<close>

datatype node = RegularFile "nat list" bool | SymbolicLink | OtherNode

type_synonym disk = "(jsstr \<times> node) list"

datatype fs_op = CreateFile jsstr | WriteFile jsstr "nat list" | SyncFile jsstr | RenameFile jsstr jsstr | UnlinkFile jsstr

definition lookup_node :: "disk \<Rightarrow> jsstr \<Rightarrow> node option" where
  "lookup_node d name = map_of d name"

definition set_node :: "disk \<Rightarrow> jsstr \<Rightarrow> node \<Rightarrow> disk" where
  "set_node d name n = (name, n) # filter (\<lambda>e. fst e \<noteq> name) d"

definition remove_node :: "disk \<Rightarrow> jsstr \<Rightarrow> disk" where
  "remove_node d name = filter (\<lambda>e. fst e \<noteq> name) d"

fun apply_op :: "disk \<Rightarrow> fs_op \<Rightarrow> disk" where
  "apply_op d (CreateFile name) = set_node d name (RegularFile [] False)"
| "apply_op d (WriteFile name bytes) = set_node d name (RegularFile bytes False)"
| "apply_op d (SyncFile name) =
     (case lookup_node d name of Some (RegularFile bytes _) \<Rightarrow> set_node d name (RegularFile bytes True) | _ \<Rightarrow> d)"
| "apply_op d (RenameFile name new) =
     (case lookup_node d name of Some n \<Rightarrow> set_node (remove_node d name) new n | None \<Rightarrow> d)"
| "apply_op d (UnlinkFile name) = remove_node d name"

section \<open>The store\<close>

datatype blob_error = InvalidHash | Integrity | NoEntry | IoFailure

datatype put_point =
    Mkdir | StatFinal | OpenTemp | WriteTemp | AfterTempWrite | FsyncFile | AfterFileFsync | CloseTemp
  | Rename | AfterRename | FsyncDirectory | AfterDirectoryFsync

record write_result =
  wr_hash :: jsstr
  wr_byteLength :: nat
  wr_created :: bool

definition readExisting :: "disk \<Rightarrow> jsstr \<Rightarrow> blob_error + nat list" where
  "readExisting d hash =
     (case lookup_node d hash of
        None \<Rightarrow> Inl NoEntry
      | Some SymbolicLink \<Rightarrow> Inl Integrity
      | Some OtherNode \<Rightarrow> Inl Integrity
      | Some (RegularFile bytes _) \<Rightarrow> Inr bytes)"

definition verifyExisting :: "(nat list \<Rightarrow> jsstr) \<Rightarrow> disk \<Rightarrow> jsstr \<Rightarrow> blob_error + nat list" where
  "verifyExisting sha d hash =
     bind_result (readExisting d hash) (\<lambda>bytes. if sha bytes \<noteq> hash then Inl Integrity else Inr bytes)"

definition blob_read_bytes :: "disk \<Rightarrow> jsstr \<Rightarrow> blob_error + nat list" where
  "blob_read_bytes d hash = (if \<not> sha256_hex hash then Inl InvalidHash else readExisting d hash)"

definition readVerified :: "(nat list \<Rightarrow> jsstr) \<Rightarrow> disk \<Rightarrow> jsstr \<Rightarrow> blob_error + nat list" where
  "readVerified sha d hash = (if \<not> sha256_hex hash then Inl InvalidHash else verifyExisting sha d hash)"

definition blob_remove :: "disk \<Rightarrow> jsstr \<Rightarrow> blob_error + disk" where
  "blob_remove d hash = (if \<not> sha256_hex hash then Inl InvalidHash else Inr (remove_node d hash))"

definition listHashes :: "disk \<Rightarrow> jsstr list" where
  "listHashes d = filter sha256_hex (map fst d)"

text \<open>The name of a temporary file: a dot, the hash, a process id and a random part.\<close>

definition temporary_name :: "jsstr \<Rightarrow> jsstr \<Rightarrow> jsstr" where
  "temporary_name hash unique = js ''.'' @ hash @ js ''.'' @ unique @ js ''.tmp''"

text \<open>
  \<open>fail ops\<close> is a throw inside the \<^verbatim>\<open>try\<close> before the rename: the temporary file is unlinked. What a
  write that failed half way left in that file is the unsynced content of a file that goes away.
\<close>

definition putSerialized ::
    "(put_point \<Rightarrow> bool) \<Rightarrow> (nat list \<Rightarrow> jsstr) \<Rightarrow> disk \<Rightarrow> jsstr \<Rightarrow> jsstr \<Rightarrow> nat list \<Rightarrow>
     (blob_error + write_result) \<times> fs_op list" where
  "putSerialized fails sha d unique hash bytes =
     (let tmp = temporary_name hash unique;
          fail = (\<lambda>ops. (Inl IoFailure, ops @ [UnlinkFile tmp]));
          opened = [CreateFile tmp];
          written = opened @ [WriteFile tmp bytes];
          synced = written @ [SyncFile tmp];
          renamed = synced @ [RenameFile tmp hash]
      in if \<not> sha256_hex hash then (Inl InvalidHash, [])
         else if fails Mkdir \<or> fails StatFinal then (Inl IoFailure, [])
         else if lookup_node d hash \<noteq> None then
           (case verifyExisting sha d hash of
              Inl e \<Rightarrow> (Inl e, [])
            | Inr _ \<Rightarrow>
                if fails FsyncDirectory \<or> fails AfterDirectoryFsync then (Inl IoFailure, [])
                else (Inr \<lparr>wr_hash = hash, wr_byteLength = length bytes, wr_created = False\<rparr>, []))
         else if fails OpenTemp then fail []
         else if fails WriteTemp then fail opened
         else if fails AfterTempWrite \<or> fails FsyncFile then fail written
         else if fails AfterFileFsync \<or> fails CloseTemp \<or> fails Rename then fail synced
         else if fails AfterRename \<or> fails FsyncDirectory \<or> fails AfterDirectoryFsync then (Inl IoFailure, renamed)
         else (Inr \<lparr>wr_hash = hash, wr_byteLength = length bytes, wr_created = True\<rparr>, renamed))"

definition put ::
    "(put_point \<Rightarrow> bool) \<Rightarrow> (nat list \<Rightarrow> jsstr) \<Rightarrow> disk \<Rightarrow> jsstr \<Rightarrow> nat list \<Rightarrow> jsstr option \<Rightarrow>
     (blob_error + write_result) \<times> disk" where
  "put fails sha d unique bytes knownHash =
     (let hash = (case knownHash of Some h \<Rightarrow> h | None \<Rightarrow> sha bytes);
          (res, ops) = putSerialized fails sha d unique hash bytes
      in (res, foldl apply_op d ops))"

section \<open>The sweep\<close>

record sweep_result =
  sw_removed :: nat
  sw_scanned :: nat

fun sweepLoop :: "jsstr set \<Rightarrow> disk \<Rightarrow> nat \<Rightarrow> jsstr list \<Rightarrow> disk \<times> nat" where
  "sweepLoop referenced d removed [] = (d, removed)"
| "sweepLoop referenced d removed (hash # rest) =
     (if hash \<in> referenced then sweepLoop referenced d removed rest
      else sweepLoop referenced (remove_node d hash) (removed + 1) rest)"

definition sweepOrphanedBlobs :: "store \<Rightarrow> disk \<Rightarrow> sweep_result \<times> disk" where
  "sweepOrphanedBlobs db d =
     (let referenced = set (map blob_hash (revisions db));
          hashes = listHashes d;
          (d', removed) = sweepLoop referenced d 0 hashes
      in (\<lparr>sw_removed = removed, sw_scanned = length hashes\<rparr>, d'))"

section \<open>Integrity and crashes\<close>

text \<open>Every node with the name of a blob is a synced file whose bytes hash to that name.\<close>

definition disk_ok :: "(nat list \<Rightarrow> jsstr) \<Rightarrow> disk \<Rightarrow> bool" where
  "disk_ok sha d \<longleftrightarrow> distinct (map fst d) \<and>
     (\<forall>name n. (name, n) \<in> set d \<longrightarrow> sha256_hex name \<longrightarrow> (\<exists>b. n = RegularFile b True \<and> sha b = name))"

text \<open>A power loss: whatever is not synced may hold anything.\<close>

fun torn_node :: "node \<Rightarrow> node \<Rightarrow> bool" where
  "torn_node (RegularFile b False) n' \<longleftrightarrow> (\<exists>b' s. n' = RegularFile b' s)"
| "torn_node n n' \<longleftrightarrow> n' = n"

definition power_loss :: "disk \<Rightarrow> disk \<Rightarrow> bool" where
  "power_loss d d' \<longleftrightarrow> list_all2 (\<lambda>(x, n) (x', n'). x' = x \<and> torn_node n n') d d'"

lemma torn_node_refl [simp]: "torn_node n n"
proof (cases n)
  case (RegularFile b s)
  then show ?thesis by (cases s) auto
qed auto

lemma power_loss_refl: "power_loss d d"
  by (auto simp: power_loss_def list_all2_same)

lemma power_loss_ok:
  assumes "disk_ok sha d" "power_loss d d'"
  shows "disk_ok sha d' \<and> (\<forall>h. sha256_hex h \<longrightarrow> lookup_node d' h = lookup_node d h)"
proof -
  have names: "map fst d' = map fst d"
    using assms(2) unfolding power_loss_def by (induction rule: list_all2_induct) auto
  have node: "\<exists>n. (x, n) \<in> set d \<and> torn_node n n'" if "(x, n') \<in> set d'" for x n'
    using assms(2) that unfolding power_loss_def by (induction rule: list_all2_induct) auto
  have look: "lookup_node d' h = lookup_node d h" if h: "sha256_hex h" for h
  proof -
    have "\<forall>(x, n) \<in> set d. sha256_hex x \<longrightarrow> (\<exists>b. n = RegularFile b True)"
      using assms(1) by (auto simp: disk_ok_def)
    with assms(2) show ?thesis unfolding power_loss_def lookup_node_def
      by (induction rule: list_all2_induct) (use h in fastforce)+
  qed
  have "\<exists>b. n' = RegularFile b True \<and> sha b = x" if "(x, n') \<in> set d'" "sha256_hex x" for x n'
    using node [OF that(1)] assms(1) that(2) by (fastforce simp: disk_ok_def)
  then show ?thesis using assms(1) names look by (auto simp: disk_ok_def)
qed

lemma map_of_filter_other: "y \<noteq> x \<Longrightarrow> map_of (filter (\<lambda>e. fst e \<noteq> x) d) y = map_of d y"
  by (induction d) auto

lemma set_node_simps [simp]:
  "lookup_node (set_node d x n) y = (if y = x then Some n else lookup_node d y)"
  "lookup_node (remove_node d x) y = (if y = x then None else lookup_node d y)"
  by (auto simp: lookup_node_def set_node_def remove_node_def map_of_filter_other map_of_eq_None_iff)

lemma disk_ok_remove: "disk_ok sha d \<Longrightarrow> disk_ok sha (remove_node d x)"
  by (auto simp: disk_ok_def remove_node_def distinct_map_filter)

lemma disk_ok_set:
  "disk_ok sha d \<Longrightarrow> (sha256_hex x \<longrightarrow> (\<exists>b. n = RegularFile b True \<and> sha b = x)) \<Longrightarrow> disk_ok sha (set_node d x n)"
  by (auto simp: disk_ok_def set_node_def distinct_map_filter)

lemma temporary_not_hash [simp]: "\<not> sha256_hex (temporary_name hash unique)"
  by (simp add: temporary_name_def sha256_hex_def js_def)

lemma hash_not_temporary: "sha256_hex h \<Longrightarrow> h \<noteq> temporary_name hash unique"
  by auto

text \<open>
  The states between two operations of a write: integrity holds, and only the last one has a new
  blob.
\<close>

definition keeps_blobs :: "(nat list \<Rightarrow> jsstr) \<Rightarrow> disk \<Rightarrow> disk \<Rightarrow> bool" where
  "keeps_blobs sha d d' \<longleftrightarrow> disk_ok sha d' \<and> (\<forall>h. sha256_hex h \<longrightarrow> lookup_node d h \<noteq> None \<longrightarrow> lookup_node d' h = lookup_node d h)"

lemma keeps_blobs_refl: "disk_ok sha d \<Longrightarrow> keeps_blobs sha d d"
  by (simp add: keeps_blobs_def)

fun temporary_op :: "jsstr \<Rightarrow> fs_op \<Rightarrow> bool" where
  "temporary_op tmp (CreateFile name) \<longleftrightarrow> name = tmp"
| "temporary_op tmp (WriteFile name bytes) \<longleftrightarrow> name = tmp"
| "temporary_op tmp (SyncFile name) \<longleftrightarrow> name = tmp"
| "temporary_op tmp (RenameFile name new) \<longleftrightarrow> False"
| "temporary_op tmp (UnlinkFile name) \<longleftrightarrow> name = tmp"

lemma keeps_blobs_temporary:
  assumes "list_all (temporary_op tmp) ops" "\<not> sha256_hex tmp" "keeps_blobs sha d d0"
  shows "keeps_blobs sha d (foldl apply_op d0 ops)"
  using assms(1,3)
proof (induction ops arbitrary: d0)
  case (Cons op ops)
  have "keeps_blobs sha d (apply_op d0 op)"
    using Cons.prems assms(2)
    by (cases op) (auto simp: keeps_blobs_def disk_ok_set disk_ok_remove split: option.splits node.splits)
  then show ?case using Cons by simp
qed simp

lemma keeps_blobs_publish:
  assumes "disk_ok sha d" "sha256_hex hash" "sha bytes = hash" "lookup_node d hash = None" "\<not> sha256_hex tmp"
  shows "keeps_blobs sha d (foldl apply_op d [CreateFile tmp, WriteFile tmp bytes, SyncFile tmp, RenameFile tmp hash])"
    "lookup_node (foldl apply_op d [CreateFile tmp, WriteFile tmp bytes, SyncFile tmp, RenameFile tmp hash]) hash =
      Some (RegularFile bytes True)"
  using assms by (auto simp: keeps_blobs_def intro!: disk_ok_set disk_ok_remove)

lemma prefix_snoc_cases: "prefix ops' (ops @ [op]) \<Longrightarrow> prefix ops' ops \<or> ops' = ops @ [op]"
  by simp blast

text \<open>Every trace of \<^verbatim>\<open>putSerialized\<close> works on the temporary file, but for a last rename.\<close>

lemma putSerialized_trace:
  assumes "putSerialized fails sha d unique hash bytes = (res, ops)"
  shows "list_all (temporary_op (temporary_name hash unique)) ops \<and> (\<forall>w. res = Inr w \<longrightarrow> ops = []) \<or>
    sha256_hex hash \<and> lookup_node d hash = None \<and>
    ops = [CreateFile (temporary_name hash unique), WriteFile (temporary_name hash unique) bytes,
           SyncFile (temporary_name hash unique)] @ [RenameFile (temporary_name hash unique) hash]"
  using assms by (auto simp: putSerialized_def Let_def split: if_splits sum.splits)

lemma putSerialized_prefix:
  assumes "disk_ok sha d" "sha bytes = hash"
    and put: "putSerialized fails sha d unique hash bytes = (res, ops)" and pre: "prefix ops' ops"
  shows "keeps_blobs sha d (foldl apply_op d ops')"
proof -
  have tmp: "keeps_blobs sha d (foldl apply_op d ops'')"
    if "list_all (temporary_op (temporary_name hash unique)) ops1" "prefix ops'' ops1" for ops'' ops1
    using that assms(1) by (intro keeps_blobs_temporary keeps_blobs_refl) (auto simp: prefix_def)
  show ?thesis
    using putSerialized_trace [OF put]
  proof (elim disjE conjE)
    assume "sha256_hex hash" "lookup_node d hash = None"
      and ops: "ops = [CreateFile (temporary_name hash unique), WriteFile (temporary_name hash unique) bytes,
        SyncFile (temporary_name hash unique)] @ [RenameFile (temporary_name hash unique) hash]"
    with prefix_snoc_cases [OF pre [unfolded ops]] show ?thesis
      using keeps_blobs_publish(1) [OF assms(1) _ assms(2)]
        tmp [of "[CreateFile (temporary_name hash unique), WriteFile (temporary_name hash unique) bytes,
          SyncFile (temporary_name hash unique)]" ops'] by auto
  qed (use tmp pre in blast)
qed

lemma putSerialized_stored:
  assumes "disk_ok sha d" "sha bytes = hash"
    and put: "putSerialized fails sha d unique hash bytes = (Inr w, ops)"
  shows "wr_hash w = hash \<and> wr_byteLength w = length bytes \<and>
    (\<exists>b. readVerified sha (foldl apply_op d ops) hash = Inr b \<and> sha b = hash)"
proof (cases "lookup_node d hash")
  case None
  then have "sha256_hex hash" and ops: "ops = [CreateFile (temporary_name hash unique), WriteFile (temporary_name hash unique) bytes,
        SyncFile (temporary_name hash unique), RenameFile (temporary_name hash unique) hash]"
    and w: "w = \<lparr>wr_hash = hash, wr_byteLength = length bytes, wr_created = True\<rparr>"
    using put by (auto simp: putSerialized_def Let_def split: if_splits)
  then show ?thesis
    using keeps_blobs_publish(2) [OF assms(1) _ assms(2) None, of "temporary_name hash unique"] assms(2)
    by (simp add: readVerified_def verifyExisting_def readExisting_def)
next
  case (Some n)
  then have "ops = []" "sha256_hex hash" "w = \<lparr>wr_hash = hash, wr_byteLength = length bytes, wr_created = False\<rparr>"
    "\<exists>b. verifyExisting sha d hash = Inr b"
    using put by (auto simp: putSerialized_def Let_def split: if_splits sum.splits)
  then show ?thesis
    by (auto simp: readVerified_def verifyExisting_def result_simps split: if_splits)
qed

section \<open>Properties\<close>

text \<open>
  C15. A write is crash safe: stop it after any number of its file-system operations and lose
  everything unsynced, and still every blob on disk hashes to its name and every blob that was there
  is unchanged. When \<^verbatim>\<open>put\<close> returns, the bytes under the address hash to it.
\<close>

theorem put_crash_safe:
  assumes "disk_ok sha d" "sha bytes = hash"
    and put: "putSerialized fails sha d unique hash bytes = (res, ops)"
    and crash: "prefix ops' ops" "power_loss (foldl apply_op d ops') d'"
  shows "disk_ok sha d' \<and>
    (\<forall>h b. readVerified sha d h = Inr b \<longrightarrow> readVerified sha d' h = Inr b) \<and>
    (\<forall>w. res = Inr w \<longrightarrow> wr_hash w = hash \<and> wr_byteLength w = length bytes \<and>
      (\<exists>b. readVerified sha (foldl apply_op d ops) hash = Inr b \<and> sha b = hash))"
proof -
  let ?d = "foldl apply_op d ops'"
  have k: "keeps_blobs sha d ?d" by (rule putSerialized_prefix [OF assms(1-3) crash(1)])
  then have ok: "disk_ok sha d'" and look: "\<And>h. sha256_hex h \<Longrightarrow> lookup_node d' h = lookup_node ?d h"
    using power_loss_ok [OF _ crash(2), of sha] by (auto simp: keeps_blobs_def)
  have "readVerified sha d' h = Inr b" if "readVerified sha d h = Inr b" for h b
    using that k look [of h]
    by (auto simp: readVerified_def verifyExisting_def readExisting_def keeps_blobs_def result_simps
        split: if_splits option.splits node.splits)
  then show ?thesis using ok putSerialized_stored [OF assms(1,2)] put by blast
qed

theorem put_crash_safe_witness:
  "disk_ok (\<lambda>_. replicate 64 97) [(temporary_name (replicate 64 97) [1], RegularFile [9] True)]"
proof -
  let ?h = "replicate 64 97" and ?sha = "\<lambda>_::nat list. replicate 64 (97::nat)"
  let ?t = "temporary_name ?h [1]"
  have h: "sha256_hex ?h" by (simp add: sha256_hex_def list_all_iff)
  have put: "putSerialized (\<lambda>_. False) ?sha [] [1] ?h [5] =
      (Inr \<lparr>wr_hash = ?h, wr_byteLength = 1, wr_created = True\<rparr>,
       [CreateFile ?t, WriteFile ?t [5], SyncFile ?t, RenameFile ?t ?h])"
    using h by (simp add: putSerialized_def Let_def lookup_node_def)
  have "disk_ok ?sha [] " by (simp add: disk_ok_def)
  from put_crash_safe [OF this _ put, of "[CreateFile ?t]" "[(?t, RegularFile [9] True)]", THEN conjunct1]
  show ?thesis by (auto simp: power_loss_def set_node_def)
qed

lemma sweepLoop_eq:
  assumes "sweepLoop referenced d removed hashes = (d', n)"
  shows "d' = filter (\<lambda>e. fst e \<notin> set hashes - referenced) d \<and>
    n = removed + length (filter (\<lambda>h. h \<notin> referenced) hashes)"
  using assms
proof (induction hashes arbitrary: d removed)
  case (Cons h hashes)
  show ?case
  proof (cases "h \<in> referenced")
    case True
    then show ?thesis using Cons by (auto intro!: filter_cong)
  next
    case False
    then show ?thesis using Cons.IH [of "remove_node d h" "removed + 1"] Cons.prems
      by (auto simp: remove_node_def intro!: filter_cong)
  qed
qed auto

text \<open>
  The startup sweep removes exactly the blobs no stored revision references, and nothing else on
  the disk; its counts are right.
\<close>

theorem sweep_removes_exactly_orphans:
  "snd (sweepOrphanedBlobs db d) =
     filter (\<lambda>e. fst e \<notin> {h. sha256_hex h} - set (map blob_hash (revisions db))) d \<and>
   sw_scanned (fst (sweepOrphanedBlobs db d)) = length (listHashes d) \<and>
   sw_removed (fst (sweepOrphanedBlobs db d)) =
     length (filter (\<lambda>h. h \<notin> set (map blob_hash (revisions db))) (listHashes d))"
proof -
  obtain d' n where l: "sweepLoop (set (map blob_hash (revisions db))) d 0 (listHashes d) = (d', n)" by fastforce
  have "filter (\<lambda>e. fst e \<notin> set (listHashes d) - set (map blob_hash (revisions db))) d =
      filter (\<lambda>e. fst e \<notin> {h. sha256_hex h} - set (map blob_hash (revisions db))) d"
    by (rule filter_cong) (auto simp: listHashes_def)
  then show ?thesis using sweepLoop_eq [OF l] l by (simp add: sweepOrphanedBlobs_def Let_def)
qed

end
