(* ===== verification/SyncRoutes.thy ===== *)
theory SyncRoutes
  imports OrderBatch Base64 Blobs
begin

text \<open>
  The sync routes of the server (\<^verbatim>\<open>apps/server/src/sync/sync-routes.ts\<close>): batched push, pull of events
  and blob download, over the revision store and the blob store.

  A handler takes the whole server state and returns the reply and the new state. Between two
  awaits of the push handler other requests run: \<open>others k\<close> is what they do to the state at the k-th
  await. SHA-256, the free-disk probe, the clock and the failures of the disk are parameters.
\<close>

section \<open>Error codes\<close>

datatype sync_code =
    S_CONFLICT | S_CURSOR_INVALID | S_FORBIDDEN | S_HEAD_SET_CHANGED | S_INTERNAL | S_INVALID_BATCH
  | S_INVALID_REQUEST | S_MISSING_PARENT | S_NOT_FOUND | S_QUOTA_EXCEEDED | S_RATE_LIMITED
  | S_REVISION_ID_REUSE | S_STORAGE_UNAVAILABLE | S_UNAUTHENTICATED

text \<open>The errors of the repository class; the others are faults of a library underneath.\<close>

definition domain_error :: "repo_error \<Rightarrow> bool" where
  "domain_error e \<longleftrightarrow> e \<notin> {ZodError, SqliteError, BlobReadError}"

fun HTTP_STATUS_BY_REPOSITORY_CODE :: "repo_error \<Rightarrow> nat" where
  "HTTP_STATUS_BY_REPOSITORY_CODE CORRUPT_BLOB = 500"
| "HTTP_STATUS_BY_REPOSITORY_CODE FILE_ALREADY_EXISTS = 409"
| "HTTP_STATUS_BY_REPOSITORY_CODE FORBIDDEN = 403"
| "HTTP_STATUS_BY_REPOSITORY_CODE HEAD_SET_CHANGED = 409"
| "HTTP_STATUS_BY_REPOSITORY_CODE IDEMPOTENCY_KEY_REUSE = 409"
| "HTTP_STATUS_BY_REPOSITORY_CODE INVALID_REQUEST = 400"
| "HTTP_STATUS_BY_REPOSITORY_CODE MISSING_BLOB = 500"
| "HTTP_STATUS_BY_REPOSITORY_CODE MISSING_PARENT = 422"
| "HTTP_STATUS_BY_REPOSITORY_CODE NOT_FOUND = 404"
| "HTTP_STATUS_BY_REPOSITORY_CODE PARENT_FILE_MISMATCH = 422"
| "HTTP_STATUS_BY_REPOSITORY_CODE QUOTA_EXCEEDED = 413"
| "HTTP_STATUS_BY_REPOSITORY_CODE REPOSITORY_INTEGRITY = 500"
| "HTTP_STATUS_BY_REPOSITORY_CODE REVISION_ID_REUSE = 409"
| "HTTP_STATUS_BY_REPOSITORY_CODE _ = 500"

fun SYNC_CODE_BY_REPOSITORY_CODE :: "repo_error \<Rightarrow> sync_code" where
  "SYNC_CODE_BY_REPOSITORY_CODE CORRUPT_BLOB = S_INTERNAL"
| "SYNC_CODE_BY_REPOSITORY_CODE FILE_ALREADY_EXISTS = S_CONFLICT"
| "SYNC_CODE_BY_REPOSITORY_CODE FORBIDDEN = S_FORBIDDEN"
| "SYNC_CODE_BY_REPOSITORY_CODE HEAD_SET_CHANGED = S_HEAD_SET_CHANGED"
| "SYNC_CODE_BY_REPOSITORY_CODE IDEMPOTENCY_KEY_REUSE = S_CONFLICT"
| "SYNC_CODE_BY_REPOSITORY_CODE INVALID_REQUEST = S_INVALID_REQUEST"
| "SYNC_CODE_BY_REPOSITORY_CODE MISSING_BLOB = S_INTERNAL"
| "SYNC_CODE_BY_REPOSITORY_CODE MISSING_PARENT = S_MISSING_PARENT"
| "SYNC_CODE_BY_REPOSITORY_CODE NOT_FOUND = S_NOT_FOUND"
| "SYNC_CODE_BY_REPOSITORY_CODE PARENT_FILE_MISMATCH = S_INVALID_REQUEST"
| "SYNC_CODE_BY_REPOSITORY_CODE QUOTA_EXCEEDED = S_QUOTA_EXCEEDED"
| "SYNC_CODE_BY_REPOSITORY_CODE REPOSITORY_INTEGRITY = S_INTERNAL"
| "SYNC_CODE_BY_REPOSITORY_CODE REVISION_ID_REUSE = S_REVISION_ID_REUSE"
| "SYNC_CODE_BY_REPOSITORY_CODE _ = S_INTERNAL"

text \<open>A status and a machine code, or what the handler answers with.\<close>

type_synonym http_error = "nat \<times> sync_code"

datatype push_failure = RepositoryFailure repo_error | OtherFailure

definition sendCommitError :: "push_failure \<Rightarrow> http_error" where
  "sendCommitError f =
     (case f of
        RepositoryFailure e \<Rightarrow>
          if domain_error e then (HTTP_STATUS_BY_REPOSITORY_CODE e, SYNC_CODE_BY_REPOSITORY_CODE e)
          else (500, S_INTERNAL)
      | OtherFailure \<Rightarrow> (500, S_INTERNAL))"

section \<open>Requests\<close>

definition hex_digit :: "code_unit \<Rightarrow> bool" where
  "hex_digit c \<longleftrightarrow> (48 \<le> c \<and> c \<le> 57) \<or> (97 \<le> c \<and> c \<le> 102)"

definition uuid_pattern :: "jsstr \<Rightarrow> bool" where
  "uuid_pattern s \<longleftrightarrow> length s = 36 \<and>
     list_all (\<lambda>i. if i \<in> {8, 13, 18, 23} then s ! i = 45 else hex_digit (s ! i)) [0..<36] \<and>
     49 \<le> s ! 14 \<and> s ! 14 \<le> 56 \<and> s ! 19 \<in> {56, 57, 97, 98}"

definition base64_pattern :: "jsstr \<Rightarrow> bool" where
  "base64_pattern s \<longleftrightarrow> dropWhile base64_char s \<in> {[], [0x3D], [0x3D, 0x3D]}"

record access_session =
  ss_userId :: ident
  ss_deviceId :: ident

definition loadActiveMembership :: "store \<Rightarrow> ident \<Rightarrow> ident \<Rightarrow> ident option" where
  "loadActiveMembership db userId v =
     map_option fst (find (\<lambda>(i, m). ms_user_id m = userId \<and> ms_vault_id m = v \<and> ms_status m = js ''active'')
       (memberships db))"

text \<open>The body schema; a missing header fails in \<^verbatim>\<open>parseBatch\<close>.\<close>

definition parse_revision_input :: "json \<Rightarrow> (json option \<times> jsstr \<times> jsstr) option" where
  "parse_revision_input j =
     Option.bind (strict_object [js ''header'', js ''idempotencyKey'', js ''payload''] j) (\<lambda>m.
     Option.bind (as_string (m (js ''idempotencyKey''))) (\<lambda>key.
     Option.bind (as_string (m (js ''payload''))) (\<lambda>payload.
       if 1 \<le> length key \<and> length key \<le> 200 \<and> base64_pattern payload
       then Some (m (js ''header''), key, payload) else None)))"

fun map_option_list :: "('a \<Rightarrow> 'b option) \<Rightarrow> 'a list \<Rightarrow> 'b list option" where
  "map_option_list f [] = Some []"
| "map_option_list f (x # xs) = Option.bind (f x) (\<lambda>y. map_option ((#) y) (map_option_list f xs))"

definition parse_push_body :: "json \<Rightarrow> (json option \<times> jsstr \<times> jsstr) list option" where
  "parse_push_body j =
     Option.bind (strict_object [js ''revisions''] j) (\<lambda>m.
       (case m (js ''revisions'') of
          Some (JArr xs) \<Rightarrow> if xs = [] then None else map_option_list parse_revision_input xs
        | _ \<Rightarrow> None))"

definition parseBatch :: "repo_env \<Rightarrow> (json option \<times> jsstr \<times> jsstr) list \<Rightarrow> nat \<Rightarrow> revision_input list option" where
  "parseBatch env rawRevisions maxPayloadBytes =
     map_option_list (\<lambda>(h, key, p).
       Option.bind (Option.bind h (parse_header (env_uuid env))) (\<lambda>header.
         let payload = bufferFromBase64 p
         in if length payload > maxPayloadBytes then None
            else Some \<lparr>ri_header = header, ri_idempotencyKey = key, ri_payload = payload\<rparr>)) rawRevisions"

definition blobBelongsToVault :: "store \<Rightarrow> ident \<Rightarrow> jsstr \<Rightarrow> bool" where
  "blobBelongsToVault db v h \<longleftrightarrow>
     list_ex (\<lambda>r. vault_id r = v \<and> blob_hash r = h) (revisions db) \<and>
     (case vaults db v of Some row \<Rightarrow> deleted_at row = None | None \<Rightarrow> False)"

text \<open>\<open>True\<close> rejects the batch.\<close>

fun precheckLoop :: "store \<Rightarrow> ident \<Rightarrow> nat \<Rightarrow> nat \<Rightarrow> jsstr set \<Rightarrow> (jsstr \<times> revision_input) list \<Rightarrow> bool" where
  "precheckLoop db v quota projected chargedInBatch [] = False"
| "precheckLoop db v quota projected chargedInBatch ((hash, revision) # rest) =
     (if hash \<in> chargedInBatch \<or> vaultContainsBlob db v hash then precheckLoop db v quota projected chargedInBatch rest
      else
        (let projected' = projected + length (ri_payload revision)
         in if projected' > quota then True
            else precheckLoop db v quota projected' (insert hash chargedInBatch) rest))"

definition precheckVaultQuota :: "store \<Rightarrow> ident \<Rightarrow> (jsstr \<times> revision_input) list \<Rightarrow> nat \<Rightarrow> bool" where
  "precheckVaultQuota db v hashed defaultQuotaBytes =
     precheckLoop db v (resolveEffectiveQuotaBytes (readVaultQuotaBytes db v) defaultQuotaBytes)
       (computeVaultStorageBytes db v) {} hashed"

section \<open>Push\<close>

record world =
  w_db :: store
  w_disk :: disk
  w_wakes :: "(ident \<times> nat) list"

text \<open>
  \<open>d_freeDiskBytes\<close>: \<open>None\<close> without a probe, \<open>Some None\<close> when it throws or returns no finite number.
\<close>

record route_deps =
  d_env :: repo_env
  d_maxBatchSize :: nat
  d_maxPayloadBytes :: nat
  d_vaultQuotaBytes :: nat
  d_freeDiskBytes :: "nat option option"
  d_minFreeDiskBytes :: nat
  d_hashBlob :: "nat list \<Rightarrow> jsstr"
  d_fails :: "put_point \<Rightarrow> bool"
  d_unique :: jsstr
  d_hasWakeRegistry :: bool

datatype push_result = Committed receipt ident commit_status | Rejected sync_code ident

fun result_accepted :: "push_result \<Rightarrow> bool" where
  "result_accepted (Committed rc i st) \<longleftrightarrow> st = Accepted"
| "result_accepted (Rejected c i) \<longleftrightarrow> False"

fun result_revision :: "push_result \<Rightarrow> ident" where
  "result_revision (Committed rc i st) = i"
| "result_revision (Rejected c i) = i"

text \<open>
  The best-effort wake. \<^verbatim>\<open>notify\<close> is logged; the registry itself is modelled with the waits.
\<close>

definition notify_peers :: "route_deps \<Rightarrow> ident \<Rightarrow> push_result list \<Rightarrow> world \<Rightarrow> world" where
  "notify_peers deps v results w =
     (if d_hasWakeRegistry deps \<and> list_ex result_accepted results
      then (case getCursor (w_db w) v of
              Inr cursor \<Rightarrow> w\<lparr>w_wakes := w_wakes w @ [(v, cursor)]\<rparr>
            | Inl _ \<Rightarrow> w)
      else w)"

definition commit_request :: "actor \<Rightarrow> jsstr \<Rightarrow> nat \<Rightarrow> revision_input \<Rightarrow> commit_input" where
  "commit_request act hash bytes revision =
     \<lparr>in_actor = act, in_blobHash = hash, in_header = header_json (ri_header revision),
      in_idempotencyKey = ri_idempotencyKey revision, in_blobSize = Some bytes\<rparr>"

text \<open>The body of the \<^verbatim>\<open>try\<close> for one revision; \<open>k\<close> numbers its awaits.\<close>

definition pushOne ::
    "route_deps \<Rightarrow> (nat \<Rightarrow> world \<Rightarrow> world) \<Rightarrow> int option \<Rightarrow> nat \<Rightarrow> actor \<Rightarrow> world \<Rightarrow> jsstr \<times> revision_input \<Rightarrow>
     (push_failure + commit_result) \<times> world" where
  "pushOne deps others clock k act w = (\<lambda>(blobHash, revision).
     (let bytes = length (ri_payload revision);
          w1 = others k w
      in case assertCommittable (d_env deps) (w_db w) (w_db w1) (commit_request act blobHash bytes revision) bytes of
           Inl e \<Rightarrow> (Inl (RepositoryFailure e), w1)
         | Inr _ \<Rightarrow>
           (let w2 = others (k + 1) w1
            in case put (d_fails deps) (d_hashBlob deps) (w_disk w2) (d_unique deps) (ri_payload revision) (Some blobHash) of
                 (Inl _, disk) \<Rightarrow> (Inl OtherFailure, w2\<lparr>w_disk := disk\<rparr>)
               | (Inr stored, disk) \<Rightarrow>
                 (let w3 = w2\<lparr>w_disk := disk\<rparr>;
                      w4 = others (k + 2) w3
                  in case commitRevision (d_env deps) clock (w_db w3) (w_db w4)
                            (commit_request act (wr_hash stored) (wr_byteLength stored) revision) of
                       (Inl e, db) \<Rightarrow> (Inl (RepositoryFailure e), w4\<lparr>w_db := db\<rparr>)
                     | (Inr res, db) \<Rightarrow> (Inr res, w4\<lparr>w_db := db\<rparr>)))))"

fun pushLoop ::
    "route_deps \<Rightarrow> (nat \<Rightarrow> world \<Rightarrow> world) \<Rightarrow> int option \<Rightarrow> nat \<Rightarrow> ident \<Rightarrow> actor \<Rightarrow> world \<Rightarrow> push_result list \<Rightarrow>
     (jsstr \<times> revision_input) list \<Rightarrow> (http_error + push_result list) \<times> world" where
  "pushLoop deps others clock k v act w results [] = (Inr results, notify_peers deps v results w)"
| "pushLoop deps others clock k v act w results (x # rest) =
     (case pushOne deps others clock k act w x of
        (Inr res, w') \<Rightarrow>
          pushLoop deps others clock (k + 3) v act w'
            (results @ [Committed (res_receipt res) (rid (snd x)) (res_status res)]) rest
      | (Inl f, w') \<Rightarrow>
          (if f = RepositoryFailure QUOTA_EXCEEDED then (Inl (sendCommitError f), notify_peers deps v results w')
           else (case f of
              RepositoryFailure e \<Rightarrow>
                if domain_error e
                then pushLoop deps others clock (k + 3) v act w'
                       (results @ [Rejected (SYNC_CODE_BY_REPOSITORY_CODE e) (rid (snd x))]) rest
                else (Inl (sendCommitError f), w')
            | OtherFailure \<Rightarrow> (Inl (sendCommitError f), w'))))"

text \<open>The checks on the request before anything is awaited: the actor and the ordered batch.\<close>

definition pushGuards ::
    "route_deps \<Rightarrow> store \<Rightarrow> access_session option \<Rightarrow> jsstr \<Rightarrow> json \<Rightarrow> http_error + actor \<times> revision_input list" where
  "pushGuards deps db session v body =
     (if \<not> uuid_pattern v then Inl (400, S_INVALID_REQUEST) else
      case session of None \<Rightarrow> Inl (401, S_UNAUTHENTICATED) | Some ss \<Rightarrow>
      case loadActiveMembership db (ss_userId ss) v of None \<Rightarrow> Inl (403, S_FORBIDDEN) | Some membershipId \<Rightarrow>
      case parse_push_body body of None \<Rightarrow> Inl (400, S_INVALID_REQUEST) | Some raws \<Rightarrow>
      if length raws > d_maxBatchSize deps then Inl (400, S_INVALID_REQUEST) else
      case parseBatch (d_env deps) raws (d_maxPayloadBytes deps) of None \<Rightarrow> Inl (422, S_INVALID_BATCH) | Some parsed \<Rightarrow>
      if list_ex (\<lambda>r. vaultId (ri_header r) \<noteq> v \<or> expectedMemberId (ri_header r) \<noteq> membershipId \<or>
                      expectedDeviceId (ri_header r) \<noteq> ss_deviceId ss) parsed
      then Inl (403, S_FORBIDDEN) else
      case orderBatch parsed of None \<Rightarrow> Inl (422, S_INVALID_BATCH) | Some ordered \<Rightarrow>
      Inr (\<lparr>deviceId = ss_deviceId ss, memberId = membershipId\<rparr>, ordered))"

definition diskGuard :: "route_deps \<Rightarrow> bool" where
  "diskGuard deps =
     (case d_freeDiskBytes deps of
        None \<Rightarrow> True
      | Some None \<Rightarrow> False
      | Some (Some freeBytes) \<Rightarrow> \<not> freeBytes < d_minFreeDiskBytes deps)"

definition pushRoute ::
    "route_deps \<Rightarrow> (nat \<Rightarrow> world \<Rightarrow> world) \<Rightarrow> int option \<Rightarrow> world \<Rightarrow> access_session option \<Rightarrow> jsstr \<Rightarrow> json \<Rightarrow>
     (http_error + push_result list) \<times> world" where
  "pushRoute deps others clock w session v body =
     (case pushGuards deps (w_db w) session v body of
        Inl e \<Rightarrow> (Inl e, w)
      | Inr (act, ordered) \<Rightarrow>
        if \<not> diskGuard deps then (Inl (507, S_STORAGE_UNAVAILABLE), w) else
        (let w0 = others 0 w;
             hashed = map (\<lambda>r. (d_hashBlob deps (ri_payload r), r)) ordered
         in if precheckVaultQuota (w_db w0) v hashed (d_vaultQuotaBytes deps)
            then (Inl (413, S_QUOTA_EXCEEDED), w0)
            else pushLoop deps others clock 1 v act w0 [] hashed))"

section \<open>Pull and download\<close>

record pull_query =
  q_after :: "nat option"
  q_epoch :: "jsstr option"
  q_limit :: "nat option"

record pull_page =
  pg_cursor :: nat
  pg_epoch :: "jsstr option"
  pg_events :: "stored_event list"

text \<open>
  \<open>query\<close> is the parsed query string, \<open>None\<close> when the schema rejects it; \<open>epoch\<close> the instance's epoch.
\<close>

definition eventsRoute ::
    "repo_env \<Rightarrow> store \<Rightarrow> jsstr option \<Rightarrow> access_session option \<Rightarrow> jsstr \<Rightarrow> pull_query option \<Rightarrow> http_error + pull_page" where
  "eventsRoute env db epoch session v query =
     (if \<not> uuid_pattern v then Inl (400, S_INVALID_REQUEST) else
      case session of None \<Rightarrow> Inl (401, S_UNAUTHENTICATED) | Some ss \<Rightarrow>
      case loadActiveMembership db (ss_userId ss) v of None \<Rightarrow> Inl (403, S_FORBIDDEN) | Some _ \<Rightarrow>
      case query of None \<Rightarrow> Inl (400, S_INVALID_REQUEST) | Some q \<Rightarrow>
      (let after = (case q_after q of Some n \<Rightarrow> n | None \<Rightarrow> 0);
           limit = (case q_limit q of Some n \<Rightarrow> n | None \<Rightarrow> 100)
       in if epoch \<noteq> None \<and> q_epoch q \<noteq> None \<and> q_epoch q \<noteq> epoch then Inl (409, S_CURSOR_INVALID) else
          case getCursor db v of Inl e \<Rightarrow> Inl (sendCommitError (RepositoryFailure e)) | Inr cursor \<Rightarrow>
          if after > cursor then Inl (409, S_CURSOR_INVALID) else
          case listEvents env db v (int after) (int limit) of
            Inl e \<Rightarrow> Inl (sendCommitError (RepositoryFailure e))
          | Inr events \<Rightarrow> Inr \<lparr>pg_cursor = cursor, pg_epoch = epoch, pg_events = events\<rparr>))"

text \<open>
  \<open>charge\<close> is the byte bucket of the device: whether the download fits its budget.
\<close>

definition blobRoute ::
    "store \<Rightarrow> disk \<Rightarrow> (ident \<Rightarrow> nat \<Rightarrow> bool) \<Rightarrow> access_session option \<Rightarrow> jsstr \<Rightarrow> jsstr \<Rightarrow> http_error + nat list" where
  "blobRoute db d charge session v hash =
     (if \<not> (uuid_pattern v \<and> sha256_hex hash) then Inl (400, S_INVALID_REQUEST) else
      case session of None \<Rightarrow> Inl (401, S_UNAUTHENTICATED) | Some ss \<Rightarrow>
      case loadActiveMembership db (ss_userId ss) v of None \<Rightarrow> Inl (403, S_FORBIDDEN) | Some _ \<Rightarrow>
      if \<not> blobBelongsToVault db v hash then Inl (404, S_NOT_FOUND) else
      case blob_read_bytes d hash of Inl _ \<Rightarrow> Inl (404, S_NOT_FOUND) | Inr bytes \<Rightarrow>
      if charge (ss_deviceId ss) (length bytes) then Inr bytes else Inl (429, S_RATE_LIMITED))"

end
