(* ===== verification/Throttles.thy ===== *)
theory Throttles
  imports Prelude Complex_Main
begin

text \<open>
  The per-device throttles of the sync routes (\<^verbatim>\<open>apps/server/src/sync/device-throttles.ts\<close>): the cap on
  held long-polls and the byte-rate token bucket with its eviction sweep.

  Tokens and rates are rational numbers, where the source has floating point; times are
  milliseconds. The JavaScript maps are association lists in insertion order (Prelude), since the
  bucket's sweep iterates over its map and reads its size.
\<close>

section \<open>Held waits\<close>

record limiter =
  lim_perDevice :: "(ident \<times> nat) list"
  lim_global :: nat

definition held_by :: "limiter \<Rightarrow> ident \<Rightarrow> nat" where
  "held_by l d = (case map_of (lim_perDevice l) d of Some n \<Rightarrow> n | None \<Rightarrow> 0)"

definition tryAcquire :: "nat \<Rightarrow> nat \<Rightarrow> limiter \<Rightarrow> ident \<Rightarrow> bool \<times> limiter" where
  "tryAcquire perDeviceMax globalMax l deviceId =
     (if lim_global l \<ge> globalMax then (False, l)
      else
        (let held = held_by l deviceId
         in if held \<ge> perDeviceMax then (False, l)
            else (True, \<lparr>lim_perDevice = map_set (lim_perDevice l) deviceId (held + 1), lim_global = lim_global l + 1\<rparr>)))"

definition release :: "limiter \<Rightarrow> ident \<Rightarrow> limiter" where
  "release l deviceId =
     (let held = held_by l deviceId
      in \<lparr>lim_perDevice = (if held \<le> 1 then map_delete (lim_perDevice l) deviceId
            else map_set (lim_perDevice l) deviceId (held - 1)),
          lim_global = lim_global l - 1\<rparr>)"

lemma held_by_release [simp]: "held_by (release l d) d' = (if d' = d then held_by l d - 1 else held_by l d')"
  by (auto simp: held_by_def release_def Let_def)

lemma lim_global_release [simp]: "lim_global (release l d) = lim_global l - 1"
  by (simp add: release_def Let_def)

lemma tryAcquire_True:
  "tryAcquire p g l d = (True, l') \<Longrightarrow>
   held_by l d < p \<and> lim_global l < g \<and> lim_global l' = lim_global l + 1 \<and>
   (\<forall>d'. held_by l' d' = (if d' = d then held_by l d + 1 else held_by l d'))"
  by (auto simp: tryAcquire_def held_by_def Let_def split: if_splits)

lemma tryAcquire_False: "tryAcquire p g l d = (False, l') \<Longrightarrow> l' = l"
  by (auto simp: tryAcquire_def Let_def split: if_splits)

section \<open>The byte bucket\<close>

record bucket =
  bk_tokens :: rat
  bk_lastRefillMs :: int

record rate_config =
  rc_burstBytes :: nat
  rc_refillBytesPerMs :: rat

definition SWEEP_THRESHOLD_DEVICES :: nat where "SWEEP_THRESHOLD_DEVICES = 32"

text \<open>The tokens of a bucket at a later time; both the sweep and the charge compute them.\<close>

definition refilled :: "rate_config \<Rightarrow> bucket \<Rightarrow> int \<Rightarrow> rat" where
  "refilled cfg b nowMs =
     min (of_nat (rc_burstBytes cfg))
       (bk_tokens b + of_int (max 0 (nowMs - bk_lastRefillMs b)) * rc_refillBytesPerMs cfg)"

definition sweep :: "rate_config \<Rightarrow> (ident \<times> bucket) list \<Rightarrow> int \<Rightarrow> (ident \<times> bucket) list" where
  "sweep cfg buckets nowMs =
     (if length buckets < SWEEP_THRESHOLD_DEVICES then buckets
      else filter (\<lambda>(d, b). \<not> refilled cfg b nowMs \<ge> of_nat (rc_burstBytes cfg)) buckets)"

definition tryConsume ::
    "rate_config \<Rightarrow> (ident \<times> bucket) list \<Rightarrow> int \<Rightarrow> ident \<Rightarrow> nat \<Rightarrow> bool \<times> (ident \<times> bucket) list" where
  "tryConsume cfg buckets nowMs deviceId bytes =
     (let swept = sweep cfg buckets nowMs;
          b = (case map_of swept deviceId of
                 Some b \<Rightarrow> b
               | None \<Rightarrow> \<lparr>bk_tokens = of_nat (rc_burstBytes cfg), bk_lastRefillMs = nowMs\<rparr>);
          tokens = refilled cfg b nowMs
      in if of_nat bytes > tokens
         then (False, map_set swept deviceId \<lparr>bk_tokens = tokens, bk_lastRefillMs = nowMs\<rparr>)
         else (True, map_set swept deviceId \<lparr>bk_tokens = tokens - of_nat bytes, bk_lastRefillMs = nowMs\<rparr>))"

text \<open>A device's budget at a time; a device without a bucket has the full one.\<close>

definition budget :: "rate_config \<Rightarrow> (ident \<times> bucket) list \<Rightarrow> ident \<Rightarrow> int \<Rightarrow> rat" where
  "budget cfg m d t = (case map_of m d of Some b \<Rightarrow> refilled cfg b t | None \<Rightarrow> of_nat (rc_burstBytes cfg))"

text \<open>Requests at their times, and the decisions.\<close>

fun consume_all ::
    "rate_config \<Rightarrow> (ident \<times> bucket) list \<Rightarrow> (int \<times> ident \<times> nat) list \<Rightarrow> bool list" where
  "consume_all cfg m [] = []"
| "consume_all cfg m ((t, d, n) # reqs) =
     (case tryConsume cfg m t d n of (ok, m') \<Rightarrow> ok # consume_all cfg m' reqs)"

text \<open>
  The abstract bucket the source describes: one number per device, full at the start, that grows with
  the time that passes and shrinks by every charge that fits.
\<close>

fun token_bucket :: "rate_config \<Rightarrow> (ident \<Rightarrow> rat) \<Rightarrow> int \<Rightarrow> (int \<times> ident \<times> nat) list \<Rightarrow> bool list" where
  "token_bucket cfg f now [] = []"
| "token_bucket cfg f now ((t, d, n) # reqs) =
     (let f' = (\<lambda>x. min (of_nat (rc_burstBytes cfg)) (f x + of_int (t - now) * rc_refillBytesPerMs cfg));
          ok = of_nat n \<le> f' d
      in ok # token_bucket cfg (if ok then f'(d := f' d - of_nat n) else f') t reqs)"

section \<open>The bucket refines the abstract one\<close>

lemma distinct_map_set:
  assumes "distinct (map fst m)"
  shows "distinct (map fst (map_set m k v))"
proof (cases "map_of m k = None")
  case True
  then have "k \<notin> fst ` set m" by (simp add: map_of_eq_None_iff)
  then show ?thesis using assms True by (simp add: map_set_def)
next
  case False
  have "map fst (map (\<lambda>(k', v'). if k' = k then (k', v) else (k', v')) m) = map fst m" by (induction m) auto
  then show ?thesis using assms False by (simp only: map_set_def if_False)
qed

lemma refilled_later:
  assumes "0 \<le> rc_refillBytesPerMs cfg" "bk_lastRefillMs b \<le> now" "now \<le> t"
  shows "refilled cfg b t = min (of_nat (rc_burstBytes cfg)) (refilled cfg b now + of_int (t - now) * rc_refillBytesPerMs cfg)"
proof -
  let ?r = "rc_refillBytesPerMs cfg" and ?l = "bk_lastRefillMs b" and ?B = "of_nat (rc_burstBytes cfg) :: rat"
  define A where "A = bk_tokens b + of_int (now - ?l) * ?r"
  define D where "D = of_int (t - now) * ?r"
  have "max 0 (t - ?l) = (now - ?l) + (t - now)" "max 0 (now - ?l) = now - ?l" using assms(2,3) by auto
  then have "refilled cfg b t = min ?B (A + D)" "refilled cfg b now = min ?B A"
    unfolding refilled_def A_def D_def by (simp_all only: of_int_add distrib_right add.assoc)
  moreover have "0 \<le> D" using assms(1,3) by (simp add: D_def)
  ultimately show ?thesis unfolding D_def [symmetric] by (auto simp: min_def)
qed

text \<open>The map of the source at \<open>now\<close> represents the budgets \<open>f\<close>.\<close>

definition represents :: "rate_config \<Rightarrow> (ident \<times> bucket) list \<Rightarrow> (ident \<Rightarrow> rat) \<Rightarrow> int \<Rightarrow> bool" where
  "represents cfg m f now \<longleftrightarrow> distinct (map fst m) \<and> (\<forall>d. budget cfg m d now = f d) \<and>
     (\<forall>d b. map_of m d = Some b \<longrightarrow> bk_lastRefillMs b \<le> now)"

lemma budget_le: "budget cfg m d t \<le> of_nat (rc_burstBytes cfg)"
  by (simp add: budget_def refilled_def split: option.splits)

lemma represents_later:
  assumes "represents cfg m f now" "now \<le> t" "0 \<le> rc_refillBytesPerMs cfg"
  shows "represents cfg m (\<lambda>x. min (of_nat (rc_burstBytes cfg)) (f x + of_int (t - now) * rc_refillBytesPerMs cfg)) t"
proof -
  have "budget cfg m d t = min (of_nat (rc_burstBytes cfg)) (budget cfg m d now + of_int (t - now) * rc_refillBytesPerMs cfg)" for d
  proof (cases "map_of m d")
    case None
    have "0 \<le> of_int (t - now) * rc_refillBytesPerMs cfg" using assms(2,3) by simp
    then show ?thesis using None by (simp add: budget_def min_def del: of_int_diff)
  next
    case (Some b)
    then have "bk_lastRefillMs b \<le> now" using assms(1) by (simp add: represents_def)
    then show ?thesis using refilled_later [OF assms(3) _ assms(2)] Some by (simp add: budget_def del: of_int_diff)
  qed
  then show ?thesis using assms by (fastforce simp: represents_def)
qed

text \<open>Eviction changes no budget: what it drops is full.\<close>

lemma map_of_filter_pair:
  "distinct (map fst m) \<Longrightarrow> map_of (filter (\<lambda>(k, v). P k v) m) x = (case map_of m x of Some v \<Rightarrow> if P x v then Some v else None | None \<Rightarrow> None)"
  by (induction m) (auto simp: map_of_eq_None_iff image_iff split: option.splits)

lemma represents_sweep:
  assumes "represents cfg m f t"
  shows "represents cfg (sweep cfg m t) f t"
proof -
  have dist: "distinct (map fst m)" using assms by (simp add: represents_def)
  have "budget cfg (sweep cfg m t) d t = budget cfg m d t" for d
    using refilled_def [of cfg] by (auto simp: budget_def sweep_def map_of_filter_pair [OF dist] split: option.splits)
  moreover have "bk_lastRefillMs b \<le> t" if "map_of (sweep cfg m t) d = Some b" for d b
    using that assms by (auto simp: sweep_def represents_def map_of_filter_pair [OF dist] split: option.splits if_splits)
  moreover have "distinct (map fst (sweep cfg m t))" using dist by (simp add: sweep_def distinct_map_filter)
  ultimately show ?thesis using assms by (simp add: represents_def)
qed

lemma tryConsume_represents:
  assumes rep: "represents cfg m f t" and call: "tryConsume cfg m t d n = (ok, m')"
  shows "ok \<longleftrightarrow> of_nat n \<le> f d" "represents cfg m' (if ok then f(d := f d - of_nat n) else f) t"
proof -
  let ?s = "sweep cfg m t"
  let ?b = "case map_of ?s d of Some b \<Rightarrow> b | None \<Rightarrow> \<lparr>bk_tokens = of_nat (rc_burstBytes cfg), bk_lastRefillMs = t\<rparr>"
  have s: "represents cfg ?s f t" by (rule represents_sweep [OF rep])
  have tok: "refilled cfg ?b t = f d"
  proof -
    have "budget cfg ?s d t = f d" using s by (simp add: represents_def)
    then show ?thesis by (cases "map_of ?s d") (simp_all add: budget_def refilled_def)
  qed
  have le: "f d \<le> of_nat (rc_burstBytes cfg)" using rep budget_le by (metis represents_def)
  have same: "refilled cfg \<lparr>bk_tokens = x, bk_lastRefillMs = t\<rparr> t = x" if "x \<le> of_nat (rc_burstBytes cfg)" for x
    using that by (simp add: refilled_def)
  show ok: "ok \<longleftrightarrow> of_nat n \<le> f d"
    using call tok by (auto simp: tryConsume_def Let_def split: if_splits)
  have m': "m' = map_set ?s d \<lparr>bk_tokens = (if ok then f d - of_nat n else f d), bk_lastRefillMs = t\<rparr>"
    using call tok by (auto simp: tryConsume_def Let_def split: if_splits)
  have "f d - of_nat n \<le> of_nat (rc_burstBytes cfg)" using le by (meson diff_le_eq le_add_same_cancel1 of_nat_0_le_iff order_trans)
  then show "represents cfg m' (if ok then f(d := f d - of_nat n) else f) t"
    using s le same by (auto simp: represents_def m' distinct_map_set budget_def)
qed

lemma consume_all_eq:
  assumes "0 \<le> rc_refillBytesPerMs cfg"
  shows "represents cfg m f now \<Longrightarrow> sorted (now # map fst reqs) \<Longrightarrow> consume_all cfg m reqs = token_bucket cfg f now reqs"
proof (induction reqs arbitrary: m f now)
  case (Cons req reqs)
  obtain t d n where req: "req = (t, d, n)" by (cases req)
  obtain ok m' where call: "tryConsume cfg m t d n = (ok, m')" by fastforce
  have "now \<le> t" "sorted (t # map fst reqs)" using Cons.prems(2) req by auto
  let ?f = "\<lambda>x. min (of_nat (rc_burstBytes cfg)) (f x + of_int (t - now) * rc_refillBytesPerMs cfg)"
  have "represents cfg m ?f t" by (rule represents_later [OF Cons.prems(1) \<open>now \<le> t\<close> assms])
  note step = tryConsume_represents [OF this call]
  have "consume_all cfg m' reqs = token_bucket cfg (if ok then ?f(d := ?f d - of_nat n) else ?f) t reqs"
    by (rule Cons.IH [OF step(2) \<open>sorted (t # map fst reqs)\<close>])
  then show ?case using step(1) call req by (simp add: Let_def del: min_def)
qed simp

fun granted :: "ident \<Rightarrow> (int \<times> ident \<times> nat) list \<Rightarrow> bool list \<Rightarrow> nat" where
  "granted d ((t, d', n) # reqs) (ok # oks) = (if ok \<and> d' = d then n else 0) + granted d reqs oks"
| "granted d _ _ = 0"

lemma token_bucket_bound:
  assumes r: "0 \<le> rc_refillBytesPerMs cfg"
  shows "\<forall>x. 0 \<le> f x \<Longrightarrow> sorted (now # map fst reqs) \<Longrightarrow> \<forall>t \<in> set (now # map fst reqs). t \<le> until \<Longrightarrow>
    of_nat (granted d reqs (token_bucket cfg f now reqs)) \<le> f d + of_int (until - now) * rc_refillBytesPerMs cfg"
proof (induction reqs arbitrary: f now)
  case Nil
  have "0 \<le> of_int (until - now) * rc_refillBytesPerMs cfg" using Nil.prems(3) r by simp
  then show ?case using Nil.prems(1) by (simp add: add_nonneg_nonneg)
next
  case (Cons req reqs)
  obtain t d' n where req: "req = (t, d', n)" by (cases req)
  let ?r = "rc_refillBytesPerMs cfg"
  let ?f = "\<lambda>x. min (of_nat (rc_burstBytes cfg)) (f x + of_int (t - now) * ?r)"
  let ?ok = "of_nat n \<le> ?f d'"
  let ?g = "if ?ok then ?f(d' := ?f d' - of_nat n) else ?f"
  have t: "now \<le> t" "sorted (t # map fst reqs)" "\<forall>s \<in> set (t # map fst reqs). s \<le> until"
    using Cons.prems(2,3) req by auto
  have "0 \<le> of_int (t - now) * ?r" using t(1) r by simp
  then have pos: "\<forall>x. 0 \<le> ?f x" using Cons.prems(1) by (simp add: add_nonneg_nonneg)
  then have "\<forall>x. 0 \<le> ?g x" by auto
  from Cons.IH [OF this t(2,3)] have IH:
    "of_nat (granted d reqs (token_bucket cfg ?g t reqs)) \<le> ?g d + of_int (until - t) * ?r" .
  have "?f d \<le> f d + of_int (t - now) * ?r" by simp
  moreover have "of_int (t - now) * ?r + of_int (until - t) * ?r = of_int (until - now) * ?r"
    by (simp flip: distrib_right)
  moreover have "of_nat (if ?ok \<and> d' = d then n else 0) + ?g d = ?f d" by auto
  ultimately have "of_nat (if ?ok \<and> d' = d then n else 0) + (?g d + of_int (until - t) * ?r) \<le> f d + of_int (until - now) * ?r"
    by linarith
  then have "of_nat (if ?ok \<and> d' = d then n else 0) + of_nat (granted d reqs (token_bucket cfg ?g t reqs))
      \<le> f d + of_int (until - now) * ?r"
    using IH by linarith
  then show ?case by (simp only: req token_bucket.simps granted.simps Let_def of_nat_add)
qed

section \<open>Properties\<close>

text \<open>
  C17. The byte limiter with its lazily swept map decides exactly like the abstract token bucket it is
  meant to be, on every sequence of requests of any devices at non-decreasing times: evicting a
  bucket never changes a decision.
\<close>

theorem byte_limiter_refines_token_bucket:
  assumes "0 \<le> rc_refillBytesPerMs cfg" "sorted (start # map fst reqs)"
  shows "consume_all cfg [] reqs = token_bucket cfg (\<lambda>_. of_nat (rc_burstBytes cfg)) start reqs"
  by (rule consume_all_eq [OF assms(1) _ assms(2)]) (simp add: represents_def budget_def)

definition ex_rate :: rate_config where
  "ex_rate = \<lparr>rc_burstBytes = 10, rc_refillBytesPerMs = 1 / 2\<rparr>"

definition ex_reqs :: "(int \<times> ident \<times> nat) list" where
  "ex_reqs = [(0, [1], 8), (2, [1], 4), (4, [1], 4), (4, [2], 10)]"

theorem byte_limiter_refines_token_bucket_witness:
  "consume_all ex_rate [] ex_reqs = token_bucket ex_rate (\<lambda>_. of_nat (rc_burstBytes ex_rate)) 0 ex_reqs"
  by (rule byte_limiter_refines_token_bucket) (simp_all add: ex_rate_def ex_reqs_def)

text \<open>
  The egress bound: whatever a device requests between two times, the bytes it is granted in
  between are at most the burst plus the refill of that time.
\<close>

theorem byte_limiter_bounds_egress:
  assumes "0 \<le> rc_refillBytesPerMs cfg" "sorted (start # map fst reqs)" "\<forall>t \<in> set (start # map fst reqs). t \<le> until"
  shows "of_nat (granted d reqs (consume_all cfg [] reqs)) \<le>
    of_nat (rc_burstBytes cfg) + of_int (until - start) * rc_refillBytesPerMs cfg"
proof -
  have eq: "consume_all cfg [] reqs = token_bucket cfg (\<lambda>_. of_nat (rc_burstBytes cfg)) start reqs"
    by (rule consume_all_eq [OF assms(1) _ assms(2)]) (simp add: represents_def budget_def)
  show ?thesis
    unfolding eq
    using token_bucket_bound [OF assms(1), of "\<lambda>_. of_nat (rc_burstBytes cfg)" start reqs until d] assms(2,3)
    by (simp del: of_int_diff)
qed

theorem byte_limiter_bounds_egress_witness:
  "of_nat (granted [1] ex_reqs (consume_all ex_rate [] ex_reqs)) \<le>
     of_nat (rc_burstBytes ex_rate) + of_int (4 - 0) * rc_refillBytesPerMs ex_rate"
  by (rule byte_limiter_bounds_egress) (simp_all add: ex_rate_def ex_reqs_def)

end
