(* ===== verification/Waits.thy ===== *)
theory Waits
  imports SyncRoutes Throttles
begin

text \<open>
  Real-time wakes: the registry (\<^verbatim>\<open>apps/server/src/sync/vault-wake-registry.ts\<close>) and the long-poll route
  (\<^verbatim>\<open>GET /vaults/:vaultId/wait\<close> in \<^verbatim>\<open>sync-routes.ts\<close>) with the slots of the held-wait limiter.

  A held request is a number, the position of its record in the list of all requests that were ever
  held; the number stands for the listener, the timer and the socket callbacks. The events that can
  hit a held request are the steps of a machine.
\<close>

section \<open>The registry\<close>

type_synonym registry = "ident \<rightharpoonup> nat list"

definition subscribe :: "registry \<Rightarrow> ident \<Rightarrow> nat \<Rightarrow> registry" where
  "subscribe reg v onWake =
     (let waiters = (case reg v of Some ws \<Rightarrow> ws | None \<Rightarrow> [])
      in reg(v \<mapsto> (if onWake \<in> set waiters then waiters else waiters @ [onWake])))"

definition unsubscribe :: "registry \<Rightarrow> ident \<Rightarrow> nat \<Rightarrow> registry" where
  "unsubscribe reg v onWake =
     (case reg v of
        None \<Rightarrow> reg
      | Some current \<Rightarrow>
          (let rest = filter (\<lambda>l. l \<noteq> onWake) current
           in if length rest = 0 then reg(v := None) else reg(v \<mapsto> rest)))"

definition pendingCount :: "registry \<Rightarrow> ident \<Rightarrow> nat" where
  "pendingCount reg v = (case reg v of Some ws \<Rightarrow> length ws | None \<Rightarrow> 0)"

section \<open>Held requests\<close>

record held_wait =
  hw_device :: ident
  hw_vault :: ident
  hw_current :: nat
  hw_settled :: bool

datatype wait_reply = WaitCursor nat | Hijacked

record waits =
  ws_limiter :: limiter
  ws_registry :: registry
  ws_waits :: "held_wait list"
  ws_replies :: "(nat \<times> wait_reply) list"

definition no_waits :: waits where
  "no_waits = \<lparr>ws_limiter = \<lparr>lim_perDevice = [], lim_global = 0\<rparr>, ws_registry = Map.empty, ws_waits = [], ws_replies = []\<rparr>"

text \<open>\<^verbatim>\<open>settled = true; teardown(); resolve(...)\<close>, guarded by \<^verbatim>\<open>settled\<close>.\<close>

definition settle :: "waits \<Rightarrow> nat \<Rightarrow> wait_reply \<Rightarrow> waits" where
  "settle st i reply =
     (let w = ws_waits st ! i
      in if i \<ge> length (ws_waits st) \<or> hw_settled w then st
         else \<lparr>ws_limiter = release (ws_limiter st) (hw_device w),
               ws_registry = unsubscribe (ws_registry st) (hw_vault w) i,
               ws_waits = (ws_waits st)[i := w\<lparr>hw_settled := True\<rparr>],
               ws_replies = ws_replies st @ [(i, reply)]\<rparr>)"

definition finish :: "waits \<Rightarrow> nat \<Rightarrow> nat \<Rightarrow> waits" where
  "finish st i cursor = settle st i (WaitCursor cursor)"

definition onClientGone :: "waits \<Rightarrow> nat \<Rightarrow> waits" where
  "onClientGone st i = settle st i Hijacked"

definition onTimer :: "waits \<Rightarrow> nat \<Rightarrow> waits" where
  "onTimer st i = (if i < length (ws_waits st) then finish st i (hw_current (ws_waits st ! i)) else st)"

text \<open>\<^verbatim>\<open>notify\<close>: clear the vault's entry, then call the listeners it had.\<close>

definition notify :: "waits \<Rightarrow> ident \<Rightarrow> nat \<Rightarrow> waits" where
  "notify st v cursor =
     (case ws_registry st v of
        None \<Rightarrow> st
      | Some listeners \<Rightarrow>
          fold (\<lambda>i s. finish s i cursor) listeners (st\<lparr>ws_registry := (ws_registry st)(v := None)\<rparr>))"

text \<open>The route after its guards: take a slot, subscribe.\<close>

definition hold :: "nat \<Rightarrow> nat \<Rightarrow> waits \<Rightarrow> ident \<Rightarrow> ident \<Rightarrow> nat \<Rightarrow> bool \<times> waits" where
  "hold perDeviceMax globalMax st device v current =
     (case tryAcquire perDeviceMax globalMax (ws_limiter st) device of
        (False, _) \<Rightarrow> (False, st)
      | (True, l) \<Rightarrow>
          (True, \<lparr>ws_limiter = l, ws_registry = subscribe (ws_registry st) v (length (ws_waits st)),
                  ws_waits = ws_waits st @ [\<lparr>hw_device = device, hw_vault = v, hw_current = current, hw_settled = False\<rparr>],
                  ws_replies = ws_replies st\<rparr>))"

datatype wait_answer = WaitError nat sync_code | WaitNow nat | WaitHeld nat

text \<open>\<open>query\<close> is the parsed query: \<open>None\<close> when the schema rejects it.\<close>

definition waitRoute ::
    "nat \<Rightarrow> nat \<Rightarrow> bool \<Rightarrow> store \<Rightarrow> waits \<Rightarrow> access_session option \<Rightarrow> jsstr \<Rightarrow> nat option option \<Rightarrow> wait_answer \<times> waits" where
  "waitRoute perDeviceMax globalMax hasRegistry db st session v query =
     (if \<not> uuid_pattern v then (WaitError 400 S_INVALID_REQUEST, st) else
      case session of None \<Rightarrow> (WaitError 401 S_UNAUTHENTICATED, st) | Some ss \<Rightarrow>
      case loadActiveMembership db (ss_userId ss) v of None \<Rightarrow> (WaitError 403 S_FORBIDDEN, st) | Some _ \<Rightarrow>
      case query of None \<Rightarrow> (WaitError 400 S_INVALID_REQUEST, st) | Some q \<Rightarrow>
      (let clientCursor = (case q of Some n \<Rightarrow> n | None \<Rightarrow> 0)
       in case getCursor db v of
            Inl e \<Rightarrow> (case sendCommitError (RepositoryFailure e) of (n, c) \<Rightarrow> (WaitError n c, st))
          | Inr current \<Rightarrow>
              if current > clientCursor \<or> \<not> hasRegistry then (WaitNow current, st)
              else (case hold perDeviceMax globalMax st (ss_deviceId ss) v current of
                      (False, _) \<Rightarrow> (WaitError 429 S_RATE_LIMITED, st)
                    | (True, st') \<Rightarrow> (WaitHeld (length (ws_waits st)), st'))))"

section \<open>The machine\<close>

datatype wait_event =
    WaitRequest store "access_session option" jsstr "nat option option"
  | TimerFires nat
  | ClientGone nat
  | PushNotifies ident nat

fun wait_step :: "nat \<Rightarrow> nat \<Rightarrow> waits \<Rightarrow> wait_event \<Rightarrow> wait_answer option \<times> waits" where
  "wait_step p g st (WaitRequest db session v query) =
     (case waitRoute p g True db st session v query of (answer, st') \<Rightarrow> (Some answer, st'))"
| "wait_step p g st (TimerFires i) = (None, onTimer st i)"
| "wait_step p g st (ClientGone i) = (None, onClientGone st i)"
| "wait_step p g st (PushNotifies v c) = (None, notify st v c)"

text \<open>The requests that are still held, and those of one vault.\<close>

definition open_waits :: "waits \<Rightarrow> nat set" where
  "open_waits st = {i. i < length (ws_waits st) \<and> \<not> hw_settled (ws_waits st ! i)}"

definition waiters :: "registry \<Rightarrow> ident \<Rightarrow> nat set" where
  "waiters reg v = (case reg v of Some ws \<Rightarrow> set ws | None \<Rightarrow> {})"

text \<open>Slots are held requests, and whoever is no longer held was answered once.\<close>

definition slots_inv :: "nat \<Rightarrow> nat \<Rightarrow> waits \<Rightarrow> bool" where
  "slots_inv p g st \<longleftrightarrow>
     lim_global (ws_limiter st) = card (open_waits st) \<and> card (open_waits st) \<le> g \<and>
     (\<forall>d. held_by (ws_limiter st) d = card {i \<in> open_waits st. hw_device (ws_waits st ! i) = d}) \<and>
     (\<forall>d. card {i \<in> open_waits st. hw_device (ws_waits st ! i) = d} \<le> p) \<and>
     distinct (map fst (ws_replies st)) \<and>
     set (map fst (ws_replies st)) = {i. i < length (ws_waits st)} - open_waits st"

text \<open>The registry knows exactly the held requests of each vault, but for the vaults in \<open>V\<close>, which it does not know.\<close>

definition registry_inv :: "ident set \<Rightarrow> waits \<Rightarrow> bool" where
  "registry_inv V st \<longleftrightarrow>
     (\<forall>v. waiters (ws_registry st) v = (if v \<in> V then {} else {i \<in> open_waits st. hw_vault (ws_waits st ! i) = v})) \<and>
     (\<forall>v ws. ws_registry st v = Some ws \<longrightarrow> ws \<noteq> [] \<and> distinct ws)"

definition waits_inv :: "nat \<Rightarrow> nat \<Rightarrow> waits \<Rightarrow> bool" where
  "waits_inv p g st \<longleftrightarrow> slots_inv p g st \<and> registry_inv {} st"

section \<open>Every step keeps the invariant\<close>

lemma finite_open_waits [simp]: "finite (open_waits st)"
  by (simp add: open_waits_def)

lemma waiters_unsubscribe: "waiters (unsubscribe reg v i) v' = (if v' = v then waiters reg v - {i} else waiters reg v')"
  by (auto simp: waiters_def unsubscribe_def Let_def filter_empty_conv split: option.splits)

lemma unsubscribe_wf:
  "\<forall>v ws. reg v = Some ws \<longrightarrow> ws \<noteq> [] \<and> distinct ws \<Longrightarrow> unsubscribe reg v0 i v = Some ws \<Longrightarrow> ws \<noteq> [] \<and> distinct ws"
  by (auto simp: unsubscribe_def Let_def split: option.splits if_splits)

lemma waiters_subscribe: "waiters (subscribe reg v i) v' = (if v' = v then insert i (waiters reg v) else waiters reg v')"
  by (auto simp: waiters_def subscribe_def Let_def split: option.splits)

lemma subscribe_wf:
  "\<forall>v ws. reg v = Some ws \<longrightarrow> ws \<noteq> [] \<and> distinct ws \<Longrightarrow> subscribe reg v0 i v = Some ws \<Longrightarrow> ws \<noteq> [] \<and> distinct ws"
  by (auto simp: subscribe_def Let_def split: option.splits if_splits)

lemma settle_closed: "i \<notin> open_waits st \<Longrightarrow> settle st i reply = st"
  by (auto simp: settle_def open_waits_def Let_def)

lemma settle_waits [simp]:
  "length (ws_waits (settle st i reply)) = length (ws_waits st)"
  "hw_device (ws_waits (settle st i reply) ! j) = hw_device (ws_waits st ! j)"
  "hw_vault (ws_waits (settle st i reply) ! j) = hw_vault (ws_waits st ! j)"
  by (cases "j = i"; auto simp: settle_def Let_def nth_list_update)+

lemma open_waits_settle [simp]: "open_waits (settle st i reply) = open_waits st - {i}"
  by (auto simp: open_waits_def settle_def Let_def nth_list_update split: if_splits)

lemma settle_open:
  assumes "i \<in> open_waits st"
  shows "ws_limiter (settle st i reply) = release (ws_limiter st) (hw_device (ws_waits st ! i))"
    "ws_registry (settle st i reply) = unsubscribe (ws_registry st) (hw_vault (ws_waits st ! i)) i"
    "ws_replies (settle st i reply) = ws_replies st @ [(i, reply)]"
  using assms by (auto simp: settle_def open_waits_def Let_def)

lemma slots_inv_settle:
  assumes "slots_inv p g st"
  shows "slots_inv p g (settle st i reply)"
proof (cases "i \<in> open_waits st")
  case True
  let ?w = "ws_waits st" and ?o = "open_waits st"
  have "{j \<in> ?o - {i}. hw_device (?w ! j) = d} = {j \<in> ?o. hw_device (?w ! j) = d} - {i}" for d by auto
  then have "card {j \<in> ?o - {i}. hw_device (?w ! j) = d} =
      card {j \<in> ?o. hw_device (?w ! j) = d} - (if d = hw_device (?w ! i) then 1 else 0)" for d
    using True by (auto simp: card_Diff_singleton_if)
  moreover have "i < length ?w" using True by (simp add: open_waits_def)
  moreover have "i \<notin> fst ` set (ws_replies st)" using assms True by (auto simp: slots_inv_def)
  moreover have "card {j \<in> ?o. hw_device (?w ! j) = d} \<le> p" for d using assms by (metis slots_inv_def)
  ultimately show ?thesis
    using assms True by (auto simp: slots_inv_def settle_open card_Diff_singleton_if le_diff_conv le_SucI)
qed (simp add: settle_closed assms)

lemma registry_inv_settle:
  assumes "registry_inv V st"
  shows "registry_inv V (settle st i reply)"
proof (cases "i \<in> open_waits st")
  case True
  have wf: "\<forall>v ws. ws_registry st v = Some ws \<longrightarrow> ws \<noteq> [] \<and> distinct ws" using assms by (simp add: registry_inv_def)
  show ?thesis
    using assms True unsubscribe_wf [OF wf] by (auto simp: registry_inv_def settle_open waiters_unsubscribe)
qed (simp add: settle_closed assms)

lemma waits_inv_settle: "waits_inv p g st \<Longrightarrow> waits_inv p g (settle st i reply)"
  by (simp add: waits_inv_def slots_inv_settle registry_inv_settle)

lemma settle_all:
  assumes "slots_inv p g st" "registry_inv V st"
  shows "slots_inv p g (fold (\<lambda>i s. finish s i c) is st) \<and> registry_inv V (fold (\<lambda>i s. finish s i c) is st) \<and>
    open_waits (fold (\<lambda>i s. finish s i c) is st) = open_waits st - set is \<and>
    (\<forall>j. hw_vault (ws_waits (fold (\<lambda>i s. finish s i c) is st) ! j) = hw_vault (ws_waits st ! j))"
  using assms
proof (induction "is" arbitrary: st)
  case (Cons i "is")
  then have "slots_inv p g (finish st i c)" "registry_inv V (finish st i c)"
    by (simp_all add: finish_def slots_inv_settle registry_inv_settle)
  from Cons.IH [OF this] show ?case by (auto simp: finish_def)
qed simp

lemma waits_inv_notify:
  assumes "waits_inv p g st"
  shows "waits_inv p g (notify st v c) \<and> open_waits (notify st v c) = {i \<in> open_waits st. hw_vault (ws_waits st ! i) \<noteq> v}"
proof (cases "ws_registry st v")
  case None
  have "waiters (ws_registry st) v = {i \<in> open_waits st. hw_vault (ws_waits st ! i) = v}"
    using assms by (simp add: waits_inv_def registry_inv_def)
  then have "{i \<in> open_waits st. hw_vault (ws_waits st ! i) = v} = {}" using None by (simp add: waiters_def)
  then show ?thesis using None assms by (auto simp: notify_def)
next
  case (Some ls)
  let ?st = "st\<lparr>ws_registry := (ws_registry st)(v := None)\<rparr>"
  let ?fin = "fold (\<lambda>i s. finish s i c) ls ?st"
  have o: "open_waits ?st = open_waits st" by (simp add: open_waits_def)
  have ls: "set ls = {i \<in> open_waits st. hw_vault (ws_waits st ! i) = v}"
  proof -
    have "waiters (ws_registry st) v = {i \<in> open_waits st. hw_vault (ws_waits st ! i) = v}"
      using assms by (simp add: waits_inv_def registry_inv_def)
    then show ?thesis using Some by (simp add: waiters_def)
  qed
  have "slots_inv p g ?st" using assms by (simp add: waits_inv_def slots_inv_def o)
  moreover have "registry_inv {v} ?st"
    using assms by (auto simp: waits_inv_def registry_inv_def waiters_def o)
  ultimately have e: "slots_inv p g ?fin" "registry_inv {v} ?fin" "open_waits ?fin = open_waits st - set ls"
    "\<And>j. hw_vault (ws_waits ?fin ! j) = hw_vault (ws_waits st ! j)"
    using settle_all [of p g ?st "{v}" c ls] by (simp_all add: o)
  have open': "open_waits ?fin = {i \<in> open_waits st. hw_vault (ws_waits st ! i) \<noteq> v}" using e(3) ls by auto
  then have "registry_inv {} ?fin" using e(2,4) by (auto simp: registry_inv_def)
  then show ?thesis using e(1) open' Some by (simp add: notify_def waits_inv_def)
qed

lemma waits_inv_hold:
  assumes "waits_inv p g st" "hold p g st d v c = (ok, st')"
  shows "waits_inv p g st'"
proof -
  obtain ok' l where acq: "tryAcquire p g (ws_limiter st) d = (ok', l)" by fastforce
  show ?thesis
  proof (cases ok')
    case True
    let ?n = "length (ws_waits st)"
    have st': "st' = \<lparr>ws_limiter = l, ws_registry = subscribe (ws_registry st) v ?n,
        ws_waits = ws_waits st @ [\<lparr>hw_device = d, hw_vault = v, hw_current = c, hw_settled = False\<rparr>],
        ws_replies = ws_replies st\<rparr>"
      using assms(2) acq True by (simp add: hold_def)
    have new: "?n \<notin> open_waits st" by (simp add: open_waits_def)
    have o: "open_waits st' = insert ?n (open_waits st)"
      by (auto simp: st' open_waits_def nth_append less_Suc_eq split: if_splits)
    have nth: "ws_waits st' ! i = ws_waits st ! i" if "i \<in> open_waits st" for i
      using that by (simp add: st' nth_append open_waits_def)
    have last: "ws_waits st' ! ?n = \<lparr>hw_device = d, hw_vault = v, hw_current = c, hw_settled = False\<rparr>" by (simp add: st')
    have dev: "{i \<in> open_waits st'. hw_device (ws_waits st' ! i) = d'} =
        (if d' = d then insert ?n else id) {i \<in> open_waits st. hw_device (ws_waits st ! i) = d'}" for d'
      using nth last by (auto simp: o)
    have vau: "{i \<in> open_waits st'. hw_vault (ws_waits st' ! i) = v'} =
        (if v' = v then insert ?n else id) {i \<in> open_waits st. hw_vault (ws_waits st ! i) = v'}" for v'
      using nth last by (auto simp: o)
    have "tryAcquire p g (ws_limiter st) d = (True, l)" using acq True by simp
    note t = tryAcquire_True [OF this]
    have sel: "ws_limiter st' = l" "ws_registry st' = subscribe (ws_registry st) v ?n" "length (ws_waits st') = Suc ?n"
      "ws_replies st' = ws_replies st" by (simp_all add: st')
    have wf: "\<forall>v ws. ws_registry st v = Some ws \<longrightarrow> ws \<noteq> [] \<and> distinct ws"
      using assms(1) by (simp add: waits_inv_def registry_inv_def)
    have "slots_inv p g st'"
      unfolding slots_inv_def dev
      using assms(1) t new by (auto simp: waits_inv_def slots_inv_def o sel less_Suc_eq)
    moreover have "registry_inv {} st'"
      unfolding registry_inv_def vau
      using assms(1) subscribe_wf [OF wf]
      by (auto simp: waits_inv_def registry_inv_def sel waiters_subscribe)
    ultimately show ?thesis by (simp add: waits_inv_def)
  qed (use assms acq in \<open>simp add: hold_def\<close>)
qed

lemma waits_inv_step: "waits_inv p g st \<Longrightarrow> waits_inv p g (snd (wait_step p g st ev))"
  by (cases ev)
    (auto simp: waits_inv_settle waits_inv_notify onTimer_def finish_def onClientGone_def waitRoute_def Let_def
      intro: waits_inv_hold split: option.splits sum.splits prod.splits bool.splits if_splits)

interpretation waits: invariant_machine "wait_step p g" "waits_inv p g" for p g
  by unfold_locales (rule waits_inv_step)

lemma no_waits_inv: "waits_inv p g no_waits"
  by (simp add: waits_inv_def slots_inv_def registry_inv_def no_waits_def open_waits_def held_by_def waiters_def)

lemma pendingCount_waiters:
  assumes "registry_inv V st"
  shows "pendingCount (ws_registry st) v = card (waiters (ws_registry st) v)"
proof (cases "ws_registry st v")
  case (Some ws)
  then have "distinct ws" using assms by (simp add: registry_inv_def)
  then show ?thesis using Some by (simp add: pendingCount_def waiters_def distinct_card)
qed (simp add: pendingCount_def waiters_def)

lemma finish_replies_mono: "set (ws_replies st) \<subseteq> set (ws_replies (finish st i c))"
  by (auto simp: finish_def settle_def Let_def)

lemma finish_all_replies:
  "set (ws_replies st) \<union> {(i, WaitCursor c) |i. i \<in> set is \<inter> open_waits st} \<subseteq> set (ws_replies (fold (\<lambda>i s. finish s i c) is st))"
proof (induction "is" arbitrary: st)
  case (Cons i "is")
  have "(i, WaitCursor c) \<in> set (ws_replies (finish st i c))" if "i \<in> open_waits st"
    using that by (simp add: finish_def settle_open)
  then show ?case using Cons [of "finish st i c"] finish_replies_mono [of st i c] by (auto simp: finish_def)
qed simp

section \<open>Properties\<close>

text \<open>
  C16. No slot leaks and none is over-used: after any sequence of wait requests, timers, vanished
  clients and pushes, in any order, the limiter counts exactly the requests that are still held, per
  device and in total and within both caps; the registry holds exactly those of each vault; and every
  request that is no longer held was answered exactly once.
\<close>

theorem wait_slots_match_held_requests:
  "let st = fold (\<lambda>ev s. snd (wait_step p g s ev)) evs no_waits
   in lim_global (ws_limiter st) = card (open_waits st) \<and> card (open_waits st) \<le> g \<and>
      (\<forall>d. held_by (ws_limiter st) d = card {i \<in> open_waits st. hw_device (ws_waits st ! i) = d}) \<and>
      (\<forall>d. held_by (ws_limiter st) d \<le> p) \<and>
      (\<forall>v. pendingCount (ws_registry st) v = card {i \<in> open_waits st. hw_vault (ws_waits st ! i) = v}) \<and>
      distinct (map fst (ws_replies st)) \<and>
      set (map fst (ws_replies st)) = {i. i < length (ws_waits st)} - open_waits st"
proof -
  let ?st = "fold (\<lambda>ev s. snd (wait_step p g s ev)) evs no_waits"
  have "?st = invariant_machine.run (wait_step p g) no_waits evs"
  proof -
    have "fold (\<lambda>ev s. snd (wait_step p g s ev)) evs st = invariant_machine.run (wait_step p g) st evs" for st
      by (induction evs arbitrary: st) auto
    then show ?thesis .
  qed
  then have inv: "waits_inv p g ?st" using waits.run_inv [OF no_waits_inv] by simp
  then have reg: "registry_inv {} ?st" by (simp add: waits_inv_def)
  then have "pendingCount (ws_registry ?st) v = card {i \<in> open_waits ?st. hw_vault (ws_waits ?st ! i) = v}" for v
    using pendingCount_waiters [OF reg, of v] by (simp add: registry_inv_def)
  then show ?thesis using inv by (simp add: Let_def waits_inv_def slots_inv_def)
qed

text \<open>
  A push wakes its vault and nobody else: every request held for the vault is answered with the
  new cursor, none of them is held any more, and the requests held for other vaults stay held.
\<close>

theorem notify_wakes_exactly_its_vault:
  assumes "waits_inv p g st"
  shows "open_waits (notify st v c) = {i \<in> open_waits st. hw_vault (ws_waits st ! i) \<noteq> v} \<and>
    pendingCount (ws_registry (notify st v c)) v = 0 \<and>
    (\<forall>i \<in> open_waits st. hw_vault (ws_waits st ! i) = v \<longrightarrow> (i, WaitCursor c) \<in> set (ws_replies (notify st v c)))"
proof -
  note n = waits_inv_notify [OF assms, of v c]
  have reg: "registry_inv {} (notify st v c)" using n by (simp add: waits_inv_def)
  have vault: "hw_vault (ws_waits (notify st v c) ! i) = hw_vault (ws_waits st ! i)" for i
  proof (cases "ws_registry st v")
    case (Some ls)
    have "hw_vault (ws_waits (fold (\<lambda>i s. finish s i c) ls s) ! i) = hw_vault (ws_waits s ! i)" for s
      by (induction ls arbitrary: s) (auto simp: finish_def)
    then show ?thesis using Some by (simp add: notify_def)
  qed (simp add: notify_def)
  have "waiters (ws_registry (notify st v c)) v = {}" using reg n vault by (auto simp: registry_inv_def)
  then have "pendingCount (ws_registry (notify st v c)) v = 0" using pendingCount_waiters [OF reg, of v] by simp
  moreover have "(i, WaitCursor c) \<in> set (ws_replies (notify st v c))"
    if i: "i \<in> open_waits st" "hw_vault (ws_waits st ! i) = v" for i
  proof -
    have "i \<in> waiters (ws_registry st) v" using assms i by (simp add: waits_inv_def registry_inv_def)
    then obtain ls where ls: "ws_registry st v = Some ls" "i \<in> set ls" by (auto simp: waiters_def split: option.splits)
    have "i \<in> open_waits (st\<lparr>ws_registry := (ws_registry st)(v := None)\<rparr>)" using i by (simp add: open_waits_def)
    then show ?thesis using finish_all_replies [of "st\<lparr>ws_registry := (ws_registry st)(v := None)\<rparr>" c ls] ls
      by (auto simp: notify_def)
  qed
  ultimately show ?thesis using n by blast
qed

theorem notify_wakes_exactly_its_vault_witness:
  "(0, WaitCursor 7) \<in> set (ws_replies (notify (snd (hold 4 256 no_waits [1] [2] 5)) [2] 7))"
proof -
  have "waits_inv 4 256 (snd (hold 4 256 no_waits [1] [2] 5))"
    by (metis no_waits_inv surjective_pairing waits_inv_hold)
  from notify_wakes_exactly_its_vault [OF this, of "[2]" 7] show ?thesis
    by (simp add: hold_def tryAcquire_def no_waits_def held_by_def open_waits_def)
qed

end
