(* ===== verification/ClientState.thy ===== *)
theory ClientState
  imports CanonicalJson
begin

text \<open>
  The durable client state of the plugin as data: the types of
  \<^verbatim>\<open>apps/obsidian-plugin/src/runtime/sync-state.ts\<close>, \<^verbatim>\<open>producer-recovery.ts\<close> and
  \<^verbatim>\<open>adapters/producer-state.ts\<close>, their JSON form, and the parser that reads an untrusted
  \<^verbatim>\<open>data.json\<close> back: the strict parse, the salvage of a damaged one, and the producer's own parse.

  A value that may be \<^verbatim>\<open>undefined\<close> is an option. A plain object used as a dictionary is an
  association list in key order. Numbers that the code only stores or compares are rational;
  sequences and cursors are integers, checked against the safe range where the source checks it.
  The journal and the backups are taken over by the source with a cast after \<^verbatim>\<open>validRecoveryFields\<close>
  accepted them; \<open>recovery_cast\<close> and \<open>envelope_cast\<close> read the members that cast gives access to.
  Console warnings are left out.
\<close>

type_synonym 'a jsobj = "(jsstr \<times> 'a) list"

section \<open>Data\<close>

record envelope =
  ob_operationId :: jsstr
  ob_revisionId :: ident
  ob_fileId :: ident
  ob_contentHash :: jsstr
  ob_header :: "json option"
  ob_idempotencyKey :: jsstr
  ob_payloadBase64 :: jsstr
  ob_enqueuedAt :: "rat option"
  ob_payloadExternalized :: "bool option"
  ob_backedUpAt :: "rat option"

record remote_revision =
  rr_revisionId :: ident
  rr_fileId :: ident
  rr_contentHash :: jsstr
  rr_parentRevisionIds :: "ident list option"
  rr_authorMembershipId :: "ident option"
  rr_acceptedAt :: "jsstr option"

record remote_event =
  re_serverSequence :: int
  re_revision :: remote_revision

record quarantined_revision =
  qr_revisionId :: ident
  qr_fileId :: ident
  qr_reason :: jsstr
  qr_parentRevisionIds :: "ident list option"

text \<open>
  \<^verbatim>\<open>LocalFileMapping\<close>, with the note text a journal entry may carry. The stat is only stored and
  handed back, so it stays JSON.
\<close>

record file_mapping =
  fm_fileId :: ident
  fm_path :: jsstr
  fm_collisionKey :: jsstr
  fm_contentHash :: jsstr
  fm_contentKind :: "content_kind option"
  fm_stat :: "json option"
  fm_content :: "jsstr option"

record producer_state =
  pr_mappings :: "file_mapping list"
  pr_heads :: "ident jsobj"

definition EMPTY_PRODUCER :: producer_state where
  "EMPTY_PRODUCER = \<lparr>pr_mappings = [], pr_heads = []\<rparr>"

datatype recovery_kind = ApplyRecord | ResolutionRecord | OtherRecord json

record apply_state =
  aps_pathOwners :: "jsstr jsobj"
  aps_baseHashes :: "jsstr jsobj"
  aps_baseContents :: "jsstr jsobj"

record producer_recovery =
  jr_id :: ident
  jr_kind :: recovery_kind
  jr_applyState :: "apply_state option"
  jr_fileIds :: "ident list"
  jr_state :: producer_state
  jr_discardRevisionIds :: "ident list"

record persisted =
  ps_producer :: "producer_state option"
  ps_producerRecovery :: "producer_recovery list option"
  ps_reconciliationBackups :: "envelope list jsobj option"
  ps_cursor :: int
  ps_outbox :: "envelope list"
  ps_locallyAuthored :: "ident list"
  ps_deferred :: "remote_event list"
  ps_quarantine :: "quarantined_revision list"
  ps_pathOwners :: "ident jsobj"
  ps_baseHashes :: "jsstr jsobj"
  ps_baseContents :: "jsstr jsobj"
  ps_conflictArtifacts :: "jsstr jsobj"
  ps_conflictCopyFileIds :: "ident jsobj option"
  ps_quarantinedEnvelopes :: "envelope jsobj"

definition emptyState :: persisted where
  "emptyState =
     \<lparr>ps_producer = None, ps_producerRecovery = None, ps_reconciliationBackups = None, ps_cursor = 0,
      ps_outbox = [], ps_locallyAuthored = [], ps_deferred = [], ps_quarantine = [], ps_pathOwners = [],
      ps_baseHashes = [], ps_baseContents = [], ps_conflictArtifacts = [], ps_conflictCopyFileIds = None,
      ps_quarantinedEnvelopes = []\<rparr>"

definition mappingMetadata :: "file_mapping \<Rightarrow> file_mapping" where
  "mappingMetadata m = m\<lparr>fm_content := None\<rparr>"

section \<open>Reading untrusted JSON\<close>

definition isRecord :: "json \<Rightarrow> bool" where
  "isRecord v = (case v of JObj _ \<Rightarrow> True | _ \<Rightarrow> False)"

text \<open>\<^verbatim>\<open>value.key\<close> of something that may not be an object; arrays have no such members.\<close>

definition field :: "json \<Rightarrow> jsstr \<Rightarrow> json option" where
  "field v k = (case v of JObj kvs \<Rightarrow> map_of kvs k | _ \<Rightarrow> None)"

fun as_number :: "json option \<Rightarrow> rat option" where
  "as_number (Some (JInt i)) = Some (of_int i)"
| "as_number (Some (JFrac r)) = Some r"
| "as_number _ = None"

text \<open>\<^verbatim>\<open>Number.isSafeInteger\<close>\<close>

fun as_safe_integer :: "json option \<Rightarrow> int option" where
  "as_safe_integer (Some (JInt i)) =
     (if - MAX_SAFE_INTEGER \<le> i \<and> i \<le> MAX_SAFE_INTEGER then Some i else None)"
| "as_safe_integer _ = None"

fun as_array :: "json option \<Rightarrow> json list option" where
  "as_array (Some (JArr xs)) = Some xs"
| "as_array _ = None"

fun as_object :: "json option \<Rightarrow> json jsobj option" where
  "as_object (Some (JObj kvs)) = Some kvs"
| "as_object _ = None"

text \<open>All the entries of a list or an object, or nothing when one is unreadable.\<close>

fun traverse :: "('a \<Rightarrow> 'b option) \<Rightarrow> 'a list \<Rightarrow> 'b list option" where
  "traverse f [] = Some []"
| "traverse f (x # xs) = Option.bind (f x) (\<lambda>y. map_option (Cons y) (traverse f xs))"

definition traverse_object :: "('a \<Rightarrow> 'b option) \<Rightarrow> 'a jsobj \<Rightarrow> 'b jsobj option" where
  "traverse_object f kvs = traverse (\<lambda>(k, v). map_option (Pair k) (f v)) kvs"

text \<open>\<^verbatim>\<open>value?.key\<close> of an optional member that may be absent: absent reads as the default.\<close>

definition optional_member :: "'a \<Rightarrow> (json \<Rightarrow> 'a option) \<Rightarrow> json option \<Rightarrow> 'a option" where
  "optional_member d f v = (case v of None \<Rightarrow> Some d | Some j \<Rightarrow> f j)"

definition parseStringMap :: "json option \<Rightarrow> jsstr jsobj option" where
  "parseStringMap = optional_member []
     (\<lambda>j. Option.bind (as_object (Some j)) (traverse_object (\<lambda>e. as_string (Some e))))"

definition parseEnvelope :: "json \<Rightarrow> envelope option" where
  "parseEnvelope v =
     (if \<not> isRecord v then None
      else
        Option.bind (as_string (field v (js ''operationId''))) (\<lambda>op.
        Option.bind (as_string (field v (js ''revisionId''))) (\<lambda>rid.
        Option.bind (as_string (field v (js ''fileId''))) (\<lambda>fid.
        Option.bind (as_string (field v (js ''contentHash''))) (\<lambda>hash.
        Option.bind (as_string (field v (js ''idempotencyKey''))) (\<lambda>key.
        Option.bind (as_string (field v (js ''payloadBase64''))) (\<lambda>payload.
          Some \<lparr>ob_operationId = op, ob_revisionId = rid, ob_fileId = fid, ob_contentHash = hash,
                ob_header = field v (js ''header''), ob_idempotencyKey = key, ob_payloadBase64 = payload,
                ob_enqueuedAt = as_number (field v (js ''enqueuedAt'')),
                ob_payloadExternalized =
                  (if field v (js ''payloadExternalized'') = Some (JBool True) then Some True else None),
                ob_backedUpAt = None\<rparr>)))))))"

definition parseEnvelopeMap :: "json option \<Rightarrow> envelope jsobj option" where
  "parseEnvelopeMap = optional_member []
     (\<lambda>j. Option.bind (as_object (Some j)) (traverse_object parseEnvelope))"

definition parseQuarantineRow :: "json \<Rightarrow> quarantined_revision option" where
  "parseQuarantineRow e =
     (if \<not> isRecord e then None
      else
        Option.bind (as_string (field e (js ''revisionId''))) (\<lambda>rid.
        Option.bind (as_string (field e (js ''fileId''))) (\<lambda>fid.
        Option.bind (as_string (field e (js ''reason''))) (\<lambda>reason.
          Some \<lparr>qr_revisionId = rid, qr_fileId = fid, qr_reason = reason,
                qr_parentRevisionIds = as_string_array (field e (js ''parentRevisionIds''))\<rparr>))))"

definition parseQuarantine :: "json option \<Rightarrow> quarantined_revision list option" where
  "parseQuarantine = optional_member []
     (\<lambda>j. Option.bind (as_array (Some j)) (traverse parseQuarantineRow))"

definition parseRemoteEvent :: "json \<Rightarrow> remote_event option" where
  "parseRemoteEvent v =
     (if \<not> isRecord v then None
      else
        Option.bind (as_safe_integer (field v (js ''serverSequence''))) (\<lambda>sequence.
        Option.bind (field v (js ''revision'')) (\<lambda>revision.
          if \<not> isRecord revision then None
          else
            Option.bind (as_string (field revision (js ''revisionId''))) (\<lambda>rid.
            Option.bind (as_string (field revision (js ''fileId''))) (\<lambda>fid.
            Option.bind (as_string (field revision (js ''contentHash''))) (\<lambda>hash.
              Some \<lparr>re_serverSequence = sequence,
                    re_revision = \<lparr>rr_revisionId = rid, rr_fileId = fid, rr_contentHash = hash,
                      rr_parentRevisionIds = None, rr_authorMembershipId = None, rr_acceptedAt = None\<rparr>\<rparr>))))))"

section \<open>The producer's state\<close>

datatype parse_status = Absent | Parsed | Corrupt

definition contentKind_of :: "json option \<Rightarrow> content_kind option" where
  "contentKind_of j =
     (if j = Some (JStr (js ''binary'')) then Some Binary
      else if j = Some (JStr (js ''markdown'')) then Some Markdown else None)"

definition isFileStat :: "json \<Rightarrow> bool" where
  "isFileStat v \<longleftrightarrow> as_number (field v (js ''mtime'')) \<noteq> None \<and> as_number (field v (js ''size'')) \<noteq> None"

definition isValidProducerMapping :: "json \<Rightarrow> bool" where
  "isValidProducerMapping entry \<longleftrightarrow>
     isRecord entry \<and> as_string (field entry (js ''collisionKey'')) \<noteq> None \<and>
     as_string (field entry (js ''contentHash'')) \<noteq> None \<and> as_string (field entry (js ''fileId'')) \<noteq> None \<and>
     as_string (field entry (js ''path'')) \<noteq> None"

text \<open>A member already checked to be a string, \<^verbatim>\<open>entry.key as string\<close>.\<close>

definition string_of :: "json option \<Rightarrow> jsstr" where
  "string_of j = (case as_string j of Some s \<Rightarrow> s | None \<Rightarrow> [])"

definition buildProducerMapping :: "json \<Rightarrow> file_mapping" where
  "buildProducerMapping entry =
     \<lparr>fm_fileId = string_of (field entry (js ''fileId'')), fm_path = string_of (field entry (js ''path'')),
      fm_collisionKey = string_of (field entry (js ''collisionKey'')),
      fm_contentHash = string_of (field entry (js ''contentHash'')),
      fm_contentKind = contentKind_of (field entry (js ''contentKind'')),
      fm_stat = (case field entry (js ''stat'') of
          Some st \<Rightarrow>
            (if isFileStat st
             then (case (field st (js ''mtime''), field st (js ''size'')) of
                (Some m, Some z) \<Rightarrow> Some (JObj [(js ''mtime'', m), (js ''size'', z)]) | _ \<Rightarrow> None)
             else None)
        | None \<Rightarrow> None),
      fm_content = None\<rparr>"

definition parseProducerStateResult :: "json option \<Rightarrow> parse_status \<times> producer_state \<times> json list" where
  "parseProducerStateResult raw =
     (case raw of
        None \<Rightarrow> (Absent, EMPTY_PRODUCER, [])
      | Some JNull \<Rightarrow> (Absent, EMPTY_PRODUCER, [])
      | Some v \<Rightarrow>
        (case (as_array (field v (js ''mappings'')), as_object (field v (js ''heads''))) of
           (Some ms, Some hs) \<Rightarrow>
             (Parsed,
              \<lparr>pr_mappings = map buildProducerMapping (filter isValidProducerMapping ms),
               pr_heads = List.map_filter (\<lambda>(k, j). map_option (Pair k) (as_string (Some j))) hs\<rparr>,
              filter (\<lambda>e. \<not> isValidProducerMapping e) ms)
         | _ \<Rightarrow> (Corrupt, EMPTY_PRODUCER, [])))"

definition parseProducerField :: "json option \<Rightarrow> producer_state option" where
  "parseProducerField value =
     (case value of None \<Rightarrow> None | Some v \<Rightarrow> Some (fst (snd (parseProducerStateResult (Some v)))))"

section \<open>The journal and the backups\<close>

text \<open>
  \<^verbatim>\<open>String(row.kind)\<close> as far as it can read \<^verbatim>\<open>apply\<close> or \<^verbatim>\<open>resolution\<close>: an array of one element prints as
  that element.
\<close>

fun kind_text :: "json \<Rightarrow> jsstr" where
  "kind_text (JStr s) = s"
| "kind_text (JArr [x]) = kind_text x"
| "kind_text _ = []"

definition nonempty_strings :: "json option \<Rightarrow> bool" where
  "nonempty_strings v = (case as_string_array v of Some xs \<Rightarrow> list_all (\<lambda>s. s \<noteq> []) xs | None \<Rightarrow> False)"

definition string_values :: "json option \<Rightarrow> bool" where
  "string_values v =
     (case as_object v of Some kvs \<Rightarrow> list_all (\<lambda>(k, e). as_string (Some e) \<noteq> None) kvs | None \<Rightarrow> False)"

definition strings_of :: "json option \<Rightarrow> jsstr list" where
  "strings_of v = (case as_string_array v of Some xs \<Rightarrow> xs | None \<Rightarrow> [])"

definition valid_journal_mapping :: "json option \<Rightarrow> jsstr list \<Rightarrow> json \<Rightarrow> bool" where
  "valid_journal_mapping kind fileIds m \<longleftrightarrow>
     as_string (field m (js ''fileId'')) \<noteq> None \<and> as_string (field m (js ''path'')) \<noteq> None \<and>
     as_string (field m (js ''collisionKey'')) \<noteq> None \<and> as_string (field m (js ''contentHash'')) \<noteq> None \<and>
     (kind \<noteq> Some (JStr (js ''resolution'')) \<or> field m (js ''contentKind'') = Some (JStr (js ''binary'')) \<or>
      as_string (field m (js ''content'')) \<noteq> None) \<and>
     string_of (field m (js ''fileId'')) \<in> set fileIds \<and>
     (field m (js ''contentKind'') = None \<or> contentKind_of (field m (js ''contentKind'')) \<noteq> None)"

definition validRecovery :: "json \<Rightarrow> bool" where
  "validRecovery row =
     (if string_of (field row (js ''id'')) = [] \<or>
         (case field row (js ''kind'') of
            Some k \<Rightarrow> kind_text k \<notin> {js ''apply'', js ''resolution''} | None \<Rightarrow> True) \<or>
         \<not> nonempty_strings (field row (js ''fileIds'')) \<or>
         \<not> nonempty_strings (field row (js ''discardRevisionIds'')) then False
      else if (case field row (js ''applyState'') of
            Some saved \<Rightarrow> \<not> (string_values (field saved (js ''pathOwners'')) \<and>
               string_values (field saved (js ''baseHashes'')) \<and> string_values (field saved (js ''baseContents'')))
          | None \<Rightarrow> False) then False
      else
        (case field row (js ''state'') of
           None \<Rightarrow> False
         | Some state \<Rightarrow>
           (case (as_array (field state (js ''mappings'')), as_object (field state (js ''heads''))) of
              (Some ms, Some hs) \<Rightarrow>
                list_all (\<lambda>(k, head). k \<in> set (strings_of (field row (js ''fileIds''))) \<and>
                   as_string (Some head) \<noteq> None) hs \<and>
                list_all (valid_journal_mapping (field row (js ''kind''))
                   (strings_of (field row (js ''fileIds'')))) ms
            | _ \<Rightarrow> False)))"

definition validRecoveryFields :: "json \<Rightarrow> bool" where
  "validRecoveryFields raw =
     (if (case field raw (js ''producerRecovery'') of
            None \<Rightarrow> False
          | Some j \<Rightarrow> (case as_array (Some j) of None \<Rightarrow> True | Some rs \<Rightarrow> \<not> list_all validRecovery rs))
      then False
      else
        (case field raw (js ''reconciliationBackups'') of
           None \<Rightarrow> True
         | Some j \<Rightarrow>
           (case as_object (Some j) of
              None \<Rightarrow> False
            | Some kvs \<Rightarrow>
                list_all (\<lambda>(k, entries).
                  (case as_array (Some entries) of
                     None \<Rightarrow> False
                   | Some es \<Rightarrow> list_all (\<lambda>e. parseEnvelope e \<noteq> None \<and> isRecord e \<and>
                       field e (js ''payloadExternalized'') \<noteq> Some (JBool True)) es)) kvs)))"

text \<open>What the casts after the validation give access to.\<close>

definition string_map_of :: "json option \<Rightarrow> jsstr jsobj" where
  "string_map_of v =
     (case as_object v of Some kvs \<Rightarrow> map (\<lambda>(k, e). (k, string_of (Some e))) kvs | None \<Rightarrow> [])"

definition journal_mapping_cast :: "json \<Rightarrow> file_mapping" where
  "journal_mapping_cast m =
     \<lparr>fm_fileId = string_of (field m (js ''fileId'')), fm_path = string_of (field m (js ''path'')),
      fm_collisionKey = string_of (field m (js ''collisionKey'')),
      fm_contentHash = string_of (field m (js ''contentHash'')),
      fm_contentKind = contentKind_of (field m (js ''contentKind'')), fm_stat = field m (js ''stat''),
      fm_content = as_string (field m (js ''content''))\<rparr>"

definition recovery_cast :: "json \<Rightarrow> producer_recovery" where
  "recovery_cast row =
     (let state = (case field row (js ''state'') of Some s \<Rightarrow> s | None \<Rightarrow> JNull);
          kind = (case field row (js ''kind'') of Some k \<Rightarrow> k | None \<Rightarrow> JNull)
      in \<lparr>jr_id = string_of (field row (js ''id'')),
          jr_kind = (if kind = JStr (js ''apply'') then ApplyRecord
                     else if kind = JStr (js ''resolution'') then ResolutionRecord else OtherRecord kind),
          jr_applyState = map_option (\<lambda>saved. \<lparr>aps_pathOwners = string_map_of (field saved (js ''pathOwners'')),
              aps_baseHashes = string_map_of (field saved (js ''baseHashes'')),
              aps_baseContents = string_map_of (field saved (js ''baseContents''))\<rparr>)
            (field row (js ''applyState'')),
          jr_fileIds = strings_of (field row (js ''fileIds'')),
          jr_state = \<lparr>pr_mappings = map journal_mapping_cast
              (case as_array (field state (js ''mappings'')) of Some ms \<Rightarrow> ms | None \<Rightarrow> []),
            pr_heads = string_map_of (field state (js ''heads''))\<rparr>,
          jr_discardRevisionIds = strings_of (field row (js ''discardRevisionIds''))\<rparr>)"

fun as_bool :: "json option \<Rightarrow> bool option" where
  "as_bool (Some (JBool b)) = Some b"
| "as_bool _ = None"

definition envelope_cast :: "json \<Rightarrow> envelope" where
  "envelope_cast v =
     \<lparr>ob_operationId = string_of (field v (js ''operationId'')),
      ob_revisionId = string_of (field v (js ''revisionId'')), ob_fileId = string_of (field v (js ''fileId'')),
      ob_contentHash = string_of (field v (js ''contentHash'')), ob_header = field v (js ''header''),
      ob_idempotencyKey = string_of (field v (js ''idempotencyKey'')),
      ob_payloadBase64 = string_of (field v (js ''payloadBase64'')),
      ob_enqueuedAt = as_number (field v (js ''enqueuedAt'')),
      ob_payloadExternalized = as_bool (field v (js ''payloadExternalized'')),
      ob_backedUpAt = as_number (field v (js ''backedUpAt''))\<rparr>"

definition journal_cast :: "json option \<Rightarrow> producer_recovery list option" where
  "journal_cast v = map_option (map recovery_cast) (as_array v)"

definition backups_cast :: "json option \<Rightarrow> envelope list jsobj option" where
  "backups_cast v =
     map_option (map (\<lambda>(k, es). (k, map envelope_cast
       (case as_array (Some es) of Some xs \<Rightarrow> xs | None \<Rightarrow> [])))) (as_object v)"

section \<open>Parsing the persisted state\<close>

definition CORRUPT_ENVELOPE_PREFIX :: jsstr where
  "CORRUPT_ENVELOPE_PREFIX = js ''corrupt-envelope:''"

definition quarantineForCorruptEnvelope :: "json \<Rightarrow> nat \<Rightarrow> quarantined_revision" where
  "quarantineForCorruptEnvelope entry index =
     \<lparr>qr_revisionId = (case as_string (field entry (js ''revisionId'')) of
          Some s \<Rightarrow> s | None \<Rightarrow> CORRUPT_ENVELOPE_PREFIX @ decimal index),
      qr_fileId = string_of (field entry (js ''fileId'')), qr_reason = js ''corrupt-envelope'',
      qr_parentRevisionIds = None\<rparr>"

fun parseOutboxEntries_from :: "nat \<Rightarrow> json list \<Rightarrow> envelope list \<times> quarantined_revision list" where
  "parseOutboxEntries_from index [] = ([], [])"
| "parseOutboxEntries_from index (entry # outbox) =
     (case parseOutboxEntries_from (index + 1) outbox of (parsedOutbox, bad) \<Rightarrow>
        (case parseEnvelope entry of
           None \<Rightarrow> (parsedOutbox, quarantineForCorruptEnvelope entry index # bad)
         | Some parsed \<Rightarrow> (parsed # parsedOutbox, bad)))"

definition parseOutboxEntries :: "json list \<Rightarrow> envelope list \<times> quarantined_revision list" where
  "parseOutboxEntries outbox = parseOutboxEntries_from 0 outbox"

definition or_else :: "'a option \<Rightarrow> 'a \<Rightarrow> 'a" where
  "or_else v d = (case v of Some x \<Rightarrow> x | None \<Rightarrow> d)"

definition optionalConflictCopyFileIds :: "json option \<Rightarrow> jsstr jsobj option" where
  "optionalConflictCopyFileIds value = (case value of None \<Rightarrow> None | Some v \<Rightarrow> parseStringMap (Some v))"

definition as_cursor :: "json option \<Rightarrow> int option" where
  "as_cursor v = (case as_safe_integer v of Some c \<Rightarrow> if c < 0 then None else Some c | None \<Rightarrow> None)"

definition strictParse :: "json \<Rightarrow> persisted option" where
  "strictParse raw =
     (if isRecord raw \<and> \<not> validRecoveryFields raw then None
      else if \<not> isRecord raw \<or> field raw (js ''version'') \<noteq> Some (JInt 1) then None
      else
        Option.bind (as_cursor (field raw (js ''cursor''))) (\<lambda>cursor.
        Option.bind (as_array (field raw (js ''outbox''))) (\<lambda>outbox.
        Option.bind (as_array (field raw (js ''locallyAuthored''))) (\<lambda>authored.
        Option.bind (as_array (field raw (js ''deferred''))) (\<lambda>deferred.
        Option.bind (all_strings authored) (\<lambda>locallyAuthored.
        Option.bind (traverse parseRemoteEvent deferred) (\<lambda>parsedDeferred.
          (case parseOutboxEntries outbox of (parsedOutbox, bad) \<Rightarrow>
             Some \<lparr>ps_producer = parseProducerField (field raw (js ''producer'')),
               ps_producerRecovery = journal_cast (field raw (js ''producerRecovery'')),
               ps_reconciliationBackups = backups_cast (field raw (js ''reconciliationBackups'')),
               ps_cursor = cursor, ps_outbox = parsedOutbox, ps_locallyAuthored = locallyAuthored,
               ps_deferred = parsedDeferred,
               ps_quarantine = or_else (parseQuarantine (field raw (js ''quarantine''))) [] @ bad,
               ps_pathOwners = or_else (parseStringMap (field raw (js ''pathOwners''))) [],
               ps_baseHashes = or_else (parseStringMap (field raw (js ''baseHashes''))) [],
               ps_baseContents = or_else (parseStringMap (field raw (js ''baseContents''))) [],
               ps_conflictArtifacts = or_else (parseStringMap (field raw (js ''conflictArtifacts''))) [],
               ps_conflictCopyFileIds = optionalConflictCopyFileIds (field raw (js ''conflictCopyFileIds'')),
               ps_quarantinedEnvelopes =
                 or_else (parseEnvelopeMap (field raw (js ''quarantinedEnvelopes''))) []\<rparr>))))))))"

definition salvageDeferred :: "json option \<Rightarrow> remote_event list" where
  "salvageDeferred value =
     (case as_array value of None \<Rightarrow> [] | Some es \<Rightarrow> or_else (traverse parseRemoteEvent es) [])"

definition salvageState :: "json \<Rightarrow> persisted option" where
  "salvageState raw =
     (if \<not> isRecord raw then None
      else
        Option.bind (as_array (field raw (js ''outbox''))) (\<lambda>outbox.
          (case parseOutboxEntries outbox of (parsedOutbox, bad) \<Rightarrow>
             Some \<lparr>ps_producer = parseProducerField (field raw (js ''producer'')),
               ps_producerRecovery = journal_cast (field raw (js ''producerRecovery'')),
               ps_reconciliationBackups = backups_cast (field raw (js ''reconciliationBackups'')),
               ps_cursor = or_else (as_cursor (field raw (js ''cursor''))) 0,
               ps_outbox = parsedOutbox,
               ps_locallyAuthored = or_else (as_string_array (field raw (js ''locallyAuthored''))) [],
               ps_deferred = salvageDeferred (field raw (js ''deferred'')),
               ps_quarantine = or_else (parseQuarantine (field raw (js ''quarantine''))) [] @ bad,
               ps_pathOwners = or_else (parseStringMap (field raw (js ''pathOwners''))) [],
               ps_baseHashes = or_else (parseStringMap (field raw (js ''baseHashes''))) [],
               ps_baseContents = or_else (parseStringMap (field raw (js ''baseContents''))) [],
               ps_conflictArtifacts = or_else (parseStringMap (field raw (js ''conflictArtifacts''))) [],
               ps_conflictCopyFileIds = optionalConflictCopyFileIds (field raw (js ''conflictCopyFileIds'')),
               ps_quarantinedEnvelopes =
                 or_else (parseEnvelopeMap (field raw (js ''quarantinedEnvelopes''))) []\<rparr>)))"

definition outboxAtRisk :: "json \<Rightarrow> bool" where
  "outboxAtRisk raw =
     (if \<not> isRecord raw then False
      else (case field raw (js ''outbox'') of None \<Rightarrow> False | Some j \<Rightarrow> as_array (Some j) = None))"

record parse_result =
  prs_status :: parse_status
  prs_state :: persisted
  prs_salvage :: "persisted option"
  prs_outboxAtRisk :: bool

definition parsePersistedState :: "json option \<Rightarrow> parse_result" where
  "parsePersistedState raw =
     (case raw of
        None \<Rightarrow> \<lparr>prs_status = Absent, prs_state = emptyState, prs_salvage = None, prs_outboxAtRisk = False\<rparr>
      | Some v \<Rightarrow>
        if v = JNull
        then \<lparr>prs_status = Absent, prs_state = emptyState, prs_salvage = None, prs_outboxAtRisk = False\<rparr>
        else
          (case strictParse v of
             Some strict \<Rightarrow>
               \<lparr>prs_status = Parsed, prs_state = strict, prs_salvage = None, prs_outboxAtRisk = False\<rparr>
           | None \<Rightarrow>
               \<lparr>prs_status = Corrupt, prs_state = emptyState, prs_salvage = salvageState v,
                prs_outboxAtRisk = outboxAtRisk v\<rparr>))"

definition salvageHasOutboxEntriesMissingFrom :: "persisted option \<Rightarrow> envelope list \<Rightarrow> bool" where
  "salvageHasOutboxEntriesMissingFrom salvage backupOutbox =
     (case salvage of
        None \<Rightarrow> False
      | Some s \<Rightarrow> list_ex (\<lambda>e. ob_revisionId e \<notin> ob_revisionId ` set backupOutbox) (ps_outbox s))"

section \<open>The JSON form of the state\<close>

text \<open>What \<^verbatim>\<open>saveData\<close> writes: every member that is not \<^verbatim>\<open>undefined\<close>.\<close>

definition optional_entry :: "jsstr \<Rightarrow> json option \<Rightarrow> json jsobj" where
  "optional_entry k v = (case v of None \<Rightarrow> [] | Some j \<Rightarrow> [(k, j)])"

definition number_json :: "rat \<Rightarrow> json" where
  "number_json r = (if of_int \<lfloor>r\<rfloor> = r then JInt \<lfloor>r\<rfloor> else JFrac r)"

definition strings_json :: "jsstr list \<Rightarrow> json" where
  "strings_json xs = JArr (map JStr xs)"

definition string_map_json :: "jsstr jsobj \<Rightarrow> json" where
  "string_map_json m = JObj (map (\<lambda>(k, v). (k, JStr v)) m)"

definition envelope_json :: "envelope \<Rightarrow> json" where
  "envelope_json e = JObj
     ([(js ''operationId'', JStr (ob_operationId e)), (js ''revisionId'', JStr (ob_revisionId e)),
       (js ''fileId'', JStr (ob_fileId e)), (js ''contentHash'', JStr (ob_contentHash e)),
       (js ''idempotencyKey'', JStr (ob_idempotencyKey e)), (js ''payloadBase64'', JStr (ob_payloadBase64 e))] @
      optional_entry (js ''header'') (ob_header e) @
      optional_entry (js ''enqueuedAt'') (map_option number_json (ob_enqueuedAt e)) @
      optional_entry (js ''payloadExternalized'') (map_option JBool (ob_payloadExternalized e)) @
      optional_entry (js ''backedUpAt'') (map_option number_json (ob_backedUpAt e)))"

definition remote_event_json :: "remote_event \<Rightarrow> json" where
  "remote_event_json e = JObj
     [(js ''serverSequence'', JInt (re_serverSequence e)),
      (js ''revision'', JObj
        ([(js ''revisionId'', JStr (rr_revisionId (re_revision e))), (js ''fileId'', JStr (rr_fileId (re_revision e))),
          (js ''contentHash'', JStr (rr_contentHash (re_revision e)))] @
         optional_entry (js ''parentRevisionIds'') (map_option strings_json (rr_parentRevisionIds (re_revision e))) @
         optional_entry (js ''authorMembershipId'') (map_option JStr (rr_authorMembershipId (re_revision e))) @
         optional_entry (js ''acceptedAt'') (map_option JStr (rr_acceptedAt (re_revision e)))))]"

definition quarantine_json :: "quarantined_revision \<Rightarrow> json" where
  "quarantine_json q = JObj
     ([(js ''revisionId'', JStr (qr_revisionId q)), (js ''fileId'', JStr (qr_fileId q)),
       (js ''reason'', JStr (qr_reason q))] @
      optional_entry (js ''parentRevisionIds'') (map_option strings_json (qr_parentRevisionIds q)))"

definition content_kind_json :: "content_kind \<Rightarrow> json" where
  "content_kind_json k = JStr (case k of Markdown \<Rightarrow> js ''markdown'' | Binary \<Rightarrow> js ''binary'')"

definition mapping_json :: "file_mapping \<Rightarrow> json" where
  "mapping_json m = JObj
     ([(js ''fileId'', JStr (fm_fileId m)), (js ''path'', JStr (fm_path m)),
       (js ''collisionKey'', JStr (fm_collisionKey m)), (js ''contentHash'', JStr (fm_contentHash m))] @
      optional_entry (js ''contentKind'') (map_option content_kind_json (fm_contentKind m)) @
      optional_entry (js ''stat'') (fm_stat m) @
      optional_entry (js ''content'') (map_option JStr (fm_content m)))"

definition producer_json :: "producer_state \<Rightarrow> json" where
  "producer_json p = JObj
     [(js ''mappings'', JArr (map mapping_json (pr_mappings p))), (js ''heads'', string_map_json (pr_heads p))]"

definition kind_json :: "recovery_kind \<Rightarrow> json" where
  "kind_json k =
     (case k of ApplyRecord \<Rightarrow> JStr (js ''apply'') | ResolutionRecord \<Rightarrow> JStr (js ''resolution'') | OtherRecord j \<Rightarrow> j)"

definition apply_state_json :: "apply_state \<Rightarrow> json" where
  "apply_state_json a = JObj
     [(js ''pathOwners'', string_map_json (aps_pathOwners a)), (js ''baseHashes'', string_map_json (aps_baseHashes a)),
      (js ''baseContents'', string_map_json (aps_baseContents a))]"

definition recovery_json :: "producer_recovery \<Rightarrow> json" where
  "recovery_json r = JObj
     ([(js ''id'', JStr (jr_id r)), (js ''kind'', kind_json (jr_kind r)),
       (js ''fileIds'', strings_json (jr_fileIds r)), (js ''state'', producer_json (jr_state r)),
       (js ''discardRevisionIds'', strings_json (jr_discardRevisionIds r))] @
      optional_entry (js ''applyState'') (map_option apply_state_json (jr_applyState r)))"

definition envelope_map_json :: "envelope jsobj \<Rightarrow> json" where
  "envelope_map_json m = JObj (map (\<lambda>(k, e). (k, envelope_json e)) m)"

definition backups_json :: "envelope list jsobj \<Rightarrow> json" where
  "backups_json m = JObj (map (\<lambda>(k, es). (k, JArr (map envelope_json es))) m)"

definition state_json :: "persisted \<Rightarrow> json" where
  "state_json s = JObj
     ([(js ''version'', JInt 1), (js ''cursor'', JInt (ps_cursor s)),
       (js ''outbox'', JArr (map envelope_json (ps_outbox s))),
       (js ''locallyAuthored'', strings_json (ps_locallyAuthored s)),
       (js ''deferred'', JArr (map remote_event_json (ps_deferred s))),
       (js ''quarantine'', JArr (map quarantine_json (ps_quarantine s))),
       (js ''pathOwners'', string_map_json (ps_pathOwners s)),
       (js ''baseHashes'', string_map_json (ps_baseHashes s)),
       (js ''baseContents'', string_map_json (ps_baseContents s)),
       (js ''conflictArtifacts'', string_map_json (ps_conflictArtifacts s)),
       (js ''quarantinedEnvelopes'', envelope_map_json (ps_quarantinedEnvelopes s))] @
      optional_entry (js ''producer'') (map_option producer_json (ps_producer s)) @
      optional_entry (js ''producerRecovery'')
        (map_option (\<lambda>rs. JArr (map recovery_json rs)) (ps_producerRecovery s)) @
      optional_entry (js ''reconciliationBackups'') (map_option backups_json (ps_reconciliationBackups s)) @
      optional_entry (js ''conflictCopyFileIds'') (map_option string_map_json (ps_conflictCopyFileIds s)))"

section \<open>What survives the file\<close>

text \<open>
  \<open>persisted_ok\<close> are the ranges and shapes the writer keeps; \<open>reloaded\<close> is the state as the next
  start reads it: an event keeps only what identifies its revision, and an envelope keeps its
  marker only when it is set.
\<close>

definition stat_ok :: "json option \<Rightarrow> bool" where
  "stat_ok s = (case s of None \<Rightarrow> True
     | Some j \<Rightarrow> \<exists>m z. j = JObj [(js ''mtime'', m), (js ''size'', z)] \<and> as_number (Some m) \<noteq> None \<and> as_number (Some z) \<noteq> None)"

definition producer_ok :: "producer_state \<Rightarrow> bool" where
  "producer_ok p \<longleftrightarrow> (\<forall>m \<in> set (pr_mappings p). fm_content m = None \<and> stat_ok (fm_stat m))"

definition recovery_ok :: "producer_recovery \<Rightarrow> bool" where
  "recovery_ok r \<longleftrightarrow>
     jr_id r \<noteq> [] \<and> jr_kind r \<in> {ApplyRecord, ResolutionRecord} \<and>
     [] \<notin> set (jr_fileIds r) \<and> [] \<notin> set (jr_discardRevisionIds r) \<and>
     fst ` set (pr_heads (jr_state r)) \<subseteq> set (jr_fileIds r) \<and>
     (\<forall>m \<in> set (pr_mappings (jr_state r)). fm_fileId m \<in> set (jr_fileIds r) \<and> stat_ok (fm_stat m) \<and>
        (jr_kind r = ResolutionRecord \<longrightarrow> fm_contentKind m = Some Binary \<or> fm_content m \<noteq> None))"

definition persisted_ok :: "persisted \<Rightarrow> bool" where
  "persisted_ok s \<longleftrightarrow>
     0 \<le> ps_cursor s \<and> ps_cursor s \<le> MAX_SAFE_INTEGER \<and>
     (\<forall>e \<in> set (ps_deferred s). \<bar>re_serverSequence e\<bar> \<le> MAX_SAFE_INTEGER) \<and>
     (\<forall>p. ps_producer s = Some p \<longrightarrow> producer_ok p) \<and>
     (\<forall>rs. ps_producerRecovery s = Some rs \<longrightarrow> (\<forall>r \<in> set rs. recovery_ok r)) \<and>
     (\<forall>m. ps_reconciliationBackups s = Some m \<longrightarrow>
        (\<forall>(k, es) \<in> set m. \<forall>e \<in> set es. ob_payloadExternalized e \<noteq> Some True))"

definition reloaded_envelope :: "envelope \<Rightarrow> envelope" where
  "reloaded_envelope e =
     e\<lparr>ob_payloadExternalized := (if ob_payloadExternalized e = Some True then Some True else None),
       ob_backedUpAt := None\<rparr>"

definition reloaded_event :: "remote_event \<Rightarrow> remote_event" where
  "reloaded_event e =
     e\<lparr>re_revision := (re_revision e)\<lparr>rr_parentRevisionIds := None, rr_authorMembershipId := None, rr_acceptedAt := None\<rparr>\<rparr>"

definition reloaded :: "persisted \<Rightarrow> persisted" where
  "reloaded s =
     s\<lparr>ps_outbox := map reloaded_envelope (ps_outbox s), ps_deferred := map reloaded_event (ps_deferred s),
       ps_quarantinedEnvelopes := map (\<lambda>(k, e). (k, reloaded_envelope e)) (ps_quarantinedEnvelopes s)\<rparr>"

lemma js_inject [simp]: "js s = js t \<longleftrightarrow> s = t"
  by (simp add: js_def inj_map_eq_map inj_on_def)

lemma field_JObj [simp]: "field (JObj kvs) k = map_of kvs k"
  by (simp add: field_def)

lemma isRecord_JObj [simp]: "isRecord (JObj kvs)"
  by (simp add: isRecord_def)

lemma map_of_optional_entry [simp]: "map_of (optional_entry k v) k' = (if k' = k then v else None)"
  by (auto simp: optional_entry_def split: option.splits)

lemma map_add_optional_entry [simp]:
  "(m ++ map_of (optional_entry k v)) k' = (if k' = k \<and> v \<noteq> None then v else m k')"
  by (auto simp: map_add_def split: option.splits)

lemma as_number_json [simp]: "as_number (map_option number_json v) = v"
  by (cases v) (auto simp: number_json_def)

lemma as_number_json_Some [simp]: "as_number (Some (number_json r)) = Some r"
  by (auto simp: number_json_def)

lemma traverse_map: "(\<And>x. x \<in> set xs \<Longrightarrow> f (g x) = Some (h x)) \<Longrightarrow> traverse f (map g xs) = Some (map h xs)"
  by (induction xs) auto

lemma string_of_JStr [simp]: "string_of (Some (JStr s)) = s"
  by (simp add: string_of_def)

lemma as_string_array_json [simp]:
  "as_string_array (Some (strings_json xs)) = Some xs"
  "as_string_array (map_option strings_json v) = v"
  by (simp_all add: strings_json_def, cases v) (simp_all add: strings_json_def)

lemma as_string_json [simp]: "as_string (map_option JStr v) = v"
  by (cases v) simp_all

lemma contentKind_of_None [simp]: "contentKind_of None = None"
  by (simp add: contentKind_of_def)

lemma contentKind_of_Some_json [simp]: "contentKind_of (Some (content_kind_json k)) = Some k"
  by (cases k) (auto simp: contentKind_of_def content_kind_json_def)

lemma parse_envelope_json: "parseEnvelope (envelope_json e) = Some (reloaded_envelope e)"
  by (cases e) (auto simp: parseEnvelope_def envelope_json_def reloaded_envelope_def)

lemma envelope_cast_json: "envelope_cast (envelope_json e) = e"
  by (cases e) (auto simp: envelope_cast_def envelope_json_def split: option.splits)

lemma parseRemoteEvent_json:
  "\<bar>re_serverSequence e\<bar> \<le> MAX_SAFE_INTEGER \<Longrightarrow> parseRemoteEvent (remote_event_json e) = Some (reloaded_event e)"
  by (cases e; cases "re_revision e")
     (auto simp: parseRemoteEvent_def remote_event_json_def reloaded_event_def abs_le_iff)

lemma parseQuarantineRow_json: "parseQuarantineRow (quarantine_json q) = Some q"
  by (cases q) (auto simp: parseQuarantineRow_def quarantine_json_def)

lemma parseStringMap_json [simp]: "parseStringMap (Some (string_map_json m)) = Some m"
  by (induction m) (auto simp: parseStringMap_def optional_member_def string_map_json_def traverse_object_def)

lemma parseEnvelopeMap_json:
  "parseEnvelopeMap (Some (envelope_map_json m)) = Some (map (\<lambda>(k, e). (k, reloaded_envelope e)) m)"
  by (induction m)
     (auto simp: parseEnvelopeMap_def optional_member_def envelope_map_json_def traverse_object_def parse_envelope_json)

lemma parseQuarantine_json: "parseQuarantine (Some (JArr (map quarantine_json qs))) = Some qs"
  using traverse_map [of qs parseQuarantineRow quarantine_json id]
  by (simp add: parseQuarantine_def optional_member_def parseQuarantineRow_json)

lemma parseOutboxEntries_from_json:
  "parseOutboxEntries_from i (map envelope_json es) = (map reloaded_envelope es, [])"
  by (induction es arbitrary: i) (auto simp: parse_envelope_json)

lemma buildProducerMapping_json:
  assumes "fm_content m = None" "stat_ok (fm_stat m)"
  shows "isValidProducerMapping (mapping_json m)" "buildProducerMapping (mapping_json m) = m"
  using assms
  by (cases m; auto simp: isValidProducerMapping_def buildProducerMapping_def mapping_json_def stat_ok_def isFileStat_def
      split: option.splits)+

lemma string_map_of_json [simp]: "string_map_of (Some (string_map_json m)) = m"
  by (induction m) (auto simp: string_map_of_def string_map_json_def)

lemma heads_json: "List.map_filter (\<lambda>(k, j). map_option (Pair k) (as_string (Some j))) (map (\<lambda>(k, v). (k, JStr v)) m) = m"
  by (induction m) (auto simp: List.map_filter_def)

lemma parseProducer_json:
  assumes "producer_ok p"
  shows "parseProducerStateResult (Some (producer_json p)) = (Parsed, p, [])"
proof -
  have "filter isValidProducerMapping (map mapping_json (pr_mappings p)) = map mapping_json (pr_mappings p)"
    using assms by (auto simp: producer_ok_def filter_id_conv buildProducerMapping_json)
  moreover have "map buildProducerMapping (map mapping_json (pr_mappings p)) = pr_mappings p"
    using assms by (auto simp: producer_ok_def buildProducerMapping_json intro: map_idI)
  moreover have "filter (\<lambda>e. \<not> isValidProducerMapping e) (map mapping_json (pr_mappings p)) = []"
    using assms by (auto simp: producer_ok_def filter_empty_conv buildProducerMapping_json)
  ultimately show ?thesis
    by (cases p) (simp add: parseProducerStateResult_def producer_json_def string_map_json_def heads_json)
qed

lemma journal_mapping_cast_json [simp]: "journal_mapping_cast (mapping_json m) = m"
  by (cases m) (auto simp: journal_mapping_cast_def mapping_json_def)

lemma kind_of_json:
  "k \<in> {ApplyRecord, ResolutionRecord} \<Longrightarrow>
   (if kind_json k = JStr (js ''apply'') then ApplyRecord
    else if kind_json k = JStr (js ''resolution'') then ResolutionRecord else OtherRecord (kind_json k)) = k"
  by (auto simp: kind_json_def)

lemma apply_state_cast_json:
  "\<lparr>aps_pathOwners = string_map_of (field (apply_state_json a) (js ''pathOwners'')),
    aps_baseHashes = string_map_of (field (apply_state_json a) (js ''baseHashes'')),
    aps_baseContents = string_map_of (field (apply_state_json a) (js ''baseContents''))\<rparr> = a"
  by (cases a) (simp add: apply_state_json_def)

lemma recovery_json_fields:
  "field (recovery_json r) (js ''id'') = Some (JStr (jr_id r))"
  "field (recovery_json r) (js ''kind'') = Some (kind_json (jr_kind r))"
  "field (recovery_json r) (js ''fileIds'') = Some (strings_json (jr_fileIds r))"
  "field (recovery_json r) (js ''state'') = Some (producer_json (jr_state r))"
  "field (recovery_json r) (js ''discardRevisionIds'') = Some (strings_json (jr_discardRevisionIds r))"
  "field (recovery_json r) (js ''applyState'') = map_option apply_state_json (jr_applyState r)"
  by (simp_all add: recovery_json_def)

lemma producer_json_fields:
  "field (producer_json p) (js ''mappings'') = Some (JArr (map mapping_json (pr_mappings p)))"
  "field (producer_json p) (js ''heads'') = Some (string_map_json (pr_heads p))"
  by (simp_all add: producer_json_def)

lemma recovery_cast_json:
  assumes "recovery_ok r"
  shows "recovery_cast (recovery_json r) = r"
proof -
  have kind: "jr_kind r \<in> {ApplyRecord, ResolutionRecord}" using assms by (simp add: recovery_ok_def)
  show ?thesis
    unfolding recovery_cast_def recovery_json_fields option.case Let_def producer_json_fields
      kind_of_json [OF kind] option.map_comp o_def apply_state_cast_json
    by (simp add: strings_of_def option.map_ident o_def)
qed

lemma validRecovery_json:
  assumes "recovery_ok r"
  shows "validRecovery (recovery_json r)"
proof -
  have "valid_journal_mapping (Some (kind_json (jr_kind r))) (jr_fileIds r) (mapping_json m)"
    if "m \<in> set (pr_mappings (jr_state r))" for m
    using assms that
    by (auto simp: recovery_ok_def valid_journal_mapping_def mapping_json_def kind_json_def content_kind_json_def
        contentKind_of_def
        split: content_kind.splits intro: content_kind.exhaust)
  then have ms: "list_all (valid_journal_mapping (Some (kind_json (jr_kind r))) (jr_fileIds r))
      (map mapping_json (pr_mappings (jr_state r)))"
    by (simp add: list_all_iff)
  have heads: "list_all (\<lambda>(k, head). k \<in> set (jr_fileIds r) \<and> as_string (Some head) \<noteq> None)
      (map (\<lambda>(k, v). (k, JStr v)) (pr_heads (jr_state r)))"
    using assms by (force simp: recovery_ok_def list_all_iff)
  have saved: "string_values (Some (string_map_json m))" for m
    by (auto simp: string_values_def string_map_json_def list_all_iff)
  have head: "jr_id r \<noteq> []" "kind_text (kind_json (jr_kind r)) \<in> {js ''apply'', js ''resolution''}"
    "nonempty_strings (Some (strings_json (jr_fileIds r)))" "nonempty_strings (Some (strings_json (jr_discardRevisionIds r)))"
    using assms by (auto simp: recovery_ok_def kind_json_def nonempty_strings_def list_all_iff)
  show ?thesis
    using head ms heads
    by (simp add: validRecovery_def recovery_json_fields producer_json_fields strings_of_def string_map_json_def
        split: option.split) (simp add: apply_state_json_def saved)
qed

lemma state_json_fields:
  "field (state_json s) (js ''version'') = Some (JInt 1)"
  "field (state_json s) (js ''cursor'') = Some (JInt (ps_cursor s))"
  "field (state_json s) (js ''outbox'') = Some (JArr (map envelope_json (ps_outbox s)))"
  "field (state_json s) (js ''locallyAuthored'') = Some (strings_json (ps_locallyAuthored s))"
  "field (state_json s) (js ''deferred'') = Some (JArr (map remote_event_json (ps_deferred s)))"
  "field (state_json s) (js ''quarantine'') = Some (JArr (map quarantine_json (ps_quarantine s)))"
  "field (state_json s) (js ''pathOwners'') = Some (string_map_json (ps_pathOwners s))"
  "field (state_json s) (js ''baseHashes'') = Some (string_map_json (ps_baseHashes s))"
  "field (state_json s) (js ''baseContents'') = Some (string_map_json (ps_baseContents s))"
  "field (state_json s) (js ''conflictArtifacts'') = Some (string_map_json (ps_conflictArtifacts s))"
  "field (state_json s) (js ''quarantinedEnvelopes'') = Some (envelope_map_json (ps_quarantinedEnvelopes s))"
  "field (state_json s) (js ''producer'') = map_option producer_json (ps_producer s)"
  "field (state_json s) (js ''producerRecovery'') = map_option (\<lambda>rs. JArr (map recovery_json rs)) (ps_producerRecovery s)"
  "field (state_json s) (js ''reconciliationBackups'') = map_option backups_json (ps_reconciliationBackups s)"
  "field (state_json s) (js ''conflictCopyFileIds'') = map_option string_map_json (ps_conflictCopyFileIds s)"
  by (simp_all add: state_json_def)

lemma isRecord_state_json [simp]: "isRecord (state_json s)"
  by (simp add: state_json_def)

lemma backup_entry_valid:
  "ob_payloadExternalized e \<noteq> Some True \<Longrightarrow>
   parseEnvelope (envelope_json e) \<noteq> None \<and> isRecord (envelope_json e) \<and>
   field (envelope_json e) (js ''payloadExternalized'') \<noteq> Some (JBool True)"
  by (auto simp: parse_envelope_json) (auto simp: envelope_json_def split: if_splits)

lemma validRecoveryFields_json:
  assumes "persisted_ok s"
  shows "validRecoveryFields (state_json s)"
proof -
  have rs: "list_all validRecovery (map recovery_json rs)" if "ps_producerRecovery s = Some rs" for rs
    using assms that validRecovery_json by (auto simp: persisted_ok_def list_all_iff)
  have bs: "list_all (\<lambda>e. parseEnvelope e \<noteq> None \<and> isRecord e \<and>
      field e (js ''payloadExternalized'') \<noteq> Some (JBool True)) (map envelope_json es)"
    if "ps_reconciliationBackups s = Some m" "(k, es) \<in> set m" for m k es
  proof -
    have "\<forall>e \<in> set es. ob_payloadExternalized e \<noteq> Some True"
      using assms that unfolding persisted_ok_def by blast
    then show ?thesis using backup_entry_valid by (simp add: list_all_iff)
  qed
  have backups: "list_all (\<lambda>(k, entries). (case as_array (Some entries) of None \<Rightarrow> False
      | Some es \<Rightarrow> list_all (\<lambda>e. parseEnvelope e \<noteq> None \<and> isRecord e \<and>
          field e (js ''payloadExternalized'') \<noteq> Some (JBool True)) es))
      (map (\<lambda>(k, es). (k, JArr (map envelope_json es))) m)"
    if "ps_reconciliationBackups s = Some m" for m
    unfolding list_all_iff using bs [OF that] by (fastforce simp: list_all_iff)
  show ?thesis
    unfolding validRecoveryFields_def state_json_fields
    using rs backups by (simp add: backups_json_def split: option.split)
qed

lemma journal_cast_json:
  assumes "persisted_ok s"
  shows "journal_cast (map_option (\<lambda>rs. JArr (map recovery_json rs)) (ps_producerRecovery s)) = ps_producerRecovery s"
proof (cases "ps_producerRecovery s")
  case (Some rs)
  then have "map recovery_cast (map recovery_json rs) = rs"
    using assms by (auto simp: persisted_ok_def recovery_cast_json intro!: map_idI)
  then show ?thesis using Some by (simp add: journal_cast_def)
qed (simp add: journal_cast_def)

lemma backups_cast_json: "backups_cast (map_option backups_json v) = v"
proof (cases v)
  case (Some m)
  have "map (\<lambda>(k, es). (k, map envelope_cast (case as_array (Some es) of Some xs \<Rightarrow> xs | None \<Rightarrow> [])))
      (map (\<lambda>(k, es). (k, JArr (map envelope_json es))) m) = m"
    by (auto simp: envelope_cast_json o_def intro!: map_idI)
  then show ?thesis using Some by (simp add: backups_cast_def backups_json_def del: map_map)
qed (simp add: backups_cast_def)

lemma optionalConflictCopyFileIds_json: "optionalConflictCopyFileIds (map_option string_map_json v) = v"
  by (cases v) (simp_all add: optionalConflictCopyFileIds_def)

lemma parseProducerField_json:
  "(\<forall>p. v = Some p \<longrightarrow> producer_ok p) \<Longrightarrow> parseProducerField (map_option producer_json v) = v"
  by (cases v) (simp_all add: parseProducerField_def parseProducer_json)

lemma strictParse_state_json:
  assumes "persisted_ok s"
  shows "strictParse (state_json s) = Some (reloaded s)"
proof -
  have cursor: "as_cursor (Some (JInt (ps_cursor s))) = Some (ps_cursor s)"
    using assms by (simp add: persisted_ok_def as_cursor_def)
  have deferred: "traverse parseRemoteEvent (map remote_event_json (ps_deferred s)) = Some (map reloaded_event (ps_deferred s))"
    using assms by (intro traverse_map) (simp add: persisted_ok_def parseRemoteEvent_json)
  have producer: "parseProducerField (map_option producer_json (ps_producer s)) = ps_producer s"
    using assms by (intro parseProducerField_json) (simp add: persisted_ok_def)
  show ?thesis
    unfolding strictParse_def state_json_fields cursor deferred producer journal_cast_json [OF assms]
      backups_cast_json optionalConflictCopyFileIds_json parseQuarantine_json parseEnvelopeMap_json
      parseOutboxEntries_def parseOutboxEntries_from_json
    by (simp add: validRecoveryFields_json [OF assms] strings_json_def deferred parseOutboxEntries_from_json
        or_else_def reloaded_def)
qed

end
