(* ===== verification/SyncState.thy ===== *)
theory SyncState
  imports ClientState
begin

text \<open>
  The durable sync state of the plugin: the class \<^verbatim>\<open>DurableSyncState\<close> of
  \<^verbatim>\<open>apps/obsidian-plugin/src/runtime/sync-state.ts\<close> over the plugin's \<^verbatim>\<open>data.json\<close>
  (\<^verbatim>\<open>adapters/plugin-data-ports.ts\<close>, \<^verbatim>\<open>plugin-data-keys.ts\<close>) and the out-of-band payload store.

  \<open>durable\<close> is the object with everything it reaches: the cache, the set of externalised ids, the
  parked reasons, the recovery flag, the top-level keys of \<^verbatim>\<open>data.json\<close> it uses, and the payload
  store when there is one. Every method runs inside \<^verbatim>\<open>runExclusive\<close>, so a method is one function
  from the object to its result and the object after it. The outcome of the I/O calls a method
  makes is the record \<open>io\<close>: a save, a sidecar write or a payload call that fails raises, and the
  source's \<^verbatim>\<open>try\<close> blocks decide what that means. A timestamped sidecar key is represented by its
  timestamp.
\<close>

section \<open>data.json\<close>

record plugin_data =
  pd_syncState :: "json option"
  pd_bak :: "json option"
  pd_staging :: "json option"
  pd_corrupt :: "(nat \<times> json) list"
  pd_pushProducer :: "json option"
  pd_producerCorrupt :: "(nat \<times> json) list"

definition MAX_CORRUPT_SIDECARS :: nat where
  "MAX_CORRUPT_SIDECARS = 3"

definition withCorruptSidecar :: "(nat \<times> json) list \<Rightarrow> nat \<Rightarrow> json \<Rightarrow> (nat \<times> json) list" where
  "withCorruptSidecar base timestamp raw =
     (let nxt = (if map_of base timestamp \<noteq> None then base else base @ [(timestamp, raw)]);
          stamps = sort_key (\<lambda>t. - int t) (map fst nxt)
      in filter (\<lambda>(t, _). t \<notin> set (drop MAX_CORRUPT_SIDECARS stamps)) nxt)"

definition persist_save :: "persisted \<Rightarrow> plugin_data \<Rightarrow> plugin_data" where
  "persist_save state base =
     base\<lparr>pd_bak := (case pd_syncState base of Some prior \<Rightarrow> Some prior | None \<Rightarrow> pd_bak base),
          pd_syncState := Some (state_json state), pd_staging := None,
          pd_pushProducer := (if ps_producer state \<noteq> None then None else pd_pushProducer base)\<rparr>"

section \<open>The object\<close>

record sync_config =
  sc_maxLocallyAuthored :: nat
  sc_envelopeBudgetBytes :: int
  sc_keepBaseContents :: bool

record io =
  io_now :: nat
  io_save :: bool
  io_saveHydrate :: bool
  io_saveProducer :: bool
  io_saveReconcile :: bool
  io_preserve :: bool
  io_put :: "ident \<Rightarrow> bool"
  io_get :: "ident \<Rightarrow> bool"
  io_delete :: "ident \<Rightarrow> bool"
  io_list :: bool

record durable =
  du_cache :: "persisted option"
  du_externalized :: "ident list"
  du_parkReasons :: "jsstr jsobj"
  du_recoveryRequired :: bool
  du_data :: plugin_data
  du_payloads :: "jsstr jsobj option"

datatype sync_error =
    SaveFailed | RecoveryPending | WouldOrphan | NoApplyTransaction | InvalidJournal | CorruptWithRecovery

type_synonym 'a outcome = "(sync_error + 'a) \<times> durable"

definition DEFAULT_MAX_LOCALLY_AUTHORED :: nat where
  "DEFAULT_MAX_LOCALLY_AUTHORED = 10000"

definition QUARANTINED_ENVELOPE_BUDGET_BYTES :: int where
  "QUARANTINED_ENVELOPE_BUDGET_BYTES = 5 * 1024 * 1024"

definition FAILED_TO_QUEUE_PREFIX :: jsstr where
  "FAILED_TO_QUEUE_PREFIX = js ''failed-to-queue:''"

definition failedToQueueRevisionId :: "jsstr \<Rightarrow> ident" where
  "failedToQueueRevisionId path = FAILED_TO_QUEUE_PREFIX @ path"

definition parseFailedToQueuePath :: "ident \<Rightarrow> jsstr option" where
  "parseFailedToQueuePath rid =
     (if \<not> starts_with FAILED_TO_QUEUE_PREFIX rid then None
      else (let path = drop (length FAILED_TO_QUEUE_PREFIX) rid
            in if length path = 0 then None else Some path))"

section \<open>Pure helpers\<close>

text \<open>\<^verbatim>\<open>{...base, ...over}\<close>\<close>

definition spread :: "'a jsobj \<Rightarrow> 'a jsobj \<Rightarrow> 'a jsobj" where
  "spread base over = fold (\<lambda>(k, v) m. map_set m k v) over base"

definition withProducerFiles :: "producer_state \<Rightarrow> producer_recovery \<Rightarrow> producer_state" where
  "withProducerFiles producer entry =
     \<lparr>pr_mappings = filter (\<lambda>m. fm_fileId m \<notin> set (jr_fileIds entry)) (pr_mappings producer) @
        map mappingMetadata (pr_mappings (jr_state entry)),
      pr_heads = spread (filter (\<lambda>(k, _). k \<notin> set (jr_fileIds entry)) (pr_heads producer))
        (pr_heads (jr_state entry))\<rparr>"

record owners_and_bases =
  oab_pathOwners :: "ident jsobj"
  oab_baseHashes :: "jsstr jsobj"
  oab_baseContents :: "jsstr jsobj"

definition roll_file :: "producer_recovery \<Rightarrow> ident \<Rightarrow> owners_and_bases \<Rightarrow> owners_and_bases" where
  "roll_file entry fid s =
     (let mapping = find (\<lambda>m. fm_fileId m = fid) (pr_mappings (jr_state entry));
          owners = filter (\<lambda>(path, owner). \<not> (owner = fid \<and> Some path \<noteq> map_option fm_path mapping)) (oab_pathOwners s)
      in case mapping of
           None \<Rightarrow> s\<lparr>oab_pathOwners := owners, oab_baseHashes := map_delete (oab_baseHashes s) fid,
                     oab_baseContents := map_delete (oab_baseContents s) fid\<rparr>
         | Some m \<Rightarrow>
             (let hashes = (if map_of (oab_baseHashes s) fid = None
                            then map_set (oab_baseHashes s) fid (fm_contentHash m) else oab_baseHashes s)
              in \<lparr>oab_pathOwners = map_set owners (fm_path m) fid, oab_baseHashes = hashes,
                  oab_baseContents =
                    (case fm_content m of
                       Some content \<Rightarrow>
                         if fm_contentKind m \<noteq> Some Binary \<and> map_of (oab_baseContents s) fid = None \<and>
                            map_of hashes fid = Some (fm_contentHash m)
                         then map_set (oab_baseContents s) fid content else oab_baseContents s
                     | None \<Rightarrow> oab_baseContents s)\<rparr>))"

definition rolledForward :: "persisted \<Rightarrow> producer_recovery \<Rightarrow> persisted" where
  "rolledForward state entry =
     (let s = fold (roll_file entry) (jr_fileIds entry)
                \<lparr>oab_pathOwners = ps_pathOwners state, oab_baseHashes = ps_baseHashes state,
                 oab_baseContents = ps_baseContents state\<rparr>
      in state\<lparr>ps_pathOwners := oab_pathOwners s, ps_baseHashes := oab_baseHashes s,
               ps_baseContents := oab_baseContents s,
               ps_producer := Some (withProducerFiles (or_else (ps_producer state) EMPTY_PRODUCER) entry),
               ps_producerRecovery :=
                 Some (filter (\<lambda>r. jr_id r \<noteq> jr_id entry) (or_else (ps_producerRecovery state) []))\<rparr>)"

definition parentIdsFromHeader :: "json option \<Rightarrow> ident list" where
  "parentIdsFromHeader header =
     (case header of
        None \<Rightarrow> []
      | Some h \<Rightarrow>
        (case as_array (field h (js ''parentRevisionIds'')) of
           None \<Rightarrow> []
         | Some ids \<Rightarrow> List.map_filter (\<lambda>j. as_string (Some j)) ids))"

definition base64ByteLength :: "jsstr \<Rightarrow> int" where
  "base64ByteLength base64 =
     (let len = length base64
      in if len = 0 then 0
         else
           (let padding = (if suffix [61, 61] base64 then 2 else if suffix [61] base64 then 1 else 0)
            in int (len * 3) div 4 - padding))"

definition trimmed :: "sync_config \<Rightarrow> persisted \<Rightarrow> persisted" where
  "trimmed cfg state =
     (if sc_keepBaseContents cfg \<or> length (ps_baseContents state) = 0 then state else state\<lparr>ps_baseContents := []\<rparr>)"

definition strip_envelope :: "ident list \<Rightarrow> envelope \<Rightarrow> envelope" where
  "strip_envelope externalized env =
     (if ob_revisionId env \<in> set externalized
      then env\<lparr>ob_payloadBase64 := [], ob_payloadExternalized := Some True\<rparr> else env)"

definition toDiskForm :: "ident list \<Rightarrow> persisted \<Rightarrow> persisted" where
  "toDiskForm externalized state =
     (if length externalized = 0 then state
      else state\<lparr>ps_outbox := map (strip_envelope externalized) (ps_outbox state),
                 ps_quarantinedEnvelopes :=
                   map (\<lambda>(key, env). (key, strip_envelope externalized env)) (ps_quarantinedEnvelopes state)\<rparr>)"

definition rememberAuthored :: "sync_config \<Rightarrow> ident list \<Rightarrow> ident \<Rightarrow> ident list" where
  "rememberAuthored cfg existing rid =
     (if rid \<in> set existing then existing
      else
        (let nxt = existing @ [rid]
         in if length nxt > sc_maxLocallyAuthored cfg
            then drop (length nxt - sc_maxLocallyAuthored cfg) nxt else nxt))"

definition hasUncoveredChildren :: "persisted \<Rightarrow> ident list \<Rightarrow> bool" where
  "hasUncoveredChildren state ids =
     list_ex (\<lambda>e. ob_revisionId e \<notin> set ids \<and> list_ex (\<lambda>id. id \<in> set ids) (parentIdsFromHeader (ob_header e)))
       (ps_outbox state @ map snd (ps_quarantinedEnvelopes state))"

definition backedUp :: "io \<Rightarrow> envelope list \<Rightarrow> envelope list" where
  "backedUp io envelopes =
     map (\<lambda>e. e\<lparr>ob_payloadExternalized := Some False, ob_backedUpAt := Some (of_nat (io_now io))\<rparr>) envelopes"

definition BACKUP_RETENTION_MS :: rat where
  "BACKUP_RETENTION_MS = 7 * 24 * 60 * 60 * 1000"

definition backup_fresh :: "nat \<Rightarrow> envelope \<Rightarrow> bool" where
  "backup_fresh now e \<longleftrightarrow>
     of_nat now - (case ob_backedUpAt e of Some t \<Rightarrow> t | None \<Rightarrow> or_else (ob_enqueuedAt e) 0) < BACKUP_RETENTION_MS"

definition withoutExpiredBackups :: "envelope list jsobj option \<Rightarrow> nat \<Rightarrow> envelope list jsobj option" where
  "withoutExpiredBackups backups now =
     (case backups of
        None \<Rightarrow> None
      | Some m \<Rightarrow>
        if list_all (\<lambda>(k, es). list_all (backup_fresh now) es) m then Some m
        else Some (filter (\<lambda>(k, es). length es > 0) (map (\<lambda>(k, es). (k, filter (backup_fresh now) es)) m)))"

text \<open>The stashes of quarantined sends under the byte budget, oldest evicted first.\<close>

definition stash_bytes :: "envelope jsobj \<Rightarrow> int" where
  "stash_bytes m = sum_list (map (\<lambda>(k, env). base64ByteLength (ob_payloadBase64 env)) m)"

fun evict_loop :: "int \<Rightarrow> int \<Rightarrow> envelope jsobj \<Rightarrow> envelope jsobj \<Rightarrow> envelope jsobj" where
  "evict_loop budget bytes [] kept = kept"
| "evict_loop budget bytes ((key, env) # entries) kept =
     (if bytes \<le> budget then kept
      else evict_loop budget (bytes - base64ByteLength (ob_payloadBase64 env)) entries (map_delete kept key))"

definition evictStashesOverBudget :: "sync_config \<Rightarrow> envelope jsobj \<Rightarrow> envelope jsobj" where
  "evictStashesOverBudget cfg envelopes =
     (let bytes = stash_bytes envelopes
      in if bytes \<le> sc_envelopeBudgetBytes cfg then envelopes
         else evict_loop (sc_envelopeBudgetBytes cfg) bytes envelopes envelopes)"

section \<open>Payload store\<close>

definition safeGetPayload :: "io \<Rightarrow> durable \<Rightarrow> ident \<Rightarrow> jsstr option" where
  "safeGetPayload io d rid =
     (case du_payloads d of
        None \<Rightarrow> None
      | Some m \<Rightarrow> if io_get io rid then map_of m rid else None)"

definition safePutPayload :: "io \<Rightarrow> durable \<Rightarrow> ident \<Rightarrow> jsstr \<Rightarrow> bool \<times> durable" where
  "safePutPayload io d rid payloadBase64 =
     (case du_payloads d of
        None \<Rightarrow> (False, d)
      | Some m \<Rightarrow>
          if io_put io rid then (True, d\<lparr>du_payloads := Some (map_set m rid payloadBase64)\<rparr>)
          else (False, d))"

definition set_add :: "ident list \<Rightarrow> ident \<Rightarrow> ident list" where
  "set_add xs x = (if x \<in> set xs then xs else xs @ [x])"

definition dropPayload :: "io \<Rightarrow> durable \<Rightarrow> ident \<Rightarrow> durable" where
  "dropPayload io d rid =
     (if rid \<notin> set (du_externalized d) then d
      else
        d\<lparr>du_payloads := (case du_payloads d of
              None \<Rightarrow> None
            | Some m \<Rightarrow> Some (if io_delete io rid then map_delete m rid else m)),
          du_externalized := removeAll rid (du_externalized d)\<rparr>)"

text \<open>\<^verbatim>\<open>safePutPayload\<close> followed by the update of the externalised set.\<close>

definition externalize :: "io \<Rightarrow> durable \<Rightarrow> envelope \<Rightarrow> durable" where
  "externalize io d e =
     (case safePutPayload io d (ob_revisionId e) (ob_payloadBase64 e) of
        (True, d') \<Rightarrow> d'\<lparr>du_externalized := set_add (du_externalized d') (ob_revisionId e)\<rparr>
      | (False, d') \<Rightarrow> d'\<lparr>du_externalized := removeAll (ob_revisionId e) (du_externalized d')\<rparr>)"

definition mutate :: "sync_config \<Rightarrow> io \<Rightarrow> durable \<Rightarrow> persisted \<Rightarrow> unit outcome" where
  "mutate cfg io d nxt =
     (let kept = trimmed cfg nxt
      in if io_save io
         then (Inr (), d\<lparr>du_data := persist_save (toDiskForm (du_externalized d) kept) (du_data d),
                          du_cache := Some kept\<rparr>)
         else (Inl SaveFailed, d))"

section \<open>Loading\<close>

definition preserveCorrupt :: "io \<Rightarrow> durable \<Rightarrow> json \<Rightarrow> unit outcome" where
  "preserveCorrupt io d raw =
     (if io_preserve io
      then (Inr (), d\<lparr>du_data := (du_data d)\<lparr>pd_corrupt := withCorruptSidecar (pd_corrupt (du_data d)) (io_now io) raw\<rparr>\<rparr>)
      else (Inl SaveFailed, d))"

fun and_then :: "'a outcome \<Rightarrow> ('a \<Rightarrow> durable \<Rightarrow> 'b outcome) \<Rightarrow> 'b outcome" where
  "and_then (Inl e, d) f = (Inl e, d)"
| "and_then (Inr a, d) f = f a d"

text \<open>
  \<^verbatim>\<open>createPersistPort.loadLegacyProducer\<close>: a failed sidecar write is swallowed there.
\<close>

definition loadLegacyProducer :: "io \<Rightarrow> durable \<Rightarrow> producer_state option \<times> durable" where
  "loadLegacyProducer io d =
     (case pd_pushProducer (du_data d) of
        None \<Rightarrow> (None, d)
      | Some raw \<Rightarrow>
        if raw = JNull then (None, d)
        else
          (case parseProducerStateResult (Some raw) of (status, state, quarantinedMappings) \<Rightarrow>
             (Some state,
              (if (status = Corrupt \<or> length quarantinedMappings > 0) \<and> io_preserve io
               then d\<lparr>du_data := (du_data d)\<lparr>pd_producerCorrupt :=
                   withCorruptSidecar (pd_producerCorrupt (du_data d)) (io_now io)
                     (if status = Corrupt then raw else JObj [(js ''mappings'', JArr quarantinedMappings)])\<rparr>\<rparr>
               else d))))"

definition hydrate :: "sync_config \<Rightarrow> io \<Rightarrow> json \<Rightarrow> durable \<Rightarrow> bool outcome" where
  "hydrate cfg io raw d =
     (if du_cache d \<noteq> None then (Inr False, d)
      else if isRecord raw \<and> \<not> validRecoveryFields raw
      then and_then (preserveCorrupt io d raw) (\<lambda>_ d. (Inl InvalidJournal, d))
      else
        (let result = parsePersistedState (Some raw)
         in if prs_status result \<noteq> Corrupt
            then (Inr True, d\<lparr>du_cache := Some (trimmed cfg (prs_state result))\<rparr>)
            else if isRecord raw \<and> (field raw (js ''producerRecovery'') \<noteq> None \<or>
                                    field raw (js ''reconciliationBackups'') \<noteq> None)
            then and_then (preserveCorrupt io d raw) (\<lambda>_ d. (Inl CorruptWithRecovery, d))
            else
              (let backup = parsePersistedState (pd_bak (du_data d))
               in if prs_status backup = Parsed
                  then and_then (preserveCorrupt io d raw) (\<lambda>_ d.
                    (Inr False, d\<lparr>du_cache := Some (trimmed cfg (prs_state backup)),
                       du_recoveryRequired := (du_recoveryRequired d \<or>
                         salvageHasOutboxEntriesMissingFrom (prs_salvage result) (ps_outbox (prs_state backup)))\<rparr>))
                  else and_then (preserveCorrupt io d raw) (\<lambda>_ d.
                    (let nxt = (case prs_salvage result of Some s \<Rightarrow> trimmed cfg s | None \<Rightarrow> emptyState);
                         d' = d\<lparr>du_cache := Some nxt,
                                du_recoveryRequired := (du_recoveryRequired d \<or>
                                  (prs_salvage result = None \<and> prs_outboxAtRisk result))\<rparr>
                     in if io_saveHydrate io
                        then (Inr False, d'\<lparr>du_data := persist_save (toDiskForm (du_externalized d') nxt) (du_data d')\<rparr>)
                        else (Inl SaveFailed, d'))))))"

definition settleProducer :: "io \<Rightarrow> json \<Rightarrow> durable \<Rightarrow> unit outcome" where
  "settleProducer io raw d =
     (let stored = (if isRecord raw then field raw (js ''producer'') else None);
          parsed = map_option (\<lambda>v. parseProducerStateResult (Some v)) stored
      in and_then
           (case parsed of
              Some (Corrupt, _, _) \<Rightarrow> preserveCorrupt io d (JObj (optional_entry (js ''producer'') stored))
            | Some (_, _, q # qs) \<Rightarrow>
                preserveCorrupt io d (JObj [(js ''producer'', JObj [(js ''mappings'', JArr (q # qs))])])
            | _ \<Rightarrow> (Inr (), d))
           (\<lambda>_ d.
             case du_cache d of
               None \<Rightarrow> (Inr (), d)
             | Some state \<Rightarrow>
               if ps_producer state \<noteq> None then (Inr (), d)
               else
                 (case (case parsed of
                          Some (Parsed, p, _) \<Rightarrow> (p, d)
                        | _ \<Rightarrow> (case loadLegacyProducer io d of (p, d') \<Rightarrow> (or_else p EMPTY_PRODUCER, d'))) of
                    (producer, d') \<Rightarrow>
                      if io_saveProducer io
                      then (let nxt = state\<lparr>ps_producer := Some producer\<rparr>
                            in (Inr (), d'\<lparr>du_data := persist_save (toDiskForm (du_externalized d') nxt) (du_data d'),
                                           du_cache := Some nxt\<rparr>))
                      else (Inl SaveFailed, d'))))"

text \<open>
  The two loops of \<^verbatim>\<open>reconcilePayloads\<close>. \<open>pp_cacheChanged\<close> and \<open>pp_persistNeeded\<close> are its two flags.
\<close>

record payload_pass =
  pp_d :: durable
  pp_added :: "quarantined_revision list"
  pp_cacheChanged :: bool
  pp_persistNeeded :: bool

definition PAYLOAD_MISSING_REASON :: jsstr where
  "PAYLOAD_MISSING_REASON = js ''payload-missing''"

text \<open>An inline payload is migrated into the store when the store takes it.\<close>

definition migrate_inline :: "io \<Rightarrow> envelope \<Rightarrow> payload_pass \<Rightarrow> payload_pass" where
  "migrate_inline io env s =
     (case safePutPayload io (pp_d s) (ob_revisionId env) (ob_payloadBase64 env) of
        (True, d) \<Rightarrow> s\<lparr>pp_d := d\<lparr>du_externalized := set_add (du_externalized d) (ob_revisionId env)\<rparr>,
                       pp_persistNeeded := True\<rparr>
      | (False, d) \<Rightarrow> s\<lparr>pp_d := d\<rparr>)"

definition rehydrate :: "jsstr \<Rightarrow> envelope \<Rightarrow> payload_pass \<Rightarrow> envelope \<times> payload_pass" where
  "rehydrate payload env s =
     (env\<lparr>ob_payloadBase64 := payload\<rparr>,
      s\<lparr>pp_d := (pp_d s)\<lparr>du_externalized := set_add (du_externalized (pp_d s)) (ob_revisionId env)\<rparr>,
        pp_cacheChanged := True\<rparr>)"

fun reconcile_outbox :: "io \<Rightarrow> envelope list \<Rightarrow> payload_pass \<Rightarrow> envelope list \<times> payload_pass" where
  "reconcile_outbox io [] s = ([], s)"
| "reconcile_outbox io (env # envs) s =
     (if ob_payloadExternalized env = Some True
      then
        (case safeGetPayload io (pp_d s) (ob_revisionId env) of
           Some payload \<Rightarrow>
             (case rehydrate payload env s of (env', s') \<Rightarrow>
                (case reconcile_outbox io envs s' of (rest, s'') \<Rightarrow> (env' # rest, s'')))
         | None \<Rightarrow>
             reconcile_outbox io envs
               (s\<lparr>pp_added := pp_added s @ [\<lparr>qr_revisionId = ob_revisionId env, qr_fileId = ob_fileId env,
                    qr_reason = PAYLOAD_MISSING_REASON, qr_parentRevisionIds = None\<rparr>],
                  pp_cacheChanged := True, pp_persistNeeded := True\<rparr>))
      else
        (case reconcile_outbox io envs (migrate_inline io env s) of (rest, s') \<Rightarrow> (env # rest, s')))"

fun reconcile_stash :: "io \<Rightarrow> envelope jsobj \<Rightarrow> payload_pass \<Rightarrow> envelope jsobj \<times> payload_pass" where
  "reconcile_stash io [] s = ([], s)"
| "reconcile_stash io ((key, env) # entries) s =
     (if ob_payloadExternalized env = Some True
      then
        (case safeGetPayload io (pp_d s) (ob_revisionId env) of
           Some payload \<Rightarrow>
             (case rehydrate payload env s of (env', s') \<Rightarrow>
                (case reconcile_stash io entries s' of (rest, s'') \<Rightarrow> ((key, env') # rest, s'')))
         | None \<Rightarrow> reconcile_stash io entries (s\<lparr>pp_persistNeeded := True\<rparr>))
      else
        (case reconcile_stash io entries (migrate_inline io env s) of (rest, s') \<Rightarrow> ((key, env) # rest, s')))"

text \<open>The first failing delete ends the sweep.\<close>

fun delete_orphans :: "io \<Rightarrow> ident list \<Rightarrow> ident list \<Rightarrow> jsstr jsobj \<Rightarrow> jsstr jsobj" where
  "delete_orphans io live [] m = m"
| "delete_orphans io live (rid # rids) m =
     (if rid \<in> set live then delete_orphans io live rids m
      else if io_delete io rid then delete_orphans io live rids (map_delete m rid) else m)"

definition sweepPayloads :: "io \<Rightarrow> persisted \<Rightarrow> durable \<Rightarrow> durable" where
  "sweepPayloads io state d =
     (case du_payloads d of
        None \<Rightarrow> d
      | Some m \<Rightarrow>
        (let live = map ob_revisionId (ps_outbox state) @
               map (ob_revisionId \<circ> snd) (ps_quarantinedEnvelopes state) @ map qr_revisionId (ps_quarantine state)
         in if io_list io then d\<lparr>du_payloads := Some (delete_orphans io live (map fst m) m)\<rparr> else d))"

definition reconcilePayloads :: "io \<Rightarrow> bool \<Rightarrow> durable \<Rightarrow> unit outcome" where
  "reconcilePayloads io sweep d =
     (case du_cache d of
        None \<Rightarrow> (Inr (), d)
      | Some state \<Rightarrow>
        (case reconcile_outbox io (ps_outbox state)
                \<lparr>pp_d = d, pp_added = [], pp_cacheChanged = False, pp_persistNeeded = False\<rparr> of
           (nextOutbox, s1) \<Rightarrow>
        (case reconcile_stash io (ps_quarantinedEnvelopes state) s1 of (nextStash, s2) \<Rightarrow>
          (let backups = withoutExpiredBackups (ps_reconciliationBackups state) (io_now io);
               expired = (backups \<noteq> ps_reconciliationBackups state);
               cacheChanged = (pp_cacheChanged s2 \<or> expired);
               persistNeeded = (pp_persistNeeded s2 \<or> expired);
               nxt = state\<lparr>ps_reconciliationBackups := backups, ps_outbox := nextOutbox,
                            ps_quarantine := ps_quarantine state @ pp_added s2,
                            ps_quarantinedEnvelopes := nextStash\<rparr>;
               d' = (if sweep then sweepPayloads io nxt (pp_d s2) else pp_d s2)
           in if \<not> cacheChanged \<and> \<not> persistNeeded then (Inr (), d')
              else
                (let d'' = d'\<lparr>du_cache := Some nxt\<rparr>
                 in if \<not> persistNeeded then (Inr (), d'')
                    else if io_saveReconcile io
                    then (Inr (), d''\<lparr>du_data := persist_save (toDiskForm (du_externalized d'') nxt) (du_data d'')\<rparr>)
                    else (Inl SaveFailed, d''))))))"

definition load_state :: "sync_config \<Rightarrow> io \<Rightarrow> durable \<Rightarrow> unit outcome" where
  "load_state cfg io d =
     (let raw = or_else (pd_syncState (du_data d)) JNull
      in and_then (hydrate cfg io raw d) (\<lambda>clean d.
         and_then (settleProducer io raw d) (\<lambda>_ d. reconcilePayloads io clean d)))"

definition ensureLoaded :: "sync_config \<Rightarrow> io \<Rightarrow> durable \<Rightarrow> persisted outcome" where
  "ensureLoaded cfg io d =
     (case du_cache d of
        Some state \<Rightarrow> (Inr state, d)
      | None \<Rightarrow>
          and_then (load_state cfg io d) (\<lambda>_ d.
            (case du_cache d of
               Some state \<Rightarrow> (Inr state, d)
             | None \<Rightarrow> (Inr emptyState, d\<lparr>du_cache := Some emptyState\<rparr>))))"

section \<open>Operations\<close>

text \<open>
  A section: read the state, compute the next one or raise, write it.
\<close>

definition update_state ::
    "sync_config \<Rightarrow> io \<Rightarrow> durable \<Rightarrow> (persisted \<Rightarrow> persisted) \<Rightarrow> unit outcome" where
  "update_state cfg io d f = and_then (ensureLoaded cfg io d) (\<lambda>state d. mutate cfg io d (f state))"

definition loadCursor :: "sync_config \<Rightarrow> io \<Rightarrow> durable \<Rightarrow> int outcome" where
  "loadCursor cfg io d = and_then (ensureLoaded cfg io d) (\<lambda>state d. (Inr (ps_cursor state), d))"

definition saveCursor :: "sync_config \<Rightarrow> io \<Rightarrow> int \<Rightarrow> durable \<Rightarrow> unit outcome" where
  "saveCursor cfg io sequence d = update_state cfg io d (\<lambda>state. state\<lparr>ps_cursor := sequence\<rparr>)"

record push_revision =
  pv_revisionId :: ident
  pv_fileId :: ident
  pv_contentHash :: jsstr
  pv_payloadBytes :: "int option"
  pv_parentRevisionIds :: "ident list option"

definition push_revision_of :: "envelope \<Rightarrow> push_revision" where
  "push_revision_of e =
     (let parents = parentIdsFromHeader (ob_header e)
      in \<lparr>pv_revisionId = ob_revisionId e, pv_fileId = ob_fileId e, pv_contentHash = ob_contentHash e,
          pv_payloadBytes = Some (base64ByteLength (ob_payloadBase64 e)),
          pv_parentRevisionIds = (if length parents > 0 then Some parents else None)\<rparr>)"

definition listOutbox :: "sync_config \<Rightarrow> io \<Rightarrow> durable \<Rightarrow> push_revision list outcome" where
  "listOutbox cfg io d =
     and_then (ensureLoaded cfg io d) (\<lambda>state d. (Inr (map push_revision_of (ps_outbox state)), d))"

definition redundant_merge :: "persisted \<Rightarrow> remote_event \<Rightarrow> envelope \<Rightarrow> bool" where
  "redundant_merge state event e =
     (let remoteParents = or_else (rr_parentRevisionIds (re_revision event)) [];
          parents = parentIdsFromHeader (ob_header e);
          dependentParents = concat (map (\<lambda>x. parentIdsFromHeader (ob_header x))
            (ps_outbox state @ map snd (ps_quarantinedEnvelopes state)))
      in ob_fileId e = rr_fileId (re_revision event) \<and> ob_contentHash e = rr_contentHash (re_revision event) \<and>
         length parents \<ge> 2 \<and> list_all (\<lambda>id. id \<in> set remoteParents) parents \<and>
         ob_revisionId e \<notin> set dependentParents)"

definition retireEquivalentMerges :: "sync_config \<Rightarrow> io \<Rightarrow> remote_event \<Rightarrow> durable \<Rightarrow> unit outcome" where
  "retireEquivalentMerges cfg io event d =
     (if length (or_else (rr_parentRevisionIds (re_revision event)) []) < 2 then (Inr (), d)
      else
        and_then (ensureLoaded cfg io d) (\<lambda>state d.
          (let retired = filter (redundant_merge state event) (ps_outbox state);
               ids = map ob_revisionId retired
           in if length retired = 0 then (Inr (), d)
              else mutate cfg io d (state\<lparr>ps_outbox := filter (\<lambda>e. ob_revisionId e \<notin> set ids) (ps_outbox state)\<rparr>))))"

definition without_revision :: "ident \<Rightarrow> envelope list \<Rightarrow> envelope list" where
  "without_revision rid = filter (\<lambda>e. ob_revisionId e \<noteq> rid)"

definition recordPushReceipt :: "sync_config \<Rightarrow> io \<Rightarrow> ident \<Rightarrow> durable \<Rightarrow> unit outcome" where
  "recordPushReceipt cfg io rid d =
     and_then (ensureLoaded cfg io d) (\<lambda>state d.
       and_then (mutate cfg io d (state\<lparr>ps_outbox := without_revision rid (ps_outbox state),
           ps_locallyAuthored := rememberAuthored cfg (ps_locallyAuthored state) rid\<rparr>))
         (\<lambda>_ d. (Inr (), dropPayload io d rid)))"

definition quarantine_row :: "envelope option \<Rightarrow> ident \<Rightarrow> jsstr \<Rightarrow> quarantined_revision" where
  "quarantine_row failed rid reason =
     \<lparr>qr_revisionId = rid, qr_fileId = (case failed of Some e \<Rightarrow> ob_fileId e | None \<Rightarrow> []), qr_reason = reason,
      qr_parentRevisionIds = map_option (\<lambda>e. parentIdsFromHeader (ob_header e)) failed\<rparr>"

definition with_row :: "quarantined_revision \<Rightarrow> quarantined_revision list \<Rightarrow> quarantined_revision list" where
  "with_row row quarantine = filter (\<lambda>q. qr_revisionId q \<noteq> qr_revisionId row) quarantine @ [row]"

definition quarantineOutboxItem :: "sync_config \<Rightarrow> io \<Rightarrow> ident \<Rightarrow> jsstr \<Rightarrow> durable \<Rightarrow> unit outcome" where
  "quarantineOutboxItem cfg io rid reason d =
     and_then (ensureLoaded cfg io d) (\<lambda>state d.
       (let failed = find (\<lambda>e. ob_revisionId e = rid) (ps_outbox state);
            stashes = (case failed of Some e \<Rightarrow> map_set (ps_quarantinedEnvelopes state) rid e
                                    | None \<Rightarrow> ps_quarantinedEnvelopes state);
            budgeted = evictStashesOverBudget cfg stashes;
            d' = fold (\<lambda>evicted d. dropPayload io d evicted)
                   (filter (\<lambda>k. map_of budgeted k = None) (map fst stashes)) d
        in mutate cfg io d' (state\<lparr>ps_outbox := without_revision rid (ps_outbox state),
             ps_quarantine := with_row (quarantine_row failed rid reason) (ps_quarantine state),
             ps_quarantinedEnvelopes := budgeted\<rparr>)))"

definition recordFailedToQueue :: "sync_config \<Rightarrow> io \<Rightarrow> jsstr \<Rightarrow> durable \<Rightarrow> unit outcome" where
  "recordFailedToQueue cfg io path d =
     update_state cfg io d (\<lambda>state. state\<lparr>ps_quarantine :=
       with_row \<lparr>qr_revisionId = failedToQueueRevisionId path, qr_fileId = path, qr_reason = js ''failed-to-queue'',
                 qr_parentRevisionIds = None\<rparr> (ps_quarantine state)\<rparr>)"

definition quarantinedParents :: "persisted \<Rightarrow> ident \<Rightarrow> ident list option" where
  "quarantinedParents state rid =
     (case find (\<lambda>q. qr_revisionId q = rid) (ps_quarantine state) of
        None \<Rightarrow> None
      | Some row \<Rightarrow>
        (case qr_parentRevisionIds row of
           Some ps \<Rightarrow> Some ps
         | None \<Rightarrow> map_option (\<lambda>e. parentIdsFromHeader (ob_header e)) (map_of (ps_quarantinedEnvelopes state) rid)))"

definition hasAuthoredRevision :: "persisted \<Rightarrow> ident \<Rightarrow> bool" where
  "hasAuthoredRevision state rid \<longleftrightarrow>
     rid \<in> set (ps_locallyAuthored state) \<or> list_ex (\<lambda>e. ob_revisionId e = rid) (ps_outbox state)"

definition isLocallyAuthored :: "persisted \<Rightarrow> ident \<Rightarrow> bool" where
  "isLocallyAuthored state rid \<longleftrightarrow> rid \<in> set (ps_locallyAuthored state)"

definition recordApplied ::
    "sync_config \<Rightarrow> io \<Rightarrow> ident \<Rightarrow> jsstr \<Rightarrow> jsstr \<Rightarrow> jsstr option \<Rightarrow> durable \<Rightarrow> unit outcome" where
  "recordApplied cfg io fid path hash content d =
     update_state cfg io d (\<lambda>state. state\<lparr>ps_pathOwners := map_set (ps_pathOwners state) path fid,
       ps_baseHashes := map_set (ps_baseHashes state) fid hash,
       ps_baseContents := (case content of None \<Rightarrow> ps_baseContents state
                                         | Some c \<Rightarrow> map_set (ps_baseContents state) fid c)\<rparr>)"

definition recordPathOwner :: "sync_config \<Rightarrow> io \<Rightarrow> ident \<Rightarrow> jsstr \<Rightarrow> durable \<Rightarrow> unit outcome" where
  "recordPathOwner cfg io fid path d =
     update_state cfg io d (\<lambda>state. state\<lparr>ps_pathOwners := map_set (ps_pathOwners state) path fid\<rparr>)"

text \<open>The three \<^verbatim>\<open>forget\<close> methods write only when there is something to forget.\<close>

definition forget_member ::
    "sync_config \<Rightarrow> io \<Rightarrow> (persisted \<Rightarrow> 'a jsobj) \<Rightarrow> ('a jsobj \<Rightarrow> persisted \<Rightarrow> persisted) \<Rightarrow> jsstr \<Rightarrow> durable \<Rightarrow> unit outcome" where
  "forget_member cfg io get upd key d =
     and_then (ensureLoaded cfg io d) (\<lambda>state d.
       if map_of (get state) key = None then (Inr (), d)
       else mutate cfg io d (upd (map_delete (get state) key) state))"

definition forgetPath :: "sync_config \<Rightarrow> io \<Rightarrow> jsstr \<Rightarrow> durable \<Rightarrow> unit outcome" where
  "forgetPath cfg io = forget_member cfg io ps_pathOwners (\<lambda>m s. s\<lparr>ps_pathOwners := m\<rparr>)"

definition recordBaseHash :: "sync_config \<Rightarrow> io \<Rightarrow> ident \<Rightarrow> jsstr \<Rightarrow> durable \<Rightarrow> unit outcome" where
  "recordBaseHash cfg io fid hash d =
     update_state cfg io d (\<lambda>state. state\<lparr>ps_baseHashes := map_set (ps_baseHashes state) fid hash\<rparr>)"

definition forgetBaseHash :: "sync_config \<Rightarrow> io \<Rightarrow> ident \<Rightarrow> durable \<Rightarrow> unit outcome" where
  "forgetBaseHash cfg io = forget_member cfg io ps_baseHashes (\<lambda>m s. s\<lparr>ps_baseHashes := m\<rparr>)"

definition recordBaseContent :: "sync_config \<Rightarrow> io \<Rightarrow> ident \<Rightarrow> jsstr \<Rightarrow> durable \<Rightarrow> unit outcome" where
  "recordBaseContent cfg io fid content d =
     update_state cfg io d (\<lambda>state. state\<lparr>ps_baseContents := map_set (ps_baseContents state) fid content\<rparr>)"

definition forgetBaseContent :: "sync_config \<Rightarrow> io \<Rightarrow> ident \<Rightarrow> durable \<Rightarrow> unit outcome" where
  "forgetBaseContent cfg io = forget_member cfg io ps_baseContents (\<lambda>m s. s\<lparr>ps_baseContents := m\<rparr>)"

definition recordConflictArtifactPath ::
    "sync_config \<Rightarrow> io \<Rightarrow> ident \<Rightarrow> jsstr \<Rightarrow> ident option \<Rightarrow> durable \<Rightarrow> unit outcome" where
  "recordConflictArtifactPath cfg io rid path fid d =
     update_state cfg io d (\<lambda>state. state\<lparr>ps_conflictArtifacts := map_set (ps_conflictArtifacts state) rid path,
       ps_conflictCopyFileIds := (case fid of None \<Rightarrow> ps_conflictCopyFileIds state
           | Some f \<Rightarrow> Some (map_set (or_else (ps_conflictCopyFileIds state) []) path f))\<rparr>)"

definition enqueue :: "sync_config \<Rightarrow> io \<Rightarrow> envelope \<Rightarrow> durable \<Rightarrow> unit outcome" where
  "enqueue cfg io envelope d =
     and_then (ensureLoaded cfg io d) (\<lambda>state d.
       (let stamped = (if ob_enqueuedAt envelope = None
                       then envelope\<lparr>ob_enqueuedAt := Some (of_nat (io_now io))\<rparr> else envelope)
        in mutate cfg io (externalize io d stamped)
             (state\<lparr>ps_outbox := without_revision (ob_revisionId envelope) (ps_outbox state) @ [stamped]\<rparr>)))"

definition requeueQuarantined :: "sync_config \<Rightarrow> io \<Rightarrow> ident \<Rightarrow> durable \<Rightarrow> bool outcome" where
  "requeueQuarantined cfg io rid d =
     and_then (ensureLoaded cfg io d) (\<lambda>state d.
       case map_of (ps_quarantinedEnvelopes state) rid of
         None \<Rightarrow> (Inr False, d)
       | Some stashed \<Rightarrow>
           and_then (mutate cfg io d (state\<lparr>
               ps_outbox := without_revision rid (ps_outbox state) @
                 [stashed\<lparr>ob_enqueuedAt := Some (of_nat (io_now io))\<rparr>],
               ps_quarantine := filter (\<lambda>q. qr_revisionId q \<noteq> rid) (ps_quarantine state),
               ps_quarantinedEnvelopes := map_delete (ps_quarantinedEnvelopes state) rid\<rparr>))
             (\<lambda>_ d. (Inr True, d)))"

definition discardQuarantined :: "sync_config \<Rightarrow> io \<Rightarrow> ident \<Rightarrow> durable \<Rightarrow> unit outcome" where
  "discardQuarantined cfg io rid d =
     and_then (ensureLoaded cfg io d) (\<lambda>state d.
       if \<not> list_ex (\<lambda>q. qr_revisionId q = rid) (ps_quarantine state) \<and>
          map_of (ps_quarantinedEnvelopes state) rid = None then (Inr (), d)
       else
         and_then (mutate cfg io d (state\<lparr>
             ps_quarantine := filter (\<lambda>q. qr_revisionId q \<noteq> rid) (ps_quarantine state),
             ps_quarantinedEnvelopes := map_delete (ps_quarantinedEnvelopes state) rid\<rparr>))
           (\<lambda>_ d. (Inr (), dropPayload io d rid)))"

definition peekEnvelope :: "durable \<Rightarrow> ident \<Rightarrow> (json option \<times> jsstr \<times> jsstr) option" where
  "peekEnvelope d rid =
     (case du_cache d of
        None \<Rightarrow> None
      | Some state \<Rightarrow>
          map_option (\<lambda>e. (ob_header e, ob_idempotencyKey e, ob_payloadBase64 e))
            (find (\<lambda>e. ob_revisionId e = rid) (ps_outbox state)))"

definition parkRemote :: "sync_config \<Rightarrow> io \<Rightarrow> remote_event \<Rightarrow> jsstr \<Rightarrow> durable \<Rightarrow> unit outcome" where
  "parkRemote cfg io event reason d =
     update_state cfg io (d\<lparr>du_parkReasons := map_set (du_parkReasons d) (rr_revisionId (re_revision event)) reason\<rparr>)
       (\<lambda>state. state\<lparr>ps_deferred :=
          filter (\<lambda>e. rr_revisionId (re_revision e) \<noteq> rr_revisionId (re_revision event)) (ps_deferred state) @ [event]\<rparr>)"

definition unparkRemote :: "sync_config \<Rightarrow> io \<Rightarrow> ident \<Rightarrow> durable \<Rightarrow> unit outcome" where
  "unparkRemote cfg io rid d =
     update_state cfg io (d\<lparr>du_parkReasons := map_delete (du_parkReasons d) rid\<rparr>)
       (\<lambda>state. state\<lparr>ps_deferred := filter (\<lambda>e. rr_revisionId (re_revision e) \<noteq> rid) (ps_deferred state)\<rparr>)"

section \<open>The producer's transactions\<close>

definition swapQueue ::
    "io \<Rightarrow> persisted \<Rightarrow> producer_recovery \<Rightarrow> envelope option \<Rightarrow> durable \<Rightarrow> persisted option outcome" where
  "swapQueue io state entry replacement d =
     (if list_ex (\<lambda>r. list_ex (\<lambda>id. id \<in> set (jr_fileIds entry)) (jr_fileIds r)) (or_else (ps_producerRecovery state) [])
      then (Inl RecoveryPending, d)
      else
        (let ids = remdups (jr_discardRevisionIds entry);
             originals = filter (\<lambda>e. ob_revisionId e \<in> set ids) (ps_outbox state)
         in if length originals \<noteq> length ids \<or> hasUncoveredChildren state ids then (Inr None, d)
            else if (case replacement of None \<Rightarrow> False
                     | Some r \<Rightarrow> ob_revisionId r \<in> set ids \<or>
                         list_ex (\<lambda>id. id \<in> set ids) (parentIdsFromHeader (ob_header r))) then (Inr None, d)
            else
              (let d' = (case replacement of None \<Rightarrow> d | Some r \<Rightarrow> externalize io d r)
               in (Inr (Some (state\<lparr>
                     ps_outbox := filter (\<lambda>e. ob_revisionId e \<notin> set ids) (ps_outbox state) @
                       (case replacement of None \<Rightarrow> []
                        | Some r \<Rightarrow> [r\<lparr>ob_enqueuedAt := Some (of_nat (io_now io))\<rparr>]),
                     ps_reconciliationBackups :=
                       (if length originals = 0 then ps_reconciliationBackups state
                        else Some (map_set (or_else (ps_reconciliationBackups state) []) (jr_id entry)
                               (backedUp io originals)))\<rparr>)), d'))))"

definition commitProducerChange ::
    "sync_config \<Rightarrow> io \<Rightarrow> producer_recovery \<Rightarrow> envelope option \<Rightarrow> durable \<Rightarrow> bool outcome" where
  "commitProducerChange cfg io entry replacement d =
     and_then (ensureLoaded cfg io d) (\<lambda>state d.
     and_then (swapQueue io state entry replacement d) (\<lambda>swapped d.
       case swapped of
         None \<Rightarrow> (Inr False, d)
       | Some s \<Rightarrow> and_then (mutate cfg io d (rolledForward s entry)) (\<lambda>_ d. (Inr True, d))))"

definition apply_snapshot :: "persisted \<Rightarrow> producer_recovery \<Rightarrow> producer_recovery" where
  "apply_snapshot state entry =
     (if jr_kind entry = ApplyRecord
      then entry\<lparr>jr_applyState := Some
        \<lparr>aps_pathOwners = filter (\<lambda>(path, id). id \<in> set (jr_fileIds entry)) (ps_pathOwners state),
         aps_baseHashes = filter (\<lambda>(id, _). id \<in> set (jr_fileIds entry)) (ps_baseHashes state),
         aps_baseContents = filter (\<lambda>(id, _). id \<in> set (jr_fileIds entry)) (ps_baseContents state)\<rparr>\<rparr>
      else entry)"

definition startProducerRecovery ::
    "sync_config \<Rightarrow> io \<Rightarrow> producer_recovery \<Rightarrow> envelope option \<Rightarrow> durable \<Rightarrow> bool outcome" where
  "startProducerRecovery cfg io entry replacement d =
     and_then (ensureLoaded cfg io d) (\<lambda>state d.
     and_then (swapQueue io state entry replacement d) (\<lambda>swapped d.
       case swapped of
         None \<Rightarrow> (Inr False, d)
       | Some s \<Rightarrow>
           and_then (mutate cfg io d (s\<lparr>ps_producerRecovery :=
               Some (or_else (ps_producerRecovery state) [] @ [apply_snapshot state entry])\<rparr>))
             (\<lambda>_ d. (Inr True, d))))"

definition rolledBack :: "io \<Rightarrow> persisted \<Rightarrow> producer_recovery \<Rightarrow> persisted" where
  "rolledBack io state entry =
     (let ids = jr_discardRevisionIds entry;
          originals = filter (\<lambda>e. ob_revisionId e \<in> set ids) (ps_outbox state);
          other = (\<lambda>fid. fid \<notin> set (jr_fileIds entry))
      in (case jr_applyState entry of
            None \<Rightarrow> state
          | Some undo \<Rightarrow>
              state\<lparr>ps_pathOwners := spread (filter (\<lambda>(_, fid). other fid) (ps_pathOwners state)) (aps_pathOwners undo),
                    ps_baseHashes := spread (filter (\<lambda>(fid, _). other fid) (ps_baseHashes state)) (aps_baseHashes undo),
                    ps_baseContents := spread (filter (\<lambda>(fid, _). other fid) (ps_baseContents state)) (aps_baseContents undo)\<rparr>)
         \<lparr>ps_producer := Some (withProducerFiles (or_else (ps_producer state) EMPTY_PRODUCER) entry),
          ps_producerRecovery :=
            Some (filter (\<lambda>r. jr_id r \<noteq> jr_id entry) (or_else (ps_producerRecovery state) [])),
          ps_outbox := filter (\<lambda>e. ob_revisionId e \<notin> set ids) (ps_outbox state),
          ps_reconciliationBackups :=
            (if length originals = 0 then ps_reconciliationBackups state
             else Some (map_set (or_else (ps_reconciliationBackups state) []) (jr_id entry)
               (or_else (map_of (or_else (ps_reconciliationBackups state) []) (jr_id entry)) [] @
                backedUp io originals)))\<rparr>)"

definition recoverProducerQueue :: "sync_config \<Rightarrow> io \<Rightarrow> ident \<Rightarrow> durable \<Rightarrow> unit outcome" where
  "recoverProducerQueue cfg io rid d =
     and_then (ensureLoaded cfg io d) (\<lambda>state d.
       case find (\<lambda>r. jr_id r = rid) (or_else (ps_producerRecovery state) []) of
         None \<Rightarrow> (Inr (), d)
       | Some entry \<Rightarrow>
           if jr_kind entry = ResolutionRecord then mutate cfg io d (rolledForward state entry)
           else if hasUncoveredChildren state (jr_discardRevisionIds entry) then (Inl WouldOrphan, d)
           else mutate cfg io d (rolledBack io state entry))"

definition completeProducerRecovery :: "sync_config \<Rightarrow> io \<Rightarrow> ident \<Rightarrow> durable \<Rightarrow> unit outcome" where
  "completeProducerRecovery cfg io rid d =
     update_state cfg io d (\<lambda>state. state\<lparr>ps_producerRecovery :=
       Some (filter (\<lambda>r. jr_id r \<noteq> rid) (or_else (ps_producerRecovery state) []))\<rparr>)"

definition enqueueAutomaticMerge :: "sync_config \<Rightarrow> io \<Rightarrow> envelope \<Rightarrow> durable \<Rightarrow> unit outcome" where
  "enqueueAutomaticMerge cfg io envelope d =
     and_then (ensureLoaded cfg io d) (\<lambda>state d.
       case find (\<lambda>r. jr_kind r = ApplyRecord \<and> ob_fileId envelope \<in> set (jr_fileIds r))
              (or_else (ps_producerRecovery state) []) of
         None \<Rightarrow> (Inl NoApplyTransaction, d)
       | Some entry \<Rightarrow>
           mutate cfg io d (state\<lparr>
             ps_outbox := ps_outbox state @ [envelope\<lparr>ob_enqueuedAt := Some (of_nat (io_now io))\<rparr>],
             ps_producerRecovery := Some (map (\<lambda>r. if jr_id r = jr_id entry
                 then r\<lparr>jr_discardRevisionIds := jr_discardRevisionIds r @ [ob_revisionId envelope]\<rparr> else r)
               (or_else (ps_producerRecovery state) []))\<rparr>))"

definition loadProducer :: "sync_config \<Rightarrow> io \<Rightarrow> durable \<Rightarrow> producer_state outcome" where
  "loadProducer cfg io d =
     and_then (ensureLoaded cfg io d) (\<lambda>state d. (Inr (or_else (ps_producer state) EMPTY_PRODUCER), d))"

definition saveProducer :: "sync_config \<Rightarrow> io \<Rightarrow> producer_state \<Rightarrow> durable \<Rightarrow> unit outcome" where
  "saveProducer cfg io producer d = update_state cfg io d (\<lambda>state. state\<lparr>ps_producer := Some producer\<rparr>)"

end
