(* ===== verification/SyncState_Inv.thy ===== *)
theory SyncState_Inv
  imports SyncState
begin

text \<open>
  The invariant of the durable sync state: the file on disk always parses back to the state in
  memory, and every payload that the disk form leaves out is in the payload store. Every operation
  of \<^verbatim>\<open>DurableSyncState\<close> keeps it.
\<close>

section \<open>The invariant\<close>

definition queue_envs :: "persisted \<Rightarrow> envelope list" where
  "queue_envs s = ps_outbox s @ map snd (ps_quarantinedEnvelopes s)"

definition queue_ids :: "persisted \<Rightarrow> ident list" where
  "queue_ids s = map ob_revisionId (queue_envs s)"

definition payload_held :: "durable \<Rightarrow> envelope \<Rightarrow> bool" where
  "payload_held d e \<longleftrightarrow>
     (ob_revisionId e \<in> set (du_externalized d) \<longrightarrow>
        (\<exists>m. du_payloads d = Some m \<and> map_of m (ob_revisionId e) = Some (ob_payloadBase64 e))) \<and>
     (ob_payloadExternalized e = Some True \<longrightarrow> ob_revisionId e \<in> set (du_externalized d))"

definition queue_ok :: "persisted \<Rightarrow> bool" where
  "queue_ok s \<longleftrightarrow> distinct (queue_ids s) \<and> (\<forall>(k, e) \<in> set (ps_quarantinedEnvelopes s). k = ob_revisionId e)"

definition state_ok :: "persisted \<Rightarrow> bool" where
  "state_ok s \<longleftrightarrow> queue_ok s \<and> ps_producer s \<noteq> None \<and> persisted_ok s"

definition good :: "sync_config \<Rightarrow> durable \<Rightarrow> persisted \<Rightarrow> bool" where
  "good cfg d s \<longleftrightarrow>
     du_cache d = Some s \<and> state_ok s \<and> trimmed cfg s = s \<and> (\<forall>e \<in> set (queue_envs s). payload_held d e) \<and>
     (\<exists>t. pd_syncState (du_data d) = Some (state_json t) \<and> persisted_ok t \<and>
          reloaded t = reloaded (toDiskForm (du_externalized d) s))"

definition durable_ok :: "sync_config \<Rightarrow> durable \<Rightarrow> bool" where
  "durable_ok cfg d \<longleftrightarrow> (\<exists>s. good cfg d s)"

section \<open>The disk form\<close>

lemma toDiskForm_alt:
  "toDiskForm ext s = s\<lparr>ps_outbox := map (strip_envelope ext) (ps_outbox s),
     ps_quarantinedEnvelopes := map (\<lambda>(key, env). (key, strip_envelope ext env)) (ps_quarantinedEnvelopes s)\<rparr>"
  by (cases ext) (simp_all add: toDiskForm_def strip_envelope_def map_idI)

lemma toDiskForm_cong:
  assumes "\<And>e. e \<in> set (queue_envs s) \<Longrightarrow> ob_revisionId e \<in> set ext \<longleftrightarrow> ob_revisionId e \<in> set ext'"
  shows "toDiskForm ext s = toDiskForm ext' s"
proof -
  have *: "strip_envelope ext e = strip_envelope ext' e" if "e \<in> set (queue_envs s)" for e
    using assms [OF that] by (simp add: strip_envelope_def)
  have "map (strip_envelope ext) (ps_outbox s) = map (strip_envelope ext') (ps_outbox s)"
    using * by (auto simp: queue_envs_def)
  moreover have "map (\<lambda>(key, env). (key, strip_envelope ext env)) (ps_quarantinedEnvelopes s) =
      map (\<lambda>(key, env). (key, strip_envelope ext' env)) (ps_quarantinedEnvelopes s)"
    using * by (force simp: queue_envs_def)
  ultimately show ?thesis by (simp add: toDiskForm_alt)
qed

lemma persisted_ok_toDiskForm [simp]: "persisted_ok (toDiskForm ext s) = persisted_ok s"
  by (simp add: toDiskForm_alt persisted_ok_def)

lemma trimmed_fields [simp]:
  "ps_outbox (trimmed cfg s) = ps_outbox s" "ps_quarantinedEnvelopes (trimmed cfg s) = ps_quarantinedEnvelopes s"
  "ps_producer (trimmed cfg s) = ps_producer s" "ps_cursor (trimmed cfg s) = ps_cursor s"
  "ps_deferred (trimmed cfg s) = ps_deferred s" "ps_producerRecovery (trimmed cfg s) = ps_producerRecovery s"
  "ps_reconciliationBackups (trimmed cfg s) = ps_reconciliationBackups s"
  "ps_quarantine (trimmed cfg s) = ps_quarantine s" "ps_locallyAuthored (trimmed cfg s) = ps_locallyAuthored s"
  by (simp_all add: trimmed_def)

lemma trimmed_idem [simp]: "trimmed cfg (trimmed cfg s) = trimmed cfg s"
  by (simp add: trimmed_def)

lemma queue_trimmed [simp]: "queue_envs (trimmed cfg s) = queue_envs s" "queue_ids (trimmed cfg s) = queue_ids s"
  by (simp_all add: queue_envs_def queue_ids_def)

lemma state_ok_trimmed [simp]: "state_ok (trimmed cfg s) = state_ok s"
  by (simp add: state_ok_def queue_ok_def persisted_ok_def)

section \<open>The steps every operation is made of\<close>

lemma good_loaded: "good cfg d s \<Longrightarrow> ensureLoaded cfg io d = (Inr s, d)"
  by (simp add: good_def ensureLoaded_def)

lemma good_saved:
  assumes "state_ok s'" "\<And>e. e \<in> set (queue_envs s') \<Longrightarrow> payload_held d e"
  shows "good cfg (d\<lparr>du_data := persist_save (toDiskForm (du_externalized d) (trimmed cfg s')) (du_data d),
    du_cache := Some (trimmed cfg s')\<rparr>) (trimmed cfg s')" (is "good cfg ?d _")
proof -
  have "persisted_ok (trimmed cfg s')" using assms(1) by (simp add: state_ok_def persisted_ok_def)
  then have "\<exists>t. pd_syncState (du_data ?d) = Some (state_json t) \<and> persisted_ok t \<and>
      reloaded t = reloaded (toDiskForm (du_externalized ?d) (trimmed cfg s'))"
    by (intro exI [of _ "toDiskForm (du_externalized d) (trimmed cfg s')"]) (simp add: persist_save_def)
  then show ?thesis
    using assms by (simp add: good_def payload_held_def)
qed

lemma good_mutate:
  assumes "state_ok s'" "\<And>e. e \<in> set (queue_envs s') \<Longrightarrow> payload_held d e"
  shows "mutate cfg io d s' = (Inl SaveFailed, d) \<and> \<not> io_save io \<or>
    (\<exists>d'. mutate cfg io d s' = (Inr (), d') \<and> good cfg d' (trimmed cfg s') \<and>
       du_externalized d' = du_externalized d \<and> du_payloads d' = du_payloads d)"
  using good_saved [OF assms, of cfg] by (simp add: mutate_def Let_def)

lemma durable_ok_mutate:
  assumes "good cfg d s" "state_ok s'" "\<And>e. e \<in> set (queue_envs s') \<Longrightarrow> payload_held d e"
  shows "durable_ok cfg (snd (mutate cfg io d s'))"
  using good_mutate [OF assms(2,3), of cfg io] assms(1) by (auto simp: durable_ok_def)

lemma good_payloads:
  assumes "good cfg d s"
    and "du_cache d' = du_cache d" "pd_syncState (du_data d') = pd_syncState (du_data d)"
    and "\<And>e. e \<in> set (queue_envs s) \<Longrightarrow> ob_revisionId e \<in> set (du_externalized d') \<longleftrightarrow> ob_revisionId e \<in> set (du_externalized d)"
    and "\<And>e. e \<in> set (queue_envs s) \<Longrightarrow> payload_held d' e"
  shows "good cfg d' s"
proof -
  have "toDiskForm (du_externalized d') s = toDiskForm (du_externalized d) s"
    by (rule toDiskForm_cong) (use assms(4) in blast)
  then show ?thesis using assms by (simp add: good_def)
qed

lemma queue_ids_iff: "rid \<in> set (queue_ids s) \<longleftrightarrow> (\<exists>e \<in> set (queue_envs s). ob_revisionId e = rid)"
  by (auto simp: queue_ids_def)

lemma dropPayload_simps [simp]:
  "du_cache (dropPayload io d rid) = du_cache d" "du_data (dropPayload io d rid) = du_data d"
  by (simp_all add: dropPayload_def)

lemma payload_held_drop:
  "payload_held d e \<Longrightarrow> ob_revisionId e \<noteq> rid \<Longrightarrow> payload_held (dropPayload io d rid) e"
  by (auto simp: payload_held_def dropPayload_def split: option.splits)

lemma dropPayload_externalized:
  "ob_revisionId e \<noteq> rid \<Longrightarrow>
   ob_revisionId e \<in> set (du_externalized (dropPayload io d rid)) \<longleftrightarrow> ob_revisionId e \<in> set (du_externalized d)"
  by (simp add: dropPayload_def)

lemma good_drop:
  assumes "good cfg d s" "rid \<notin> set (queue_ids s)"
  shows "good cfg (dropPayload io d rid) s"
proof (rule good_payloads [OF assms(1)])
  fix e assume e: "e \<in> set (queue_envs s)"
  then have ne: "ob_revisionId e \<noteq> rid" using assms(2) by (auto simp: queue_ids_iff)
  show "ob_revisionId e \<in> set (du_externalized (dropPayload io d rid)) \<longleftrightarrow> ob_revisionId e \<in> set (du_externalized d)"
    by (rule dropPayload_externalized [OF ne])
  show "payload_held (dropPayload io d rid) e"
    using assms(1) e ne by (auto simp: good_def intro: payload_held_drop)
qed simp_all

lemma externalize_simps [simp]:
  "du_cache (externalize io d e) = du_cache d" "du_data (externalize io d e) = du_data d"
  by (simp_all add: externalize_def safePutPayload_def split: option.split)

lemma payload_held_externalize:
  "payload_held d e \<Longrightarrow> ob_revisionId e \<noteq> ob_revisionId r \<Longrightarrow> payload_held (externalize io d r) e"
  by (auto simp: payload_held_def externalize_def safePutPayload_def set_add_def split: option.splits)

lemma externalize_externalized:
  "ob_revisionId e \<noteq> ob_revisionId r \<Longrightarrow>
   ob_revisionId e \<in> set (du_externalized (externalize io d r)) \<longleftrightarrow> ob_revisionId e \<in> set (du_externalized d)"
  by (auto simp: externalize_def safePutPayload_def set_add_def split: option.splits)

lemma payload_held_new:
  "ob_revisionId r' = ob_revisionId r \<Longrightarrow> ob_payloadBase64 r' = ob_payloadBase64 r \<Longrightarrow>
   ob_payloadExternalized r' \<noteq> Some True \<Longrightarrow> payload_held (externalize io d r) r'"
  by (auto simp: payload_held_def externalize_def safePutPayload_def set_add_def split: option.splits)

lemma good_externalize:
  assumes "good cfg d s" "ob_revisionId r \<notin> set (queue_ids s)"
  shows "good cfg (externalize io d r) s"
proof (rule good_payloads [OF assms(1)])
  fix e assume e: "e \<in> set (queue_envs s)"
  then have ne: "ob_revisionId e \<noteq> ob_revisionId r" using assms(2) by (auto simp: queue_ids_iff)
  show "ob_revisionId e \<in> set (du_externalized (externalize io d r)) \<longleftrightarrow> ob_revisionId e \<in> set (du_externalized d)"
    by (rule externalize_externalized [OF ne])
  show "payload_held (externalize io d r) e"
    using assms(1) e ne by (auto simp: good_def intro: payload_held_externalize)
qed simp_all

section \<open>The operations as one machine\<close>

datatype sync_op =
    SaveCursor int
  | RetireMerges remote_event
  | Receipt ident
  | Quarantine ident jsstr
  | FailedToQueue jsstr
  | Applied ident jsstr jsstr "jsstr option"
  | PathOwner ident jsstr
  | ForgetPath jsstr
  | BaseHash ident jsstr
  | ForgetBaseHash ident
  | BaseContent ident jsstr
  | ForgetBaseContent ident
  | ConflictArtifact ident jsstr "ident option"
  | Enqueue envelope
  | Requeue ident
  | Discard ident
  | Park remote_event jsstr
  | Unpark ident
  | CommitChange producer_recovery "envelope option"
  | StartRecovery producer_recovery "envelope option"
  | RecoverQueue ident
  | CompleteRecovery ident
  | AutomaticMerge envelope
  | SaveProducer producer_state

fun exec :: "sync_config \<Rightarrow> io \<Rightarrow> sync_op \<Rightarrow> durable \<Rightarrow> durable" where
  "exec cfg io (SaveCursor n) d = snd (saveCursor cfg io n d)"
| "exec cfg io (RetireMerges ev) d = snd (retireEquivalentMerges cfg io ev d)"
| "exec cfg io (Receipt rid) d = snd (recordPushReceipt cfg io rid d)"
| "exec cfg io (Quarantine rid reason) d = snd (quarantineOutboxItem cfg io rid reason d)"
| "exec cfg io (FailedToQueue path) d = snd (recordFailedToQueue cfg io path d)"
| "exec cfg io (Applied fid path hash content) d = snd (recordApplied cfg io fid path hash content d)"
| "exec cfg io (PathOwner fid path) d = snd (recordPathOwner cfg io fid path d)"
| "exec cfg io (ForgetPath path) d = snd (forgetPath cfg io path d)"
| "exec cfg io (BaseHash fid hash) d = snd (recordBaseHash cfg io fid hash d)"
| "exec cfg io (ForgetBaseHash fid) d = snd (forgetBaseHash cfg io fid d)"
| "exec cfg io (BaseContent fid content) d = snd (recordBaseContent cfg io fid content d)"
| "exec cfg io (ForgetBaseContent fid) d = snd (forgetBaseContent cfg io fid d)"
| "exec cfg io (ConflictArtifact rid path fid) d = snd (recordConflictArtifactPath cfg io rid path fid d)"
| "exec cfg io (Enqueue e) d = snd (enqueue cfg io e d)"
| "exec cfg io (Requeue rid) d = snd (requeueQuarantined cfg io rid d)"
| "exec cfg io (Discard rid) d = snd (discardQuarantined cfg io rid d)"
| "exec cfg io (Park ev reason) d = snd (parkRemote cfg io ev reason d)"
| "exec cfg io (Unpark rid) d = snd (unparkRemote cfg io rid d)"
| "exec cfg io (CommitChange entry e) d = snd (commitProducerChange cfg io entry e d)"
| "exec cfg io (StartRecovery entry e) d = snd (startProducerRecovery cfg io entry e d)"
| "exec cfg io (RecoverQueue rid) d = snd (recoverProducerQueue cfg io rid d)"
| "exec cfg io (CompleteRecovery rid) d = snd (completeProducerRecovery cfg io rid d)"
| "exec cfg io (AutomaticMerge e) d = snd (enqueueAutomaticMerge cfg io e d)"
| "exec cfg io (SaveProducer p) d = snd (saveProducer cfg io p d)"

text \<open>
  What the callers respect: a new revision has a new id, a receipt or a discard names a revision
  that is not also in the other list, sequences are safe integers, journal entries are well formed.
  The one thing asked of the I/O is that the save of a quarantine that evicts stashes succeeds: the
  source deletes the evicted payloads before that save, so when it fails the document still refers to
  bytes that are gone, and the invariant does not survive.
\<close>

definition fresh_envelope :: "durable \<Rightarrow> persisted \<Rightarrow> envelope \<Rightarrow> bool" where
  "fresh_envelope d s e \<longleftrightarrow>
     ob_revisionId e \<notin> set (queue_ids s) \<and> ob_revisionId e \<notin> set (du_externalized d) \<and>
     ob_revisionId e \<noteq> [] \<and> ob_payloadExternalized e \<noteq> Some True"

definition stash_with :: "persisted \<Rightarrow> ident \<Rightarrow> envelope jsobj" where
  "stash_with s rid =
     (case find (\<lambda>e. ob_revisionId e = rid) (ps_outbox s) of
        Some e \<Rightarrow> map_set (ps_quarantinedEnvelopes s) rid e | None \<Rightarrow> ps_quarantinedEnvelopes s)"

fun op_ok :: "sync_config \<Rightarrow> io \<Rightarrow> durable \<Rightarrow> persisted \<Rightarrow> sync_op \<Rightarrow> bool" where
  "op_ok cfg io d s (SaveCursor n) \<longleftrightarrow> 0 \<le> n \<and> n \<le> MAX_SAFE_INTEGER"
| "op_ok cfg io d s (Receipt rid) \<longleftrightarrow> rid \<notin> fst ` set (ps_quarantinedEnvelopes s)"
| "op_ok cfg io d s (Quarantine rid reason) \<longleftrightarrow> io_save io \<or> evictStashesOverBudget cfg (stash_with s rid) = stash_with s rid"
| "op_ok cfg io d s (Discard rid) \<longleftrightarrow> rid \<notin> ob_revisionId ` set (ps_outbox s)"
| "op_ok cfg io d s (Park ev reason) \<longleftrightarrow> \<bar>re_serverSequence ev\<bar> \<le> MAX_SAFE_INTEGER"
| "op_ok cfg io d s (Enqueue e) \<longleftrightarrow> fresh_envelope d s e"
| "op_ok cfg io d s (AutomaticMerge e) \<longleftrightarrow> fresh_envelope d s e"
| "op_ok cfg io d s (CommitChange entry e) \<longleftrightarrow> recovery_ok entry \<and> (case e of None \<Rightarrow> True | Some r \<Rightarrow> fresh_envelope d s r)"
| "op_ok cfg io d s (StartRecovery entry e) \<longleftrightarrow> recovery_ok entry \<and> (case e of None \<Rightarrow> True | Some r \<Rightarrow> fresh_envelope d s r)"
| "op_ok cfg io d s (SaveProducer p) \<longleftrightarrow> producer_ok p"
| "op_ok cfg io d s _ \<longleftrightarrow> True"

section \<open>Every operation keeps the invariant\<close>

text \<open>Operations that leave the queue and the stash alone.\<close>

lemma good_update_state:
  assumes "good cfg d s" "ps_outbox (f s) = ps_outbox s" "ps_quarantinedEnvelopes (f s) = ps_quarantinedEnvelopes s"
    and "ps_producer (f s) \<noteq> None" "persisted_ok (f s)"
  shows "durable_ok cfg (snd (update_state cfg io d f))"
proof -
  have q: "queue_envs (f s) = queue_envs s" by (simp add: queue_envs_def assms)
  then have ok: "state_ok (f s)"
    using assms by (simp add: good_def state_ok_def queue_ok_def queue_ids_def)
  have "durable_ok cfg (snd (mutate cfg io d (f s)))"
    by (rule durable_ok_mutate [OF assms(1) ok]) (use assms(1) q in \<open>simp add: good_def\<close>)
  then show ?thesis by (simp add: update_state_def good_loaded [OF assms(1)])
qed

lemma good_forget_member:
  assumes "good cfg d s" "\<And>m. ps_outbox (upd m s) = ps_outbox s"
    and "\<And>m. ps_quarantinedEnvelopes (upd m s) = ps_quarantinedEnvelopes s"
    and "\<And>m. ps_producer (upd m s) \<noteq> None" "\<And>m. persisted_ok (upd m s)"
  shows "durable_ok cfg (snd (forget_member cfg io get upd key d))"
proof -
  have "durable_ok cfg (snd (update_state cfg io d (upd (map_delete (get s) key))))"
    by (rule good_update_state [OF assms(1)]) (rule assms)+
  then show ?thesis
    using assms(1) by (auto simp: forget_member_def update_state_def good_loaded [OF assms(1)] durable_ok_def)
qed

lemma good_parkReasons: "good cfg d s \<Longrightarrow> good cfg (d\<lparr>du_parkReasons := m\<rparr>) s"
  by (simp add: good_def payload_held_def)

lemma good_producer: "good cfg d s \<Longrightarrow> ps_producer s \<noteq> None \<and> persisted_ok s"
  by (simp add: good_def state_ok_def)

lemma producer_ok_withProducerFiles:
  "producer_ok p \<Longrightarrow> recovery_ok r \<Longrightarrow> producer_ok (withProducerFiles p r)"
  by (auto simp: producer_ok_def withProducerFiles_def recovery_ok_def mappingMetadata_def)

text \<open>Operations that take revisions out of the queue or the stash.\<close>

lemma queue_filter:
  assumes "queue_ok s" "ps_outbox s' = filter P (ps_outbox s)" "ps_quarantinedEnvelopes s' = filter Q (ps_quarantinedEnvelopes s)"
  shows "queue_ok s'" "set (queue_envs s') \<subseteq> set (queue_envs s)"
proof -
  have "distinct (map ob_revisionId (ps_outbox s))" "distinct (map (ob_revisionId \<circ> snd) (ps_quarantinedEnvelopes s))"
    "set (map ob_revisionId (ps_outbox s)) \<inter> set (map (ob_revisionId \<circ> snd) (ps_quarantinedEnvelopes s)) = {}"
    using assms(1) by (simp_all add: queue_ok_def queue_ids_def queue_envs_def)
  then have "distinct (queue_ids s')"
    using assms(2,3) by (auto simp: queue_ids_def queue_envs_def distinct_map_filter)
  then show "queue_ok s'" using assms by (auto simp: queue_ok_def)
  show "set (queue_envs s') \<subseteq> set (queue_envs s)" using assms by (auto simp: queue_envs_def)
qed

lemma good_shrink:
  assumes "good cfg d s" "ps_outbox s' = filter P (ps_outbox s)"
    and "ps_quarantinedEnvelopes s' = filter Q (ps_quarantinedEnvelopes s)"
    and "ps_producer s' \<noteq> None" "persisted_ok s'"
  shows "state_ok s'" "\<And>e. e \<in> set (queue_envs s') \<Longrightarrow> payload_held d e"
  using assms queue_filter [OF _ assms(2,3)] by (auto simp: good_def state_ok_def)

lemma stash_keys: "queue_ok s \<Longrightarrow> map fst (ps_quarantinedEnvelopes s) = map (ob_revisionId \<circ> snd) (ps_quarantinedEnvelopes s)"
  by (auto simp: queue_ok_def)

lemma stash_ids_disjoint:
  "queue_ok s \<Longrightarrow> set (map ob_revisionId (ps_outbox s)) \<inter> set (map fst (ps_quarantinedEnvelopes s)) = {}"
  using stash_keys [of s] by (auto simp: queue_ok_def queue_ids_def queue_envs_def)

lemma queue_ids_split: "queue_ok s \<Longrightarrow> queue_ids s = map ob_revisionId (ps_outbox s) @ map fst (ps_quarantinedEnvelopes s)"
  using stash_keys [of s] by (simp add: queue_ids_def queue_envs_def o_def)

lemma durable_ok_mutate_drop:
  assumes g: "good cfg d s" and ok: "state_ok s'" "\<And>e. e \<in> set (queue_envs s') \<Longrightarrow> payload_held d e"
    and notin: "rid \<notin> set (queue_ids s')"
  shows "durable_ok cfg (snd (and_then (mutate cfg io d s') (\<lambda>_ d. (Inr (), dropPayload io d rid))))"
  using good_mutate [OF ok, of cfg io]
proof
  assume "\<exists>d'. mutate cfg io d s' = (Inr (), d') \<and> good cfg d' (trimmed cfg s') \<and>
       du_externalized d' = du_externalized d \<and> du_payloads d' = du_payloads d"
  then obtain d' where d': "mutate cfg io d s' = (Inr (), d')" "good cfg d' (trimmed cfg s')" by blast
  then have "good cfg (dropPayload io d' rid) (trimmed cfg s')" using notin by (intro good_drop) simp_all
  then show ?thesis unfolding d' by (auto simp: durable_ok_def)
qed (use g in \<open>auto simp: durable_ok_def\<close>)

lemma receipt_ok:
  assumes g: "good cfg d s" and rid: "rid \<notin> fst ` set (ps_quarantinedEnvelopes s)"
  shows "durable_ok cfg (snd (recordPushReceipt cfg io rid d))"
proof -
  let ?s = "s\<lparr>ps_outbox := without_revision rid (ps_outbox s),
    ps_locallyAuthored := rememberAuthored cfg (ps_locallyAuthored s) rid\<rparr>"
  have ok: "state_ok ?s" "\<And>e. e \<in> set (queue_envs ?s) \<Longrightarrow> payload_held d e"
    by (rule good_shrink [OF g, where Q = "\<lambda>_. True"];
        use good_producer [OF g] in \<open>simp add: without_revision_def persisted_ok_def\<close>)+
  have notin: "rid \<notin> set (queue_ids ?s)"
    using rid ok(1) by (auto simp: state_ok_def queue_ids_split without_revision_def)
  show ?thesis
    using durable_ok_mutate_drop [OF g ok notin, of io] by (simp add: recordPushReceipt_def good_loaded [OF g])
qed

lemma discard_ok:
  assumes g: "good cfg d s" and rid: "rid \<notin> ob_revisionId ` set (ps_outbox s)"
  shows "durable_ok cfg (snd (discardQuarantined cfg io rid d))"
proof -
  let ?s = "s\<lparr>ps_quarantine := filter (\<lambda>q. qr_revisionId q \<noteq> rid) (ps_quarantine s),
    ps_quarantinedEnvelopes := map_delete (ps_quarantinedEnvelopes s) rid\<rparr>"
  have ok: "state_ok ?s" "\<And>e. e \<in> set (queue_envs ?s) \<Longrightarrow> payload_held d e"
    by (rule good_shrink [OF g, where P = "\<lambda>_. True"];
        use good_producer [OF g] in \<open>simp add: map_delete_def persisted_ok_def\<close>)+
  have notin: "rid \<notin> set (queue_ids ?s)"
    using rid ok(1) by (auto simp: state_ok_def queue_ids_split map_delete_def)
  show ?thesis
    using durable_ok_mutate_drop [OF g ok notin, of io] g
    by (simp add: discardQuarantined_def good_loaded [OF g] durable_ok_def) blast
qed

lemma retire_ok:
  assumes g: "good cfg d s"
  shows "durable_ok cfg (snd (retireEquivalentMerges cfg io ev d))"
proof -
  let ?s = "s\<lparr>ps_outbox := filter (\<lambda>e. ob_revisionId e \<notin> set (map ob_revisionId (filter (redundant_merge s ev) (ps_outbox s))))
    (ps_outbox s)\<rparr>"
  have ok: "state_ok ?s" "\<And>e. e \<in> set (queue_envs ?s) \<Longrightarrow> payload_held d e"
    by (rule good_shrink [OF g, where Q = "\<lambda>_. True"]; use good_producer [OF g] in \<open>simp add: persisted_ok_def\<close>)+
  show ?thesis
    using durable_ok_mutate [OF g ok, of io] g
    by (auto simp: retireEquivalentMerges_def good_loaded [OF g] durable_ok_def Let_def)
qed

text \<open>Operations that add a revision to the queue.\<close>

lemma queue_add:
  assumes "queue_ok s" "ob_revisionId e \<notin> set (queue_ids s)"
    and "ps_outbox s' = filter P (ps_outbox s) @ [e]" "ps_quarantinedEnvelopes s' = ps_quarantinedEnvelopes s"
  shows "queue_ok s'" "set (queue_envs s') \<subseteq> insert e (set (queue_envs s))"
proof -
  have "queue_ok (s\<lparr>ps_outbox := filter P (ps_outbox s)\<rparr>)"
    by (rule queue_filter(1) [OF assms(1), where Q = "\<lambda>_. True"]) simp_all
  then show "queue_ok s'" using assms by (auto simp: queue_ok_def queue_ids_def queue_envs_def)
  show "set (queue_envs s') \<subseteq> insert e (set (queue_envs s))" using assms by (auto simp: queue_envs_def)
qed

lemma enqueue_ok:
  assumes g: "good cfg d s" and f: "fresh_envelope d s e"
  shows "durable_ok cfg (snd (enqueue cfg io e d))"
proof -
  define e' where "e' = (if ob_enqueuedAt e = None then e\<lparr>ob_enqueuedAt := Some (of_nat (io_now io))\<rparr> else e)"
  let ?s = "s\<lparr>ps_outbox := without_revision (ob_revisionId e) (ps_outbox s) @ [e']\<rparr>"
  have e': "ob_revisionId e' = ob_revisionId e" "ob_payloadExternalized e' \<noteq> Some True"
    using f by (simp_all add: e'_def fresh_envelope_def)
  have new: "ob_revisionId e' \<notin> set (queue_ids s)" using f e' by (simp add: fresh_envelope_def)
  have g': "good cfg (externalize io d e') s" by (rule good_externalize [OF g new])
  have q: "queue_ok ?s" "set (queue_envs ?s) \<subseteq> insert e' (set (queue_envs s))"
    by (rule queue_add [OF _ new]; use g in \<open>simp add: good_def state_ok_def without_revision_def\<close>)+
  have ok: "state_ok ?s" using q(1) good_producer [OF g] by (simp add: state_ok_def persisted_ok_def)
  have "payload_held (externalize io d e') x" if "x \<in> set (queue_envs ?s)" for x
    using that q(2) g' payload_held_new [of e' e'] e' by (auto simp: good_def)
  then show ?thesis
    using durable_ok_mutate [OF g' ok, of io]
    by (simp add: enqueue_def good_loaded [OF g] Let_def flip: e'_def)
qed

lemma payload_held_cong:
  "ob_revisionId e' = ob_revisionId e \<Longrightarrow> ob_payloadBase64 e' = ob_payloadBase64 e \<Longrightarrow>
   ob_payloadExternalized e' = ob_payloadExternalized e \<Longrightarrow> payload_held d e' = payload_held d e"
  by (simp add: payload_held_def)

lemma journal_ok: "persisted_ok s \<Longrightarrow> r \<in> set (or_else (ps_producerRecovery s) []) \<Longrightarrow> recovery_ok r"
  by (cases "ps_producerRecovery s") (simp_all add: persisted_ok_def or_else_def)

lemma recovery_ok_append:
  "recovery_ok (r\<lparr>jr_discardRevisionIds := jr_discardRevisionIds r @ [rid]\<rparr>) \<longleftrightarrow> recovery_ok r \<and> rid \<noteq> []"
  by (auto simp: recovery_ok_def)

lemma automatic_merge_ok:
  assumes g: "good cfg d s" and f: "fresh_envelope d s e"
  shows "durable_ok cfg (snd (enqueueAutomaticMerge cfg io e d))"
proof (cases "find (\<lambda>r. jr_kind r = ApplyRecord \<and> ob_fileId e \<in> set (jr_fileIds r)) (or_else (ps_producerRecovery s) [])")
  case None
  then show ?thesis using g by (auto simp: enqueueAutomaticMerge_def good_loaded [OF g] durable_ok_def)
next
  case (Some r0)
  define e' where "e' = e\<lparr>ob_enqueuedAt := Some (of_nat (io_now io))\<rparr>"
  define rs where "rs = map (\<lambda>r. if jr_id r = jr_id r0
      then r\<lparr>jr_discardRevisionIds := jr_discardRevisionIds r @ [ob_revisionId e]\<rparr> else r) (or_else (ps_producerRecovery s) [])"
  let ?s = "s\<lparr>ps_outbox := ps_outbox s @ [e'], ps_producerRecovery := Some rs\<rparr>"
  have new: "ob_revisionId e' \<notin> set (queue_ids s)" using f by (simp add: e'_def fresh_envelope_def)
  have q: "queue_ok ?s" "set (queue_envs ?s) \<subseteq> insert e' (set (queue_envs s))"
    by (rule queue_add [OF _ new, where P = "\<lambda>_. True"]; use g in \<open>simp add: good_def state_ok_def\<close>)+
  have "recovery_ok r" if "r \<in> set rs" for r
    using that journal_ok [of s] good_producer [OF g] f
    by (auto simp: rs_def recovery_ok_append fresh_envelope_def split: if_splits)
  then have ok: "state_ok ?s" using q(1) good_producer [OF g] by (auto simp: state_ok_def persisted_ok_def)
  have "payload_held d e'" using f by (simp add: e'_def payload_held_def fresh_envelope_def)
  then have "payload_held d x" if "x \<in> set (queue_envs ?s)" for x
    using that q(2) g by (auto simp: good_def)
  then show ?thesis
    using durable_ok_mutate [OF g ok, of io] Some
    by (simp add: enqueueAutomaticMerge_def good_loaded [OF g] Let_def flip: e'_def rs_def)
qed

lemma requeue_ok:
  assumes g: "good cfg d s"
  shows "durable_ok cfg (snd (requeueQuarantined cfg io rid d))"
proof (cases "map_of (ps_quarantinedEnvelopes s) rid")
  case None
  then show ?thesis using g by (auto simp: requeueQuarantined_def good_loaded [OF g] durable_ok_def)
next
  case (Some e)
  define e' where "e' = e\<lparr>ob_enqueuedAt := Some (of_nat (io_now io))\<rparr>"
  let ?base = "s\<lparr>ps_quarantinedEnvelopes := map_delete (ps_quarantinedEnvelopes s) rid\<rparr>"
  let ?s = "s\<lparr>ps_outbox := without_revision rid (ps_outbox s) @ [e'],
    ps_quarantine := filter (\<lambda>q. qr_revisionId q \<noteq> rid) (ps_quarantine s),
    ps_quarantinedEnvelopes := map_delete (ps_quarantinedEnvelopes s) rid\<rparr>"
  have q: "queue_ok s" using g by (simp add: good_def state_ok_def)
  have e: "(rid, e) \<in> set (ps_quarantinedEnvelopes s)" using Some by (rule map_of_SomeD)
  then have id: "ob_revisionId e' = rid" using q by (auto simp: queue_ok_def e'_def)
  have q0: "queue_ok ?base" "set (queue_envs ?base) \<subseteq> set (queue_envs s)"
    by (rule queue_filter [OF q, where P = "\<lambda>_. True"]; simp add: map_delete_def)+
  have "rid \<notin> set (map ob_revisionId (ps_outbox s))" using stash_ids_disjoint [OF q] e by force
  then have new: "ob_revisionId e' \<notin> set (queue_ids ?base)"
    using queue_ids_split [OF q0(1)] by (auto simp: id map_delete_def)
  have q1: "queue_ok ?s" "set (queue_envs ?s) \<subseteq> insert e' (set (queue_envs ?base))"
    by (rule queue_add [OF q0(1) new]; simp add: without_revision_def)+
  have ok: "state_ok ?s" using q1(1) good_producer [OF g] by (simp add: state_ok_def persisted_ok_def)
  have "e \<in> set (queue_envs s)" using e by (force simp: queue_envs_def)
  then have "payload_held d e'"
    using g payload_held_cong [of e' e d] by (simp add: good_def e'_def)
  then have "payload_held d x" if "x \<in> set (queue_envs ?s)" for x
    using that q1(2) q0(2) g by (auto simp: good_def)
  then have "durable_ok cfg (snd (mutate cfg io d ?s))" using durable_ok_mutate [OF g ok, of io] by blast
  then show ?thesis
    using Some
    by (cases "mutate cfg io d ?s"; cases "fst (mutate cfg io d ?s)")
       (simp_all add: requeueQuarantined_def good_loaded [OF g] flip: e'_def)
qed

lemma evict_loop_filter: "\<exists>Q. evict_loop budget bytes entries kept = filter Q kept"
proof (induction budget bytes entries kept rule: evict_loop.induct)
  case (1 budget bytes kept)
  then show ?case by (intro exI [of _ "\<lambda>_. True"]) simp
next
  case (2 budget bytes key env entries kept)
  then show ?case
    by (cases "bytes \<le> budget") (auto simp: map_delete_def intro: exI [of _ "\<lambda>_. True"])
qed

lemma evict_filter: "\<exists>Q. evictStashesOverBudget cfg m = filter Q m"
  unfolding evictStashesOverBudget_def Let_def
  using evict_loop_filter [of "sc_envelopeBudgetBytes cfg" "stash_bytes m" m m]
  by (auto intro: exI [of _ "\<lambda>_. True"])

lemma stash_with_queue:
  assumes "queue_ok s" and s'_def: "s' = s\<lparr>ps_outbox := without_revision rid (ps_outbox s), ps_quarantinedEnvelopes := stash_with s rid\<rparr>"
  shows "queue_ok s'" "set (queue_envs s') \<subseteq> set (queue_envs s)"
proof -
  let ?base = "s\<lparr>ps_outbox := without_revision rid (ps_outbox s)\<rparr>"
  have q0: "queue_ok ?base" "set (queue_envs ?base) \<subseteq> set (queue_envs s)"
    by (rule queue_filter [OF assms(1), where Q = "\<lambda>_. True"]; simp add: without_revision_def)+
  have "queue_ok s' \<and> set (queue_envs s') \<subseteq> set (queue_envs s)"
  proof (cases "find (\<lambda>e. ob_revisionId e = rid) (ps_outbox s)")
    case None
    then show ?thesis using q0 by (simp add: s'_def stash_with_def)
  next
    case (Some e)
    then have e: "e \<in> set (ps_outbox s)" "ob_revisionId e = rid"
      by (auto simp: find_Some_iff)
    have key: "map_of (ps_quarantinedEnvelopes s) rid = None"
      using stash_ids_disjoint [OF assms(1)] e by (force simp: map_of_eq_None_iff)
    then have stash: "stash_with s rid = ps_quarantinedEnvelopes s @ [(rid, e)]"
      using Some by (simp add: stash_with_def map_set_def)
    have "rid \<notin> set (queue_ids ?base)"
      using queue_ids_split [OF q0(1)] key by (auto simp: without_revision_def map_of_eq_None_iff)
    then show ?thesis
      using q0 e by (auto simp: s'_def stash queue_ok_def queue_ids_def queue_envs_def)
  qed
  then show "queue_ok s'" "set (queue_envs s') \<subseteq> set (queue_envs s)" by simp_all
qed

lemma payload_held_drops:
  "payload_held d e \<Longrightarrow> ob_revisionId e \<notin> set ids \<Longrightarrow> payload_held (fold (\<lambda>i d. dropPayload io d i) ids d) e"
  by (induction ids arbitrary: d) (auto simp: payload_held_drop)

lemma quarantine_ok:
  assumes g: "good cfg d s"
    and io: "io_save io \<or> evictStashesOverBudget cfg (stash_with s rid) = stash_with s rid"
  shows "durable_ok cfg (snd (quarantineOutboxItem cfg io rid reason d))"
proof -
  define budgeted where "budgeted = evictStashesOverBudget cfg (stash_with s rid)"
  define evicted where "evicted = filter (\<lambda>k. map_of budgeted k = None) (map fst (stash_with s rid))"
  define d' where "d' = fold (\<lambda>i d. dropPayload io d i) evicted d"
  let ?row = "quarantine_row (find (\<lambda>e. ob_revisionId e = rid) (ps_outbox s)) rid reason"
  let ?base = "s\<lparr>ps_outbox := without_revision rid (ps_outbox s), ps_quarantinedEnvelopes := stash_with s rid\<rparr>"
  let ?s = "s\<lparr>ps_outbox := without_revision rid (ps_outbox s), ps_quarantine := with_row ?row (ps_quarantine s),
    ps_quarantinedEnvelopes := budgeted\<rparr>"
  have q: "queue_ok s" using g by (simp add: good_def state_ok_def)
  have q0: "queue_ok ?base" "set (queue_envs ?base) \<subseteq> set (queue_envs s)"
    using stash_with_queue [OF q refl, of rid] by simp_all
  obtain Q where Q: "budgeted = filter Q (stash_with s rid)"
    using evict_filter unfolding budgeted_def by blast
  have q1: "queue_ok ?s" "set (queue_envs ?s) \<subseteq> set (queue_envs ?base)"
    by (rule queue_filter [OF q0(1), where P = "\<lambda>_. True" and Q = Q]; simp add: Q)+
  have ok: "state_ok ?s" using q1(1) good_producer [OF g] by (simp add: state_ok_def persisted_ok_def)
  have "ob_revisionId x \<notin> set evicted" if "x \<in> set (queue_envs ?s)" for x
  proof -
    have "ob_revisionId x \<in> set (queue_ids ?s)" using that by (auto simp: queue_ids_iff)
    then have "ob_revisionId x \<in> set (map ob_revisionId (ps_outbox ?base)) \<or> map_of budgeted (ob_revisionId x) \<noteq> None"
      using queue_ids_split [OF q1(1)] by (auto simp: map_of_eq_None_iff)
    then show ?thesis
      using stash_ids_disjoint [OF q0(1)] by (auto simp: evicted_def)
  qed
  then have held: "payload_held d' x" if "x \<in> set (queue_envs ?s)" for x
    using that q1(2) q0(2) g payload_held_drops unfolding d'_def by (fastforce simp: good_def)
  have unsaved: "d' = d" if "\<not> io_save io"
  proof -
    have "evicted = []" using io that
      by (auto simp: evicted_def budgeted_def filter_empty_conv map_of_eq_None_iff)
    then show ?thesis by (simp add: d'_def)
  qed
  have "durable_ok cfg (snd (mutate cfg io d' ?s))"
    using good_mutate [OF ok held, of cfg io] unsaved g by (auto simp: durable_ok_def)
  moreover have "quarantineOutboxItem cfg io rid reason d = mutate cfg io d' ?s"
    unfolding quarantineOutboxItem_def good_loaded [OF g] and_then.simps Let_def
      stash_with_def [symmetric] budgeted_def [symmetric] evicted_def [symmetric] d'_def [symmetric] ..
  ultimately show ?thesis by simp
qed

section \<open>The producer's transactions keep the invariant\<close>

lemma set_map_set: "set (map_set m k v) \<subseteq> insert (k, v) (set m)"
  by (auto simp: map_set_def split: if_splits)

lemma backups_not_externalized:
  assumes "persisted_ok s" "\<forall>e \<in> set es. ob_payloadExternalized e \<noteq> Some True"
  shows "\<forall>(k, es) \<in> set (map_set (or_else (ps_reconciliationBackups s) []) k es). \<forall>e \<in> set es. ob_payloadExternalized e \<noteq> Some True"
proof -
  have "\<forall>(k, es) \<in> set (or_else (ps_reconciliationBackups s) []). \<forall>e \<in> set es. ob_payloadExternalized e \<noteq> Some True"
    using assms(1) by (cases "ps_reconciliationBackups s") (simp_all add: persisted_ok_def or_else_def)
  then show ?thesis using assms(2) set_map_set [of "or_else (ps_reconciliationBackups s) []" k es] by blast
qed

lemma swap_cases:
  assumes g: "good cfg d s"
    and f: "case r of None \<Rightarrow> True | Some e \<Rightarrow> fresh_envelope d s e"
    and swap: "swapQueue io s entry r d = (Inr (Some s'), d')"
  shows "good cfg d' s" "state_ok s'" "\<And>e. e \<in> set (queue_envs s') \<Longrightarrow> payload_held d' e"
    "ps_producer s' = ps_producer s" "ps_producerRecovery s' = ps_producerRecovery s"
proof -
  define r' where "r' = map_option (\<lambda>e. e\<lparr>ob_enqueuedAt := Some (of_nat (io_now io))\<rparr>) r"
  define originals where "originals = filter (\<lambda>e. ob_revisionId e \<in> set (remdups (jr_discardRevisionIds entry))) (ps_outbox s)"
  define backups where "backups = (if length originals = 0 then ps_reconciliationBackups s
     else Some (map_set (or_else (ps_reconciliationBackups s) []) (jr_id entry) (backedUp io originals)))"
  let ?out = "filter (\<lambda>e. ob_revisionId e \<notin> set (remdups (jr_discardRevisionIds entry))) (ps_outbox s)"
  have s': "s' = s\<lparr>ps_outbox := ?out @ (case r' of None \<Rightarrow> [] | Some e \<Rightarrow> [e]), ps_reconciliationBackups := backups\<rparr>"
    and d': "d' = (case r of None \<Rightarrow> d | Some e \<Rightarrow> externalize io d e)"
    using swap by (cases r; auto simp: swapQueue_def Let_def backups_def originals_def r'_def split: if_splits)+
  have q: "queue_ok s" using g by (simp add: good_def state_ok_def)
  show g': "good cfg d' s"
    using g f by (cases r) (auto simp: d' fresh_envelope_def intro: good_externalize)
  have queue: "queue_ok s' \<and> (\<forall>e \<in> set (queue_envs s'). payload_held d' e)"
  proof (cases r)
    case None
    then show ?thesis
      using queue_filter [OF q, of s' _ "\<lambda>_. True"] g' by (auto simp: s' r'_def good_def)
  next
    case (Some e)
    let ?e = "e\<lparr>ob_enqueuedAt := Some (of_nat (io_now io))\<rparr>"
    have "ob_revisionId ?e \<notin> set (queue_ids s)" using f Some by (simp add: fresh_envelope_def)
    from queue_add [OF q this, of s' "\<lambda>e. ob_revisionId e \<notin> set (remdups (jr_discardRevisionIds entry))"]
    have "queue_ok s'" "set (queue_envs s') \<subseteq> insert ?e (set (queue_envs s))"
      using Some by (simp_all add: s' r'_def)
    moreover have "payload_held d' ?e"
      using payload_held_new [of ?e e io d] f Some by (simp add: d' fresh_envelope_def)
    ultimately show ?thesis using g' by (auto simp: good_def)
  qed
  then show "\<And>e. e \<in> set (queue_envs s') \<Longrightarrow> payload_held d' e" by blast
  have "\<forall>(k, es) \<in> set m. \<forall>e \<in> set es. ob_payloadExternalized e \<noteq> Some True" if "backups = Some m" for m
  proof (cases "length originals = 0")
    case True
    then show ?thesis using that good_producer [OF g] by (simp add: backups_def persisted_ok_def)
  next
    case False
    then have m: "m = map_set (or_else (ps_reconciliationBackups s) []) (jr_id entry) (backedUp io originals)"
      using that by (simp add: backups_def)
    have "\<forall>e \<in> set (backedUp io originals). ob_payloadExternalized e \<noteq> Some True" by (auto simp: backedUp_def)
    then show ?thesis unfolding m by (intro backups_not_externalized) (use good_producer [OF g] in simp_all)
  qed
  then have "persisted_ok s'" using good_producer [OF g] by (simp add: persisted_ok_def s')
  then show "state_ok s'" using queue good_producer [OF g] by (simp add: state_ok_def) (simp add: s')
  show "ps_producer s' = ps_producer s" "ps_producerRecovery s' = ps_producerRecovery s" by (simp_all add: s')
qed

lemma rolledForward_fields [simp]:
  "ps_outbox (rolledForward s entry) = ps_outbox s"
  "ps_quarantinedEnvelopes (rolledForward s entry) = ps_quarantinedEnvelopes s"
  "ps_cursor (rolledForward s entry) = ps_cursor s" "ps_deferred (rolledForward s entry) = ps_deferred s"
  "ps_reconciliationBackups (rolledForward s entry) = ps_reconciliationBackups s"
  "ps_producer (rolledForward s entry) = Some (withProducerFiles (or_else (ps_producer s) EMPTY_PRODUCER) entry)"
  "ps_producerRecovery (rolledForward s entry) =
     Some (filter (\<lambda>r. jr_id r \<noteq> jr_id entry) (or_else (ps_producerRecovery s) []))"
  by (simp_all add: rolledForward_def Let_def)

lemma producer_ok_or_else: "persisted_ok s \<Longrightarrow> producer_ok (or_else (ps_producer s) EMPTY_PRODUCER)"
  by (cases "ps_producer s") (simp_all add: persisted_ok_def or_else_def producer_ok_def EMPTY_PRODUCER_def)

lemma state_ok_rolledForward:
  assumes "state_ok s" "recovery_ok entry"
  shows "state_ok (rolledForward s entry)"
proof -
  have p: "persisted_ok s" using assms(1) by (simp add: state_ok_def)
  have "\<forall>r \<in> set (filter (\<lambda>r. jr_id r \<noteq> jr_id entry) (or_else (ps_producerRecovery s) [])). recovery_ok r"
    using journal_ok [OF p] by simp
  then show ?thesis
    using assms producer_ok_withProducerFiles [OF producer_ok_or_else [OF p] assms(2)]
    by (simp add: state_ok_def queue_ok_def queue_ids_def queue_envs_def persisted_ok_def)
qed

lemma snd_and_then_const: "snd (and_then r (\<lambda>_ d. (Inr b, d))) = snd r"
  by (cases r; cases "fst r") simp_all

lemma commit_ok:
  assumes g: "good cfg d s" and entry: "recovery_ok entry"
    and f: "case r of None \<Rightarrow> True | Some e \<Rightarrow> fresh_envelope d s e"
  shows "durable_ok cfg (snd (commitProducerChange cfg io entry r d))"
proof (cases "swapQueue io s entry r d")
  case (Pair res d')
  show ?thesis
  proof (cases "\<exists>s'. res = Inr (Some s')")
    case True
    then obtain s' where swap: "swapQueue io s entry r d = (Inr (Some s'), d')" using Pair by auto
    note sw = swap_cases [OF g f swap]
    have "durable_ok cfg (snd (mutate cfg io d' (rolledForward s' entry)))"
      by (rule durable_ok_mutate [OF sw(1) state_ok_rolledForward [OF sw(2) entry]])
         (use sw(3) in \<open>simp add: queue_envs_def\<close>)
    then show ?thesis
      by (simp add: commitProducerChange_def good_loaded [OF g] swap snd_and_then_const)
  next
    case False
    have "d' = d" using False Pair by (auto simp: swapQueue_def Let_def split: if_splits)
    moreover have "snd (commitProducerChange cfg io entry r d) = d'"
      using False Pair
      by (cases res) (auto simp: commitProducerChange_def good_loaded [OF g] split: option.split)
    ultimately show ?thesis using g by (auto simp: durable_ok_def)
  qed
qed

lemma start_ok:
  assumes g: "good cfg d s" and entry: "recovery_ok entry"
    and f: "case r of None \<Rightarrow> True | Some e \<Rightarrow> fresh_envelope d s e"
  shows "durable_ok cfg (snd (startProducerRecovery cfg io entry r d))"
proof (cases "swapQueue io s entry r d")
  case (Pair res d')
  show ?thesis
  proof (cases "\<exists>s'. res = Inr (Some s')")
    case True
    then obtain s' where swap: "swapQueue io s entry r d = (Inr (Some s'), d')" using Pair by auto
    note sw = swap_cases [OF g f swap]
    let ?s = "s'\<lparr>ps_producerRecovery := Some (or_else (ps_producerRecovery s) [] @ [apply_snapshot s entry])\<rparr>"
    have "recovery_ok (apply_snapshot s entry)" using entry by (auto simp: apply_snapshot_def recovery_ok_def)
    moreover have "\<forall>r \<in> set (or_else (ps_producerRecovery s) []). recovery_ok r"
      using journal_ok good_producer [OF g] by blast
    ultimately have ok: "state_ok ?s"
      using sw(2) by (auto simp: state_ok_def queue_ok_def queue_ids_def queue_envs_def persisted_ok_def)
    have "durable_ok cfg (snd (mutate cfg io d' ?s))"
      by (rule durable_ok_mutate [OF sw(1) ok]) (use sw(3) in \<open>simp add: queue_envs_def\<close>)
    then show ?thesis
      by (simp add: startProducerRecovery_def good_loaded [OF g] swap snd_and_then_const)
  next
    case False
    have "d' = d" using False Pair by (auto simp: swapQueue_def Let_def split: if_splits)
    moreover have "snd (startProducerRecovery cfg io entry r d) = d'"
      using False Pair
      by (cases res) (auto simp: startProducerRecovery_def good_loaded [OF g] split: option.split)
    ultimately show ?thesis using g by (auto simp: durable_ok_def)
  qed
qed

lemma rolledBack_fields [simp]:
  "ps_outbox (rolledBack io s entry) = filter (\<lambda>e. ob_revisionId e \<notin> set (jr_discardRevisionIds entry)) (ps_outbox s)"
  "ps_quarantinedEnvelopes (rolledBack io s entry) = ps_quarantinedEnvelopes s"
  "ps_cursor (rolledBack io s entry) = ps_cursor s" "ps_deferred (rolledBack io s entry) = ps_deferred s"
  "ps_producer (rolledBack io s entry) = Some (withProducerFiles (or_else (ps_producer s) EMPTY_PRODUCER) entry)"
  "ps_producerRecovery (rolledBack io s entry) =
     Some (filter (\<lambda>r. jr_id r \<noteq> jr_id entry) (or_else (ps_producerRecovery s) []))"
  by (simp_all add: rolledBack_def Let_def split: option.split)

lemma rolledBack_reconciliationBackups:
  "ps_reconciliationBackups (rolledBack io s entry) =
     (if filter (\<lambda>e. ob_revisionId e \<in> set (jr_discardRevisionIds entry)) (ps_outbox s) = []
      then ps_reconciliationBackups s
      else Some (map_set (or_else (ps_reconciliationBackups s) []) (jr_id entry)
        (or_else (map_of (or_else (ps_reconciliationBackups s) []) (jr_id entry)) [] @
         backedUp io (filter (\<lambda>e. ob_revisionId e \<in> set (jr_discardRevisionIds entry)) (ps_outbox s)))))"
  by (simp add: rolledBack_def Let_def split: option.split)

lemma rolledBack_backups:
  assumes "persisted_ok s" "ps_reconciliationBackups (rolledBack io s entry) = Some m"
  shows "\<forall>(k, es) \<in> set m. \<forall>e \<in> set es. ob_payloadExternalized e \<noteq> Some True"
proof -
  let ?b = "or_else (ps_reconciliationBackups s) []"
  have old: "\<forall>(k, es) \<in> set ?b. \<forall>e \<in> set es. ob_payloadExternalized e \<noteq> Some True"
    using assms(1) by (cases "ps_reconciliationBackups s") (simp_all add: persisted_ok_def or_else_def)
  have "\<forall>e \<in> set (or_else (map_of ?b (jr_id entry)) [] @ backedUp io os). ob_payloadExternalized e \<noteq> Some True" for os
    using old by (cases "map_of ?b (jr_id entry)") (auto simp: or_else_def backedUp_def dest!: map_of_SomeD)
  note new = backups_not_externalized [OF assms(1) this, of "jr_id entry"]
  have "m = or_else (ps_reconciliationBackups s) [] \<or>
      (\<exists>os. m = map_set ?b (jr_id entry) (or_else (map_of ?b (jr_id entry)) [] @ backedUp io os))"
    using assms(2) unfolding rolledBack_reconciliationBackups by (auto simp: or_else_def [of "Some m" "[]"] split: if_splits)
  then show ?thesis using old new by (elim disjE exE) simp_all
qed

lemma recover_ok:
  assumes g: "good cfg d s"
  shows "durable_ok cfg (snd (recoverProducerQueue cfg io rid d))"
proof (cases "find (\<lambda>r. jr_id r = rid) (or_else (ps_producerRecovery s) [])")
  case None
  then show ?thesis using g by (auto simp: recoverProducerQueue_def good_loaded [OF g] durable_ok_def)
next
  case (Some entry)
  have p: "persisted_ok s" using good_producer [OF g] by blast
  have entry: "recovery_ok entry"
    using Some journal_ok [OF p] by (auto simp: find_Some_iff)
  have fwd: "durable_ok cfg (snd (mutate cfg io d (rolledForward s entry)))"
    by (rule durable_ok_mutate [OF g state_ok_rolledForward [OF _ entry]])
       (use g in \<open>simp_all add: good_def queue_envs_def\<close>)
  have "\<forall>r \<in> set (filter (\<lambda>r. jr_id r \<noteq> jr_id entry) (or_else (ps_producerRecovery s) [])). recovery_ok r"
    using journal_ok [OF p] by simp
  then have "persisted_ok (rolledBack io s entry)"
    using p rolledBack_backups [OF p] producer_ok_withProducerFiles [OF producer_ok_or_else [OF p] entry]
    by (simp add: persisted_ok_def)
  then have bwd: "durable_ok cfg (snd (mutate cfg io d (rolledBack io s entry)))"
    by (intro durable_ok_mutate [OF g] good_shrink [OF g, where Q = "\<lambda>_. True"]) simp_all
  show ?thesis
    using Some fwd bwd g by (auto simp: recoverProducerQueue_def good_loaded [OF g] durable_ok_def)
qed

section \<open>All operations\<close>

lemma exec_ok:
  assumes g: "good cfg d s" and ok: "op_ok cfg io d s op"
  shows "durable_ok cfg (exec cfg io op d)"
proof -
  note p = good_producer [OF g]
  have upd: "durable_ok cfg (snd (update_state cfg io d f))"
    if "ps_outbox (f s) = ps_outbox s" "ps_quarantinedEnvelopes (f s) = ps_quarantinedEnvelopes s"
      "ps_producer (f s) \<noteq> None" "persisted_ok (f s)" for f
    by (rule good_update_state [where f = f, OF g]) (rule that)+
  have upd': "durable_ok cfg (snd (update_state cfg io (d\<lparr>du_parkReasons := m\<rparr>) f))"
    if "ps_outbox (f s) = ps_outbox s" "ps_quarantinedEnvelopes (f s) = ps_quarantinedEnvelopes s"
      "ps_producer (f s) \<noteq> None" "persisted_ok (f s)" for f m
    by (rule good_update_state [where f = f, OF good_parkReasons [OF g]]) (rule that)+
  show ?thesis
  proof (cases op)
    case (CompleteRecovery rid)
    have "\<forall>r \<in> set (or_else (ps_producerRecovery s) []). recovery_ok r" using p journal_ok by blast
    then show ?thesis
      unfolding CompleteRecovery exec.simps completeProducerRecovery_def
      by (intro upd) (use p in \<open>simp_all add: persisted_ok_def\<close>)
  next
    case (CommitChange entry r)
    then show ?thesis using ok by (simp add: commit_ok [OF g])
  next
    case (StartRecovery entry r)
    then show ?thesis using ok by (simp add: start_ok [OF g])
  qed (use ok p in \<open>simp_all add: receipt_ok [OF g] discard_ok [OF g] retire_ok [OF g] enqueue_ok [OF g] requeue_ok [OF g]
        automatic_merge_ok [OF g] quarantine_ok [OF g] recover_ok [OF g] saveCursor_def recordFailedToQueue_def
        recordApplied_def recordPathOwner_def forgetPath_def recordBaseHash_def forgetBaseHash_def recordBaseContent_def
        forgetBaseContent_def recordConflictArtifactPath_def parkRemote_def unparkRemote_def saveProducer_def
        good_forget_member [OF g] upd upd' persisted_ok_def\<close>)
qed

text \<open>
  The operations with their I/O outcomes as one machine. The machine has no step for an operation that
  breaks its contract, so its runs are those of the code exactly for the sequences in which every
  operation meets its contract in the state it finds (\<open>meets_contracts\<close>).
\<close>

fun meets_contracts :: "sync_config \<Rightarrow> durable \<Rightarrow> (io \<times> sync_op) list \<Rightarrow> bool" where
  "meets_contracts cfg d [] \<longleftrightarrow> True"
| "meets_contracts cfg d (i # rest) \<longleftrightarrow>
     (case du_cache d of None \<Rightarrow> False | Some s \<Rightarrow> op_ok cfg (fst i) d s (snd i)) \<and>
     meets_contracts cfg (exec cfg (fst i) (snd i) d) rest"

definition exec_all :: "sync_config \<Rightarrow> (io \<times> sync_op) list \<Rightarrow> durable \<Rightarrow> durable" where
  "exec_all cfg ops d = fold (\<lambda>i d. exec cfg (fst i) (snd i) d) ops d"

definition sync_step :: "sync_config \<Rightarrow> durable \<Rightarrow> io \<times> sync_op \<Rightarrow> unit \<times> durable" where
  "sync_step cfg d i =
     ((), case du_cache d of
            None \<Rightarrow> d
          | Some s \<Rightarrow> if op_ok cfg (fst i) d s (snd i) then exec cfg (fst i) (snd i) d else d)"

interpretation client: invariant_machine "sync_step cfg" "durable_ok cfg" for cfg
proof
  fix d i
  assume "durable_ok cfg d"
  then obtain s where g: "good cfg d s" by (auto simp: durable_ok_def)
  then have "du_cache d = Some s" by (simp add: good_def)
  then show "durable_ok cfg (snd (sync_step cfg d i))"
    using g exec_ok [OF g, of "fst i" "snd i"] by (auto simp: sync_step_def durable_ok_def)
qed

lemma exec_all_run: "meets_contracts cfg d ops \<Longrightarrow> exec_all cfg ops d = client.run cfg d ops"
  by (induction ops arbitrary: d) (auto simp: exec_all_def sync_step_def split: option.splits)

end
