(* ===== verification/SyncRunner.thy ===== *)
theory SyncRunner
  imports SyncState_Inv
begin

text \<open>
  The client's sync runner (\<^verbatim>\<open>apps/obsidian-plugin/src/sync/sync-runner.ts\<close>): push in bounded
  batches with a quarantine that follows the lineage, pull through a contiguity gate, the cycle
  that combines them, its single-flight loop and its backoff.

  The runner is written against three interfaces, \<^verbatim>\<open>SyncStatePort\<close>, \<^verbatim>\<open>VaultApplyPort\<close> and
  \<^verbatim>\<open>SyncTransport\<close>; \<open>ports\<close> is the record of their methods. A method acts on the whole world \<open>'s\<close>
  outside the runner and can throw, so it is a function from a world to an error or a value and the
  world after it. Optional methods are options. A thrown value is a \<open>failure\<close>, with the three marks
  the runner looks at.
\<close>

section \<open>Interfaces\<close>

record failure =
  fl_authDenied :: bool
  fl_permanent :: bool
  fl_permanentApply :: bool
  fl_message :: jsstr

type_synonym ('s, 'a) act = "'s \<Rightarrow> (failure + 'a) \<times> 's"

definition act_return :: "'a \<Rightarrow> ('s, 'a) act" where
  "act_return a = (\<lambda>w. (Inr a, w))"

definition act_bind :: "('s, 'a) act \<Rightarrow> ('a \<Rightarrow> ('s, 'b) act) \<Rightarrow> ('s, 'b) act" where
  "act_bind m f = (\<lambda>w. case m w of (Inl e, w') \<Rightarrow> (Inl e, w') | (Inr a, w') \<Rightarrow> f a w')"

record push_receipt =
  pr_revisionId :: ident
  pr_serverSequence :: int

datatype item_outcome = ItemAccepted | ItemRejected

record push_item_result =
  pi_revisionId :: ident
  pi_outcome :: item_outcome
  pi_receipt :: "push_receipt option"
  pi_permanent :: "bool option"
  pi_missingParent :: "bool option"

record pull_result =
  pl_cursor :: int
  pl_epoch :: "jsstr option"
  pl_events :: "remote_event list"

datatype apply_outcome = OutApplied | OutConflict | OutNoop | OutDeferred

record 's ports =
  sp_loadCursor :: "('s, int) act"
  sp_saveCursor :: "int \<Rightarrow> ('s, unit) act"
  sp_listOutbox :: "('s, push_revision list) act"
  sp_recordPushReceipt :: "push_receipt \<Rightarrow> ('s, unit) act"
  sp_quarantineOutboxItem :: "ident \<Rightarrow> jsstr \<Rightarrow> ('s, unit) act"
  sp_isLocallyAuthored :: "ident \<Rightarrow> ('s, bool) act"
  sp_retireEquivalentMerges :: "(remote_event \<Rightarrow> ('s, unit) act) option"
  sp_parkRemote :: "(remote_event \<Rightarrow> jsstr \<Rightarrow> ('s, unit) act) option"
  sp_unparkRemote :: "(ident \<Rightarrow> ('s, unit) act) option"
  sp_listParkedRemote :: "('s, remote_event list) act option"
  vp_openBuffers :: "ident \<Rightarrow> ('s, bool list) act"
  vp_applyRemote :: "remote_event \<Rightarrow> bool \<Rightarrow> ('s, apply_outcome) act"
  tr_push :: "push_revision list \<Rightarrow> ('s, push_item_result list) act"
  tr_pull :: "int \<Rightarrow> ('s, pull_result) act"
  hk_beforeCycle :: "('s, unit) act option"
  hk_beforePull :: "('s, unit) act option"
  hk_afterPull :: "('s, unit) act option"

definition optional_act :: "('s, unit) act option \<Rightarrow> ('s, unit) act" where
  "optional_act m = (case m of Some a \<Rightarrow> a | None \<Rightarrow> act_return ())"

definition isAuthDenied :: "failure \<Rightarrow> bool" where
  "isAuthDenied e = fl_authDenied e"

definition isPermanentError :: "failure \<Rightarrow> bool" where
  "isPermanentError e = fl_permanent e"

definition permanentReason :: "failure \<Rightarrow> jsstr" where
  "permanentReason e = (if length (fl_message e) > 0 then fl_message e else js ''permanent-http-error'')"

section \<open>Lineage and batches\<close>

definition PARENT_QUARANTINED_REASON :: jsstr where
  "PARENT_QUARANTINED_REASON = js ''parent-quarantined''"

definition MISSING_PARENT_REASON :: jsstr where
  "MISSING_PARENT_REASON = js ''missing-parent''"

record lineage =
  li_parents :: "ident list jsobj"
  li_children :: "ident list jsobj"

definition item_parents :: "push_revision \<Rightarrow> ident list" where
  "item_parents item = or_else (pv_parentRevisionIds item) []"

definition add_child :: "ident \<Rightarrow> ident \<Rightarrow> ident list jsobj \<Rightarrow> ident list jsobj" where
  "add_child child parent children =
     (case map_of children parent of
        None \<Rightarrow> map_set children parent [child]
      | Some cs \<Rightarrow> map_set children parent (cs @ [child]))"

definition add_item :: "push_revision \<Rightarrow> lineage \<Rightarrow> lineage" where
  "add_item item l =
     \<lparr>li_parents = map_set (li_parents l) (pv_revisionId item) (item_parents item),
      li_children = fold (add_child (pv_revisionId item)) (item_parents item) (li_children l)\<rparr>"

definition buildLineageIndex :: "push_revision list \<Rightarrow> lineage" where
  "buildLineageIndex outbox = fold add_item outbox \<lparr>li_parents = [], li_children = []\<rparr>"

definition parentsOf :: "lineage \<Rightarrow> ident \<Rightarrow> ident list" where
  "parentsOf l rid = or_else (map_of (li_parents l) rid) []"

definition childrenOf :: "lineage \<Rightarrow> ident \<Rightarrow> ident list" where
  "childrenOf l rid = or_else (map_of (li_children l) rid) []"

record runner_options =
  ro_baseBackoffMs :: rat
  ro_maxBackoffMs :: rat
  ro_maxPushBatchBytes :: int
  ro_maxPushBatchItems :: nat

definition runner_defaults :: runner_options where
  "runner_defaults = \<lparr>ro_baseBackoffMs = 5000, ro_maxBackoffMs = 60000, ro_maxPushBatchBytes = 512 * 1024,
     ro_maxPushBatchItems = 64\<rparr>"

definition item_bytes :: "push_revision \<Rightarrow> int" where
  "item_bytes item = or_else (pv_payloadBytes item) 0"

fun plan_loop ::
    "runner_options \<Rightarrow> push_revision list \<Rightarrow> push_revision list list \<Rightarrow> push_revision list \<Rightarrow> int \<Rightarrow> push_revision list list" where
  "plan_loop opts [] batches current currentBytes =
     (if length current > 0 then batches @ [current] else batches)"
| "plan_loop opts (item # outbox) batches current currentBytes =
     (let bytes = item_bytes item;
          wouldOverflow = length current > 0 \<and>
            (length current \<ge> ro_maxPushBatchItems opts \<or> currentBytes + bytes > ro_maxPushBatchBytes opts)
      in if wouldOverflow then plan_loop opts outbox (batches @ [current]) [item] bytes
         else plan_loop opts outbox batches (current @ [item]) (currentBytes + bytes))"

definition planPushBatches :: "runner_options \<Rightarrow> push_revision list \<Rightarrow> push_revision list list" where
  "planPushBatches opts outbox = plan_loop opts outbox [] [] 0"

section \<open>Push\<close>

text \<open>The three sets and the counter of one push; sets are lists of distinct ids.\<close>

record push_state =
  pu_pending :: "ident list"
  pu_accepted :: "ident list"
  pu_quarantined :: "ident list"
  pu_pushed :: nat

text \<open>
  \<^verbatim>\<open>quarantineLineage\<close>: breadth first over the work list. An entry that is not pending is skipped, any
  other leaves \<^verbatim>\<open>pending\<close>, so the loop ends. A throw keeps the sets as they are at that point.
\<close>

function (sequential) quarantine_loop ::
    "'s ports \<Rightarrow> lineage \<Rightarrow> (ident \<times> jsstr) list \<Rightarrow> push_state \<Rightarrow> 's \<Rightarrow> (failure + unit) \<times> push_state \<times> 's" where
  "quarantine_loop P l [] st w = (Inr (), st, w)"
| "quarantine_loop P l ((i, reason) # work) st w =
     (if i \<notin> set (pu_pending st) then quarantine_loop P l work st w
      else
        (let st' = st\<lparr>pu_pending := removeAll i (pu_pending st), pu_quarantined := set_add (pu_quarantined st) i\<rparr>
         in case sp_quarantineOutboxItem P i reason w of
              (Inl e, w') \<Rightarrow> (Inl e, st', w')
            | (Inr _, w') \<Rightarrow>
                quarantine_loop P l (work @ map (\<lambda>c. (c, PARENT_QUARANTINED_REASON)) (childrenOf l i)) st' w'))"
  by pat_completeness auto

termination
  by (relation "(\<lambda>(P, l, work, st, w). length (pu_pending st)) <*mlex*> measure (\<lambda>(P, l, work, st, w). length work)")
     (auto intro!: wf_mlex mlex_less mlex_leq simp: mlex_iff length_removeAll_less)

definition quarantineLineage ::
    "'s ports \<Rightarrow> lineage \<Rightarrow> ident \<Rightarrow> jsstr \<Rightarrow> push_state \<Rightarrow> 's \<Rightarrow> (failure + unit) \<times> push_state \<times> 's" where
  "quarantineLineage P l rootId rootReason st w = quarantine_loop P l [(rootId, rootReason)] st w"

fun viable_loop :: "'s ports \<Rightarrow> ident list \<Rightarrow> push_state \<Rightarrow> ('s, bool) act" where
  "viable_loop P [] st = act_return False"
| "viable_loop P (p # ps) st =
     (if p \<in> set (pu_pending st) \<or> p \<in> set (pu_accepted st) then act_return True
      else act_bind (sp_isLocallyAuthored P p) (\<lambda>b. if b then act_return True else viable_loop P ps st))"

definition parentStillViable :: "'s ports \<Rightarrow> lineage \<Rightarrow> ident \<Rightarrow> push_state \<Rightarrow> ('s, bool) act" where
  "parentStillViable P l rid st = viable_loop P (parentsOf l rid) st"

text \<open>One result of a push response.\<close>

definition handle_result ::
    "'s ports \<Rightarrow> lineage \<Rightarrow> push_item_result \<Rightarrow> push_state \<Rightarrow> 's \<Rightarrow> (failure + unit) \<times> push_state \<times> 's" where
  "handle_result P l r st w =
     (if pi_revisionId r \<in> set (pu_quarantined st) then (Inr (), st, w)
      else
        (case (pi_outcome r, pi_receipt r) of
           (ItemAccepted, Some receipt) \<Rightarrow>
             (case sp_recordPushReceipt P receipt w of
                (Inl e, w') \<Rightarrow> (Inl e, st, w')
              | (Inr _, w') \<Rightarrow>
                  (Inr (), st\<lparr>pu_pending := removeAll (pi_revisionId r) (pu_pending st),
                              pu_accepted := set_add (pu_accepted st) (pi_revisionId r),
                              pu_pushed := pu_pushed st + 1\<rparr>, w'))
         | (ItemAccepted, None) \<Rightarrow> (Inr (), st, w)
         | (ItemRejected, _) \<Rightarrow>
             if pi_permanent r = Some True then quarantineLineage P l (pi_revisionId r) (js ''server-rejected'') st w
             else if pi_missingParent r = Some True
             then
               (case parentStillViable P l (pi_revisionId r) st w of
                  (Inl e, w') \<Rightarrow> (Inl e, st, w')
                | (Inr True, w') \<Rightarrow> (Inr (), st, w')
                | (Inr False, w') \<Rightarrow> quarantineLineage P l (pi_revisionId r) MISSING_PARENT_REASON st w')
             else (Inr (), st, w)))"

fun results_loop ::
    "'s ports \<Rightarrow> lineage \<Rightarrow> push_item_result list \<Rightarrow> push_state \<Rightarrow> 's \<Rightarrow> (failure + unit) \<times> push_state \<times> 's" where
  "results_loop P l [] st w = (Inr (), st, w)"
| "results_loop P l (r # rs) st w =
     (case handle_result P l r st w of
        (Inl e, st', w') \<Rightarrow> (Inl e, st', w')
      | (Inr _, st', w') \<Rightarrow> results_loop P l rs st' w')"

text \<open>
  The batch loop over a queue that can grow: a permanent failure of a request with several
  revisions queues each of them alone. A batch counts one, or one more than its length when it can
  still be split, so the queue's weight falls with every iteration.
\<close>

definition batch_weight :: "'a list \<Rightarrow> nat" where
  "batch_weight batch = (if length batch \<le> 1 then 1 else 1 + length batch)"

function (sequential) batch_loop ::
    "'s ports \<Rightarrow> lineage \<Rightarrow> push_revision list list \<Rightarrow> push_state \<Rightarrow> 's \<Rightarrow> (failure + unit) \<times> push_state \<times> 's" where
  "batch_loop P l [] st w = (Inr (), st, w)"
| "batch_loop P l (batch # queue) st w =
     (let live = filter (\<lambda>item. pv_revisionId item \<in> set (pu_pending st)) batch
      in if length live = 0 then batch_loop P l queue st w
         else
           (case tr_push P live w of
              (Inr results, w') \<Rightarrow>
                (case results_loop P l results st w' of
                   (Inl e, st', w'') \<Rightarrow> (Inl e, st', w'')
                 | (Inr _, st', w'') \<Rightarrow> batch_loop P l queue st' w'')
            | (Inl e, w') \<Rightarrow>
                if isAuthDenied e then (Inl e, st, w')
                else if isPermanentError e
                then
                  (if length live = 1
                   then
                     (case quarantineLineage P l (pv_revisionId (hd live)) (permanentReason e) st w' of
                        (Inl e', st', w'') \<Rightarrow> (Inl e', st', w'')
                      | (Inr _, st', w'') \<Rightarrow> batch_loop P l queue st' w'')
                   else batch_loop P l (queue @ map (\<lambda>item. [item]) live) st w')
                else (Inl e, st, w')))"
  by pat_completeness auto

lemma sum_weight_singletons: "sum_list (map batch_weight (map (\<lambda>item. [item]) xs)) = length xs"
  by (induction xs) (auto simp: batch_weight_def)

lemma split_weight: "filter P batch \<noteq> [] \<Longrightarrow> length (filter P batch) \<noteq> Suc 0 \<Longrightarrow> length (filter P batch) < batch_weight batch"
  using length_filter_le [of P batch] by (cases "filter P batch") (auto simp: batch_weight_def neq_Nil_conv)

lemma batch_weight_pos: "0 < batch_weight batch"
  by (simp add: batch_weight_def)

termination batch_loop
  by (relation "measure (\<lambda>(P, l, queue, st, w). sum_list (map batch_weight queue))")
     (auto simp: sum_weight_singletons split_weight batch_weight_pos simp del: map_map)

definition runPush ::
    "'s ports \<Rightarrow> runner_options \<Rightarrow> 's \<Rightarrow> (failure + nat \<times> nat) \<times> 's" where
  "runPush P opts w =
     (case sp_listOutbox P w of
        (Inl e, w') \<Rightarrow> (Inl e, w')
      | (Inr outbox, w') \<Rightarrow>
          if length outbox = 0 then (Inr (0, 0), w')
          else
            (case batch_loop P (buildLineageIndex outbox) (planPushBatches opts outbox)
                    \<lparr>pu_pending = remdups (map pv_revisionId outbox), pu_accepted = [], pu_quarantined = [], pu_pushed = 0\<rparr> w' of
               (Inl e, st, w'') \<Rightarrow> (Inl e, w'')
             | (Inr _, st, w'') \<Rightarrow> (Inr (pu_pushed st, length (pu_quarantined st)), w'')))"

section \<open>Pull\<close>

definition MAX_APPLY_ATTEMPTS :: nat where
  "MAX_APPLY_ATTEMPTS = 3"

record pull_counts =
  pc_applied :: nat
  pc_suppressed :: nat
  pc_conflicts :: nat
  pc_deferred :: nat

datatype cycle_status = StSynced | StConflict | StDeferred | StOffline | StUnauthenticated

definition resolveStatus :: "pull_counts \<Rightarrow> cycle_status" where
  "resolveStatus c = (if pc_conflicts c > 0 then StConflict else if pc_deferred c > 0 then StDeferred else StSynced)"

text \<open>
  The loop over a page in sequence order. \<open>bootstrapTarget\<close> is the server head of the runner's first
  pull, \<open>fails\<close> the runner's map of consecutive failed applies. The map and the world keep their
  changes when the loop throws.
\<close>

definition apply_attempts :: "nat jsobj \<Rightarrow> ident \<Rightarrow> nat" where
  "apply_attempts fails rid = or_else (map_of fails rid) 0 + 1"

datatype pull_step = Advance pull_counts | Halt pull_counts | Throw failure

definition advance_cursor ::
    "'s ports \<Rightarrow> int \<Rightarrow> pull_counts \<Rightarrow> nat jsobj \<Rightarrow> 's \<Rightarrow> pull_step \<times> nat jsobj \<times> 's" where
  "advance_cursor P sequence c fails w =
     (case sp_saveCursor P sequence w of
        (Inl e, w) \<Rightarrow> (Throw e, fails, w)
      | (Inr _, w) \<Rightarrow> (Advance c, fails, w))"

text \<open>The \<^verbatim>\<open>catch\<close> around \<^verbatim>\<open>applyRemote\<close>: count the failure and throw it on, or park the change.\<close>

definition apply_failed ::
    "'s ports \<Rightarrow> remote_event \<Rightarrow> failure \<Rightarrow> pull_counts \<Rightarrow> nat jsobj \<Rightarrow> 's \<Rightarrow> pull_step \<times> nat jsobj \<times> 's" where
  "apply_failed P ev e c fails w =
     (let rid = rr_revisionId (re_revision ev); attempts = apply_attempts fails rid
      in case sp_parkRemote P of
           Some park \<Rightarrow>
             if isAuthDenied e \<or> (attempts < MAX_APPLY_ATTEMPTS \<and> \<not> fl_permanentApply e)
             then (Throw e, map_set fails rid attempts, w)
             else
               (case park ev (fl_message e) w of
                  (Inl e', w) \<Rightarrow> (Throw e', map_delete fails rid, w)
                | (Inr _, w) \<Rightarrow> advance_cursor P (re_serverSequence ev) c (map_delete fails rid) w)
         | None \<Rightarrow> (Throw e, map_set fails rid attempts, w))"

definition apply_done ::
    "'s ports \<Rightarrow> remote_event \<Rightarrow> apply_outcome \<Rightarrow> pull_counts \<Rightarrow> nat jsobj \<Rightarrow> 's \<Rightarrow> pull_step \<times> nat jsobj \<times> 's" where
  "apply_done P ev outcome c fails w =
     (case outcome of
        OutDeferred \<Rightarrow> (Halt (c\<lparr>pc_deferred := pc_deferred c + 1\<rparr>), fails, w)
      | OutConflict \<Rightarrow> advance_cursor P (re_serverSequence ev) (c\<lparr>pc_conflicts := pc_conflicts c + 1\<rparr>) fails w
      | _ \<Rightarrow>
          (case (case sp_retireEquivalentMerges P of Some retire \<Rightarrow> retire ev w | None \<Rightarrow> (Inr (), w)) of
             (Inl e, w) \<Rightarrow> (Throw e, fails, w)
           | (Inr _, w) \<Rightarrow> advance_cursor P (re_serverSequence ev) (c\<lparr>pc_applied := pc_applied c + 1\<rparr>) fails w))"

text \<open>The body of the loop for the event right after the cursor.\<close>

definition pull_event ::
    "'s ports \<Rightarrow> int \<Rightarrow> remote_event \<Rightarrow> pull_counts \<Rightarrow> nat jsobj \<Rightarrow> 's \<Rightarrow> pull_step \<times> nat jsobj \<times> 's" where
  "pull_event P bootstrapTarget ev c fails w =
     (let sequence = re_serverSequence ev; rid = rr_revisionId (re_revision ev)
      in case sp_isLocallyAuthored P rid w of
           (Inl e, w) \<Rightarrow> (Throw e, fails, w)
         | (Inr True, w) \<Rightarrow> advance_cursor P sequence (c\<lparr>pc_suppressed := pc_suppressed c + 1\<rparr>) fails w
         | (Inr False, w) \<Rightarrow>
             (case vp_openBuffers P (rr_fileId (re_revision ev)) w of
                (Inl e, w) \<Rightarrow> (Throw e, fails, w)
              | (Inr unsaved, w) \<Rightarrow>
                  if list_ex (\<lambda>b. b) unsaved then (Halt (c\<lparr>pc_deferred := pc_deferred c + 1\<rparr>), fails, w)
                  else
                    (case vp_applyRemote P ev (sequence \<le> bootstrapTarget) w of
                       (Inl e, w) \<Rightarrow> apply_failed P ev e c fails w
                     | (Inr outcome, w) \<Rightarrow> apply_done P ev outcome c (map_delete fails rid) w)))"

fun pull_loop ::
    "'s ports \<Rightarrow> int \<Rightarrow> int \<Rightarrow> remote_event list \<Rightarrow> pull_counts \<Rightarrow> nat jsobj \<Rightarrow> 's \<Rightarrow>
     (failure + pull_counts) \<times> nat jsobj \<times> 's" where
  "pull_loop P bootstrapTarget cursor [] c fails w = (Inr c, fails, w)"
| "pull_loop P bootstrapTarget cursor (ev # evs) c fails w =
     (if re_serverSequence ev \<le> cursor then pull_loop P bootstrapTarget cursor evs c fails w
      else if re_serverSequence ev \<noteq> cursor + 1 then (Inr c, fails, w)
      else
        (case pull_event P bootstrapTarget ev c fails w of
           (Throw e, fails, w) \<Rightarrow> (Inl e, fails, w)
         | (Halt c, fails, w) \<Rightarrow> (Inr c, fails, w)
         | (Advance c, fails, w) \<Rightarrow> pull_loop P bootstrapTarget (re_serverSequence ev) evs c fails w))"

record runner =
  rn_inFlight :: bool
  rn_rerunRequested :: bool
  rn_failureCount :: nat
  rn_cycleCounter :: nat
  rn_stopped :: bool
  rn_timers :: "nat list"
  rn_applyFailures :: "nat jsobj"
  rn_bootstrapTarget :: "int option"

definition new_runner :: runner where
  "new_runner = \<lparr>rn_inFlight = False, rn_rerunRequested = False, rn_failureCount = 0, rn_cycleCounter = 0,
     rn_stopped = False, rn_timers = [], rn_applyFailures = [], rn_bootstrapTarget = None\<rparr>"

definition runPull :: "'s ports \<Rightarrow> runner \<Rightarrow> 's \<Rightarrow> (failure + pull_counts) \<times> runner \<times> 's" where
  "runPull P r w =
     (case sp_loadCursor P w of
        (Inl e, w) \<Rightarrow> (Inl e, r, w)
      | (Inr cursor, w) \<Rightarrow>
          (case tr_pull P cursor w of
             (Inl e, w) \<Rightarrow> (Inl e, r, w)
           | (Inr page, w) \<Rightarrow>
               (let target = or_else (rn_bootstrapTarget r) (pl_cursor page)
                in case pull_loop P target cursor (sort_key re_serverSequence (pl_events page))
                          \<lparr>pc_applied = 0, pc_suppressed = 0, pc_conflicts = 0, pc_deferred = 0\<rparr> (rn_applyFailures r) w of
                     (res, fails, w) \<Rightarrow>
                       (res, r\<lparr>rn_applyFailures := fails, rn_bootstrapTarget := Some target\<rparr>, w))))"

definition retryParked :: "'s ports \<Rightarrow> ident \<Rightarrow> ('s, bool) act" where
  "retryParked P rid =
     act_bind (case sp_listParkedRemote P of Some m \<Rightarrow> m | None \<Rightarrow> act_return []) (\<lambda>parked.
       case find (\<lambda>ev. rr_revisionId (re_revision ev) = rid) parked of
         None \<Rightarrow> act_return True
       | Some ev \<Rightarrow>
           act_bind (vp_applyRemote P ev False) (\<lambda>outcome.
             if outcome = OutDeferred then act_return False
             else act_bind (case sp_unparkRemote P of Some unpark \<Rightarrow> unpark rid | None \<Rightarrow> act_return ())
                    (\<lambda>_. act_return True)))"

section \<open>The cycle\<close>

record cycle_result =
  cr_status :: cycle_status
  cr_pushed :: nat
  cr_applied :: nat
  cr_suppressed :: nat
  cr_conflicts :: nat
  cr_deferred :: nat
  cr_quarantined :: nat
  cr_cycleId :: "nat option"
  cr_error :: "jsstr option"

definition idleCycleResult :: cycle_result where
  "idleCycleResult = \<lparr>cr_status = StSynced, cr_pushed = 0, cr_applied = 0, cr_suppressed = 0, cr_conflicts = 0,
     cr_deferred = 0, cr_quarantined = 0, cr_cycleId = None, cr_error = None\<rparr>"

text \<open>
  The \<^verbatim>\<open>try\<close> block of \<^verbatim>\<open>runCycle\<close>: a transient push failure waits until the pull is done. The error of the
  block, when there is one, is turned into a result by its \<^verbatim>\<open>catch\<close>.
\<close>

definition pull_phase ::
    "'s ports \<Rightarrow> runner \<Rightarrow> (failure + nat \<times> nat) \<Rightarrow> 's \<Rightarrow> (failure + (nat \<times> nat) \<times> pull_counts) \<times> runner \<times> 's" where
  "pull_phase P r push w =
     (case optional_act (hk_beforePull P) w of
        (Inl e, w) \<Rightarrow> (Inl e, r, w)
      | (Inr _, w) \<Rightarrow>
          (case runPull P r w of
             (Inl e, r, w) \<Rightarrow> (Inl e, r, w)
           | (Inr counts, r, w) \<Rightarrow>
               (case optional_act (hk_afterPull P) w of
                  (Inl e, w) \<Rightarrow> (Inl e, r, w)
                | (Inr _, w) \<Rightarrow>
                    (case push of Inl e \<Rightarrow> (Inl e, r, w) | Inr x \<Rightarrow> (Inr (x, counts), r, w)))))"

definition cycle_body ::
    "'s ports \<Rightarrow> runner_options \<Rightarrow> runner \<Rightarrow> 's \<Rightarrow> (failure + (nat \<times> nat) \<times> pull_counts) \<times> runner \<times> 's" where
  "cycle_body P opts r w =
     (case optional_act (hk_beforeCycle P) w of
        (Inl e, w) \<Rightarrow> (Inl e, r, w)
      | (Inr _, w) \<Rightarrow>
          (case runPush P opts w of
             (Inl e, w) \<Rightarrow> if isAuthDenied e then (Inl e, r, w) else pull_phase P r (Inl e) w
           | (Inr x, w) \<Rightarrow> pull_phase P r (Inr x) w))"

text \<open>
  \<^verbatim>\<open>scheduleBackoff\<close> with a scheduler that fires later, as the production one does: the delay it asks for
  and the runner with the timer, named by its cycle, among the pending cancellations. \<open>rnd\<close> is the
  value of \<^verbatim>\<open>random()\<close>.
\<close>

definition backoff_ceiling :: "runner_options \<Rightarrow> nat \<Rightarrow> rat" where
  "backoff_ceiling opts failureCount = min (ro_maxBackoffMs opts) (ro_baseBackoffMs opts * 2 ^ (failureCount - 1))"

definition scheduleBackoff :: "runner_options \<Rightarrow> rat \<Rightarrow> runner \<Rightarrow> rat option \<times> runner" where
  "scheduleBackoff opts rnd r =
     (if rn_stopped r then (None, r)
      else
        (let failureCount = rn_failureCount r + 1;
             half = backoff_ceiling opts failureCount / 2
         in (Some (half + rnd * half),
             r\<lparr>rn_failureCount := failureCount, rn_timers := rn_timers r @ [rn_cycleCounter r]\<rparr>)))"

definition runCycle ::
    "'s ports \<Rightarrow> runner_options \<Rightarrow> rat \<Rightarrow> runner \<Rightarrow> 's \<Rightarrow> cycle_result \<times> rat option \<times> runner \<times> 's" where
  "runCycle P opts rnd r w =
     (case cycle_body P opts r w of
        (Inr ((pushed, quarantined), c), r, w) \<Rightarrow>
          (\<lparr>cr_status = resolveStatus c, cr_pushed = pushed, cr_applied = pc_applied c, cr_suppressed = pc_suppressed c,
            cr_conflicts = pc_conflicts c, cr_deferred = pc_deferred c, cr_quarantined = quarantined,
            cr_cycleId = Some (rn_cycleCounter r), cr_error = None\<rparr>, None, r\<lparr>rn_failureCount := 0\<rparr>, w)
      | (Inl e, r, w) \<Rightarrow>
          (case (if isAuthDenied e then (None, r) else scheduleBackoff opts rnd r) of (delay, r) \<Rightarrow>
             (idleCycleResult\<lparr>cr_status := (if isAuthDenied e then StUnauthenticated else StOffline),
                cr_cycleId := Some (rn_cycleCounter r), cr_error := Some (fl_message e)\<rparr>, delay, r, w)))"

section \<open>Triggers\<close>

text \<open>
  The loop around the cycles, one event at a time: a trigger, the end of the running cycle (whose
  effects on the world happen here), a fired timer, a stop. \<open>start_cycle\<close> is the head of the loop
  together with the first line of \<^verbatim>\<open>runCycle\<close>.
\<close>

definition start_cycle :: "runner \<Rightarrow> runner" where
  "start_cycle r = r\<lparr>rn_rerunRequested := False, rn_inFlight := True, rn_cycleCounter := rn_cycleCounter r + 1\<rparr>"

definition trigger :: "runner \<Rightarrow> runner" where
  "trigger r =
     (if rn_stopped r then r
      else if rn_inFlight r then r\<lparr>rn_rerunRequested := True\<rparr>
      else start_cycle r)"

definition stop :: "runner \<Rightarrow> runner" where
  "stop r = r\<lparr>rn_stopped := True, rn_timers := []\<rparr>"

definition cycle_ends :: "'s ports \<Rightarrow> runner_options \<Rightarrow> rat \<Rightarrow> runner \<Rightarrow> 's \<Rightarrow> runner \<times> 's" where
  "cycle_ends P opts rnd r w =
     (if \<not> rn_inFlight r then (r, w)
      else
        (case runCycle P opts rnd r w of (_, _, r, w) \<Rightarrow>
           (let r = r\<lparr>rn_inFlight := False\<rparr>
            in (if rn_rerunRequested r \<and> \<not> rn_stopped r then start_cycle r else r, w))))"

definition timer_fires :: "nat \<Rightarrow> runner \<Rightarrow> runner" where
  "timer_fires t r = (if t \<in> set (rn_timers r) then trigger (r\<lparr>rn_timers := removeAll t (rn_timers r)\<rparr>) else r)"

datatype runner_event = Trigger | CycleEnds rat | TimerFires nat | Stop

fun runner_step :: "'s ports \<Rightarrow> runner_options \<Rightarrow> runner \<times> 's \<Rightarrow> runner_event \<Rightarrow> runner \<times> 's" where
  "runner_step P opts (r, w) Trigger = (trigger r, w)"
| "runner_step P opts (r, w) (CycleEnds rnd) = cycle_ends P opts rnd r w"
| "runner_step P opts (r, w) (TimerFires t) = (timer_fires t r, w)"
| "runner_step P opts (r, w) Stop = (stop r, w)"

end
