(* ===== verification/SyncRunner_Theorems.thy ===== *)
theory SyncRunner_Theorems
  imports SyncRunner
begin

text \<open>
  What the runner promises on the push side and about its cycles: batches respect the budgets and
  cover the outbox, a quarantine takes a revision and exactly its queued descendants, one poisoned
  revision never holds up the rest of the queue, backoff delays stay within bounds, and a stopped
  runner starts nothing.
\<close>

section \<open>Batches\<close>

definition batch_bytes :: "push_revision list \<Rightarrow> int" where
  "batch_bytes b = sum_list (map item_bytes b)"

definition batch_ok :: "runner_options \<Rightarrow> push_revision list \<Rightarrow> bool" where
  "batch_ok opts b \<longleftrightarrow>
     b \<noteq> [] \<and> length b \<le> ro_maxPushBatchItems opts \<and> (length b = 1 \<or> batch_bytes b \<le> ro_maxPushBatchBytes opts)"

lemma plan_loop_sound:
  assumes "\<forall>b \<in> set batches. batch_ok opts b" "current = [] \<or> batch_ok opts current" "1 \<le> ro_maxPushBatchItems opts"
    and "bytes = batch_bytes current"
  shows "concat (plan_loop opts outbox batches current bytes) = concat batches @ current @ outbox \<and>
    (\<forall>b \<in> set (plan_loop opts outbox batches current bytes). batch_ok opts b)"
  using assms
proof (induction outbox arbitrary: batches current bytes)
  case Nil
  then show ?case by auto
next
  case (Cons item outbox)
  let ?over = "length current > 0 \<and> (length current \<ge> ro_maxPushBatchItems opts \<or>
    bytes + item_bytes item > ro_maxPushBatchBytes opts)"
  show ?case
  proof (cases ?over)
    case True
    have eq: "plan_loop opts (item # outbox) batches current bytes =
        plan_loop opts outbox (batches @ [current]) [item] (item_bytes item)" using True by simp
    have b1: "batch_ok opts [item]" using Cons.prems(3) by (simp add: batch_ok_def)
    have b2: "\<forall>b \<in> set (batches @ [current]). batch_ok opts b" using Cons.prems(1,2) True by auto
    have "concat (plan_loop opts outbox (batches @ [current]) [item] (item_bytes item)) =
        concat (batches @ [current]) @ [item] @ outbox \<and>
        (\<forall>b \<in> set (plan_loop opts outbox (batches @ [current]) [item] (item_bytes item)). batch_ok opts b)"
      by (rule Cons.IH [OF b2 disjI2 [OF b1] Cons.prems(3)]) (simp add: batch_bytes_def)
    then show ?thesis unfolding eq by auto
  next
    case False
    have eq: "plan_loop opts (item # outbox) batches current bytes =
        plan_loop opts outbox batches (current @ [item]) (bytes + item_bytes item)"
      using False by (auto simp: Let_def)
    have b1: "batch_ok opts (current @ [item])"
      using False Cons.prems(2,3,4) by (cases current) (auto simp: batch_ok_def batch_bytes_def)
    have "concat (plan_loop opts outbox batches (current @ [item]) (bytes + item_bytes item)) =
        concat batches @ (current @ [item]) @ outbox \<and>
        (\<forall>b \<in> set (plan_loop opts outbox batches (current @ [item]) (bytes + item_bytes item)). batch_ok opts b)"
      by (rule Cons.IH [OF Cons.prems(1) disjI2 [OF b1] Cons.prems(3)]) (simp add: batch_bytes_def Cons.prems(4))
    then show ?thesis unfolding eq by auto
  qed
qed

text \<open>
  The batches of a push are the outbox, cut into consecutive pieces: nothing is left out, sent
  twice or reordered. No batch is empty or has more revisions than the server takes, and a batch of
  more than one revision fits the byte budget, so only a revision that is too large by itself can
  exceed it, alone in its batch.
\<close>

theorem planPushBatches_sound:
  assumes "1 \<le> ro_maxPushBatchItems opts"
  shows "concat (planPushBatches opts outbox) = outbox \<and>
    (\<forall>b \<in> set (planPushBatches opts outbox). b \<noteq> [] \<and> length b \<le> ro_maxPushBatchItems opts \<and>
       (length b = 1 \<or> batch_bytes b \<le> ro_maxPushBatchBytes opts))"
  using plan_loop_sound [of "[]" opts "[]" 0 outbox] assms
  by (simp add: planPushBatches_def batch_bytes_def batch_ok_def)

definition ex_item :: "nat \<Rightarrow> int \<Rightarrow> nat list \<Rightarrow> push_revision" where
  "ex_item n bytes parents = \<lparr>pv_revisionId = [n], pv_fileId = [100], pv_contentHash = [], pv_payloadBytes = Some bytes,
     pv_parentRevisionIds = (if parents = [] then None else Some (map (\<lambda>p. [p]) parents))\<rparr>"

theorem planPushBatches_sound_witness:
  "concat (planPushBatches runner_defaults [ex_item 1 400000 [], ex_item 2 200000 [1]]) =
     [ex_item 1 400000 [], ex_item 2 200000 [1]] \<and>
   length (planPushBatches runner_defaults [ex_item 1 400000 [], ex_item 2 200000 [1]]) = 2"
proof -
  have "1 \<le> ro_maxPushBatchItems runner_defaults" by (simp add: runner_defaults_def)
  from planPushBatches_sound [OF this, of "[ex_item 1 400000 [], ex_item 2 200000 [1]]"]
  show ?thesis
    by (simp add: planPushBatches_def item_bytes_def ex_item_def runner_defaults_def or_else_def)
qed

section \<open>Lineage\<close>

lemma childrenOf_add_child:
  "map_of (add_child c p m) q = (if q = p then Some (or_else (map_of m p) [] @ [c]) else map_of m q)"
  by (auto simp: add_child_def or_else_def split: option.splits)

lemma childrenOf_add_children:
  "set (or_else (map_of (fold (add_child c) ps m) q) []) =
     set (or_else (map_of m q) []) \<union> (if q \<in> set ps then {c} else {})"
  by (induction ps arbitrary: m) (auto simp: childrenOf_add_child or_else_def)

lemma childrenOf_fold:
  "set (or_else (map_of (li_children (fold add_item outbox l)) p) []) =
     set (or_else (map_of (li_children l) p) []) \<union>
     {c. \<exists>item \<in> set outbox. pv_revisionId item = c \<and> p \<in> set (item_parents item)}"
  by (induction outbox arbitrary: l) (auto simp: add_item_def childrenOf_add_children split: if_splits)

lemma set_childrenOf:
  "set (childrenOf (buildLineageIndex outbox) p) =
     {c. \<exists>item \<in> set outbox. pv_revisionId item = c \<and> p \<in> set (item_parents item)}"
  using childrenOf_fold [of outbox "\<lparr>li_parents = [], li_children = []\<rparr>" p]
  by (simp add: childrenOf_def buildLineageIndex_def or_else_def)

section \<open>Quarantine\<close>

text \<open>The edges from a queued revision to a child that is still pending.\<close>

definition pending_child :: "lineage \<Rightarrow> ident set \<Rightarrow> (ident \<times> ident) set" where
  "pending_child l A = {(p, c). c \<in> set (childrenOf l p) \<and> c \<in> A}"

lemma set_add_simps [simp]: "set (set_add xs x) = insert x (set xs)" "distinct (set_add xs x) = distinct xs"
  by (auto simp: set_add_def)

lemma quarantine_loop_sets:
  assumes "quarantine_loop P l work st w = (res, st', w')"
  shows "set (pu_pending st') \<subseteq> set (pu_pending st) \<and> pu_accepted st' = pu_accepted st \<and> pu_pushed st' = pu_pushed st \<and>
    set (pu_quarantined st') = set (pu_quarantined st) \<union> (set (pu_pending st) - set (pu_pending st')) \<and>
    (distinct (pu_quarantined st) \<longrightarrow> distinct (pu_quarantined st')) \<and> (distinct (pu_pending st) \<longrightarrow> distinct (pu_pending st'))"
  using assms
proof (induction P l work st w rule: quarantine_loop.induct)
  case (1 P l st w)
  then show ?case by auto
next
  case (2 P l i reason work st w)
  show ?case
  proof (cases "i \<in> set (pu_pending st)")
    case False
    then show ?thesis using "2.IH"(1) "2.prems" by simp
  next
    case True
    let ?st = "st\<lparr>pu_pending := removeAll i (pu_pending st), pu_quarantined := set_add (pu_quarantined st) i\<rparr>"
    obtain r w1 where q: "sp_quarantineOutboxItem P i reason w = (r, w1)" by (cases "sp_quarantineOutboxItem P i reason w")
    show ?thesis
    proof (cases r)
      case (Inl e)
      then show ?thesis using "2.prems" True q by (auto simp: distinct_removeAll)
    next
      case (Inr u)
      have "quarantine_loop P l (work @ map (\<lambda>c. (c, PARENT_QUARANTINED_REASON)) (childrenOf l i)) ?st w1 = (res, st', w')"
        using "2.prems" True q Inr by (simp add: Let_def)
      from "2.IH"(2) [OF _ refl q [symmetric, unfolded Inr] refl this] True
      show ?thesis by (auto simp: distinct_removeAll)
    qed
  qed
qed

lemma quarantine_loop_closed:
  assumes "quarantine_loop P l work st w = (Inr u, st', w')"
  shows "fst ` set work \<inter> set (pu_pending st') = {}"
    and "\<And>i c. i \<in> set (pu_pending st) - set (pu_pending st') \<Longrightarrow> c \<in> set (childrenOf l i) \<Longrightarrow> c \<notin> set (pu_pending st')"
proof -
  have "fst ` set work \<inter> set (pu_pending st') = {} \<and>
    (\<forall>i \<in> set (pu_pending st) - set (pu_pending st'). \<forall>c \<in> set (childrenOf l i). c \<notin> set (pu_pending st'))"
    using assms
  proof (induction P l work st w rule: quarantine_loop.induct)
    case (1 P l st w)
    then show ?case by auto
  next
    case (2 P l i reason work st w)
    show ?case
    proof (cases "i \<in> set (pu_pending st)")
      case False
      have "quarantine_loop P l work st w = (Inr u, st', w')" using False "2.prems" by simp
      note ih = "2.IH"(1) [OF False this] and sub = quarantine_loop_sets [OF this]
      have "i \<notin> set (pu_pending st')" using sub False by blast
      then show ?thesis using ih by auto
    next
      case True
      let ?st = "st\<lparr>pu_pending := removeAll i (pu_pending st), pu_quarantined := set_add (pu_quarantined st) i\<rparr>"
      let ?work = "work @ map (\<lambda>c. (c, PARENT_QUARANTINED_REASON)) (childrenOf l i)"
      obtain r w1 where q: "sp_quarantineOutboxItem P i reason w = (r, w1)" by (cases "sp_quarantineOutboxItem P i reason w")
      obtain v where r: "r = Inr v" using "2.prems" True q by (cases r) (auto simp: Let_def)
      have loop: "quarantine_loop P l ?work ?st w1 = (Inr u, st', w')"
        using "2.prems" True q r by (simp add: Let_def)
      have sets: "set (pu_pending st') \<subseteq> set (pu_pending st) - {i}" using quarantine_loop_sets [OF loop] by auto
      have ih: "fst ` set ?work \<inter> set (pu_pending st') = {}"
        "\<forall>j \<in> set (pu_pending ?st) - set (pu_pending st'). \<forall>c \<in> set (childrenOf l j). c \<notin> set (pu_pending st')"
        using "2.IH"(2) [OF _ refl q [symmetric, unfolded r] refl loop] True by blast+
      have work: "fst ` set ?work = fst ` set work \<union> set (childrenOf l i)" by (auto simp: image_Un image_image)
      show ?thesis
      proof (intro conjI ballI)
        show "fst ` set ((i, reason) # work) \<inter> set (pu_pending st') = {}" using ih(1) sets unfolding work by auto
        fix j c assume j: "j \<in> set (pu_pending st) - set (pu_pending st')" "c \<in> set (childrenOf l j)"
        show "c \<notin> set (pu_pending st')"
          using ih j unfolding work by (cases "j = i") auto
      qed
    qed
  qed
  then show "fst ` set work \<inter> set (pu_pending st') = {}"
    "\<And>i c. i \<in> set (pu_pending st) - set (pu_pending st') \<Longrightarrow> c \<in> set (childrenOf l i) \<Longrightarrow> c \<notin> set (pu_pending st')"
    by blast+
qed

lemma quarantine_loop_reachable:
  assumes "quarantine_loop P l work st w = (res, st', w')" "set (pu_pending st) \<subseteq> A"
    and "i \<in> set (pu_pending st) - set (pu_pending st')"
  shows "\<exists>j \<in> fst ` set work. j \<in> A \<and> (j, i) \<in> (pending_child l A)\<^sup>*"
  using assms
proof (induction P l work st w rule: quarantine_loop.induct)
  case (1 P l st w)
  then show ?case by auto
next
  case (2 P l k reason work st w)
  show ?case
  proof (cases "k \<in> set (pu_pending st)")
    case False
    then have "quarantine_loop P l work st w = (res, st', w')" using "2.prems" by simp
    then show ?thesis using "2.IH"(1) [OF False _ "2.prems"(2,3)] by auto
  next
    case True
    let ?st = "st\<lparr>pu_pending := removeAll k (pu_pending st), pu_quarantined := set_add (pu_quarantined st) k\<rparr>"
    let ?work = "work @ map (\<lambda>c. (c, PARENT_QUARANTINED_REASON)) (childrenOf l k)"
    have k: "k \<in> A" using True "2.prems"(2) by blast
    show ?thesis
    proof (cases "i = k")
      case True
      then show ?thesis using k by auto
    next
      case False
      obtain r w1 where q: "sp_quarantineOutboxItem P k reason w = (r, w1)" by (cases "sp_quarantineOutboxItem P k reason w")
      have "\<not> (\<exists>e. r = Inl e)" using "2.prems" True q False by (auto simp: Let_def)
      then obtain v where r: "r = Inr v" by (cases r) auto
      have loop: "quarantine_loop P l ?work ?st w1 = (res, st', w')" using "2.prems" True q r by (simp add: Let_def)
      have "\<exists>j \<in> fst ` set ?work. j \<in> A \<and> (j, i) \<in> (pending_child l A)\<^sup>*"
        by (rule "2.IH"(2) [OF _ refl q [symmetric, unfolded r] refl loop]) (use True "2.prems"(2,3) False in auto)
      then obtain j where j: "j \<in> fst ` set work \<union> set (childrenOf l k)" "j \<in> A" "(j, i) \<in> (pending_child l A)\<^sup>*"
        by (auto simp: image_Un image_image)
      show ?thesis
      proof (cases "j \<in> fst ` set work")
        case True
        then show ?thesis using j by auto
      next
        case False
        then have "(k, j) \<in> pending_child l A" using j by (auto simp: pending_child_def)
        then have "(k, i) \<in> (pending_child l A)\<^sup>*" using j(3) by (rule converse_rtrancl_into_rtrancl)
        then show ?thesis using k by auto
      qed
    qed
  qed
qed

text \<open>
  Quarantining a revision takes it and exactly its queued descendants out of the running push:
  the loop always ends; what leaves the pending set is the root and everything reachable from it
  along parent links inside the outbox, nothing else, so no doomed child is shipped and no
  unrelated revision is dead-lettered. Accepted revisions are untouched, and every revision that
  left is in the quarantined set.
\<close>

theorem quarantine_takes_exactly_the_lineage:
  assumes "quarantineLineage P (buildLineageIndex outbox) rootId reason st w = (Inr u, st', w')"
    and "rootId \<in> set (pu_pending st)"
  shows "set (pu_pending st) - set (pu_pending st') =
      {i. (rootId, i) \<in> {(p, c). c \<in> set (pu_pending st) \<and>
        (\<exists>item \<in> set outbox. pv_revisionId item = c \<and> p \<in> set (item_parents item))}\<^sup>*} \<and>
    pu_accepted st' = pu_accepted st \<and>
    set (pu_quarantined st') = set (pu_quarantined st) \<union> (set (pu_pending st) - set (pu_pending st'))"
proof -
  let ?l = "buildLineageIndex outbox" and ?A = "set (pu_pending st)"
  have loop: "quarantine_loop P ?l [(rootId, reason)] st w = (Inr u, st', w')"
    using assms(1) by (simp add: quarantineLineage_def)
  have rel: "{(p, c). c \<in> ?A \<and> (\<exists>item \<in> set outbox. pv_revisionId item = c \<and> p \<in> set (item_parents item))} = pending_child ?l ?A"
    by (auto simp: pending_child_def set_childrenOf)
  have rootId: "rootId \<in> ?A - set (pu_pending st')"
    using assms(2) quarantine_loop_closed(1) [OF loop] by auto
  have "i \<in> ?A - set (pu_pending st')" if "(rootId, i) \<in> (pending_child ?l ?A)\<^sup>*" for i
    using that
  proof (induction rule: rtrancl_induct)
    case base
    show ?case by (rule rootId)
  next
    case (step y z)
    then show ?case using quarantine_loop_closed(2) [OF loop] by (auto simp: pending_child_def)
  qed
  moreover have "(rootId, i) \<in> (pending_child ?l ?A)\<^sup>*" if "i \<in> ?A - set (pu_pending st')" for i
    using quarantine_loop_reachable [OF loop subset_refl that] by auto
  ultimately have "?A - set (pu_pending st') = {i. (rootId, i) \<in> (pending_child ?l ?A)\<^sup>*}" by blast
  then show ?thesis unfolding rel using quarantine_loop_sets [OF loop] by simp
qed

section \<open>A poisoned revision does not hold up the queue\<close>

lemma quarantine_loop_total:
  assumes "\<And>i reason w. \<exists>w'. sp_quarantineOutboxItem P i reason w = (Inr (), w')"
  shows "\<exists>st' w'. quarantine_loop P l work st w = (Inr (), st', w')"
  using assms
proof (induction P l work st w rule: quarantine_loop.induct)
  case (1 P l st w)
  then show ?case by simp
next
  case (2 P l i reason work st w)
  obtain w1 where q: "sp_quarantineOutboxItem P i reason w = (Inr (), w1)" using "2.prems" by blast
  show ?case
    using "2.IH"(1) [OF _ "2.prems"] "2.IH"(2) [OF _ refl q [symmetric] refl "2.prems"] q by (simp add: Let_def)
qed

text \<open>The revisions that descend from a set of revisions along the outbox, the set itself included.\<close>

definition outbox_edges :: "push_revision list \<Rightarrow> (ident \<times> ident) set" where
  "outbox_edges outbox = {(p, c). \<exists>item \<in> set outbox. pv_revisionId item = c \<and> p \<in> set (item_parents item)}"

definition descendants :: "push_revision list \<Rightarrow> ident set \<Rightarrow> ident set" where
  "descendants outbox X = (outbox_edges outbox)\<^sup>* `` X"

text \<open>
  What the server says of a revision it looks at: one of \<open>Y\<close> is refused for good by itself, one that
  descends from a poisoned revision is missing its parent there, every other is accepted.
\<close>

definition verdict :: "push_revision list \<Rightarrow> ident set \<Rightarrow> ident set \<Rightarrow> push_item_result \<Rightarrow> bool" where
  "verdict outbox X Y r \<longleftrightarrow>
     (if pi_revisionId r \<in> Y then pi_outcome r = ItemRejected \<and> pi_permanent r = Some True
      else if pi_revisionId r \<in> descendants outbox (X \<union> Y)
      then pi_outcome r = ItemRejected \<and> pi_permanent r \<noteq> Some True \<and> pi_missingParent r = Some True
      else pi_outcome r = ItemAccepted \<and> pi_receipt r \<noteq> None)"

text \<open>
  A server that refuses as a whole, for good, every request with a revision of \<open>X\<close>, without saying
  which it means, and answers every other request with one verdict per revision; the local state's
  writes and reads succeed.
\<close>

definition poisoned :: "'s ports \<Rightarrow> push_revision list \<Rightarrow> ident set \<Rightarrow> ident set \<Rightarrow> bool" where
  "poisoned P outbox X Y \<longleftrightarrow>
     (\<forall>i reason w. \<exists>w'. sp_quarantineOutboxItem P i reason w = (Inr (), w')) \<and>
     (\<forall>r w. \<exists>w'. sp_recordPushReceipt P r w = (Inr (), w')) \<and>
     (\<forall>i w. \<exists>b w'. sp_isLocallyAuthored P i w = (Inr b, w')) \<and>
     (\<forall>live w. \<exists>w'. if pv_revisionId ` set live \<inter> X \<noteq> {}
        then \<exists>e. tr_push P live w = (Inl e, w') \<and> isPermanentError e \<and> \<not> isAuthDenied e
        else \<exists>results. tr_push P live w = (Inr results, w') \<and> map pi_revisionId results = map pv_revisionId live \<and>
               (\<forall>r \<in> set results. verdict outbox X Y r))"

text \<open>
  The sets of a push under such a server: what is accepted descends from no poisoned revision, what is
  quarantined does, and no child of a quarantined revision is still pending, whatever the batch.
\<close>

definition lineage_inv :: "push_revision list \<Rightarrow> ident set \<Rightarrow> push_state \<Rightarrow> bool" where
  "lineage_inv outbox Z st \<longleftrightarrow>
     set (pu_pending st) \<union> set (pu_accepted st) \<union> set (pu_quarantined st) = pv_revisionId ` set outbox \<and>
     set (pu_pending st) \<inter> set (pu_accepted st) = {} \<and> set (pu_pending st) \<inter> set (pu_quarantined st) = {} \<and>
     set (pu_accepted st) \<inter> descendants outbox Z = {} \<and> set (pu_quarantined st) \<subseteq> descendants outbox Z \<and>
     (\<forall>i \<in> set (pu_quarantined st). set (childrenOf (buildLineageIndex outbox) i) \<inter> set (pu_pending st) = {})"

text \<open>The batches still to send hold every pending revision, except doomed ones that were sent already.\<close>

definition queue_inv :: "push_revision list \<Rightarrow> ident set \<Rightarrow> push_revision list list \<Rightarrow> push_state \<Rightarrow> bool" where
  "queue_inv outbox Z queue st \<longleftrightarrow> lineage_inv outbox Z st \<and>
     set (pu_pending st) - (descendants outbox Z - Z) \<subseteq> pv_revisionId ` set (concat queue)"

lemma descendants_refl: "x \<in> X \<Longrightarrow> x \<in> descendants outbox X"
  by (auto simp: descendants_def)

lemma descendants_step: "i \<in> descendants outbox X \<Longrightarrow> (i, j) \<in> (outbox_edges outbox)\<^sup>* \<Longrightarrow> j \<in> descendants outbox X"
  unfolding descendants_def Image_iff by (meson rtrancl_trans)

lemma childrenOf_edges: "c \<in> set (childrenOf (buildLineageIndex outbox) p) \<longleftrightarrow> (p, c) \<in> outbox_edges outbox"
  by (simp add: set_childrenOf outbox_edges_def)

lemma pending_child_edges: "(pending_child (buildLineageIndex outbox) A)\<^sup>* \<subseteq> (outbox_edges outbox)\<^sup>*"
  by (rule rtrancl_mono) (auto simp: pending_child_def childrenOf_edges)

lemma lineage_invD:
  assumes "lineage_inv outbox Z st"
  shows "set (pu_pending st) \<union> set (pu_accepted st) \<union> set (pu_quarantined st) = pv_revisionId ` set outbox"
    and "i \<in> set (pu_pending st) \<Longrightarrow> i \<notin> set (pu_accepted st) \<and> i \<notin> set (pu_quarantined st)"
    and "i \<in> set (pu_accepted st) \<Longrightarrow> i \<notin> descendants outbox Z"
    and "set (pu_quarantined st) \<subseteq> descendants outbox Z"
    and "i \<in> set (pu_quarantined st) \<Longrightarrow> (i, c) \<in> outbox_edges outbox \<Longrightarrow> c \<notin> set (pu_pending st)"
proof -
  note facts = assms [unfolded lineage_inv_def]
  show "set (pu_pending st) \<union> set (pu_accepted st) \<union> set (pu_quarantined st) = pv_revisionId ` set outbox"
    "set (pu_quarantined st) \<subseteq> descendants outbox Z" using facts by simp_all
  show "i \<notin> set (pu_accepted st) \<and> i \<notin> set (pu_quarantined st)" if "i \<in> set (pu_pending st)"
    using facts that by (simp add: disjoint_iff)
  show "i \<notin> descendants outbox Z" if "i \<in> set (pu_accepted st)" using facts that by (simp add: disjoint_iff)
  show "c \<notin> set (pu_pending st)" if "i \<in> set (pu_quarantined st)" "(i, c) \<in> outbox_edges outbox"
    using facts that by (simp add: disjoint_iff childrenOf_edges)
qed

lemma lineage_invI:
  assumes "set (pu_pending st) \<union> set (pu_accepted st) \<union> set (pu_quarantined st) = pv_revisionId ` set outbox"
    and "\<And>i. i \<in> set (pu_pending st) \<Longrightarrow> i \<notin> set (pu_accepted st) \<and> i \<notin> set (pu_quarantined st)"
    and "\<And>i. i \<in> set (pu_accepted st) \<Longrightarrow> i \<notin> descendants outbox Z"
    and "set (pu_quarantined st) \<subseteq> descendants outbox Z"
    and "\<And>i c. i \<in> set (pu_quarantined st) \<Longrightarrow> (i, c) \<in> outbox_edges outbox \<Longrightarrow> c \<notin> set (pu_pending st)"
  shows "lineage_inv outbox Z st"
proof -
  have "set (childrenOf (buildLineageIndex outbox) i) \<inter> set (pu_pending st) = {}" if "i \<in> set (pu_quarantined st)" for i
    using assms(5) [OF that] by (auto simp: childrenOf_edges)
  then show ?thesis using assms(1-4) unfolding lineage_inv_def by (simp add: disjoint_iff)
qed

lemma quarantine_inv:
  assumes inv: "lineage_inv outbox Z st" and i: "i \<in> descendants outbox Z"
    and q: "quarantine_loop P (buildLineageIndex outbox) [(i, reason)] st w = (Inr (), st', w')"
  shows "lineage_inv outbox Z st'" "i \<notin> set (pu_pending st')" "set (pu_pending st') \<subseteq> set (pu_pending st)"
proof -
  note sets = quarantine_loop_sets [OF q]
  show sub: "set (pu_pending st') \<subseteq> set (pu_pending st)" using sets by blast
  show "i \<notin> set (pu_pending st')" using quarantine_loop_closed(1) [OF q] by auto
  have new: "j \<in> descendants outbox Z" if "j \<in> set (pu_pending st) - set (pu_pending st')" for j
    using quarantine_loop_reachable [OF q subset_refl that] pending_child_edges descendants_step [OF i] by auto
  show "lineage_inv outbox Z st'"
  proof (rule lineage_invI)
    show "set (pu_pending st') \<union> set (pu_accepted st') \<union> set (pu_quarantined st') = pv_revisionId ` set outbox"
      using lineage_invD(1) [OF inv] sets by auto
    show "j \<notin> set (pu_accepted st') \<and> j \<notin> set (pu_quarantined st')" if "j \<in> set (pu_pending st')" for j
      using lineage_invD(2) [OF inv, of j] sets sub that by auto
    show "j \<notin> descendants outbox Z" if "j \<in> set (pu_accepted st')" for j
      using lineage_invD(3) [OF inv, of j] sets that by simp
    show "set (pu_quarantined st') \<subseteq> descendants outbox Z" using lineage_invD(4) [OF inv] sets new by auto
    show "c \<notin> set (pu_pending st')" if "j \<in> set (pu_quarantined st')" "(j, c) \<in> outbox_edges outbox" for j c
    proof (cases "j \<in> set (pu_quarantined st)")
      case True
      from lineage_invD(5) [OF inv this that(2)] show ?thesis using sub by blast
    next
      case False
      then have "j \<in> set (pu_pending st) - set (pu_pending st')" using sets that(1) by auto
      from quarantine_loop_closed(2) [OF q this] show ?thesis using that(2) by (simp add: childrenOf_edges)
    qed
  qed
qed

lemma viable_loop_total:
  assumes "\<And>i w. \<exists>b w'. sp_isLocallyAuthored P i w = (Inr b, w')"
  shows "\<exists>b w'. viable_loop P ps st w = (Inr b, w')"
proof (induction ps arbitrary: w)
  case (Cons p ps)
  obtain b w1 where b: "sp_isLocallyAuthored P p w = (Inr b, w1)" using assms by blast
  consider (known) "p \<in> set (pu_pending st) \<or> p \<in> set (pu_accepted st)" | (authored) b | (next_parent) "\<not> b" by blast
  then show ?case
  proof cases
    case known
    then show ?thesis by (intro exI [of _ True]) (auto simp: act_return_def)
  next
    case authored
    then show ?thesis using b by (intro exI [of _ True]) (auto simp: act_return_def act_bind_def)
  next
    case next_parent
    have "viable_loop P (p # ps) st w = (Inr True, w) \<or> viable_loop P (p # ps) st w = viable_loop P ps st w1"
      using b next_parent by (simp add: act_return_def act_bind_def)
    then show ?thesis using Cons.IH [of w1] by metis
  qed
qed (auto simp: act_return_def intro: exI [of _ False])

text \<open>One result: the revision it is about is not pending afterwards, or it is doomed.\<close>

lemma handle_result_inv:
  assumes server: "poisoned P outbox X Y" and inv: "lineage_inv outbox (X \<union> Y) st"
    and r: "verdict outbox X Y r" "pi_revisionId r \<in> pv_revisionId ` set outbox"
  shows "\<exists>st' w'. handle_result P (buildLineageIndex outbox) r st w = (Inr (), st', w') \<and> lineage_inv outbox (X \<union> Y) st' \<and>
    set (pu_pending st') \<subseteq> set (pu_pending st) \<and>
    (pi_revisionId r \<in> set (pu_pending st') \<longrightarrow> pi_revisionId r \<in> descendants outbox (X \<union> Y) - Y)"
proof -
  let ?i = "pi_revisionId r" and ?l = "buildLineageIndex outbox" and ?Z = "X \<union> Y"
  have quarantine: "\<exists>st' w'. quarantineLineage P ?l ?i reason st w = (Inr (), st', w') \<and> lineage_inv outbox ?Z st' \<and>
      set (pu_pending st') \<subseteq> set (pu_pending st) \<and> ?i \<notin> set (pu_pending st')" if "?i \<in> descendants outbox ?Z" for reason w
    using quarantine_loop_total [of P ?l "[(?i, reason)]" st w] quarantine_inv [OF inv that] server
    unfolding poisoned_def quarantineLineage_def by metis
  show ?thesis
  proof (cases "?i \<in> set (pu_quarantined st)")
    case True
    then show ?thesis using inv by (auto simp: handle_result_def lineage_inv_def)
  next
    case live: False
    consider (poison) "?i \<in> Y" | (doomed) "?i \<notin> Y" "?i \<in> descendants outbox ?Z" | (fine) "?i \<notin> descendants outbox ?Z"
      using descendants_refl by blast
    then show ?thesis
    proof cases
      case poison
      then have "?i \<in> descendants outbox ?Z" by (simp add: descendants_refl)
      from quarantine [OF this] show ?thesis
        using r(1) live poison by (auto simp: handle_result_def verdict_def)
    next
      case doomed
      obtain b w1 where v: "parentStillViable P ?l ?i st w = (Inr b, w1)"
        using viable_loop_total [of P "parentsOf ?l ?i" st w] server by (auto simp: poisoned_def parentStillViable_def)
      show ?thesis
      proof (cases b)
        case True
        then show ?thesis using r(1) live doomed v inv by (simp add: handle_result_def verdict_def)
      next
        case False
        then show ?thesis
          using r(1) live doomed v quarantine [OF doomed(2), of MISSING_PARENT_REASON w1]
          by (auto simp: handle_result_def verdict_def)
      qed
    next
      case fine
      then have verdict: "pi_outcome r = ItemAccepted" "pi_receipt r \<noteq> None"
        using r(1) descendants_refl [of ?i ?Z outbox] by (auto simp: verdict_def split: if_split_asm)
      then obtain rc where rc: "pi_receipt r = Some rc" by blast
      obtain w1 where w1: "sp_recordPushReceipt P rc w = (Inr (), w1)" using server unfolding poisoned_def by blast
      let ?st = "st\<lparr>pu_pending := removeAll ?i (pu_pending st), pu_accepted := set_add (pu_accepted st) ?i,
        pu_pushed := pu_pushed st + 1\<rparr>"
      have "lineage_inv outbox ?Z ?st"
      proof (rule lineage_invI)
        show "set (pu_pending ?st) \<union> set (pu_accepted ?st) \<union> set (pu_quarantined ?st) = pv_revisionId ` set outbox"
          using lineage_invD(1) [OF inv] r(2) by auto
        show "j \<notin> set (pu_accepted ?st) \<and> j \<notin> set (pu_quarantined ?st)" if "j \<in> set (pu_pending ?st)" for j
          using lineage_invD(2) [OF inv, of j] that by auto
        show "j \<notin> descendants outbox ?Z" if "j \<in> set (pu_accepted ?st)" for j
          using lineage_invD(3) [OF inv, of j] fine that by auto
        show "set (pu_quarantined ?st) \<subseteq> descendants outbox ?Z" using lineage_invD(4) [OF inv] by simp
        show "c \<notin> set (pu_pending ?st)" if "j \<in> set (pu_quarantined ?st)" "(j, c) \<in> outbox_edges outbox" for j c
          using lineage_invD(5) [OF inv, of j c] that by simp
      qed
      then show ?thesis using verdict rc w1 live by (auto simp: handle_result_def)
    qed
  qed
qed

lemma results_loop_inv:
  assumes server: "poisoned P outbox X Y" and inv: "lineage_inv outbox (X \<union> Y) st"
    and rs: "\<forall>r \<in> set rs. verdict outbox X Y r \<and> pi_revisionId r \<in> pv_revisionId ` set outbox"
  shows "\<exists>st' w'. results_loop P (buildLineageIndex outbox) rs st w = (Inr (), st', w') \<and> lineage_inv outbox (X \<union> Y) st' \<and>
    set (pu_pending st') \<subseteq> set (pu_pending st) \<and>
    set (pu_pending st') \<inter> pi_revisionId ` set rs \<subseteq> descendants outbox (X \<union> Y) - Y"
  using inv rs
proof (induction rs arbitrary: st w)
  case (Cons r rs)
  obtain st1 w1 where one: "handle_result P (buildLineageIndex outbox) r st w = (Inr (), st1, w1)"
    "lineage_inv outbox (X \<union> Y) st1" "set (pu_pending st1) \<subseteq> set (pu_pending st)"
    "pi_revisionId r \<in> set (pu_pending st1) \<longrightarrow> pi_revisionId r \<in> descendants outbox (X \<union> Y) - Y"
    using handle_result_inv [OF server Cons.prems(1), of r w] Cons.prems(2) by auto
  obtain st2 w2 where two: "results_loop P (buildLineageIndex outbox) rs st1 w1 = (Inr (), st2, w2)"
    "lineage_inv outbox (X \<union> Y) st2" "set (pu_pending st2) \<subseteq> set (pu_pending st1)"
    "set (pu_pending st2) \<inter> pi_revisionId ` set rs \<subseteq> descendants outbox (X \<union> Y) - Y"
    using Cons.IH [OF one(2), of w1] Cons.prems(2) by auto
  have "set (pu_pending st2) \<inter> pi_revisionId ` set (r # rs) \<subseteq> descendants outbox (X \<union> Y) - Y"
    using one(4) two(3,4) by auto
  then show ?case using one two by auto
qed simp

text \<open>One batch: whatever it held leaves the pending set, is doomed, or waits in the rest of the queue.\<close>

lemma queue_inv_tail:
  assumes "queue_inv outbox Z (batch # queue) st" "lineage_inv outbox Z st'" "set (pu_pending st') \<subseteq> set (pu_pending st)"
    and "set (pu_pending st') \<inter> pv_revisionId ` set batch \<subseteq> (descendants outbox Z - Z) \<union> pv_revisionId ` set (concat queue')"
    and "set (concat queue) \<subseteq> set (concat queue')"
  shows "queue_inv outbox Z queue' st'"
proof -
  have "i \<in> pv_revisionId ` set (concat queue')" if "i \<in> set (pu_pending st') - (descendants outbox Z - Z)" for i
  proof (cases "i \<in> pv_revisionId ` set batch")
    case True
    then show ?thesis using assms(4) that by blast
  next
    case False
    have "i \<in> pv_revisionId ` (set batch \<union> set (concat queue))"
      using assms(1,3) that by (auto simp: queue_inv_def)
    then show ?thesis using False assms(5) by blast
  qed
  then show ?thesis using assms(2) by (auto simp: queue_inv_def)
qed

lemma batch_loop_poisoned:
  assumes "poisoned P outbox X Y" "queue_inv outbox (X \<union> Y) queue st" "set (concat queue) \<subseteq> set outbox" "l = buildLineageIndex outbox"
  shows "\<exists>st' w'. batch_loop P l queue st w = (Inr (), st', w') \<and> queue_inv outbox (X \<union> Y) [] st'"
  using assms
proof (induction P l queue st w rule: batch_loop.induct)
  case (2 P l batch queue st w)
  define live where "live = filter (\<lambda>item. pv_revisionId item \<in> set (pu_pending st)) batch"
  let ?Z = "X \<union> Y" and ?D = "descendants outbox (X \<union> Y)"
  note server = "2.prems"(1) and inv = "2.prems"(2)
  have core: "lineage_inv outbox ?Z st" using inv by (simp add: queue_inv_def)
  have sub: "set (concat queue) \<subseteq> set outbox" "set batch \<subseteq> set outbox" using "2.prems"(3) by simp_all
  have ids: "pv_revisionId ` set live = set (pu_pending st) \<inter> pv_revisionId ` set batch" by (auto simp: live_def)
  show ?case
  proof (cases "length live = 0")
    case True
    then have "queue_inv outbox ?Z queue st"
      by (intro queue_inv_tail [OF inv core]) (use ids in auto)
    then show ?thesis using "2.IH"(1) [OF live_def] True server sub(1) "2.prems"(4) by (simp add: live_def)
  next
    case False
    show ?thesis
    proof (cases "pv_revisionId ` set live \<inter> X = {}")
      case clean: True
      then obtain w1 results where push: "tr_push P live w = (Inr results, w1)"
        and res: "map pi_revisionId results = map pv_revisionId live" "\<forall>r \<in> set results. verdict outbox X Y r"
        using server unfolding poisoned_def by (metis (no_types, lifting))
      have ids': "pi_revisionId ` set results = pv_revisionId ` set live" using res(1) by (metis set_map)
      have "pv_revisionId ` set live \<subseteq> pv_revisionId ` set outbox" using sub(2) by (auto simp: live_def)
      then have "\<forall>r \<in> set results. verdict outbox X Y r \<and> pi_revisionId r \<in> pv_revisionId ` set outbox"
        using res(2) ids' by blast
      then obtain st1 w2 where st1: "results_loop P l results st w1 = (Inr (), st1, w2)" "lineage_inv outbox ?Z st1"
        "set (pu_pending st1) \<subseteq> set (pu_pending st)" "set (pu_pending st1) \<inter> pv_revisionId ` set live \<subseteq> ?D - Y"
        using results_loop_inv [OF server core, of results w1] "2.prems"(4) ids' by auto
      have "queue_inv outbox ?Z queue st1"
      proof (rule queue_inv_tail [OF inv st1(2,3)])
        have "set (pu_pending st1) \<inter> pv_revisionId ` set batch \<subseteq> set (pu_pending st1) \<inter> pv_revisionId ` set live"
          using st1(3) ids by blast
        moreover have "set (pu_pending st1) \<inter> pv_revisionId ` set live \<inter> X = {}" using clean by blast
        ultimately show "set (pu_pending st1) \<inter> pv_revisionId ` set batch \<subseteq> (?D - ?Z) \<union> pv_revisionId ` set (concat queue)"
          using st1(4) by blast
      qed simp
      from "2.IH"(4) [OF live_def False push [symmetric] _ st1(1) [symmetric] _ _ server this sub(1) "2.prems"(4)]
      show ?thesis using False push st1(1) by (simp add: live_def)
    next
      case poison: False
      then obtain w1 e where push: "tr_push P live w = (Inl e, w1)" "isPermanentError e" "\<not> isAuthDenied e"
        using server unfolding poisoned_def by (metis (no_types, lifting))
      show ?thesis
      proof (cases "length live = 1")
        case True
        then obtain x where x: "live = [x]" by (auto simp: length_Suc_conv)
        obtain st1 w2 where q: "quarantine_loop P l [(pv_revisionId x, permanentReason e)] st w1 = (Inr (), st1, w2)"
          using quarantine_loop_total server by (metis poisoned_def)
        have "pv_revisionId x \<in> ?D" using poison x by (simp add: descendants_refl)
        note q' = quarantine_inv [OF core this q [unfolded "2.prems"(4)]]
        have "queue_inv outbox ?Z queue st1"
        proof (rule queue_inv_tail [OF inv q'(1,3)])
          have "set (pu_pending st1) \<inter> pv_revisionId ` set batch \<subseteq> {pv_revisionId x}" using q'(3) ids x by auto
          then have "set (pu_pending st1) \<inter> pv_revisionId ` set batch = {}"
            using q'(2) by (metis IntD1 ex_in_conv singletonD subsetD)
          then show "set (pu_pending st1) \<inter> pv_revisionId ` set batch \<subseteq> (?D - ?Z) \<union> pv_revisionId ` set (concat queue)"
            by (simp only: empty_subsetI)
        qed simp
        moreover have q2: "quarantineLineage P l (pv_revisionId (hd live)) (permanentReason e) st w1 = (Inr (), st1, w2)"
          using q x by (simp add: quarantineLineage_def)
        ultimately have "\<exists>st' w'. batch_loop P l queue st1 w2 = (Inr (), st', w') \<and> queue_inv outbox ?Z [] st'"
          using "2.IH"(2) [OF live_def False push(1) [symmetric] refl push(3,2) True q2 [symmetric] refl refl server _ sub(1) "2.prems"(4)]
          by blast
        then show ?thesis using False push True q2 by (simp add: live_def)
      next
        case multi: False
        let ?queue = "queue @ map (\<lambda>item. [item]) live"
        have "queue_inv outbox ?Z ?queue st"
        proof (rule queue_inv_tail [OF inv core])
          have "pv_revisionId ` set live \<subseteq> pv_revisionId ` set (concat ?queue)" by auto
          then show "set (pu_pending st) \<inter> pv_revisionId ` set batch \<subseteq> (?D - ?Z) \<union> pv_revisionId ` set (concat ?queue)"
            using ids by blast
        qed simp_all
        moreover have "set (concat ?queue) \<subseteq> set outbox" using sub by (auto simp: live_def)
        ultimately have "\<exists>st' w'. batch_loop P l ?queue st w1 = (Inr (), st', w') \<and> queue_inv outbox ?Z [] st'"
          using "2.IH"(3) [OF live_def False push(1) [symmetric] _ push(3,2) multi server _ _ "2.prems"(4)] by simp
        then show ?thesis using False push multi by (simp add: live_def)
      qed
    qed
  qed
qed simp

text \<open>
  With nothing left to send, nothing is pending: a doomed revision that the server refused for its
  missing parent was taken by the cascade from the poisoned one.
\<close>

lemma queue_inv_end:
  assumes inv: "queue_inv outbox Z [] st" and Z: "Z \<subseteq> pv_revisionId ` set outbox"
  shows "pu_pending st = []" "set (pu_quarantined st) = descendants outbox Z"
    "set (pu_accepted st) = pv_revisionId ` set outbox - descendants outbox Z"
proof -
  have pending: "set (pu_pending st) \<subseteq> descendants outbox Z - Z" using inv by (auto simp: queue_inv_def)
  have core: "lineage_inv outbox Z st" using inv by (simp add: queue_inv_def)
  have doomed: "i \<in> set (pu_quarantined st)" if x: "x \<in> Z" and path: "(x, i) \<in> (outbox_edges outbox)\<^sup>*" for x i
    using path
  proof (induction rule: rtrancl_induct)
    case base
    have "x \<in> descendants outbox Z" using x by (rule descendants_refl)
    then show ?case using lineage_invD(1,3) [OF core] pending x Z by blast
  next
    case (step y z)
    have "z \<in> descendants outbox Z" using descendants_refl [OF x] step.hyps
      by (meson descendants_step rtrancl.rtrancl_into_rtrancl)
    moreover have "z \<in> pv_revisionId ` set outbox" using step.hyps(2) by (auto simp: outbox_edges_def)
    moreover have "z \<notin> set (pu_pending st)"
      using lineage_invD(5) [OF core step.IH step.hyps(2)] .
    ultimately show ?case using lineage_invD(1,3) [OF core] by blast
  qed
  then have D: "descendants outbox Z \<subseteq> set (pu_quarantined st)" by (auto simp: descendants_def)
  then show eq: "set (pu_quarantined st) = descendants outbox Z" using lineage_invD(4) [OF core] by (rule equalityI [rotated])
  have "\<forall>i. i \<notin> set (pu_pending st)" using D pending lineage_invD(2) [OF core] by (meson DiffD1 subsetD)
  then show "pu_pending st = []" by (cases "pu_pending st") auto
  then show "set (pu_accepted st) = pv_revisionId ` set outbox - descendants outbox Z"
    using lineage_invD(1,3) [OF core] eq by auto
qed

text \<open>The push state a run of \<^verbatim>\<open>runPush\<close> starts from.\<close>

definition push_start :: "push_revision list \<Rightarrow> push_state" where
  "push_start outbox = \<lparr>pu_pending = remdups (map pv_revisionId outbox), pu_accepted = [], pu_quarantined = [], pu_pushed = 0\<rparr>"

lemma plan_covers: "1 \<le> ro_maxPushBatchItems opts \<Longrightarrow> concat (planPushBatches opts outbox) = outbox"
  using plan_loop_sound [of "[]" opts "[]" 0 outbox] by (simp add: planPushBatches_def batch_bytes_def)

text \<open>
  C37. Revisions the server will never take do not hold up the queue. The server refuses for good every
  request that contains a revision of \<open>X\<close>, without saying which it means; of any other request it
  refuses each revision of \<open>Y\<close> for good, reports the parent missing for what descends from a poisoned
  revision, and accepts the rest. Then one push ends without an error and with nothing left pending: the
  poisoned revisions and exactly their descendants in the outbox are quarantined, in whatever batches
  they were sent, and every other revision is accepted. The local state's own writes succeed, and the
  poisoned revisions are of the outbox.
\<close>

theorem poison_never_blocks_the_queue:
  assumes "poisoned P outbox X Y" "sp_listOutbox P w = (Inr outbox, w1)" "1 \<le> ro_maxPushBatchItems opts"
    and "X \<union> Y \<subseteq> pv_revisionId ` set outbox"
  shows "\<exists>st w2. batch_loop P (buildLineageIndex outbox) (planPushBatches opts outbox) (push_start outbox) w1 = (Inr (), st, w2) \<and>
    runPush P opts w = (Inr (pu_pushed st, length (pu_quarantined st)), w2) \<and> pu_pending st = [] \<and>
    set (pu_quarantined st) = descendants outbox (X \<union> Y) \<and>
    set (pu_accepted st) = pv_revisionId ` set outbox - descendants outbox (X \<union> Y)"
proof -
  have "queue_inv outbox (X \<union> Y) (planPushBatches opts outbox) (push_start outbox)"
    by (auto simp: queue_inv_def lineage_inv_def push_start_def plan_covers [OF assms(3)])
  from batch_loop_poisoned [OF assms(1) this _ refl, of w1] obtain st w2
    where loop: "batch_loop P (buildLineageIndex outbox) (planPushBatches opts outbox) (push_start outbox) w1 = (Inr (), st, w2)"
      and inv: "queue_inv outbox (X \<union> Y) [] st" by (auto simp: plan_covers [OF assms(3)])
  have "runPush P opts w = (Inr (pu_pushed st, length (pu_quarantined st)), w2)"
  proof (cases "outbox = []")
    case True
    then have "(st, w2) = (push_start [], w1)" using loop by (simp add: planPushBatches_def)
    then show ?thesis using True assms(2) by (simp add: runPush_def push_start_def)
  next
    case False
    then show ?thesis using loop assms(2) by (simp add: runPush_def push_start_def)
  qed
  then show ?thesis using loop queue_inv_end [OF inv assms(4)] by (intro exI [of _ st] exI [of _ w2]) simp
qed

text \<open>A server that knows the poisoned revisions \<open>X\<close> and \<open>Y\<close> and the doomed ones \<open>M\<close>.\<close>

definition ex_refused :: failure where
  "ex_refused = \<lparr>fl_authDenied = False, fl_permanent = True, fl_permanentApply = False, fl_message = []\<rparr>"

definition ex_result_of :: "ident list \<Rightarrow> ident list \<Rightarrow> ident \<Rightarrow> push_item_result" where
  "ex_result_of Y M i =
     (if i \<in> set Y then \<lparr>pi_revisionId = i, pi_outcome = ItemRejected, pi_receipt = None, pi_permanent = Some True, pi_missingParent = None\<rparr>
      else if i \<in> set M then \<lparr>pi_revisionId = i, pi_outcome = ItemRejected, pi_receipt = None, pi_permanent = None, pi_missingParent = Some True\<rparr>
      else \<lparr>pi_revisionId = i, pi_outcome = ItemAccepted, pi_receipt = Some \<lparr>pr_revisionId = i, pr_serverSequence = 1\<rparr>,
            pi_permanent = None, pi_missingParent = None\<rparr>)"

definition ex_ports :: "push_revision list \<Rightarrow> ident list \<Rightarrow> ident list \<Rightarrow> ident list \<Rightarrow> unit ports" where
  "ex_ports outbox X Y M =
     \<lparr>sp_loadCursor = act_return 0, sp_saveCursor = (\<lambda>_. act_return ()), sp_listOutbox = act_return outbox,
      sp_recordPushReceipt = (\<lambda>_. act_return ()), sp_quarantineOutboxItem = (\<lambda>_ _. act_return ()),
      sp_isLocallyAuthored = (\<lambda>_. act_return False), sp_retireEquivalentMerges = None, sp_parkRemote = None,
      sp_unparkRemote = None, sp_listParkedRemote = None, vp_openBuffers = (\<lambda>_. act_return []),
      vp_applyRemote = (\<lambda>_ _. act_return OutApplied),
      tr_push = (\<lambda>live w. if list_ex (\<lambda>item. pv_revisionId item \<in> set X) live then (Inl ex_refused, w)
        else (Inr (map (\<lambda>item. ex_result_of Y M (pv_revisionId item)) live), w)),
      tr_pull = (\<lambda>cursor. act_return \<lparr>pl_cursor = cursor, pl_epoch = None, pl_events = []\<rparr>),
      hk_beforeCycle = None, hk_beforePull = None, hk_afterPull = None\<rparr>"

lemma ex_ports_poisoned:
  assumes "descendants outbox (set X \<union> set Y) = set X \<union> set Y \<union> set M"
  shows "poisoned (ex_ports outbox X Y M) outbox (set X) (set Y)"
proof -
  have "verdict outbox (set X) (set Y) (ex_result_of Y M i)" if "i \<notin> set X" for i
    using that by (simp add: verdict_def ex_result_of_def assms)
  moreover have "pi_revisionId (ex_result_of Y M i) = i" for i by (simp add: ex_result_of_def)
  ultimately show ?thesis
    by (auto simp: poisoned_def ex_ports_def act_return_def ex_refused_def isPermanentError_def isAuthDenied_def list_ex_iff)
qed

definition ex_outbox :: "push_revision list" where
  "ex_outbox = [ex_item 1 10 [], ex_item 2 10 [1], ex_item 3 10 []]"

text \<open>
  In batches of two: \<open>[1, 3]\<close> is refused as a whole, \<open>[2, 4]\<close> has a child of 1 and a revision refused by
  itself, whose child is \<open>5\<close>.
\<close>

definition ex_mixed :: "push_revision list" where
  "ex_mixed = [ex_item 1 10 [], ex_item 3 10 [], ex_item 2 10 [1], ex_item 4 10 [], ex_item 5 10 [4]]"

lemma ex_mixed_descendants: "descendants ex_mixed ({[1]} \<union> {[4]}) = {[1]} \<union> {[4]} \<union> {[2], [5]}"
proof -
  have edges: "outbox_edges ex_mixed = {([1], [2]), ([4], [5])}"
    by (auto simp: outbox_edges_def ex_mixed_def ex_item_def item_parents_def or_else_def)
  have "i \<in> {[1], [4], [2], [5]}" if "(x, i) \<in> (outbox_edges ex_mixed)\<^sup>*" "x \<in> {[1], [4]}" for x i
    using that(1) by (induction rule: rtrancl_induct) (use that(2) edges in auto)
  moreover have "([1], [2]) \<in> (outbox_edges ex_mixed)\<^sup>*" "([4], [5]) \<in> (outbox_edges ex_mixed)\<^sup>*"
    unfolding edges by (auto intro: r_into_rtrancl)
  ultimately show ?thesis by (auto simp: descendants_def)
qed

theorem poison_never_blocks_the_queue_witness:
  "runPush (ex_ports ex_mixed [[1]] [[4]] [[2], [5]]) (runner_defaults\<lparr>ro_maxPushBatchItems := 2\<rparr>) () = (Inr (1, 4), ()) \<and>
   (\<exists>st. batch_loop (ex_ports ex_mixed [[1]] [[4]] [[2], [5]]) (buildLineageIndex ex_mixed)
        (planPushBatches (runner_defaults\<lparr>ro_maxPushBatchItems := 2\<rparr>) ex_mixed) (push_start ex_mixed) () = (Inr (), st, ()) \<and>
      pu_pending st = [] \<and> set (pu_quarantined st) = {[1], [2], [4], [5]} \<and> set (pu_accepted st) = {[3]})"
proof -
  let ?P = "ex_ports ex_mixed [[1]] [[4]] [[2], [5]]" and ?opts = "runner_defaults\<lparr>ro_maxPushBatchItems := 2\<rparr>"
  have pre: "sp_listOutbox ?P () = (Inr ex_mixed, ())" "1 \<le> ro_maxPushBatchItems ?opts"
    by (simp_all add: ex_ports_def act_return_def)
  have poisoned: "poisoned ?P ex_mixed (set [[1]]) (set [[4]])"
    by (rule ex_ports_poisoned) (simp add: ex_mixed_descendants [simplified])
  have ids: "set [[1]] \<union> set [[4]] \<subseteq> pv_revisionId ` set ex_mixed" by (simp add: ex_mixed_def ex_item_def)
  have run: "runPush ?P ?opts () = (Inr (1, 4), ())" by code_simp
  obtain st w2 where st: "batch_loop ?P (buildLineageIndex ex_mixed) (planPushBatches ?opts ex_mixed) (push_start ex_mixed) () = (Inr (), st, w2)"
    "pu_pending st = []" "set (pu_quarantined st) = descendants ex_mixed (set [[1]] \<union> set [[4]])"
    "set (pu_accepted st) = pv_revisionId ` set ex_mixed - descendants ex_mixed (set [[1]] \<union> set [[4]])"
    using poison_never_blocks_the_queue [OF poisoned pre ids] by blast
  have D: "descendants ex_mixed (set [[1]] \<union> set [[4]]) = {[1], [2], [4], [5]}"
    using ex_mixed_descendants by auto
  have "set (pu_accepted st) = {[3]}" unfolding st(4) D by (auto simp: ex_mixed_def ex_item_def)
  then show ?thesis using run st(1-3) D by (intro conjI exI [of _ st]) simp_all
qed

definition ex_quarantined :: push_state where
  "ex_quarantined = \<lparr>pu_pending = [[3]], pu_accepted = [], pu_quarantined = [[1], [2]], pu_pushed = 0\<rparr>"

theorem quarantine_takes_exactly_the_lineage_witness:
  "quarantineLineage (ex_ports ex_outbox [] [] []) (buildLineageIndex ex_outbox) [1] [] (push_start ex_outbox) () =
     (Inr (), ex_quarantined, ()) \<and>
   ([1], [2]) \<in> {(p, c). c \<in> set (pu_pending (push_start ex_outbox)) \<and>
        (\<exists>item \<in> set ex_outbox. pv_revisionId item = c \<and> p \<in> set (item_parents item))}\<^sup>*"
proof -
  have run: "quarantineLineage (ex_ports ex_outbox [] [] []) (buildLineageIndex ex_outbox) [1] [] (push_start ex_outbox) () =
      (Inr (), ex_quarantined, ())" by code_simp
  have pending: "pu_pending (push_start ex_outbox) = [[1], [2], [3]]" by code_simp
  then have "[1] \<in> set (pu_pending (push_start ex_outbox))"
    and "[2] \<in> set (pu_pending (push_start ex_outbox)) - set (pu_pending ex_quarantined)"
    by (simp_all add: ex_quarantined_def)
  with quarantine_takes_exactly_the_lineage [OF run] run show ?thesis by blast
qed

section \<open>Backoff\<close>

text \<open>
  A failed cycle of a running runner waits before the next one: at least half and less than the
  whole of a ceiling that doubles with every consecutive failure up to \<^verbatim>\<open>maxBackoffMs\<close>, so the delay
  is never zero, never above the maximum, and spread over half the ceiling.
\<close>

theorem backoff_within_bounds:
  assumes "\<not> rn_stopped r" "0 \<le> rnd" "rnd < 1" "0 < ro_baseBackoffMs opts" "ro_baseBackoffMs opts \<le> ro_maxBackoffMs opts"
  shows "\<exists>delay r'. scheduleBackoff opts rnd r = (Some delay, r') \<and> rn_failureCount r' = rn_failureCount r + 1 \<and>
    0 < delay \<and> backoff_ceiling opts (rn_failureCount r') / 2 \<le> delay \<and>
    delay < backoff_ceiling opts (rn_failureCount r') \<and>
    ro_baseBackoffMs opts \<le> backoff_ceiling opts (rn_failureCount r') \<and>
    backoff_ceiling opts (rn_failureCount r') \<le> ro_maxBackoffMs opts \<and>
    backoff_ceiling opts (rn_failureCount r' + 1) = min (ro_maxBackoffMs opts) (2 * backoff_ceiling opts (rn_failureCount r'))"
proof -
  define n where "n = rn_failureCount r"
  define c where "c = backoff_ceiling opts (Suc n)"
  have pow: "ro_baseBackoffMs opts \<le> ro_baseBackoffMs opts * 2 ^ n"
    using assms(4) by (simp add: mult_le_cancel_left1 one_le_power)
  then have c: "ro_baseBackoffMs opts \<le> c" "c \<le> ro_maxBackoffMs opts" using assms(5) by (auto simp: c_def backoff_ceiling_def)
  have pos: "0 < c" using c(1) assms(4) by simp
  have lt: "rnd * c < c" using assms(3) pos by simp
  have ge: "0 \<le> rnd * c" using assms(2) pos by simp
  have double: "backoff_ceiling opts (Suc (Suc n)) = min (ro_maxBackoffMs opts) (2 * c)"
    using assms(4,5) by (auto simp: c_def backoff_ceiling_def min_def field_simps)
  have run: "scheduleBackoff opts rnd r =
      (Some (c / 2 + rnd * (c / 2)), r\<lparr>rn_failureCount := Suc n, rn_timers := rn_timers r @ [rn_cycleCounter r]\<rparr>)"
    using assms(1) by (simp add: scheduleBackoff_def Let_def n_def c_def)
  have "0 < c / 2 + rnd * (c / 2)" "c / 2 \<le> c / 2 + rnd * (c / 2)" "c / 2 + rnd * (c / 2) < c"
    using lt ge pos by linarith+
  then show ?thesis unfolding run using c double by (simp add: n_def c_def)
qed

theorem backoff_within_bounds_witness:
  "fst (scheduleBackoff runner_defaults (1 / 2) new_runner) = Some 3750 \<and>
   backoff_ceiling runner_defaults 2 = 10000"
proof -
  have "\<not> rn_stopped new_runner" "0 \<le> (1 / 2 :: rat)" "(1 / 2 :: rat) < 1" "0 < ro_baseBackoffMs runner_defaults"
    "ro_baseBackoffMs runner_defaults \<le> ro_maxBackoffMs runner_defaults"
    by (simp_all add: new_runner_def runner_defaults_def)
  from backoff_within_bounds [OF this] show ?thesis
    by (auto simp: scheduleBackoff_def new_runner_def runner_defaults_def backoff_ceiling_def Let_def)
qed

section \<open>Stop\<close>

lemma runPull_fields:
  assumes "runPull P r w = (res, r', w')"
  shows "rn_stopped r' = rn_stopped r \<and> rn_timers r' = rn_timers r \<and> rn_cycleCounter r' = rn_cycleCounter r \<and>
    rn_rerunRequested r' = rn_rerunRequested r"
  using assms by (auto simp: runPull_def Let_def split: prod.splits sum.splits)

lemma pull_phase_fields:
  assumes "pull_phase P r push w = (res, r', w')"
  shows "rn_stopped r' = rn_stopped r \<and> rn_timers r' = rn_timers r \<and> rn_cycleCounter r' = rn_cycleCounter r \<and>
    rn_rerunRequested r' = rn_rerunRequested r"
  using assms by (auto simp: pull_phase_def dest!: runPull_fields split: prod.splits sum.splits)

lemma cycle_body_fields:
  assumes "cycle_body P opts r w = (res, r', w')"
  shows "rn_stopped r' = rn_stopped r \<and> rn_timers r' = rn_timers r \<and> rn_cycleCounter r' = rn_cycleCounter r \<and>
    rn_rerunRequested r' = rn_rerunRequested r"
  using assms by (auto simp: cycle_body_def dest!: pull_phase_fields split: prod.splits sum.splits if_splits)

lemma runCycle_stopped:
  assumes "runCycle P opts rnd r w = (res, delay, r', w')" "rn_stopped r"
  shows "delay = None \<and> rn_stopped r' \<and> rn_timers r' = rn_timers r \<and> rn_cycleCounter r' = rn_cycleCounter r"
  using assms
  by (auto simp: runCycle_def scheduleBackoff_def dest!: cycle_body_fields split: prod.splits sum.splits if_splits)

lemma cycle_ends_stopped:
  assumes "cycle_ends P opts rnd r w = (r', w')" "rn_stopped r"
  shows "rn_stopped r' \<and> \<not> rn_inFlight r' \<and> rn_timers r' = rn_timers r \<and> rn_cycleCounter r' = rn_cycleCounter r"
  using assms by (auto simp: cycle_ends_def Let_def dest!: runCycle_stopped split: prod.splits if_splits)

lemma stop_stopped: "rn_stopped r \<Longrightarrow> rn_timers r = [] \<Longrightarrow> stop r = r"
  by (simp add: stop_def)

lemma idle_stopped_run:
  assumes "rn_stopped r" "rn_timers r = []" "\<not> rn_inFlight r"
  shows "foldl (runner_step P opts) (r, w) es = (r, w)"
proof (induction es)
  case (Cons e es)
  have "runner_step P opts (r, w) e = (r, w)"
    using assms by (cases e) (auto simp: trigger_def stop_stopped timer_fires_def cycle_ends_def)
  then show ?case using Cons by simp
qed simp

lemma stopped_run:
  assumes "rn_stopped r" "rn_timers r = []"
  shows "foldl (runner_step P opts) (r, w) es = (r, w) \<or>
    (rn_inFlight r \<and> (\<exists>rnd. foldl (runner_step P opts) (r, w) es = cycle_ends P opts rnd r w))"
proof (cases "rn_inFlight r")
  case False
  then show ?thesis using idle_stopped_run assms by metis
next
  case True
  show ?thesis
  proof (induction es)
    case (Cons e es)
    show ?case
    proof (cases e)
      case (CycleEnds rnd)
      obtain r' w' where ends: "cycle_ends P opts rnd r w = (r', w')" by fastforce
      then have "foldl (runner_step P opts) (r', w') es = (r', w')"
        using idle_stopped_run cycle_ends_stopped [OF ends assms(1)] assms(2) by metis
      then have "foldl (runner_step P opts) (r, w) (e # es) = cycle_ends P opts rnd r w" using CycleEnds ends by simp
      then show ?thesis using True by blast
    qed (use Cons assms in \<open>auto simp: trigger_def stop_stopped timer_fires_def\<close>)
  qed simp
qed

text \<open>
  A stop is final: whatever happens to a stopped runner - triggers, a late timer, the end of the
  cycle that was running, more stops, in any order - it starts no cycle and arms no timer, and the
  world outside changes at most by the one cycle that was in flight when it was stopped.
\<close>

theorem stop_is_final:
  "rn_cycleCounter (fst (foldl (runner_step P opts) (stop r, w) es)) = rn_cycleCounter r \<and>
   rn_timers (fst (foldl (runner_step P opts) (stop r, w) es)) = [] \<and>
   (snd (foldl (runner_step P opts) (stop r, w) es) = w \<or>
    (rn_inFlight r \<and> (\<exists>rnd. snd (foldl (runner_step P opts) (stop r, w) es) = snd (cycle_ends P opts rnd (stop r) w))))"
proof -
  have stopped: "rn_stopped (stop r)" "rn_timers (stop r) = []" "rn_cycleCounter (stop r) = rn_cycleCounter r"
    "rn_inFlight (stop r) = rn_inFlight r" by (simp_all add: stop_def)
  from stopped_run [OF stopped(1,2), of P opts w es] show ?thesis
  proof (elim disjE conjE exE)
    fix rnd assume "foldl (runner_step P opts) (stop r, w) es = cycle_ends P opts rnd (stop r) w" "rn_inFlight (stop r)"
    moreover obtain r' w' where "cycle_ends P opts rnd (stop r) w = (r', w')" by fastforce
    ultimately show ?thesis using cycle_ends_stopped stopped by (metis fst_conv snd_conv)
  qed (use stopped in simp)
qed

end
