(* ===== verification/Transport.thy ===== *)
theory Transport
  imports SyncRunner CanonicalJson
begin

text \<open>
  The client's HTTP transport (\<^verbatim>\<open>apps/obsidian-plugin/src/runtime/sync-transport.ts\<close>): the requests it
  builds, the classification of failed responses, and the defensive parsers of the two answers.

  Obsidian's \<^verbatim>\<open>requestUrl\<close> and the token provider are parameters that act on the world outside. A
  request body is the JSON value that \<^verbatim>\<open>JSON.stringify\<close> prints; a response has a status and, when its
  body is JSON, the value \<^verbatim>\<open>response.json\<close> reads (reading it throws otherwise).
\<close>

section \<open>Requests and responses\<close>

record http_request =
  rq_method :: jsstr
  rq_url :: jsstr
  rq_headers :: "jsstr jsobj"
  rq_body :: "json option"

record http_response =
  rs_status :: int
  rs_json :: "json option"

record push_identity =
  id_vaultId :: ident
  id_memberId :: ident
  id_deviceId :: ident

type_synonym stored_envelope = "json option \<times> jsstr \<times> jsstr"

record 'v transport_options =
  to_requestUrl :: "http_request \<Rightarrow> 'v \<Rightarrow> (failure + http_response) \<times> 'v"
  to_apiBaseUrl :: jsstr
  to_vaultId :: ident
  to_getAuthToken :: "'v \<Rightarrow> (failure + jsstr) \<times> 'v"
  to_serverEpoch :: "'v \<Rightarrow> jsstr option"
  to_identity :: "push_identity option"

section \<open>Errors\<close>

datatype transport_reason = UnresolvedEnvelope | HttpStatus | MalformedResponse

record transport_error =
  te_reason :: transport_reason
  te_message :: jsstr
  te_authDenied :: bool
  te_permanent :: bool

definition transport_failure :: "transport_error \<Rightarrow> failure" where
  "transport_failure e = \<lparr>fl_authDenied = te_authDenied e, fl_permanent = te_permanent e, fl_permanentApply = False,
     fl_message = te_message e\<rparr>"

definition malformed :: "jsstr \<Rightarrow> transport_error" where
  "malformed detail = \<lparr>te_reason = MalformedResponse, te_message = detail, te_authDenied = False, te_permanent = False\<rparr>"

text \<open>What \<^verbatim>\<open>response.json\<close> throws on a body that is not JSON: a plain error.\<close>

definition json_failure :: failure where
  "json_failure = \<lparr>fl_authDenied = False, fl_permanent = False, fl_permanentApply = False, fl_message = js ''Invalid JSON''\<rparr>"

definition PERMANENT_SYNC_CODES :: "jsstr list" where
  "PERMANENT_SYNC_CODES = [js ''INVALID_REQUEST'', js ''INVALID_BATCH'', js ''FORBIDDEN'', js ''REVISION_ID_REUSE'',
     js ''CONFLICT'', js ''NOT_FOUND'']"

definition isPermanentSyncCode :: "json option \<Rightarrow> bool" where
  "isPermanentSyncCode code = (case as_string code of Some s \<Rightarrow> s \<in> set PERMANENT_SYNC_CODES | None \<Rightarrow> False)"

definition isPermanentStatus :: "int \<Rightarrow> bool" where
  "isPermanentStatus status \<longleftrightarrow> status = 400 \<or> status = 403 \<or> status = 413 \<or> status = 422"

definition wholeRequestCode :: "http_response \<Rightarrow> jsstr option" where
  "wholeRequestCode response =
     (case rs_json response of
        None \<Rightarrow> None
      | Some body \<Rightarrow>
          if \<not> isRecord body then None
          else (case field body (js ''error'') of
                  Some error \<Rightarrow> if isRecord error then as_string (field error (js ''code'')) else None
                | None \<Rightarrow> None))"

section \<open>Printing\<close>

text \<open>
  \<^verbatim>\<open>encodeURIComponent\<close>: the code points of the UTF-16 text (a lone surrogate is a \<^verbatim>\<open>URIError\<close>), each kept
  when it is unreserved and else written as its UTF-8 bytes in percent form.
\<close>

fun code_points :: "jsstr \<Rightarrow> nat list option" where
  "code_points [] = Some []"
| "code_points [c] = (if 55296 \<le> c \<and> c \<le> 57343 then None else Some [c])"
| "code_points (c # d # cs) =
     (if 55296 \<le> c \<and> c \<le> 56319
      then (if 56320 \<le> d \<and> d \<le> 57343
            then map_option (Cons (65536 + (c - 55296) * 1024 + (d - 56320))) (code_points cs) else None)
      else if 56320 \<le> c \<and> c \<le> 57343 then None
      else map_option (Cons c) (code_points (d # cs)))"

definition utf8 :: "nat \<Rightarrow> nat list" where
  "utf8 c =
     (if c < 128 then [c]
      else if c < 2048 then [192 + c div 64, 128 + c mod 64]
      else if c < 65536 then [224 + c div 4096, 128 + (c div 64) mod 64, 128 + c mod 64]
      else [240 + c div 262144, 128 + (c div 4096) mod 64, 128 + (c div 64) mod 64, 128 + c mod 64])"

definition hex_upper :: "nat \<Rightarrow> code_unit" where
  "hex_upper d = (if d < 10 then 48 + d else 55 + d)"

definition uri_unreserved :: "nat \<Rightarrow> bool" where
  "uri_unreserved c \<longleftrightarrow> (65 \<le> c \<and> c \<le> 90) \<or> (97 \<le> c \<and> c \<le> 122) \<or> (48 \<le> c \<and> c \<le> 57) \<or>
     c \<in> set (js ''-_.!~*()'') \<or> c = 39"

definition encodeURIComponent :: "jsstr \<Rightarrow> jsstr option" where
  "encodeURIComponent s =
     map_option (\<lambda>cs. concat (map (\<lambda>c. if uri_unreserved c then [c]
       else concat (map (\<lambda>b. [37, hex_upper (b div 16), hex_upper (b mod 16)]) (utf8 c))) cs)) (code_points s)"

section \<open>Sending\<close>

definition stampCurrentIdentity :: "json option \<Rightarrow> push_identity option \<Rightarrow> json option" where
  "stampCurrentIdentity header ident =
     (case (ident, header) of
        (Some i, Some (JObj kvs)) \<Rightarrow>
          Some (JObj (map_set (map_set (map_set kvs (js ''vaultId'') (JStr (id_vaultId i)))
            (js ''expectedMemberId'') (JStr (id_memberId i))) (js ''expectedDeviceId'') (JStr (id_deviceId i))))
      | _ \<Rightarrow> header)"

definition request :: "'v transport_options \<Rightarrow> jsstr \<Rightarrow> jsstr \<Rightarrow> json option \<Rightarrow> 'v \<Rightarrow> (failure + http_response) \<times> 'v" where
  "request opts verb url body v =
     (case to_getAuthToken opts v of
        (Inl e, v) \<Rightarrow> (Inl e, v)
      | (Inr token, v) \<Rightarrow>
          (case to_requestUrl opts \<lparr>rq_method = verb, rq_url = url,
                  rq_headers = (js ''Authorization'', js ''Bearer '' @ token) #
                    (if body = None then [] else [(js ''Content-Type'', js ''application/json'')]),
                  rq_body = body\<rparr> v of
             (Inl e, v) \<Rightarrow> (Inl e, v)
           | (Inr response, v) \<Rightarrow>
               if rs_status response < 200 \<or> rs_status response \<ge> 300
               then
                 (Inl (transport_failure
                    (if wholeRequestCode response = Some (js ''QUOTA_EXCEEDED'')
                     then \<lparr>te_reason = HttpStatus,
                           te_message = js ''The vault storage quota is full. Free space on the server to resume syncing.'',
                           te_authDenied = False, te_permanent = False\<rparr>
                     else \<lparr>te_reason = HttpStatus,
                           te_message = js ''Server returned HTTP '' @ int_text (rs_status response) @ js ''.'',
                           te_authDenied = rs_status response = 401,
                           te_permanent = isPermanentStatus (rs_status response)\<rparr>)), v)
               else (Inr response, v)))"

definition revision_entry :: "'v transport_options \<Rightarrow> stored_envelope \<Rightarrow> json" where
  "revision_entry opts = (\<lambda>(header, key, payload).
     JObj ((case stampCurrentIdentity header (to_identity opts) of Some h \<Rightarrow> [(js ''header'', h)] | None \<Rightarrow> []) @
           [(js ''idempotencyKey'', JStr key), (js ''payload'', JStr payload)]))"

fun push_entries ::
    "'v transport_options \<Rightarrow> (ident \<Rightarrow> stored_envelope option) \<Rightarrow> push_revision list \<Rightarrow> transport_error + json list" where
  "push_entries opts resolve [] = Inr []"
| "push_entries opts resolve (r # rs) =
     (case resolve (pv_revisionId r) of
        None \<Rightarrow> Inl \<lparr>te_reason = UnresolvedEnvelope,
                     te_message = js ''No stored envelope for revision '' @ pv_revisionId r @ js ''.'',
                     te_authDenied = False, te_permanent = False\<rparr>
      | Some envelope \<Rightarrow>
          (case push_entries opts resolve rs of
             Inl e \<Rightarrow> Inl e
           | Inr entries \<Rightarrow> Inr (revision_entry opts envelope # entries)))"

section \<open>Answers\<close>

fun each_or :: "('a \<Rightarrow> 'e + 'b) \<Rightarrow> 'a list \<Rightarrow> 'e + 'b list" where
  "each_or f [] = Inr []"
| "each_or f (x # xs) =
     (case f x of Inl e \<Rightarrow> Inl e | Inr y \<Rightarrow> (case each_or f xs of Inl e \<Rightarrow> Inl e | Inr ys \<Rightarrow> Inr (y # ys)))"

definition parse_push_item :: "json \<Rightarrow> transport_error + push_item_result" where
  "parse_push_item result =
     (case (if isRecord result then as_string (field result (js ''revisionId'')) else None) of
        None \<Rightarrow> Inl (malformed (js ''push result missing revisionId''))
      | Some rid \<Rightarrow>
          if field result (js ''status'') = Some (JStr (js ''rejected''))
          then Inr \<lparr>pi_revisionId = rid, pi_outcome = ItemRejected, pi_receipt = None,
                    pi_permanent = Some (isPermanentSyncCode (field result (js ''code''))),
                    pi_missingParent = (if field result (js ''code'') = Some (JStr (js ''MISSING_PARENT'')) then Some True else None)\<rparr>
          else
            (case field result (js ''receipt'') of
               Some receipt \<Rightarrow>
                 if \<not> isRecord receipt then Inl (malformed (js ''push result missing receipt''))
                 else
                   (case (as_string (field receipt (js ''revisionId'')), as_safe_integer (field receipt (js ''serverSequence''))) of
                      (Some receiptId, Some n) \<Rightarrow>
                        if n < 0 then Inl (malformed (js ''push receipt has invalid identity or sequence''))
                        else Inr \<lparr>pi_revisionId = rid, pi_outcome = ItemAccepted,
                                  pi_receipt = Some \<lparr>pr_revisionId = receiptId, pr_serverSequence = n\<rparr>,
                                  pi_permanent = None, pi_missingParent = None\<rparr>
                    | _ \<Rightarrow> Inl (malformed (js ''push receipt has invalid identity or sequence'')))
             | None \<Rightarrow> Inl (malformed (js ''push result missing receipt''))))"

definition parsePushResponse :: "http_response \<Rightarrow> failure + push_item_result list" where
  "parsePushResponse response =
     (case rs_json response of
        None \<Rightarrow> Inl json_failure
      | Some body \<Rightarrow>
          (case (if isRecord body then as_array (field body (js ''results'')) else None) of
             None \<Rightarrow> Inl (transport_failure (malformed (js ''push response missing results array'')))
           | Some results \<Rightarrow>
               (case each_or parse_push_item results of
                  Inl e \<Rightarrow> Inl (transport_failure e)
                | Inr items \<Rightarrow> Inr items)))"

definition parse_pull_event :: "json \<Rightarrow> transport_error + remote_event" where
  "parse_pull_event raw =
     (case (as_safe_integer (field raw (js ''serverSequence'')), as_string (field raw (js ''revisionId'')),
            as_string (field raw (js ''fileId'')), field raw (js ''receipt'')) of
        (Some n, Some rid, Some fid, Some receipt) \<Rightarrow>
          (case (if isRecord receipt then as_string (field receipt (js ''blobHash'')) else None) of
             Some hash \<Rightarrow>
               Inr \<lparr>re_serverSequence = n,
                    re_revision = \<lparr>rr_revisionId = rid, rr_fileId = fid, rr_contentHash = hash,
                      rr_parentRevisionIds = as_string_array (field receipt (js ''parentRevisionIds'')),
                      rr_authorMembershipId = as_string (field receipt (js ''memberId'')),
                      rr_acceptedAt = as_string (field receipt (js ''serverTime''))\<rparr>\<rparr>
           | None \<Rightarrow> Inl (malformed (js ''pull event is malformed'')))
      | _ \<Rightarrow> Inl (malformed (js ''pull event is malformed'')))"

definition parsePullResponse :: "http_response \<Rightarrow> failure + pull_result" where
  "parsePullResponse response =
     (case rs_json response of
        None \<Rightarrow> Inl json_failure
      | Some body \<Rightarrow>
          (case (as_safe_integer (field body (js ''cursor'')), as_array (field body (js ''events''))) of
             (Some cursor, Some rows) \<Rightarrow>
               (case each_or parse_pull_event rows of
                  Inl e \<Rightarrow> Inl (transport_failure e)
                | Inr events \<Rightarrow> Inr \<lparr>pl_cursor = cursor, pl_epoch = as_string (field body (js ''epoch'')), pl_events = events\<rparr>)
           | _ \<Rightarrow> Inl (transport_failure (malformed (js ''pull response missing cursor or events'')))))"

section \<open>The transport\<close>

definition transport_push ::
    "'v transport_options \<Rightarrow> (ident \<Rightarrow> stored_envelope option) \<Rightarrow> push_revision list \<Rightarrow> 'v \<Rightarrow>
     (failure + push_item_result list) \<times> 'v" where
  "transport_push opts resolve revisions v =
     (case push_entries opts resolve revisions of
        Inl e \<Rightarrow> (Inl (transport_failure e), v)
      | Inr entries \<Rightarrow>
          (case request opts (js ''POST'')
                  (to_apiBaseUrl opts @ js ''/vaults/'' @ to_vaultId opts @ js ''/revisions'')
                  (Some (JObj [(js ''revisions'', JArr entries)])) v of
             (Inl e, v) \<Rightarrow> (Inl e, v)
           | (Inr response, v) \<Rightarrow> (parsePushResponse response, v)))"

definition uri_failure :: failure where
  "uri_failure = \<lparr>fl_authDenied = False, fl_permanent = False, fl_permanentApply = False, fl_message = js ''URI malformed''\<rparr>"

definition transport_pull :: "'v transport_options \<Rightarrow> int \<Rightarrow> 'v \<Rightarrow> (failure + pull_result) \<times> 'v" where
  "transport_pull opts after v =
     (case (case to_serverEpoch opts v of
              None \<Rightarrow> Some (js ''after='' @ int_text after)
            | Some epoch \<Rightarrow> map_option (\<lambda>e. js ''after='' @ int_text after @ js ''&epoch='' @ e) (encodeURIComponent epoch)) of
        None \<Rightarrow> (Inl uri_failure, v)
      | Some query \<Rightarrow>
          (case request opts (js ''GET'')
                  (to_apiBaseUrl opts @ js ''/vaults/'' @ to_vaultId opts @ js ''/events?'' @ query) None v of
             (Inl e, v) \<Rightarrow> (Inl e, v)
           | (Inr response, v) \<Rightarrow> (parsePullResponse response, v)))"

end
