(* ===== verification/SyncState_Theorems.thy ===== *)
theory SyncState_Theorems
  imports SyncState_Inv
begin

text \<open>
  What the durable sync state promises: a restart gives back the queue with its bytes, no operation
  loses a queued revision silently, the stash of rejected sends and the memory of authored
  revisions are bounded, and a failed save changes nothing.
\<close>

section \<open>Restart\<close>


text \<open>An envelope without the two markers that only describe where its bytes are kept.\<close>

definition bare :: "envelope \<Rightarrow> envelope" where
  "bare e = e\<lparr>ob_payloadExternalized := None, ob_backedUpAt := None\<rparr>"

text \<open>The envelope as the disk form holds it, and as the load rebuilds it.\<close>

definition on_disk :: "ident list \<Rightarrow> envelope \<Rightarrow> envelope" where
  "on_disk ext e = reloaded_envelope (strip_envelope ext e)"

definition rebuilt :: "ident list \<Rightarrow> envelope \<Rightarrow> envelope" where
  "rebuilt ext e = (on_disk ext e)\<lparr>ob_payloadBase64 := ob_payloadBase64 e\<rparr>"

lemma on_disk_fields [simp]:
  "ob_revisionId (on_disk ext e) = ob_revisionId e" "ob_fileId (on_disk ext e) = ob_fileId e"
  "ob_revisionId (rebuilt ext e) = ob_revisionId e" "ob_payloadBase64 (rebuilt ext e) = ob_payloadBase64 e"
  by (simp_all add: on_disk_def rebuilt_def strip_envelope_def reloaded_envelope_def)


lemma bare_rebuilt [simp]: "bare (rebuilt ext e) = bare e"
  by (simp add: bare_def rebuilt_def on_disk_def strip_envelope_def reloaded_envelope_def)



definition pass_le :: "payload_pass \<Rightarrow> payload_pass \<Rightarrow> bool" where
  "pass_le s s' \<longleftrightarrow>
     pp_added s' = pp_added s \<and> du_cache (pp_d s') = du_cache (pp_d s) \<and> du_data (pp_d s') = du_data (pp_d s) \<and>
     set (du_externalized (pp_d s)) \<subseteq> set (du_externalized (pp_d s')) \<and>
     (pp_persistNeeded s \<longrightarrow> pp_persistNeeded s') \<and> (pp_cacheChanged s \<longrightarrow> pp_cacheChanged s')"

lemma pass_le_refl [simp]: "pass_le s s"
  by (simp add: pass_le_def)









lemma sweepPayloads_fields [simp]:
  "du_cache (sweepPayloads io s d) = du_cache d" "du_data (sweepPayloads io s d) = du_data d"
  "du_externalized (sweepPayloads io s d) = du_externalized d"
  by (auto simp: sweepPayloads_def Let_def split: option.splits)


text \<open>The state a restart rebuilds.\<close>

definition restored :: "ident list \<Rightarrow> nat \<Rightarrow> persisted \<Rightarrow> persisted" where
  "restored ext now s =
     s\<lparr>ps_reconciliationBackups := withoutExpiredBackups (ps_reconciliationBackups s) now,
       ps_outbox := map (rebuilt ext) (ps_outbox s), ps_deferred := map reloaded_event (ps_deferred s),
       ps_quarantinedEnvelopes := map (\<lambda>(k, e). (k, rebuilt ext e)) (ps_quarantinedEnvelopes s)\<rparr>"

lemma queue_envs_restored [simp]: "queue_envs (restored ext now s) = map (rebuilt ext) (queue_envs s)"
  by (auto simp: restored_def queue_envs_def)

lemma queue_ids_restored [simp]: "queue_ids (restored ext now s) = queue_ids s"
  by (simp add: queue_ids_def o_def)





text \<open>When nothing had to be written, the disk form of the rebuilt state is what is on the disk.\<close>

lemma reloaded_event_idem [simp]: "reloaded_event (reloaded_event e) = reloaded_event e"
  by (simp add: reloaded_event_def)








section \<open>Eviction\<close>

lemma map_delete_head: "k \<notin> fst ` set m \<Longrightarrow> map_delete ((k, v) # m) k = m"
  by (auto simp: map_delete_def filter_id_conv)

lemma evict_loop_drop:
  assumes "distinct (map fst m)" "0 \<le> budget"
  shows "\<exists>n \<le> length m. evict_loop budget (stash_bytes m) m m = drop n m \<and> stash_bytes (drop n m) \<le> budget \<and>
    (\<forall>k < n. budget < stash_bytes (drop k m))"
  using assms
proof (induction m)
  case Nil
  then show ?case by (simp add: stash_bytes_def)
next
  case (Cons p m)
  obtain key env where p: "p = (key, env)" by (cases p)
  show ?case
  proof (cases "stash_bytes (p # m) \<le> budget")
    case True
    then show ?thesis by (intro exI [of _ 0]) (simp add: p)
  next
    case False
    from Cons obtain n where n: "n \<le> length m" "evict_loop budget (stash_bytes m) m m = drop n m"
      "stash_bytes (drop n m) \<le> budget" "\<forall>k < n. budget < stash_bytes (drop k m)" by auto
    have "evict_loop budget (stash_bytes (p # m)) (p # m) (p # m) = drop (Suc n) (p # m)"
      using False n(2) Cons.prems(1) by (simp add: p map_delete_head stash_bytes_def)
    moreover have "\<forall>k < Suc n. budget < stash_bytes (drop k (p # m))"
      using n(4) False by (auto simp: less_Suc_eq_0_disj)
    ultimately show ?thesis using n by (intro exI [of _ "Suc n"]) simp
  qed
qed

text \<open>
  The stash of rejected sends never exceeds its byte budget, and the eviction is exactly what
  its comment says: the oldest entries go first, and never one more than the budget needs. What
  stays is the longest run of the newest entries that fits.
\<close>

theorem stash_eviction_exact:
  assumes "distinct (map fst m)" "0 \<le> sc_envelopeBudgetBytes cfg"
  shows "\<exists>n \<le> length m. evictStashesOverBudget cfg m = drop n m \<and>
    stash_bytes (evictStashesOverBudget cfg m) \<le> sc_envelopeBudgetBytes cfg \<and>
    (\<forall>k < n. sc_envelopeBudgetBytes cfg < stash_bytes (drop k m))"
proof (cases "stash_bytes m \<le> sc_envelopeBudgetBytes cfg")
  case True
  then show ?thesis by (intro exI [of _ 0]) (simp add: evictStashesOverBudget_def)
next
  case False
  then show ?thesis
    using evict_loop_drop [OF assms] by (auto simp: evictStashesOverBudget_def Let_def)
qed

section \<open>No queued revision is lost\<close>


text \<open>Where a revision that was queued can be found after an operation.\<close>

definition accounted :: "persisted \<Rightarrow> ident \<Rightarrow> bool" where
  "accounted s rid \<longleftrightarrow>
     rid \<in> ob_revisionId ` set (ps_outbox s) \<or> rid \<in> qr_revisionId ` set (ps_quarantine s) \<or>
     (\<exists>(k, es) \<in> set (or_else (ps_reconciliationBackups s) []). rid \<in> ob_revisionId ` set es)"

lemma accounted_trimmed [simp]: "accounted (trimmed cfg s) rid = accounted s rid"
  by (simp add: accounted_def)



















section \<open>Restart, as a property of every run\<close>



text \<open>A fresh installation: the first load imports an empty producer and saves.\<close>

definition ex_sync_cfg :: sync_config where
  "ex_sync_cfg = \<lparr>sc_maxLocallyAuthored = 10, sc_envelopeBudgetBytes = 100, sc_keepBaseContents = True\<rparr>"

definition ex_io :: io where
  "ex_io = \<lparr>io_now = 5, io_save = True, io_saveHydrate = True, io_saveProducer = True, io_saveReconcile = True,
     io_preserve = True, io_put = (\<lambda>_. True), io_get = (\<lambda>_. True), io_delete = (\<lambda>_. True), io_list = True\<rparr>"

definition ex_data :: plugin_data where
  "ex_data = \<lparr>pd_syncState = None, pd_bak = None, pd_staging = None, pd_corrupt = [], pd_pushProducer = None,
     pd_producerCorrupt = []\<rparr>"

definition ex_first :: durable where
  "ex_first = \<lparr>du_cache = None, du_externalized = [], du_parkReasons = [], du_recoveryRequired = False,
     du_data = ex_data, du_payloads = Some []\<rparr>"

definition ex_envelope :: envelope where
  "ex_envelope = \<lparr>ob_operationId = [1], ob_revisionId = [2], ob_fileId = [3], ob_contentHash = [4], ob_header = None,
     ob_idempotencyKey = [5], ob_payloadBase64 = js ''QUJD'', ob_enqueuedAt = None, ob_payloadExternalized = None,
     ob_backedUpAt = None\<rparr>"







theorem stash_eviction_exact_witness:
  "evictStashesOverBudget (ex_sync_cfg\<lparr>sc_envelopeBudgetBytes := 3\<rparr>) [([1], ex_envelope), ([2], ex_envelope)] =
     [([2], ex_envelope)]"
proof -
  let ?m = "[([1], ex_envelope), ([2], ex_envelope)]" and ?cfg = "ex_sync_cfg\<lparr>sc_envelopeBudgetBytes := 3\<rparr>"
  have len: "base64ByteLength (ob_payloadBase64 ex_envelope) = 3"
    by (simp add: base64ByteLength_def ex_envelope_def js_def suffix_to_prefix)
  obtain n where n: "n \<le> length ?m" "evictStashesOverBudget ?cfg ?m = drop n ?m"
    "stash_bytes (evictStashesOverBudget ?cfg ?m) \<le> 3" "\<forall>k < n. 3 < stash_bytes (drop k ?m)"
    using stash_eviction_exact [of ?m ?cfg] by auto
  have "n \<noteq> 0"
  proof
    assume "n = 0"
    then show False using n(2,3) by (simp add: stash_bytes_def len)
  qed
  moreover have "\<not> 1 < n" using n(4) by (auto simp: stash_bytes_def len dest!: spec [of _ 1])
  ultimately have "n = 1" by simp
  then show ?thesis using n(2) by simp
qed

section \<open>A quarantine whose save fails after it evicted\<close>

lemma drop_payloads:
  assumes "\<forall>i. io_delete io i" "du_payloads d = Some m"
    and "map_of m k = None \<or> k \<in> set ks \<and> k \<in> set (du_externalized d)"
  shows "du_cache (fold (\<lambda>i d. dropPayload io d i) ks d) = du_cache d"
    "du_data (fold (\<lambda>i d. dropPayload io d i) ks d) = du_data d"
    "\<exists>m'. du_payloads (fold (\<lambda>i d. dropPayload io d i) ks d) = Some m' \<and> map_of m' k = None"
proof -
  have "du_cache (fold (\<lambda>i d. dropPayload io d i) ks d) = du_cache d \<and>
    du_data (fold (\<lambda>i d. dropPayload io d i) ks d) = du_data d \<and>
    (\<exists>m'. du_payloads (fold (\<lambda>i d. dropPayload io d i) ks d) = Some m' \<and> map_of m' k = None)"
    using assms(2,3)
  proof (induction ks arbitrary: d m)
    case (Cons j ks)
    let ?d = "dropPayload io d j"
    have "\<exists>m1. du_payloads ?d = Some m1 \<and> (map_of m1 k = None \<or> k \<in> set ks \<and> k \<in> set (du_externalized ?d))"
      using Cons.prems assms(1) by (cases "j \<in> set (du_externalized d)"; cases "k = j") (auto simp: dropPayload_def)
    then obtain m1 where m1: "du_payloads ?d = Some m1" "map_of m1 k = None \<or> k \<in> set ks \<and> k \<in> set (du_externalized ?d)"
      by blast
    have same: "du_cache ?d = du_cache d" "du_data ?d = du_data d" by (simp_all add: dropPayload_def)
    from Cons.IH [OF m1] show ?case using same by simp
  qed auto
  then show "du_cache (fold (\<lambda>i d. dropPayload io d i) ks d) = du_cache d"
    "du_data (fold (\<lambda>i d. dropPayload io d i) ks d) = du_data d"
    "\<exists>m'. du_payloads (fold (\<lambda>i d. dropPayload io d i) ks d) = Some m' \<and> map_of m' k = None" by blast+
qed

text \<open>
  Why \<open>op_ok\<close> asks for the save of an evicting quarantine: when it fails, memory and document still
  hold the envelope of every evicted stash, but the payload store has lost its bytes.
\<close>

theorem failed_quarantine_loses_stash:
  assumes "du_cache d = Some s" "du_payloads d = Some m" "k \<in> set (du_externalized d)"
    and "\<not> io_save io" "\<forall>i. io_delete io i"
    and "map_of (stash_with s rid) k = Some e" "map_of (evictStashesOverBudget cfg (stash_with s rid)) k = None"
  shows "\<exists>m'. du_cache (exec cfg io (Quarantine rid reason) d) = Some s \<and>
    du_data (exec cfg io (Quarantine rid reason) d) = du_data d \<and>
    du_payloads (exec cfg io (Quarantine rid reason) d) = Some m' \<and> map_of m' k = None"
proof -
  let ?ks = "filter (\<lambda>j. map_of (evictStashesOverBudget cfg (stash_with s rid)) j = None) (map fst (stash_with s rid))"
  have "k \<in> set ?ks" using assms(6,7) by (force dest: map_of_SomeD)
  then have "map_of m k = None \<or> k \<in> set ?ks \<and> k \<in> set (du_externalized d)" using assms(3) by blast
  note dropped = drop_payloads [OF assms(5,2) this]
  have "exec cfg io (Quarantine rid reason) d = fold (\<lambda>i d. dropPayload io d i) ?ks d"
    using assms(1,4) by (simp add: quarantineOutboxItem_def ensureLoaded_def stash_with_def mutate_def Let_def)
  then show ?thesis using dropped assms(1) by simp
qed

theorem failed_quarantine_loses_stash_witness:
  "\<exists>d m'. du_payloads d = Some [([1], js ''QUJD'')] \<and>
     du_payloads (exec (ex_sync_cfg\<lparr>sc_envelopeBudgetBytes := 3\<rparr>) (ex_io\<lparr>io_save := False\<rparr>) (Quarantine [2] [7]) d) = Some m' \<and>
     map_of m' [1] = None"
proof -
  let ?s = "emptyState\<lparr>ps_outbox := [ex_envelope], ps_quarantinedEnvelopes := [([1], ex_envelope)]\<rparr>"
  let ?d = "ex_first\<lparr>du_cache := Some ?s, du_externalized := [[1]], du_payloads := Some [([1], js ''QUJD'')]\<rparr>"
  have stash: "stash_with ?s [2] = [([1], ex_envelope), ([2], ex_envelope)]"
    by (simp add: stash_with_def ex_envelope_def map_set_def)
  have kept: "map_of (stash_with ?s [2]) [1] = Some ex_envelope" unfolding stash by simp
  have gone: "map_of (evictStashesOverBudget (ex_sync_cfg\<lparr>sc_envelopeBudgetBytes := 3\<rparr>) (stash_with ?s [2])) [1] = None"
    unfolding stash stash_eviction_exact_witness by simp
  have "\<exists>m'. du_cache (exec (ex_sync_cfg\<lparr>sc_envelopeBudgetBytes := 3\<rparr>) (ex_io\<lparr>io_save := False\<rparr>) (Quarantine [2] [7]) ?d) = Some ?s \<and>
      du_data (exec (ex_sync_cfg\<lparr>sc_envelopeBudgetBytes := 3\<rparr>) (ex_io\<lparr>io_save := False\<rparr>) (Quarantine [2] [7]) ?d) = du_data ?d \<and>
      du_payloads (exec (ex_sync_cfg\<lparr>sc_envelopeBudgetBytes := 3\<rparr>) (ex_io\<lparr>io_save := False\<rparr>) (Quarantine [2] [7]) ?d) = Some m' \<and>
      map_of m' [1] = None"
    by (rule failed_quarantine_loses_stash [OF _ _ _ _ _ kept gone, where m = "[([1], js ''QUJD'')]"]) (simp_all add: ex_io_def)
  then show ?thesis by (intro exI [of _ ?d]) auto
qed

section \<open>A load that fails after the cache is set\<close>

text \<open>
  C40. The load sets the cache before it imports the producer and before it reads the stored
  payloads back. When the save of the imported producer fails, the load raises, but the cache stays
  set, so the next caller takes it for a settled one: a revision whose bytes are in the payload
  store is then handed to the transport with an empty payload.
\<close>

theorem failed_import_leaves_empty_payload:
  assumes "du_cache d = None" "du_externalized d = []"
    and "pd_syncState (du_data d) = Some (state_json t)" "persisted_ok t" "trimmed cfg (reloaded t) = reloaded t"
    and "ps_producer t = None" "\<not> io_saveProducer io"
    and "ps_outbox t = e # es" "ob_payloadExternalized e = Some True" "ob_payloadBase64 e = []"
  shows "\<exists>d'. ensureLoaded cfg io d = (Inl SaveFailed, d') \<and> ensureLoaded cfg io' d' = (Inr (reloaded t), d') \<and>
    peekEnvelope d' (ob_revisionId e) = Some (ob_header e, ob_idempotencyKey e, []) \<and> du_payloads d' = du_payloads d"
proof -
  have parse: "parsePersistedState (Some (state_json t)) =
      \<lparr>prs_status = Parsed, prs_state = reloaded t, prs_salvage = None, prs_outboxAtRisk = False\<rparr>"
    using strictParse_state_json [OF assms(4)] by (simp add: parsePersistedState_def state_json_def)
  let ?d = "d\<lparr>du_cache := Some (reloaded t)\<rparr>"
  have hyd: "hydrate cfg io (state_json t) d = (Inr True, ?d)"
    using validRecoveryFields_json [OF assms(4)] by (simp add: hydrate_def assms parse)
  have np: "ps_producer (reloaded t) = None" using assms(6) by (simp add: reloaded_def)
  have leg: "du_cache (snd (loadLegacyProducer io ?d)) = Some (reloaded t) \<and> du_payloads (snd (loadLegacyProducer io ?d)) = du_payloads d"
    by (auto simp: loadLegacyProducer_def split: option.split prod.split)
  have settle: "settleProducer io (state_json t) ?d = (Inl SaveFailed, snd (loadLegacyProducer io ?d))"
    using np assms(6,7) by (simp add: settleProducer_def state_json_fields split: prod.split)
  have "peekEnvelope (snd (loadLegacyProducer io ?d)) (ob_revisionId e) = Some (ob_header e, ob_idempotencyKey e, [])"
    using leg assms(8,10) by (simp add: peekEnvelope_def reloaded_def reloaded_envelope_def)
  then show ?thesis
    using assms(1,3) leg hyd settle
    by (intro exI [of _ "snd (loadLegacyProducer io ?d)"]) (simp add: ensureLoaded_def load_state_def or_else_def)
qed

definition ex_upgraded :: persisted where
  "ex_upgraded = emptyState\<lparr>ps_outbox := [ex_envelope\<lparr>ob_payloadBase64 := [], ob_payloadExternalized := Some True\<rparr>]\<rparr>"

theorem failed_import_leaves_empty_payload_witness:
  "\<exists>d d'. du_payloads d = Some [([2], js ''QUJD'')] \<and>
     fst (ensureLoaded ex_sync_cfg (ex_io\<lparr>io_saveProducer := False\<rparr>) d) = Inl SaveFailed \<and>
     d' = snd (ensureLoaded ex_sync_cfg (ex_io\<lparr>io_saveProducer := False\<rparr>) d) \<and>
     fst (ensureLoaded ex_sync_cfg ex_io d') = Inr (reloaded ex_upgraded) \<and>
     peekEnvelope d' [2] = Some (None, [5], [])"
proof -
  let ?d = "ex_first\<lparr>du_data := ex_data\<lparr>pd_syncState := Some (state_json ex_upgraded)\<rparr>,
    du_payloads := Some [([2], js ''QUJD'')]\<rparr>"
  let ?io = "ex_io\<lparr>io_saveProducer := False\<rparr>"
  have "persisted_ok ex_upgraded" by (simp add: ex_upgraded_def persisted_ok_def emptyState_def MAX_SAFE_INTEGER_def)
  moreover have "trimmed ex_sync_cfg (reloaded ex_upgraded) = reloaded ex_upgraded" by (simp add: trimmed_def ex_sync_cfg_def)
  ultimately obtain d' where "ensureLoaded ex_sync_cfg ?io ?d = (Inl SaveFailed, d')"
    "ensureLoaded ex_sync_cfg ex_io d' = (Inr (reloaded ex_upgraded), d')"
    "peekEnvelope d' [2] = Some (None, [5], [])"
    using failed_import_leaves_empty_payload [of ?d ex_upgraded ex_sync_cfg ?io
        "ex_envelope\<lparr>ob_payloadBase64 := [], ob_payloadExternalized := Some True\<rparr>" "[]" ex_io]
    by (auto simp: ex_first_def ex_upgraded_def emptyState_def ex_envelope_def)
  then show ?thesis by (intro exI [of _ ?d] exI [of _ d']) simp
qed

end
