(* ===== verification/SyncPull.thy ===== *)
theory SyncPull
  imports SyncRunner SyncState_Theorems
begin

text \<open>
  What a pull promises. The locale \<open>pull_contract\<close> states what the runner relies on in its three
  interfaces; its lemmas show that the stored cursor only moves over changes that were authored here,
  applied or parked, whatever fails in between. The interface is interpreted on the durable sync
  state, with the transport, the vault and the outcome of every file access as parameters.
\<close>

section \<open>The contract of the interfaces\<close>

locale pull_contract =
  fixes P :: "'s ports"
    and usable :: "'s \<Rightarrow> bool"
    and cursor_of :: "'s \<Rightarrow> int"
    and handled :: "'s \<Rightarrow> ident \<Rightarrow> bool"
    and keeps :: "'s \<Rightarrow> 's \<Rightarrow> bool"
  defines "keeps w w' \<equiv> usable w' \<and> cursor_of w' = cursor_of w \<and> (\<forall>i. handled w i \<longrightarrow> handled w' i)"
  assumes load: "sp_loadCursor P w = (Inr c, w') \<Longrightarrow> usable w' \<and> cursor_of w' = c"
    and save: "usable w \<Longrightarrow> sp_saveCursor P n w = (r, w') \<Longrightarrow>
      usable w' \<and> (\<forall>i. handled w i \<longrightarrow> handled w' i) \<and> cursor_of w' = (if isl r then cursor_of w else n)"
    and authored: "usable w \<Longrightarrow> sp_isLocallyAuthored P i w = (rl, w') \<Longrightarrow> keeps w w' \<and> (rl = Inr True \<longrightarrow> handled w' i)"
    and buffers: "usable w \<Longrightarrow> vp_openBuffers P f w = (rb, w') \<Longrightarrow> keeps w w'"
    and applied: "usable w \<Longrightarrow> vp_applyRemote P ev b w = (ra, w') \<Longrightarrow>
      keeps w w' \<and> (\<forall>out. ra = Inr out \<longrightarrow> out \<noteq> OutDeferred \<longrightarrow> handled w' (rr_revisionId (re_revision ev)))"
    and park: "usable w \<Longrightarrow> sp_parkRemote P = Some pk \<Longrightarrow> pk ev m w = (ru, w') \<Longrightarrow>
      keeps w w' \<and> (ru = Inr () \<longrightarrow> handled w' (rr_revisionId (re_revision ev)))"
    and retire: "usable w \<Longrightarrow> sp_retireEquivalentMerges P = Some rt \<Longrightarrow> rt ev w = (ru, w') \<Longrightarrow> keeps w w'"
    and pull: "usable w \<Longrightarrow> tr_pull P c w = (rp, w') \<Longrightarrow> keeps w w'"
begin

definition advances :: "remote_event list \<Rightarrow> 's \<Rightarrow> 's \<Rightarrow> bool" where
  "advances evs w w' \<longleftrightarrow>
     usable w' \<and> cursor_of w \<le> cursor_of w' \<and> (\<forall>i. handled w i \<longrightarrow> handled w' i) \<and>
     (\<forall>n. cursor_of w < n \<longrightarrow> n \<le> cursor_of w' \<longrightarrow>
        (\<exists>ev \<in> set evs. re_serverSequence ev = n \<and> handled w' (rr_revisionId (re_revision ev))))"

lemma keeps_trans: "keeps w w1 \<Longrightarrow> keeps w1 w2 \<Longrightarrow> keeps w w2"
  by (auto simp: keeps_def)

lemma advances_keeps: "keeps w w' \<Longrightarrow> advances evs w w'"
  by (auto simp: keeps_def advances_def)

text \<open>What a step of the loop does: it keeps the cursor, or moves it over the event it handled.\<close>

definition stepped :: "remote_event \<Rightarrow> 's \<Rightarrow> pull_step \<Rightarrow> 's \<Rightarrow> bool" where
  "stepped ev w st w' \<longleftrightarrow>
     (case st of
        Advance _ \<Rightarrow> usable w' \<and> cursor_of w' = re_serverSequence ev \<and> (\<forall>i. handled w i \<longrightarrow> handled w' i) \<and>
          handled w' (rr_revisionId (re_revision ev))
      | _ \<Rightarrow> keeps w w')"

lemma stepped_keeps: "keeps w w' \<Longrightarrow> \<forall>c. st \<noteq> Advance c \<Longrightarrow> stepped ev w st w'"
  by (auto simp: stepped_def split: pull_step.splits)

lemma stepped_after: "keeps w w1 \<Longrightarrow> stepped ev w1 st w' \<Longrightarrow> stepped ev w st w'"
  by (auto simp: stepped_def keeps_def split: pull_step.splits)

lemma advance_cursor_stepped:
  assumes "usable w" "handled w (rr_revisionId (re_revision ev))" "advance_cursor P (re_serverSequence ev) c fails w = (st, f, w')"
  shows "stepped ev w st w'"
  using assms save [OF assms(1), of "re_serverSequence ev"]
  by (fastforce simp: advance_cursor_def stepped_def keeps_def split: prod.splits sum.splits)

lemma apply_failed_stepped:
  assumes "usable w" "apply_failed P ev e c fails w = (st, f, w')"
  shows "stepped ev w st w'"
proof -
  have refl: "keeps w w" using assms(1) by (simp add: keeps_def)
  show ?thesis
  proof (cases "sp_parkRemote P")
    case None
    then show ?thesis using assms(2) refl by (auto simp: apply_failed_def Let_def intro!: stepped_keeps)
  next
    case (Some pk)
    obtain r w1 where p: "pk ev (fl_message e) w = (r, w1)" by fastforce
    note k = park [OF assms(1) Some p]
    then have "usable w1" by (simp add: keeps_def)
    then show ?thesis
      using assms(2) Some p k refl stepped_after advance_cursor_stepped
      by (auto simp: apply_failed_def Let_def intro!: stepped_keeps split: sum.splits if_splits)
  qed
qed

lemma apply_done_stepped:
  assumes "usable w" "outcome \<noteq> OutDeferred \<Longrightarrow> handled w (rr_revisionId (re_revision ev))"
    and "apply_done P ev outcome c fails w = (st, f, w')"
  shows "stepped ev w st w'"
proof -
  have refl: "keeps w w" using assms(1) by (simp add: keeps_def)
  obtain r w1 where rt: "(case sp_retireEquivalentMerges P of Some retire \<Rightarrow> retire ev w | None \<Rightarrow> (Inr (), w)) = (r, w1)"
    by fastforce
  then have k: "keeps w w1" using refl retire [OF assms(1)] by (auto split: option.splits)
  then have w1: "usable w1" "outcome \<noteq> OutDeferred \<Longrightarrow> handled w1 (rr_revisionId (re_revision ev))"
    using assms(2) by (auto simp: keeps_def)
  show ?thesis
  proof (cases outcome)
    case OutDeferred
    then show ?thesis using assms(3) refl by (auto simp: apply_done_def intro!: stepped_keeps)
  next
    case OutConflict
    then show ?thesis using assms advance_cursor_stepped by (auto simp: apply_done_def)
  qed (use assms(3) rt k w1 stepped_after advance_cursor_stepped in
        \<open>auto simp: apply_done_def intro!: stepped_keeps split: sum.splits\<close>)
qed

lemma pull_event_stepped:
  assumes "usable w" "pull_event P target ev c fails w = (st, f, w')"
  shows "stepped ev w st w'"
proof -
  let ?rid = "rr_revisionId (re_revision ev)"
  obtain ra w1 where a: "sp_isLocallyAuthored P ?rid w = (ra, w1)" by fastforce
  note k1 = authored [OF assms(1) a]
  then have u1: "usable w1" by (simp add: keeps_def)
  obtain rb w2 where b: "vp_openBuffers P (rr_fileId (re_revision ev)) w1 = (rb, w2)" by fastforce
  have k2: "keeps w w2" using keeps_trans k1 buffers [OF u1 b] by blast
  then have u2: "usable w2" by (simp add: keeps_def)
  obtain ro w3 where app: "vp_applyRemote P ev (re_serverSequence ev \<le> target) w2 = (ro, w3)" by fastforce
  note ap = applied [OF u2 app]
  then have k3: "keeps w w3" using keeps_trans [OF k2] by blast
  then have u3: "usable w3" by (simp add: keeps_def)
  note ev = assms(2) [unfolded pull_event_def Let_def a b app prod.case]
  show ?thesis
  proof (cases "ra = Inr False")
    case False
    then show ?thesis using ev k1 stepped_after advance_cursor_stepped [OF u1]
      by (auto intro!: stepped_keeps split: sum.splits bool.splits)
  next
    case own: True
    show ?thesis
    proof (cases "\<exists>unsaved. rb = Inr unsaved \<and> \<not> list_ex (\<lambda>b. b) unsaved")
      case False
      then show ?thesis using ev own b k2 by (auto intro!: stepped_keeps split: sum.splits if_splits)
    next
      case True
      have "stepped ev w3 st w'"
      proof (cases ro)
        case (Inl e)
        then show ?thesis using ev own True apply_failed_stepped [OF u3] by auto
      next
        case (Inr outcome)
        have "apply_done P ev outcome c (map_delete fails ?rid) w3 = (st, f, w')" using ev own True Inr by auto
        then show ?thesis by (rule apply_done_stepped [OF u3, rotated]) (use ap Inr in auto)
      qed
      then show ?thesis by (rule stepped_after [OF k3])
    qed
  qed
qed

lemma pull_loop_advances:
  "pull_loop P target cursor evs c fails w = (res, fails', w') \<Longrightarrow> usable w \<Longrightarrow> cursor_of w = cursor \<Longrightarrow> advances evs w w'"
proof (induction evs arbitrary: cursor c fails w)
  case Nil
  then show ?case by (auto simp: advances_def)
next
  case (Cons ev evs)
  note run = Cons.prems(1) and usable = Cons.prems(2) and cur = Cons.prems(3)
  obtain st f1 w1 where p: "pull_event P target ev c fails w = (st, f1, w1)" by (metis prod_cases3)
  note step = pull_event_stepped [OF usable p]
  show ?case
  proof (cases "re_serverSequence ev = cursor + 1")
    case False
    then show ?thesis
      using run usable cur Cons.IH [of cursor c fails w] advances_keeps [of w w "ev # evs"]
      by (auto simp: advances_def keeps_def split: if_splits)
  next
    case True
    show ?thesis
    proof (cases st)
      case (Advance c1)
      then have w1: "usable w1" "cursor_of w1 = cursor + 1" "\<forall>i. handled w i \<longrightarrow> handled w1 i"
        "handled w1 (rr_revisionId (re_revision ev))"
        using step True by (auto simp: stepped_def)
      have "advances evs w1 w'" by (rule Cons.IH [OF _ w1(1,2)]) (use run p Advance True in auto)
      then show ?thesis unfolding advances_def list.set using w1 cur True
        by (smt (verit, best) insert_iff)
    qed (use run p True step advances_keeps in \<open>auto simp: stepped_def\<close>)
  qed
qed

lemma runPull_advances:
  assumes "sp_loadCursor P w = (Inr cursor, w0)" "runPull P r w = (res, r', w')"
  shows "\<exists>evs. advances evs w0 w' \<and> cursor_of w0 = cursor \<and>
    (evs = [] \<or> (\<exists>page w1. tr_pull P cursor w0 = (Inr page, w1) \<and> evs = pl_events page))"
proof -
  have w0: "usable w0" "cursor_of w0 = cursor" using load [OF assms(1)] by auto
  obtain rp w1 where p: "tr_pull P cursor w0 = (rp, w1)" by fastforce
  note k = pull [OF w0(1) p]
  then have w1: "usable w1" "cursor_of w1 = cursor" using w0 by (auto simp: keeps_def)
  show ?thesis
  proof (cases rp)
    case (Inl e)
    then have "advances [] w0 w'" using assms p k by (auto simp: runPull_def intro: advances_keeps)
    then show ?thesis using w0 by blast
  next
    case (Inr page)
    obtain fails' where "pull_loop P (or_else (rn_bootstrapTarget r) (pl_cursor page)) cursor
        (sort_key re_serverSequence (pl_events page))
        \<lparr>pc_applied = 0, pc_suppressed = 0, pc_conflicts = 0, pc_deferred = 0\<rparr> (rn_applyFailures r) w1 = (res, fails', w')"
      using assms p Inr by (auto simp: runPull_def Let_def split: prod.splits)
    from pull_loop_advances [OF this w1] have "advances (pl_events page) w1 w'" by (simp add: advances_def)
    then have "advances (pl_events page) w0 w'" using k by (auto simp: advances_def keeps_def)
    then show ?thesis using w0 p Inr by blast
  qed
qed

lemma runPull_passes:
  assumes "sp_loadCursor P w = (Inr cursor, w0)" "runPull P r w = (res, r', w')"
  shows "cursor \<le> cursor_of w' \<and> (\<forall>n. cursor < n \<longrightarrow> n \<le> cursor_of w' \<longrightarrow>
    (\<exists>page w1. tr_pull P cursor w0 = (Inr page, w1) \<and> (\<exists>ev \<in> set (pl_events page). re_serverSequence ev = n \<and>
       handled w' (rr_revisionId (re_revision ev)))))"
  using runPull_advances [OF assms] unfolding advances_def by fastforce

end

section \<open>The ports of a client\<close>

text \<open>
  The world of one client: its durable state, the number of state operations so far (which selects
  the outcomes of their file accesses), the revisions the vault has applied or the state has
  recognised as its own, and the vault and network behind the parameters.
\<close>

record 'v client =
  cl_state :: durable
  cl_tick :: nat
  cl_settled :: "ident list"
  cl_rest :: 'v

text \<open>
  The parameters: the transport and the vault are any functions. The vault's apply returns the
  operations it performed on the sync state on its way, in order, whether it then succeeded or threw.
\<close>

record 'v client_env =
  ce_cfg :: sync_config
  ce_io :: "nat \<Rightarrow> io"
  ce_open :: "ident \<Rightarrow> 'v \<Rightarrow> (failure + bool list) \<times> 'v"
  ce_apply :: "remote_event \<Rightarrow> bool \<Rightarrow> durable \<Rightarrow> 'v \<Rightarrow> (failure + apply_outcome) \<times> sync_op list \<times> 'v"
  ce_push :: "push_revision list \<Rightarrow> 'v \<Rightarrow> (failure + push_item_result list) \<times> 'v"
  ce_pull :: "int \<Rightarrow> 'v \<Rightarrow> (failure + pull_result) \<times> 'v"

fun error_text :: "sync_error \<Rightarrow> jsstr" where
  "error_text SaveFailed = js ''save failed''"
| "error_text RecoveryPending = js ''Producer recovery must finish before another transaction.''"
| "error_text WouldOrphan = js ''Recovery would orphan pending work.''"
| "error_text NoApplyTransaction = js ''Automatic merge requires a durable apply transaction.''"
| "error_text InvalidJournal = js ''Invalid producer recovery journal; sync is paused with original state preserved.''"
| "error_text CorruptWithRecovery = js ''Corrupt sync state includes recovery data; original state preserved.''"

definition state_failure :: "sync_error \<Rightarrow> failure" where
  "state_failure e = \<lparr>fl_authDenied = False, fl_permanent = False, fl_permanentApply = False, fl_message = error_text e\<rparr>"

definition state_act :: "'v client_env \<Rightarrow> (io \<Rightarrow> durable \<Rightarrow> 'a outcome) \<Rightarrow> ('v client, 'a) act" where
  "state_act E f w =
     (case f (ce_io E (cl_tick w)) (cl_state w) of (r, d) \<Rightarrow>
        (case r of Inl e \<Rightarrow> Inl (state_failure e) | Inr a \<Rightarrow> Inr a, w\<lparr>cl_state := d, cl_tick := cl_tick w + 1\<rparr>))"

definition rest_act :: "('v \<Rightarrow> (failure + 'a) \<times> 'v) \<Rightarrow> ('v client, 'a) act" where
  "rest_act f w = (case f (cl_rest w) of (r, v) \<Rightarrow> (r, w\<lparr>cl_rest := v\<rparr>))"

text \<open>The operations of the sync state that applying a change uses: not the cursor, the parked list or the queue's ends.\<close>

fun vault_op :: "sync_op \<Rightarrow> bool" where
  "vault_op (SaveCursor _) = False"
| "vault_op (Park _ _) = False"
| "vault_op (Unpark _) = False"
| "vault_op (Receipt _) = False"
| "vault_op (Quarantine _ _) = False"
| "vault_op (Requeue _) = False"
| "vault_op (Discard _) = False"
| "vault_op _ = True"

fun run_ops :: "'v client_env \<Rightarrow> sync_op list \<Rightarrow> 'v client \<Rightarrow> 'v client" where
  "run_ops E [] w = w"
| "run_ops E (op # ops) w =
     run_ops E ops (w\<lparr>cl_state := exec (ce_cfg E) (ce_io E (cl_tick w)) op (cl_state w), cl_tick := cl_tick w + 1\<rparr>)"

definition apply_act :: "'v client_env \<Rightarrow> remote_event \<Rightarrow> bool \<Rightarrow> ('v client, apply_outcome) act" where
  "apply_act E ev bootstrap w =
     (case ce_apply E ev bootstrap (cl_state w) (cl_rest w) of (r, ops, v) \<Rightarrow>
        (let w' = (run_ops E (filter vault_op ops) w)\<lparr>cl_rest := v\<rparr>
         in (r, case r of
                  Inr OutDeferred \<Rightarrow> w'
                | Inr _ \<Rightarrow> w'\<lparr>cl_settled := rr_revisionId (re_revision ev) # cl_settled w'\<rparr>
                | Inl _ \<Rightarrow> w')))"

definition authored_act :: "'v client_env \<Rightarrow> ident \<Rightarrow> ('v client, bool) act" where
  "authored_act E rid w =
     (case state_act E (\<lambda>io d. and_then (ensureLoaded (ce_cfg E) io d) (\<lambda>s d. (Inr (isLocallyAuthored s rid), d))) w of
        (r, w') \<Rightarrow> (r, if r = Inr True then w'\<lparr>cl_settled := rid # cl_settled w'\<rparr> else w'))"

definition client_ports :: "'v client_env \<Rightarrow> 'v client ports" where
  "client_ports E = (let cfg = ce_cfg E in
     \<lparr>sp_loadCursor = state_act E (loadCursor cfg),
      sp_saveCursor = (\<lambda>n. state_act E (\<lambda>io. saveCursor cfg io n)),
      sp_listOutbox = state_act E (listOutbox cfg),
      sp_recordPushReceipt = (\<lambda>r. state_act E (\<lambda>io. recordPushReceipt cfg io (pr_revisionId r))),
      sp_quarantineOutboxItem = (\<lambda>i reason. state_act E (\<lambda>io. quarantineOutboxItem cfg io i reason)),
      sp_isLocallyAuthored = authored_act E,
      sp_retireEquivalentMerges = Some (\<lambda>ev. state_act E (\<lambda>io. retireEquivalentMerges cfg io ev)),
      sp_parkRemote = Some (\<lambda>ev reason. state_act E (\<lambda>io. parkRemote cfg io ev reason)),
      sp_unparkRemote = Some (\<lambda>i. state_act E (\<lambda>io. unparkRemote cfg io i)),
      sp_listParkedRemote = Some (state_act E (\<lambda>io d. and_then (ensureLoaded cfg io d) (\<lambda>s d. (Inr (ps_deferred s), d)))),
      vp_openBuffers = (\<lambda>f. rest_act (ce_open E f)),
      vp_applyRemote = apply_act E,
      tr_push = (\<lambda>live. rest_act (ce_push E live)),
      tr_pull = (\<lambda>c. rest_act (ce_pull E c)),
      hk_beforeCycle = None, hk_beforePull = None, hk_afterPull = None\<rparr>)"

section \<open>The durable state keeps the contract\<close>

definition loaded :: "'v client \<Rightarrow> bool" where
  "loaded w \<longleftrightarrow> du_cache (cl_state w) \<noteq> None"

definition client_cursor :: "'v client \<Rightarrow> int" where
  "client_cursor w = (case du_cache (cl_state w) of Some s \<Rightarrow> ps_cursor s | None \<Rightarrow> 0)"

definition parked_ids :: "durable \<Rightarrow> ident list" where
  "parked_ids d = (case du_cache d of Some s \<Rightarrow> map (\<lambda>ev. rr_revisionId (re_revision ev)) (ps_deferred s) | None \<Rightarrow> [])"

definition settled :: "'v client \<Rightarrow> ident \<Rightarrow> bool" where
  "settled w i \<longleftrightarrow> i \<in> set (cl_settled w) \<or> i \<in> set (parked_ids (cl_state w))"

text \<open>An operation of the state keeps the cursor and the parked changes.\<close>

definition keeps_pull :: "durable \<Rightarrow> durable \<Rightarrow> bool" where
  "keeps_pull d d' \<longleftrightarrow> (\<forall>s. du_cache d = Some s \<longrightarrow>
     (\<exists>s'. du_cache d' = Some s' \<and> ps_cursor s' = ps_cursor s \<and> ps_deferred s' = ps_deferred s))"

lemma keeps_pull_refl [simp]: "keeps_pull d d"
  by (simp add: keeps_pull_def)

lemma keeps_pull_trans: "keeps_pull d d' \<Longrightarrow> keeps_pull d' d'' \<Longrightarrow> keeps_pull d d''"
  unfolding keeps_pull_def by metis

lemma keeps_pull_mutate:
  assumes "du_cache d = Some s" "du_cache d' = Some s" "ps_cursor t = ps_cursor s" "ps_deferred t = ps_deferred s"
  shows "keeps_pull d (snd (mutate cfg io d' t))"
  using assms by (auto simp: keeps_pull_def mutate_def Let_def)

lemma keeps_pull_section:
  assumes "\<And>s. du_cache d = Some s \<Longrightarrow> keeps_pull d (snd (K s d))"
  shows "keeps_pull d (snd (and_then (ensureLoaded cfg io d) K))"
proof (cases "du_cache d")
  case None
  then show ?thesis by (simp add: keeps_pull_def)
next
  case (Some s)
  then show ?thesis using assms by (simp add: ensureLoaded_def)
qed

lemma snd_and_then_return: "snd (and_then r (\<lambda>_ d. (Inr b, d))) = snd r"
  by (cases r rule: prod.exhaust; cases "fst r") auto

lemma externalize_cache [simp]: "du_cache (externalize io d e) = du_cache d"
  by (simp add: externalize_def safePutPayload_def split: prod.splits bool.splits option.splits if_splits)

lemma keeps_pull_swap:
  assumes "du_cache d = Some s"
    and "\<And>t. ps_cursor t = ps_cursor s \<Longrightarrow> ps_deferred t = ps_deferred s \<Longrightarrow>
      ps_cursor (f t) = ps_cursor s \<and> ps_deferred (f t) = ps_deferred s"
  shows "keeps_pull d (snd (and_then (swapQueue io s entry replacement d) (\<lambda>swapped d.
       case swapped of None \<Rightarrow> (Inr False, d) | Some t \<Rightarrow> and_then (mutate cfg io d (f t)) (\<lambda>_ d. (Inr True, d)))))"
proof (cases "swapQueue io s entry replacement d" rule: prod.exhaust)
  case (Pair r d1)
  then have d1: "du_cache d1 = Some s" using assms(1) by (auto simp: swapQueue_def Let_def split: if_splits option.splits)
  then have keep: "keeps_pull d d1" using assms(1) by (simp add: keeps_pull_def)
  show ?thesis
  proof (cases "\<exists>t. r = Inr (Some t)")
    case True
    then obtain t where r: "r = Inr (Some t)" by blast
    then have "ps_cursor t = ps_cursor s \<and> ps_deferred t = ps_deferred s"
      using Pair by (auto simp: swapQueue_def Let_def split: if_splits)
    then show ?thesis using Pair r assms(2) keeps_pull_mutate [OF assms(1) d1]
      by (simp add: snd_and_then_return)
  next
    case False
    then show ?thesis using Pair keep by (cases r) (auto split: option.splits)
  qed
qed

lemma rolled_pull_fields [simp]:
  "ps_cursor (rolledForward s r) = ps_cursor s" "ps_deferred (rolledForward s r) = ps_deferred s"
  "ps_cursor (rolledBack io s r) = ps_cursor s" "ps_deferred (rolledBack io s r) = ps_deferred s"
  by (simp_all add: rolledForward_def rolledBack_def Let_def split: option.split)

lemma keeps_pull_update:
  assumes "\<And>s. ps_cursor (f s) = ps_cursor s \<and> ps_deferred (f s) = ps_deferred s"
  shows "keeps_pull d (snd (update_state cfg io d f))"
  unfolding update_state_def by (rule keeps_pull_section, rule keeps_pull_mutate) (use assms in auto)

lemma keeps_pull_forget:
  assumes "\<And>m s. ps_cursor (upd m s) = ps_cursor s \<and> ps_deferred (upd m s) = ps_deferred s"
  shows "keeps_pull d (snd (forget_member cfg io get upd key d))"
  unfolding forget_member_def by (rule keeps_pull_section) (use assms in \<open>auto intro: keeps_pull_mutate\<close>)

lemma keeps_pull_retire: "keeps_pull d (snd (retireEquivalentMerges cfg io ev d))"
  by (simp add: retireEquivalentMerges_def Let_def keeps_pull_section keeps_pull_mutate)

lemma keeps_pull_enqueue: "keeps_pull d (snd (enqueue cfg io e d))"
  unfolding enqueue_def Let_def by (rule keeps_pull_section, rule keeps_pull_mutate) auto

lemma keeps_pull_automatic: "keeps_pull d (snd (enqueueAutomaticMerge cfg io e d))"
  unfolding enqueueAutomaticMerge_def
  by (rule keeps_pull_section) (auto intro: keeps_pull_mutate split: option.splits)

lemma keeps_pull_recover: "keeps_pull d (snd (recoverProducerQueue cfg io i d))"
  unfolding recoverProducerQueue_def
  by (rule keeps_pull_section) (auto intro: keeps_pull_mutate split: option.splits)

lemma keeps_pull_commit: "keeps_pull d (snd (commitProducerChange cfg io entry e d))"
  unfolding commitProducerChange_def by (rule keeps_pull_section, rule keeps_pull_swap) auto

lemma keeps_pull_start: "keeps_pull d (snd (startProducerRecovery cfg io entry e d))"
  unfolding startProducerRecovery_def by (rule keeps_pull_section, rule keeps_pull_swap) auto

lemma vault_op_keeps: "vault_op op \<Longrightarrow> keeps_pull d (exec cfg io op d)"
  by (cases op)
     (simp_all add: recordFailedToQueue_def recordApplied_def recordPathOwner_def recordBaseHash_def
       recordBaseContent_def recordConflictArtifactPath_def completeProducerRecovery_def saveProducer_def
       forgetPath_def forgetBaseHash_def forgetBaseContent_def keeps_pull_update keeps_pull_forget keeps_pull_retire
       keeps_pull_enqueue keeps_pull_automatic keeps_pull_recover keeps_pull_commit keeps_pull_start)

lemma run_ops_keeps: "list_all vault_op ops \<Longrightarrow> keeps_pull (cl_state w) (cl_state (run_ops E ops w))"
proof (induction ops arbitrary: w)
  case (Cons op ops)
  let ?w = "w\<lparr>cl_state := exec (ce_cfg E) (ce_io E (cl_tick w)) op (cl_state w), cl_tick := cl_tick w + 1\<rparr>"
  have "keeps_pull (cl_state ?w) (cl_state (run_ops E ops ?w))" by (rule Cons.IH) (use Cons.prems in simp)
  moreover have "keeps_pull (cl_state w) (cl_state ?w)" using Cons.prems by (simp add: vault_op_keeps)
  ultimately show ?case using keeps_pull_trans by fastforce
qed simp

lemma run_ops_settled [simp]: "cl_settled (run_ops E ops w) = cl_settled w"
  by (induction ops arbitrary: w) auto

definition keeps_client :: "'v client \<Rightarrow> 'v client \<Rightarrow> bool" where
  "keeps_client w w' \<longleftrightarrow> loaded w' \<and> client_cursor w' = client_cursor w \<and> (\<forall>i. settled w i \<longrightarrow> settled w' i)"

lemma keeps_clientI:
  assumes "loaded w" "keeps_pull (cl_state w) (cl_state w')" "set (cl_settled w) \<subseteq> set (cl_settled w')"
  shows "keeps_client w w'"
  using assms
  by (auto simp: keeps_client_def keeps_pull_def loaded_def client_cursor_def settled_def parked_ids_def)

lemma state_act_loaded:
  assumes "state_act E (\<lambda>io d. and_then (ensureLoaded cfg io d) (\<lambda>s d. (Inr (f s), d))) w = (r, w')" "loaded w"
  shows "\<exists>s. du_cache (cl_state w) = Some s \<and> r = Inr (f s) \<and> cl_state w' = cl_state w \<and> cl_settled w' = cl_settled w"
  using assms by (auto simp: state_act_def loaded_def ensureLoaded_def)

lemma ensureLoaded_cache: "ensureLoaded cfg io d = (Inr s, d') \<Longrightarrow> du_cache d' = Some s"
  by (auto simp: ensureLoaded_def split: option.splits elim!: and_then.elims)

lemma client_load:
  assumes "sp_loadCursor (client_ports E) w = (Inr c, w')"
  shows "loaded w' \<and> client_cursor w' = c"
proof -
  obtain r d where l: "ensureLoaded (ce_cfg E) (ce_io E (cl_tick w)) (cl_state w) = (r, d)" by fastforce
  then show ?thesis using assms ensureLoaded_cache
    by (cases r) (auto simp: client_ports_def Let_def state_act_def loadCursor_def loaded_def client_cursor_def)
qed

lemma client_save:
  assumes "loaded w" "sp_saveCursor (client_ports E) n w = (r, w')"
  shows "loaded w' \<and> (\<forall>i. settled w i \<longrightarrow> settled w' i) \<and> client_cursor w' = (if isl r then client_cursor w else n)"
  using assms
  by (auto simp: client_ports_def Let_def state_act_def saveCursor_def update_state_def mutate_def loaded_def
      client_cursor_def settled_def parked_ids_def ensureLoaded_def split: if_splits)

lemma client_authored:
  assumes "loaded w" "sp_isLocallyAuthored (client_ports E) i w = (r, w')"
  shows "keeps_client w w' \<and> (r = Inr True \<longrightarrow> settled w' i)"
proof -
  obtain r1 w1 where s: "state_act E (\<lambda>io d. and_then (ensureLoaded (ce_cfg E) io d)
      (\<lambda>s d. (Inr (isLocallyAuthored s i), d))) w = (r1, w1)" by fastforce
  then have w': "r = r1" "w' = (if r = Inr True then w1\<lparr>cl_settled := i # cl_settled w1\<rparr> else w1)"
    using assms(2) by (auto simp: client_ports_def Let_def authored_act_def split: if_splits)
  have "keeps_client w w'"
    by (rule keeps_clientI [OF assms(1)]) (use state_act_loaded [OF s assms(1)] w' in auto)
  then show ?thesis using w' by (auto simp: settled_def)
qed

lemma client_apply:
  assumes "loaded w" "vp_applyRemote (client_ports E) ev b w = (r, w')"
  shows "keeps_client w w' \<and> (\<forall>out. r = Inr out \<longrightarrow> out \<noteq> OutDeferred \<longrightarrow> settled w' (rr_revisionId (re_revision ev)))"
proof -
  obtain r1 ops v where a: "ce_apply E ev b (cl_state w) (cl_rest w) = (r1, ops, v)" by (metis prod_cases3)
  let ?w = "run_ops E (filter vault_op ops) w"
  have k: "keeps_pull (cl_state w) (cl_state ?w)" by (rule run_ops_keeps) (simp add: list_all_iff)
  have w': "r = r1" "cl_state w' = cl_state ?w" "set (cl_settled w) \<subseteq> set (cl_settled w')"
    "\<forall>out. r = Inr out \<longrightarrow> out \<noteq> OutDeferred \<longrightarrow> rr_revisionId (re_revision ev) \<in> set (cl_settled w')"
    using assms(2) a
    by (auto simp: client_ports_def apply_act_def Let_def split: sum.splits apply_outcome.splits)
  show ?thesis using keeps_clientI [OF assms(1) k [folded w'(2)] w'(3)] w'(4) by (auto simp: settled_def)
qed

lemma client_park:
  assumes "loaded w" "sp_parkRemote (client_ports E) = Some pk" "pk ev m w = (r, w')"
  shows "keeps_client w w' \<and> (r = Inr () \<longrightarrow> settled w' (rr_revisionId (re_revision ev)))"
  using assms
  by (auto simp: client_ports_def Let_def state_act_def parkRemote_def update_state_def mutate_def loaded_def
      keeps_client_def client_cursor_def settled_def parked_ids_def ensureLoaded_def split: if_splits)

lemma client_retire:
  assumes "loaded w" "sp_retireEquivalentMerges (client_ports E) = Some rt" "rt ev w = (r, w')"
  shows "keeps_client w w'"
proof (rule keeps_clientI [OF assms(1)])
  show "keeps_pull (cl_state w) (cl_state w')"
    using assms(2,3) keeps_pull_retire [of "cl_state w" "ce_cfg E" "ce_io E (cl_tick w)" ev]
    by (auto simp: client_ports_def Let_def state_act_def split: prod.splits)
qed (use assms(2,3) in \<open>auto simp: client_ports_def Let_def state_act_def split: prod.splits\<close>)

lemma client_rest:
  assumes "loaded w" "rest_act f w = (r, w')"
  shows "keeps_client w w'"
  by (rule keeps_clientI [OF assms(1)]) (use assms(2) in \<open>auto simp: rest_act_def split: prod.splits\<close>)

interpretation pulling: pull_contract "client_ports E" loaded client_cursor settled keeps_client for E
proof (unfold_locales, goal_cases)
  case 1
  then show ?case by (rule client_load)
next
  case 2
  then show ?case by (rule client_save)
next
  case 3
  then show ?case by (rule client_authored [unfolded keeps_client_def])
next
  case 4
  then show ?case using client_rest [unfolded keeps_client_def] by (fastforce simp: client_ports_def Let_def)
next
  case 5
  then show ?case by (rule client_apply [unfolded keeps_client_def])
next
  case 6
  then show ?case by (rule client_park [unfolded keeps_client_def])
next
  case 7
  then show ?case by (rule client_retire [unfolded keeps_client_def])
next
  case 8
  then show ?case using client_rest [unfolded keeps_client_def] by (fastforce simp: client_ports_def Let_def)
qed (rule eq_reflection, simp add: keeps_client_def)

lemma runPull_passes_page:
  assumes "loadCursor (ce_cfg E) (ce_io E (cl_tick w)) (cl_state w) = (Inr cursor, d0)"
    and "runPull (client_ports E) r w = (res, r', w')"
  shows "cursor \<le> client_cursor w' \<and>
    (\<forall>n. cursor < n \<longrightarrow> n \<le> client_cursor w' \<longrightarrow>
      (\<exists>page v. ce_pull E cursor (cl_rest w) = (Inr page, v) \<and>
        (\<exists>ev \<in> set (pl_events page). re_serverSequence ev = n \<and> settled w' (rr_revisionId (re_revision ev)))))"
proof -
  let ?w0 = "w\<lparr>cl_state := d0, cl_tick := cl_tick w + 1\<rparr>"
  have load: "sp_loadCursor (client_ports E) w = (Inr cursor, ?w0)"
    using assms(1) by (simp add: client_ports_def Let_def state_act_def)
  have page: "\<exists>v. ce_pull E cursor (cl_rest w) = (Inr page, v)" if "tr_pull (client_ports E) cursor ?w0 = (Inr page, w1)" for page w1
    using that by (auto simp: client_ports_def Let_def rest_act_def split: prod.splits)
  from pulling.runPull_passes [OF load assms(2)] page show ?thesis by meson
qed

text \<open>
  C33. A pull never skips a change. Whatever the transport returns, in whatever order, and whatever
  fails on the way - the vault, a save, the parking - the stored cursor ends at or after the cursor
  the pull started from, and every sequence number it moved over belongs to an event of the page
  whose revision was written by this client, applied by the vault, or is in the parked list of the
  state.
\<close>

theorem pull_skips_nothing:
  assumes "loadCursor (ce_cfg E) (ce_io E (cl_tick w)) (cl_state w) = (Inr cursor, d0)"
    and "runPull (client_ports E) r w = (res, r', w')"
  shows "cursor \<le> client_cursor w' \<and>
    (\<forall>n. cursor < n \<longrightarrow> n \<le> client_cursor w' \<longrightarrow>
      (\<exists>page v. ce_pull E cursor (cl_rest w) = (Inr page, v) \<and>
        (\<exists>ev \<in> set (pl_events page). re_serverSequence ev = n \<and>
          (rr_revisionId (re_revision ev) \<in> set (cl_settled w') \<or>
           rr_revisionId (re_revision ev) \<in> set (parked_ids (cl_state w'))))))"
  using runPull_passes_page [OF assms] unfolding settled_def .

definition ex_event :: "nat \<Rightarrow> int \<Rightarrow> remote_event" where
  "ex_event n sequence = \<lparr>re_serverSequence = sequence, re_revision = \<lparr>rr_revisionId = [n], rr_fileId = [3], rr_contentHash = [4],
     rr_parentRevisionIds = None, rr_authorMembershipId = None, rr_acceptedAt = None\<rparr>\<rparr>"

text \<open>A server that returns two events out of order, and a vault that fails for good on one revision.\<close>

definition ex_client_env :: "unit client_env" where
  "ex_client_env = \<lparr>ce_cfg = ex_sync_cfg, ce_io = (\<lambda>_. ex_io), ce_open = (\<lambda>_ v. (Inr [], v)),
     ce_apply = (\<lambda>ev _ _ v. if rr_revisionId (re_revision ev) = [11]
       then (Inl \<lparr>fl_authDenied = False, fl_permanent = False, fl_permanentApply = True, fl_message = []\<rparr>, [], v)
       else (Inr OutApplied, [PathOwner [3] [7]], v)),
     ce_push = (\<lambda>_ v. (Inr [], v)),
     ce_pull = (\<lambda>_ v. (Inr \<lparr>pl_cursor = 2, pl_epoch = None, pl_events = [ex_event 11 2, ex_event 10 1]\<rparr>, v))\<rparr>"

definition ex_client :: "unit client" where
  "ex_client = \<lparr>cl_state = ex_first, cl_tick = 0, cl_settled = [], cl_rest = ()\<rparr>"

lemma ex_client_loads: "fst (loadCursor (ce_cfg ex_client_env) (ce_io ex_client_env (cl_tick ex_client)) (cl_state ex_client)) = Inr 0"
  by code_simp

theorem pull_skips_nothing_witness:
  "client_cursor (snd (snd (runPull (client_ports ex_client_env) new_runner ex_client))) = 2 \<and>
   (\<exists>ev \<in> {ex_event 11 2, ex_event 10 1}. re_serverSequence ev = 2 \<and>
     rr_revisionId (re_revision ev) \<in> {[10]} \<union> {[11]})"
proof -
  let ?run = "runPull (client_ports ex_client_env) new_runner ex_client"
  obtain res r' w' where run: "?run = (res, r', w')" by (metis prod_cases3)
  have "(case ?run of (_, _, w) \<Rightarrow> (client_cursor w, cl_settled w, parked_ids (cl_state w))) = (2, [[10]], [[11]])"
    by code_simp
  then have cursor: "client_cursor (snd (snd ?run)) = 2"
    and lists: "cl_settled (snd (snd ?run)) = [[10]]" "parked_ids (cl_state (snd (snd ?run))) = [[11]]"
    by (simp_all add: run)
  obtain d0 where load: "loadCursor (ce_cfg ex_client_env) (ce_io ex_client_env (cl_tick ex_client)) (cl_state ex_client) = (Inr 0, d0)"
    using ex_client_loads by (metis prod.collapse)
  from pull_skips_nothing [OF load run] have "\<exists>page v. ce_pull ex_client_env 0 (cl_rest ex_client) = (Inr page, v) \<and>
      (\<exists>ev \<in> set (pl_events page). re_serverSequence ev = 2 \<and>
        (rr_revisionId (re_revision ev) \<in> set (cl_settled w') \<or> rr_revisionId (re_revision ev) \<in> set (parked_ids (cl_state w'))))"
    using cursor run by simp
  then show ?thesis using cursor lists run by (simp add: ex_client_env_def ex_event_def)
qed

end
