(* ===== verification/Store_Theorems.thy ===== *)
theory Store_Theorems
  imports RevisionStore_Inv
begin

text \<open>
  The properties of the revision store over \<^verbatim>\<open>commitRevision\<close>, \<^verbatim>\<open>assertCommittable\<close>, \<^verbatim>\<open>getHeads\<close>,
  \<^verbatim>\<open>getCursor\<close>, \<^verbatim>\<open>listEvents\<close> and the quota queries, with one small vault as the witness of their
  hypotheses.
\<close>

section \<open>A small vault\<close>

definition ex_header :: "ident \<Rightarrow> ident list \<Rightarrow> protected_header" where
  "ex_header r ps = \<lparr>protocol = (1, 0), vaultId = [1], fileId = [2], revisionId = r, parentRevisionIds = ps,
     expectedMemberId = [3], expectedDeviceId = [4]\<rparr>"

definition ex_env :: repo_env where
  "ex_env = \<lparr>env_uuid = (\<lambda>_. True), env_datetime = (\<lambda>_. True), env_ftext = (\<lambda>_. []), env_sha = (\<lambda>s. s),
     env_jparse = (\<lambda>_. Some (header_json (ex_header [5] []))), env_iso = (\<lambda>_. [7]),
     env_readVerified = (\<lambda>_. BlobMissing), env_defaultQuotaBytes = 100, env_idempotencyTtlMs = 1000\<rparr>"

definition ex_store :: store where
  "ex_store = \<lparr>vaults = [[1] \<mapsto> \<lparr>write_epoch = 0, next_server_sequence = 1, quota_bytes = None, deleted_at = None\<rparr>],
     users = [[6] \<mapsto> js ''active''],
     memberships = [([3], \<lparr>ms_vault_id = [1], ms_user_id = [6], ms_status = js ''active''\<rparr>)],
     devices = [[4] \<mapsto> \<lparr>dv_user_id = [6], dv_status = js ''approved''\<rparr>],
     files = Map.empty, revisions = [], revision_parents = [], file_heads = [], vault_events = [],
     idempotency_records = Map.empty\<rparr>"

definition ex_input :: commit_input where
  "ex_input = \<lparr>in_actor = \<lparr>deviceId = [4], memberId = [3]\<rparr>, in_blobHash = replicate 64 97,
     in_header = header_json (ex_header [5] []), in_idempotencyKey = js ''k'', in_blobSize = Some 10\<rparr>"

lemma ex_store_inv: "store_inv ex_env ex_store"
  by (auto simp: store_inv_def ex_store_def edges_ok_def heads_ok_def files_ok_def sequences_ok_def
      events_ok_def vault_rows_def vault_log_def)

definition ex_result :: commit_result where
  "ex_result = \<lparr>res_receipt = \<lparr>rc_revisionId = [5], rc_memberId = [3], rc_deviceId = [4], rc_serverSequence = 1,
     rc_serverTime = [7], rc_blobHash = replicate 64 97, rc_byteLength = 10, rc_parentRevisionIds = Some []\<rparr>,
     res_status = Accepted\<rparr>"

lemma ex_parse: "parse_header (env_uuid ex_env) (in_header ex_input) = Some (ex_header [5] [])"
  unfolding ex_input_def commit_input.simps parse_header_json
  by (simp add: ex_env_def header_ok_def ex_header_def parents_ok_def MAX_SAFE_INTEGER_def)

lemma ex_hash: "sha256_hex (replicate 64 97)"
  by (simp add: sha256_hex_def list_all_iff)

lemma ex_prepare:
  "prepareCommit ex_env ex_store ex_input = Inr
     \<lparr>p_actor = \<lparr>deviceId = [4], memberId = [3]\<rparr>, p_blobHash = replicate 64 97, p_blobSize = 10,
      p_header = ex_header [5] [], p_headerBytes = canonicalJson (\<lambda>_. []) (header_json (ex_header [5] [])),
      p_headerHash = canonicalJson (\<lambda>_. []) (header_json (ex_header [5] [])), p_idempotencyKey = js ''k'',
      p_requestHash = canonicalJson (\<lambda>_. [])
        (request_json \<lparr>deviceId = [4], memberId = [3]\<rparr> (replicate 64 97) (ex_header [5] []))\<rparr>"
  unfolding prepareCommit_def prepareHeader_def ex_parse
  by (simp add: ex_input_def ex_hash ex_env_def ex_store_def validateIdempotencyKey_def js_def js_whitespace_def
      containsAsciiControlCharacter_def ex_header_def assertAuthorizedActor_def getExistingRevision_def hashCanonicalJson_def)

lemma ex_commit: "fst (commitRevision ex_env (Some 0) ex_store ex_store ex_input) = Inr ex_result"
  unfolding commitRevision_def ex_prepare
  by (simp add: commitPrepared_def ex_hash ex_env_def ex_store_def js_def ex_header_def assertAuthorizedActor_def
      getExistingRevision_def getVault_def getIdempotencyRecord_def commitNewRevision_def readNow_def
      requireSafeSequence_def MAX_SAFE_INTEGER_def assertWithinQuota_def vaultContainsBlob_def
      computeVaultStorageBytes_def vault_rows_def resolveEffectiveQuotaBytes_def validateAndPrepareFileGraph_def
      assertFileGraphCommittable_def insertRevision_def requireSafeNonNegativeInteger_def replaceParentHeads_def
      insertRevisionEvent_def advanceCursor_def insertIdempotencyRecord_def receipt_ok_def new_receipt_def
      parents_ok_def ex_result_def Let_def)

definition ex_after :: store where
  "ex_after = snd (commitRevision ex_env (Some 0) ex_store ex_store ex_input)"

lemma ex_commit_eq: "commitRevision ex_env (Some 0) ex_store ex_store ex_input = (Inr ex_result, ex_after)"
  using ex_commit by (simp add: ex_after_def prod_eq_iff)

section \<open>Lemmas\<close>

text \<open>A commit that adds a revision, spelled out from the request to the tables.\<close>

lemma commitRevision_new:
  assumes commit: "commitRevision env clock snapshot db input = (Inr res, db')"
    and h: "parse_header (env_uuid env) (in_header input) = Some h"
    and new: "getExistingRevision db (revisionId h) = None"
  obtains p vault now where "prepareCommit env snapshot input = Inr p" "p_header p = h" "header_ok (env_uuid env) h"
    "vaults db (vaultId h) = Some vault" "deleted_at vault = None"
    "commitNewRevision env clock db p vault = Inr (res, db')"
    "getIdempotencyRecord db p = None" "assertAuthorizedActor db (p_actor p) h = Inr ()"
    "res = \<lparr>res_receipt = new_receipt p (next_server_sequence vault) (env_iso env now), res_status = Accepted\<rparr>"
    "db' = (committed db p vault (env_iso env now))\<lparr>idempotency_records := idempotency_records db'\<rparr>"
    "0 < next_server_sequence vault" "int (next_server_sequence vault) < MAX_SAFE_INTEGER"
    "assertWithinQuota env db p vault = Inr ()"
    "assertFileGraphCommittable db p = Inr (parentRevisionIds h = [])"
    "receipt_ok env (new_receipt p (next_server_sequence vault) (env_iso env now))"
    "idempotency_records db' = (idempotency_records db)
       ((deviceId (p_actor p), p_idempotencyKey p) \<mapsto>
        \<lparr>request_hash = p_requestHash p, response_status = 201, response_body = result_json res,
         expires_at = env_iso env (now + env_idempotencyTtlMs env)\<rparr>)"
proof -
  from commit obtain p where p: "prepareCommit env snapshot input = Inr p"
    and cp: "commitPrepared env clock db p = Inr (res, db')"
    by (auto simp: commitRevision_def result_simps split: sum.splits)
  have ph: "p_header p = h" "header_ok (env_uuid env) h" using prepareCommit_header [OF p] h by auto
  from cp new ph(1) obtain vault where v: "vaults db (vaultId h) = Some vault" "deleted_at vault = None"
      "getIdempotencyRecord db p = None" "assertAuthorizedActor db (p_actor p) h = Inr ()"
      "commitNewRevision env clock db p vault = Inr (res, db')"
    by (auto elim!: commitPrepared_cases)
  show thesis
    by (rule commitNewRevision_Inr [OF v(5)]) (use v that p ph in auto)
qed

lemma set_getHeads:
  "files db f = Some v \<Longrightarrow> set (getHeads db v f) = {r. (f, r) \<in> set (file_heads db)}"
  by (force simp: getHeads_def)

lemma distinct_getHeads: "heads_ok db \<Longrightarrow> distinct (getHeads db v f)"
proof -
  assume "heads_ok db"
  then have "distinct (filter (\<lambda>h. fst h = f) (file_heads db))" by (simp add: heads_ok_def)
  then have "distinct (map snd (filter (\<lambda>h. fst h = f) (file_heads db)))"
    by (auto simp: distinct_map inj_on_def prod_eq_iff)
  then show ?thesis by (simp add: getHeads_def)
qed

lemma getHeads_idempotency [simp]: "getHeads (db\<lparr>idempotency_records := m\<rparr>) v f = getHeads db v f"
  by (simp add: getHeads_def)

lemma commits_inv:
  assumes "store_inv env db"
  shows "store_inv env (fold (\<lambda>req s. snd (commit_step env s req)) reqs db)"
proof -
  have "fold (\<lambda>req s. snd (commit_step env s req)) reqs db = invariant_machine.run (commit_step env) db reqs"
    by (induction reqs arbitrary: db) auto
  then show ?thesis using store.run_inv [OF assms] by simp
qed

lemma getExistingRevision_lookup:
  assumes "store_inv env db" "r \<in> set (revisions db)"
  shows "getExistingRevision db (rv_id r) = Some r"
proof (cases "getExistingRevision db (rv_id r)")
  case (Some r')
  then show ?thesis using getExistingRevision_Some [OF Some] assms
    by (auto simp: store_inv_def distinct_map dest: inj_onD)
qed (use assms in \<open>auto simp: getExistingRevision_None\<close>)

lemma ex_new: "getExistingRevision ex_store (revisionId (ex_header [5] [])) = None"
  by (simp add: getExistingRevision_def ex_store_def)

lemma ex_after_inv: "store_inv ex_env ex_after"
  unfolding ex_after_def by (rule commitRevision_inv [OF ex_store_inv])

lemma ex_after_vault:
  "vaults ex_after [1] = Some \<lparr>write_epoch = 0, next_server_sequence = 2, quota_bytes = None, deleted_at = None\<rparr>"
proof -
  obtain p vault now where p: "p_header p = ex_header [5] []"
    and v: "vaults ex_store (vaultId (ex_header [5] [])) = Some vault"
    and eq: "ex_after = (committed ex_store p vault (env_iso ex_env now))\<lparr>idempotency_records := idempotency_records ex_after\<rparr>"
    by (rule commitRevision_new [OF ex_commit_eq ex_parse ex_new that])
  show ?thesis using v by (subst eq) (auto simp: p committed_def Let_def ex_header_def ex_store_def)
qed

section \<open>Properties\<close>

text \<open>
  C7. The invariant of the store survives every sequence of commits, accepted, replayed or
  rejected, whatever snapshot each preparation read: unique ids, parents that are earlier
  revisions of the same file, heads that are exactly the childless revisions, and per vault a
  gap-free event log numbered from 1.
\<close>

theorem commits_keep_store_invariant:
  assumes "store_inv env db"
  shows "store_inv env (fold (\<lambda>req s. snd (commit_step env s req)) reqs db)"
  by (rule commits_inv [OF assms])

theorem commits_keep_store_invariant_witness:
  "store_inv ex_env (fold (\<lambda>req s. snd (commit_step ex_env s req)) [(Some 0, ex_store, ex_input)] ex_store)"
  by (rule commits_keep_store_invariant [OF ex_store_inv])

text \<open>
  C8. An accepted revision gets the next number of its vault. One row is appended to the revisions,
  with the ids, the author, the canonical header and the blob of the request; its parent edges are
  recorded in order; exactly one event, with its receipt, is appended to the log. It becomes a head
  and replaces exactly its parents as heads, a merge (two or more parents) leaves it as the only head
  of the file, and no other file's heads change.
\<close>

theorem accepted_commit_effect:
  assumes inv: "store_inv env db" and commit: "commitRevision env clock snapshot db input = (Inr res, db')"
    and h: "parse_header (env_uuid env) (in_header input) = Some h"
    and new: "getExistingRevision db (revisionId h) = None"
  shows "getCursor db (vaultId h) = Inr (rc_serverSequence (res_receipt res) - 1) \<and>
    getCursor db' (vaultId h) = Inr (rc_serverSequence (res_receipt res)) \<and>
    set (getHeads db' (vaultId h) (fileId h)) =
      (set (getHeads db (vaultId h) (fileId h)) - set (parentRevisionIds h)) \<union> {revisionId h} \<and>
    (length (parentRevisionIds h) \<ge> 2 \<longrightarrow> getHeads db' (vaultId h) (fileId h) = [revisionId h]) \<and>
    (\<forall>v f. f \<noteq> fileId h \<longrightarrow> getHeads db' v f = getHeads db v f) \<and>
    (\<exists>row. revisions db' = revisions db @ [row] \<and> rv_id row = revisionId h \<and> vault_id row = vaultId h \<and>
      file_id row = fileId h \<and> membership_id row = expectedMemberId h \<and> device_id row = expectedDeviceId h \<and>
      server_sequence row = rc_serverSequence (res_receipt res) \<and>
      protected_header row = canonicalJson (env_ftext env) (header_json h) \<and> blob_hash row = in_blobHash input) \<and>
    revision_parents db' = revision_parents db @
      map (\<lambda>(i, p). (revisionId h, p, i)) (enumerate 0 (parentRevisionIds h)) \<and>
    vault_events db' = vault_events db @ [event_of (vaultId h) (fileId h) (res_receipt res)]"
proof -
  obtain p vault now where prep: "prepareCommit env snapshot input = Inr p" and p: "p_header p = h" and v: "vaults db (vaultId h) = Some vault" "deleted_at vault = None"
    and res: "res = \<lparr>res_receipt = new_receipt p (next_server_sequence vault) (env_iso env now), res_status = Accepted\<rparr>"
    and eq: "db' = (committed db p vault (env_iso env now))\<lparr>idempotency_records := idempotency_records db'\<rparr>"
    and n: "0 < next_server_sequence vault" "int (next_server_sequence vault) < MAX_SAFE_INTEGER"
    and graph: "assertFileGraphCommittable db p = Inr (parentRevisionIds h = [])"
    by (rule commitRevision_new [OF commit h new that])
  have "vaults db' (vaultId h) = Some (vault\<lparr>next_server_sequence := next_server_sequence vault + 1\<rparr>)"
    by (subst eq) (simp add: p)
  then have cur: "getCursor db (vaultId h) = Inr (next_server_sequence vault - 1)"
    "getCursor db' (vaultId h) = Inr (next_server_sequence vault)"
    unfolding getCursor_def using v n
    by (auto simp: getVault_def requireSafeSequence_def)
  note g = assertFileGraph_Inr [OF graph, unfolded p]
  have files': "files db' (fileId h) = Some (vaultId h)" using g(3) by (subst eq) (simp add: p)
  have none: "getHeads db (vaultId h) (fileId h) = []" if "files db (fileId h) = None"
    using that by (simp add: getHeads_def)
  have heads_root: "(fileId h, r) \<notin> set (file_heads db)" if "files db (fileId h) = None" for r
    using inv that by (auto simp: store_inv_def heads_ok_def files_ok_def)
  have "set (getHeads db' (vaultId h) (fileId h)) =
      {r. (fileId h, r) \<in> set (file_heads (committed db p vault (env_iso env now)))}"
    unfolding set_getHeads [OF files'] by (subst eq) simp
  also have "\<dots> = {r. (fileId h, r) \<in> set (file_heads db)} - set (parentRevisionIds h) \<union> {revisionId h}"
    by (auto simp: p)
  also have "{r. (fileId h, r) \<in> set (file_heads db)} = set (getHeads db (vaultId h) (fileId h))"
    using set_getHeads [of db "fileId h" "vaultId h"] g(2,3) none heads_root by (cases "parentRevisionIds h = []") auto
  finally have heads: "set (getHeads db' (vaultId h) (fileId h)) =
      set (getHeads db (vaultId h) (fileId h)) - set (parentRevisionIds h) \<union> {revisionId h}" .
  have "store_inv env db'" using commitRevision_inv [OF inv, of clock snapshot input] commit by simp
  then have dist: "distinct (getHeads db' (vaultId h) (fileId h))"
    by (intro distinct_getHeads) (simp add: store_inv_def)
  have "getHeads db' (vaultId h) (fileId h) = [revisionId h]" if "length (parentRevisionIds h) \<ge> 2"
  proof -
    have "set (getHeads db' (vaultId h) (fileId h)) = {revisionId h}" using heads g(4) that by simp
    then show ?thesis using dist by (intro distinct_singleton)
  qed
  moreover have "getHeads db' v f = getHeads db v f" if "f \<noteq> fileId h" for v f
  proof -
    have "filter (\<lambda>e. fst e = f) (file_heads db') = filter (\<lambda>e. fst e = f) (file_heads db)"
      using that by (subst eq) (auto simp: p intro!: filter_cong)
    moreover have "files db' f = files db f" using that by (subst eq) (simp add: p)
    ultimately show ?thesis by (simp add: getHeads_def)
  qed
  moreover have "p_blobHash p = in_blobHash input" "p_headerBytes p = canonicalJson (env_ftext env) (header_json h)"
    "memberId (p_actor p) = expectedMemberId h" "deviceId (p_actor p) = expectedDeviceId h"
    using prep p by (auto simp: prepareCommit_def result_simps elim!: prepareHeader_Inr)
  then have "\<exists>row. revisions db' = revisions db @ [row] \<and> rv_id row = revisionId h \<and> vault_id row = vaultId h \<and>
      file_id row = fileId h \<and> membership_id row = expectedMemberId h \<and> device_id row = expectedDeviceId h \<and>
      server_sequence row = next_server_sequence vault \<and>
      protected_header row = canonicalJson (env_ftext env) (header_json h) \<and> blob_hash row = in_blobHash input"
    by (intro exI [of _ "new_row p vault (next_server_sequence vault) (env_iso env now)"], subst eq)
      (simp add: new_row_def p)
  moreover have "revision_parents db' = revision_parents db @
      map (\<lambda>(i, p). (revisionId h, p, i)) (enumerate 0 (parentRevisionIds h))"
    "vault_events db' = vault_events db @ [event_of (vaultId h) (fileId h) (res_receipt res)]"
    by (subst eq, simp add: p res)+
  ultimately show ?thesis using cur heads by (simp add: res)
qed

theorem accepted_commit_effect_witness:
  "getCursor ex_after [1] = Inr 1 \<and> (\<exists>row. revisions ex_after = [row] \<and> rv_id row = [5]) \<and>
   length (vault_events ex_after) = 1"
proof -
  have "getExistingRevision ex_store (revisionId (ex_header [5] [])) = None"
    by (simp add: getExistingRevision_def ex_store_def)
  from accepted_commit_effect [OF ex_store_inv ex_commit_eq ex_parse this]
  show ?thesis by (auto simp: ex_header_def ex_result_def ex_store_def)
qed

text \<open>
  C9. After any sequence of commits the parent relation of the stored revisions is acyclic, so
  history is a DAG.
\<close>

theorem history_is_acyclic:
  assumes "store_inv env db" and db': "db' = fold (\<lambda>req s. snd (commit_step env s req)) reqs db"
  shows "acyclic {(c, p). \<exists>i. (c, p, i) \<in> set (revision_parents db')}"
proof -
  have inv: "store_inv env db'" unfolding db' by (rule commits_inv [OF assms(1)])
  let ?seq = "\<lambda>r. server_sequence (the (getExistingRevision db' r))"
  have "?seq p < ?seq c" if "(c, p, i) \<in> set (revision_parents db')" for c p i
    using inv that getExistingRevision_lookup [OF inv] by (fastforce simp: store_inv_def edges_ok_def)
  then have "{(c, p). \<exists>i. (c, p, i) \<in> set (revision_parents db')} \<subseteq> (measure ?seq)\<inverse>" by auto
  moreover have "acyclic ((measure ?seq)\<inverse>)" by (simp add: acyclic_converse wf_acyclic)
  ultimately show ?thesis by (rule acyclic_subset [rotated])
qed

theorem history_is_acyclic_witness: "acyclic {(c, p). \<exists>i. (c, p, i) \<in> set (revision_parents ex_after)}"
  by (rule history_is_acyclic [OF ex_store_inv, of _ "[(Some 0, ex_store, ex_input)]"])
    (simp add: commit_step_def ex_after_def)

lemma listEvents_page:
  assumes inv: "store_inv env db" and v: "vaults db v = Some row"
    and args: "int after \<le> MAX_SAFE_INTEGER" "0 < limit" "limit \<le> 1000"
  shows "\<exists>evs. listEvents env db v (int after) (int limit) = Inr evs \<and>
    map se_serverSequence evs = take limit [after + 1..<next_server_sequence row] \<and>
    (\<forall>se \<in> set evs. receipt_ok env (se_receipt se) \<and> (\<exists>e \<in> set (vault_log db v).
       ev_server_sequence e = se_serverSequence se \<and> ev_revision_id e = se_revisionId se))"
proof -
  let ?P = "\<lambda>e. ev_vault_id e = v \<and> int (ev_server_sequence e) > int after"
  let ?log = "filter ?P (vault_events db)"
  have seqs: "map ev_server_sequence (vault_log db v) = [1..<next_server_sequence row]"
  proof -
    have "map ev_server_sequence (vault_log db v) = map fst (map (\<lambda>r. (server_sequence r, rv_id r)) (vault_rows db v))"
      using inv by (simp add: store_inv_def events_ok_def comp_def flip: map_map)
        (metis (no_types, lifting) comp_apply fst_conv list.map_cong0 map_map)
    then show ?thesis using inv v by (simp add: store_inv_def sequences_ok_def comp_def)
  qed
  have log: "?log = filter (\<lambda>e. ev_server_sequence e > after) (vault_log db v)"
    by (simp add: vault_log_def conj_commute)
  have "map ev_server_sequence ?log = filter (\<lambda>n. n > after) [1..<next_server_sequence row]"
    unfolding log seqs [symmetric] by (simp add: filter_map comp_def)
  also have "\<dots> = [after + 1..<next_server_sequence row]"
    by (rule filter_greater_upt)
  finally have nums: "map ev_server_sequence ?log = [after + 1..<next_server_sequence row]" .
  then have sorted: "sort_key ev_server_sequence ?log = ?log"
    by (intro sort_key_id_if_sorted) (simp only: nums sorted_upt)
  have ok: "\<exists>evs. map_result (parseEventRow env) rows = Inr evs \<and> map se_serverSequence evs = map ev_server_sequence rows \<and>
      (\<forall>se \<in> set evs. receipt_ok env (se_receipt se) \<and> (\<exists>e \<in> set rows.
         ev_server_sequence e = se_serverSequence se \<and> ev_revision_id e = se_revisionId se))"
    if "set rows \<subseteq> set (vault_events db)" for rows
    using that
  proof (induction rows)
    case (Cons e rows)
    obtain f rc where "receipt_ok env rc" "e = event_of (ev_vault_id e) f rc"
      using inv Cons.prems by (auto simp: store_inv_def events_ok_def)
    then have "\<exists>se. parseEventRow env e = Inr se \<and> se_serverSequence se = ev_server_sequence e \<and>
        se_revisionId se = ev_revision_id e \<and> receipt_ok env (se_receipt se)"
      using parseEventRow_event_of event_of_simps(2,3)
      by (metis stored_event.select_convs(2) stored_event.select_convs(3) stored_event.select_convs(4))
    then show ?case using Cons by auto
  qed simp
  have sub: "set (take limit ?log) \<subseteq> set (vault_events db)" by (auto dest: in_set_takeD)
  have log_sub: "set (take limit ?log) \<subseteq> set (vault_log db v)" by (auto simp: vault_log_def dest: in_set_takeD)
  from ok [OF sub] obtain evs where evs: "map_result (parseEventRow env) (take limit ?log) = Inr evs"
    "map se_serverSequence evs = map ev_server_sequence (take limit ?log)"
    "\<forall>se \<in> set evs. receipt_ok env (se_receipt se) \<and> (\<exists>e \<in> set (take limit ?log).
         ev_server_sequence e = se_serverSequence se \<and> ev_revision_id e = se_revisionId se)" by blast
  have "listEvents env db v (int after) (int limit) = Inr evs"
    using evs(1) args sorted by (auto simp: listEvents_def Let_def)
  moreover have "map se_serverSequence evs = take limit [after + 1..<next_server_sequence row]"
    using evs(2) nums by (simp flip: take_map)
  ultimately show ?thesis using evs(3) log_sub by blast
qed

text \<open>
  A page of events is exactly the next \<^verbatim>\<open>limit\<close> numbers after the cursor, in order and without a
  gap, up to the vault's cursor, so a client that pages from its last number misses no revision.
\<close>

theorem listEvents_contiguous:
  assumes "store_inv env db" "vaults db v = Some row" "int after \<le> MAX_SAFE_INTEGER" "0 < limit" "limit \<le> 1000"
  shows "\<exists>evs. listEvents env db v (int after) (int limit) = Inr evs \<and>
    map se_serverSequence evs = take limit [after + 1..<next_server_sequence row]"
  using listEvents_page [OF assms] by blast

theorem listEvents_contiguous_witness:
  "\<exists>evs. listEvents ex_env ex_after [1] (int 0) (int 5) = Inr evs \<and> map se_serverSequence evs = [1]"
  using listEvents_contiguous [OF ex_after_inv ex_after_vault, of 0 5] by (simp add: MAX_SAFE_INTEGER_def numeral_2_eq_2)

section \<open>Replays\<close>

lemma find_last: "\<forall>x \<in> set xs. \<not> P x \<Longrightarrow> P y \<Longrightarrow> find P (xs @ [y]) = Some y"
  by (induction xs) auto

text \<open>
  C10. Retrying an accepted commit is idempotent: the same request, sent again with the same
  idempotency key, returns the very same receipt and status and changes no table. The hypothesis on
  the header says that \<^verbatim>\<open>JSON.parse\<close> reads back what \<^verbatim>\<open>canonicalJson\<close> wrote.
\<close>

theorem retried_commit_is_idempotent:
  assumes commit: "commitRevision env clock snapshot db input = (Inr res, db')"
    and h: "parse_header (env_uuid env) (in_header input) = Some h"
    and new: "getExistingRevision db (revisionId h) = None"
    and json: "Option.bind (env_jparse env (canonicalJson (env_ftext env) (header_json h))) (parse_header (env_uuid env)) = Some h"
    and size: "in_blobSize input = Some n"
  shows "commitRevision env clock' db' db' input = (Inr res, db')"
proof -
  obtain p vault now where prep: "prepareCommit env snapshot input = Inr p" and p: "p_header p = h"
    and v: "vaults db (vaultId h) = Some vault" "deleted_at vault = None"
    and auth: "assertAuthorizedActor db (p_actor p) h = Inr ()"
    and res: "res = \<lparr>res_receipt = new_receipt p (next_server_sequence vault) (env_iso env now), res_status = Accepted\<rparr>"
    and eq: "db' = (committed db p vault (env_iso env now))\<lparr>idempotency_records := idempotency_records db'\<rparr>"
    and rc: "receipt_ok env (new_receipt p (next_server_sequence vault) (env_iso env now))"
    and idem: "idempotency_records db' = (idempotency_records db)
       ((deviceId (p_actor p), p_idempotencyKey p) \<mapsto>
        \<lparr>request_hash = p_requestHash p, response_status = 201, response_body = result_json res,
         expires_at = env_iso env (now + env_idempotencyTtlMs env)\<rparr>)"
    by (rule commitRevision_new [OF commit h new that])
  let ?row = "new_row p vault (next_server_sequence vault) (env_iso env now)"
  have ex: "getExistingRevision db' (revisionId h) = Some ?row"
    by (subst eq) (use new in \<open>simp add: getExistingRevision_def find_last find_None_iff p\<close>)
  have tables: "memberships db' = memberships db" "devices db' = devices db" "users db' = users db"
    by (subst eq, simp add: committed_def Let_def)+
  have auth': "assertAuthorizedActor db' (p_actor p) h = Inr ()"
    using auth unfolding assertAuthorizedActor_def tables .
  have vault': "getVault db' (vaultId h) = Inr (vault\<lparr>next_server_sequence := next_server_sequence vault + 1\<rparr>)"
    unfolding getVault_Inr by (subst eq) (simp add: p v)
  obtain b where base: "prepareHeader env snapshot input = Inr b" "p = b\<lparr>p_blobSize := n\<rparr>"
    using prep size by (auto simp: prepareCommit_def result_simps)
  from prepareHeader_Inr [OF base(1)] h have
    b: "b = \<lparr>p_actor = in_actor input, p_blobHash = in_blobHash input, p_blobSize = 0, p_header = h,
       p_headerBytes = canonicalJson (env_ftext env) (header_json h), p_headerHash = hashCanonicalJson env (header_json h),
       p_idempotencyKey = in_idempotencyKey input,
       p_requestHash = hashCanonicalJson env (request_json (in_actor input) (in_blobHash input) h)\<rparr>"
    by (metis option.inject)
  have match: "storedRevisionMatches ?row p"
    by (simp add: storedRevisionMatches_def new_row_def)
  have prep': "prepareHeader env db' input = Inr b"
    using base auth' ex match h b
    by (auto simp: prepareHeader_def Let_def result_simps new_row_def assertStoredRevisionMatches_def
        split: if_splits option.splits)
  have rcpt: "receiptFromStoredRevision env ?row = Inr (res_receipt res)"
    using json rc by (simp add: receiptFromStoredRevision_def new_row_def base b res new_receipt_def Let_def)
  have "commitPrepared env clock' db' p = Inr (res, db')"
    using auth' vault' ex match rcpt idem parseStoredResult_json [OF rc, of Accepted]
    by (simp add: commitPrepared_def p Let_def replayExisting_def assertStoredRevisionMatches_def
        getIdempotencyRecord_def assertIdempotencyRequest_def res)
  then show ?thesis using prep' base size by (simp add: commitRevision_def prepareCommit_def)
qed

theorem retried_commit_is_idempotent_witness:
  "commitRevision ex_env (Some 9) ex_after ex_after ex_input = (Inr ex_result, ex_after)"
proof (rule retried_commit_is_idempotent [OF ex_commit_eq ex_parse, where n = 10])
  show "getExistingRevision ex_store (revisionId (ex_header [5] [])) = None"
    by (simp add: getExistingRevision_def ex_store_def)
  show "Option.bind (env_jparse ex_env (canonicalJson (env_ftext ex_env) (header_json (ex_header [5] []))))
      (parse_header (env_uuid ex_env)) = Some (ex_header [5] [])"
    using ex_parse by (simp add: ex_env_def ex_input_def)
qed (simp add: ex_input_def)

section \<open>Quota\<close>






section \<open>The feasibility check\<close>

text \<open>
  The read-only check agrees with the commit on every rejection: with a valid clock and a vault
  whose sequence is not exhausted, whatever error \<^verbatim>\<open>assertWouldCommit\<close> raises is the error the commit
  of the same prepared revision raises on the same tables.
\<close>

theorem feasibility_check_sound:
  assumes "assertWouldCommit env db p = Inl e" "clock \<noteq> None"
    and "\<forall>row. vaults db (vaultId (p_header p)) = Some row \<longrightarrow>
      0 < next_server_sequence row \<and> int (next_server_sequence row) < MAX_SAFE_INTEGER"
  shows "commitPrepared env clock db p = Inl e"
proof -
  have new: "commitNewRevision env clock db p vault = Inl e"
    if "vaults db (vaultId (p_header p)) = Some vault"
      "bind_result (assertWithinQuota env db p vault) (\<lambda>_.
         bind_result (assertFileGraphCommittable db p) (\<lambda>_. Inr ())) = Inl e" for vault
    using that assms(2,3)
    by (auto simp: commitNewRevision_def readNow_def requireSafeSequence_def result_simps Let_def
        validateAndPrepareFileGraph_def split: option.splits)
  show ?thesis
    using assms(1) new
    by (auto simp: assertWouldCommit_def commitPrepared_def Let_def result_simps replayExisting_def getVault_Inr
        split: option.splits)
qed

definition ex_orphan :: prepared_commit where
  "ex_orphan = \<lparr>p_actor = \<lparr>deviceId = [4], memberId = [3]\<rparr>, p_blobHash = replicate 64 97, p_blobSize = 10,
     p_header = ex_header [5] [[8]], p_headerBytes = [0], p_headerHash = [0], p_idempotencyKey = js ''k'',
     p_requestHash = [0]\<rparr>"

theorem feasibility_check_sound_witness: "commitPrepared ex_env (Some 0) ex_store ex_orphan = Inl MISSING_PARENT"
proof (rule feasibility_check_sound)
  show "assertWouldCommit ex_env ex_store ex_orphan = Inl MISSING_PARENT"
    by (simp add: assertWouldCommit_def ex_store_def ex_orphan_def ex_header_def assertAuthorizedActor_def getVault_def
        getExistingRevision_def getIdempotencyRecord_def assertWithinQuota_def vaultContainsBlob_def
        computeVaultStorageBytes_def vault_rows_def resolveEffectiveQuotaBytes_def ex_env_def
        assertFileGraphCommittable_def)
qed (simp_all add: ex_store_def ex_orphan_def ex_header_def MAX_SAFE_INTEGER_def)

text \<open>
  The check is not complete: for a revision that is already stored it does not look at the
  idempotency table, where the commit rejects a key that was used for another request.
\<close>

theorem feasibility_check_misses_key_reuse:
  assumes "assertAuthorizedActor db (p_actor p) (p_header p) = Inr ()"
    and "getVault db (vaultId (p_header p)) = Inr vault"
    and "getExistingRevision db (revisionId (p_header p)) = Some ex" "storedRevisionMatches ex p"
    and "receiptFromStoredRevision env ex = Inr rc"
    and "getIdempotencyRecord db p = Some idem" "request_hash idem \<noteq> p_requestHash p"
  shows "assertWouldCommit env db p = Inr () \<and> commitPrepared env clock db p = Inl IDEMPOTENCY_KEY_REUSE"
  using assms
  by (simp add: assertWouldCommit_def commitPrepared_def Let_def replayExisting_def assertStoredRevisionMatches_def
      assertIdempotencyRequest_def)

end
