(* ===== verification/Push_Theorems.thy ===== *)
theory Push_Theorems
  imports SyncRoutes Store_Theorems
begin

text \<open>
  Properties of the push, pull and download routes over both stores: what a push may change, what it
  reports, that a rejected revision leaves nothing on the disk, and who may read what.
\<close>

section \<open>A feasible commit succeeds\<close>



text \<open>The counters of the vault have room for \<open>n\<close> more revisions.\<close>

definition has_room :: "store \<Rightarrow> ident \<Rightarrow> nat \<Rightarrow> bool" where
  "has_room db v n \<longleftrightarrow> (\<forall>row. vaults db v = Some row \<longrightarrow>
     int (next_server_sequence row) + int n \<le> MAX_SAFE_INTEGER \<and> int (write_epoch row) \<le> MAX_SAFE_INTEGER)"

lemma next_sequence_fresh:
  assumes "store_inv env db" "vaults db v = Some row"
  shows "0 < next_server_sequence row"
    "\<forall>r \<in> set (revisions db). vault_id r = v \<longrightarrow> server_sequence r \<noteq> next_server_sequence row"
    "\<forall>e \<in> set (vault_events db). ev_vault_id e = v \<longrightarrow> ev_server_sequence e \<noteq> next_server_sequence row"
proof -
  have seqs: "map server_sequence (vault_rows db v) = [1..<next_server_sequence row]" and pos: "0 < next_server_sequence row"
    using assms by (auto simp: store_inv_def sequences_ok_def)
  have rows: "server_sequence r \<noteq> next_server_sequence row" if "r \<in> set (vault_rows db v)" for r
    using arg_cong [OF seqs, of set] that by (force simp: set_eq_iff)
  show "0 < next_server_sequence row" by (rule pos)
  show "\<forall>r \<in> set (revisions db). vault_id r = v \<longrightarrow> server_sequence r \<noteq> next_server_sequence row"
    using rows by (auto simp: vault_rows_def)
  have ev: "map (\<lambda>e. (ev_server_sequence e, ev_revision_id e)) (vault_log db v) =
      map (\<lambda>r. (server_sequence r, rv_id r)) (vault_rows db v)"
    using assms(1) by (simp add: store_inv_def events_ok_def)
  have "ev_server_sequence e \<noteq> next_server_sequence row" if "e \<in> set (vault_log db v)" for e
  proof -
    have "(ev_server_sequence e, ev_revision_id e) \<in> set (map (\<lambda>r. (server_sequence r, rv_id r)) (vault_rows db v))"
      using that ev by (metis (mono_tags, lifting) imageI list.set_map)
    then obtain r where "r \<in> set (vault_rows db v)" "ev_server_sequence e = server_sequence r" by auto
    then show ?thesis using rows by metis
  qed
  then show "\<forall>e \<in> set (vault_events db). ev_vault_id e = v \<longrightarrow> ev_server_sequence e \<noteq> next_server_sequence row"
    by (simp add: vault_log_def)
qed

lemma commitNewRevision_succeeds:
  assumes inv: "store_inv env db" and v: "vaults db (vaultId (p_header p)) = Some vault"
    and room: "has_room db (vaultId (p_header p)) 1"
    and new: "getExistingRevision db (revisionId (p_header p)) = None" and idem: "getIdempotencyRecord db p = None"
    and checks: "assertWithinQuota env db p vault = Inr ()"
      "assertFileGraphCommittable db p = Inr isRoot"
    and hash: "\<forall>r \<in> set (revisions db). protected_header_hash r \<noteq> p_headerHash p"
    and rc: "receipt_ok env (new_receipt p (next_server_sequence vault) (env_iso env now))"
  shows "\<exists>res db'. commitNewRevision env (Some now) db p vault = Inr (res, db') \<and> res_status res = Accepted"
proof -
  let ?n = "next_server_sequence vault" and ?t = "env_iso env now" and ?h = "p_header p"
  note fresh = next_sequence_fresh [OF inv v]
  have n: "0 < ?n" "int ?n < MAX_SAFE_INTEGER" "int (write_epoch vault) \<le> MAX_SAFE_INTEGER"
    using fresh(1) room v by (auto simp: has_room_def)
  have root: "isRoot \<longleftrightarrow> parentRevisionIds ?h = []" by (rule assertFileGraph_root [OF checks(2)])
  obtain db1 where db1: "validateAndPrepareFileGraph db p = Inr db1"
    and f1: "revisions db1 = revisions db" "vault_events db1 = vault_events db" "vaults db1 = vaults db"
      "idempotency_records db1 = idempotency_records db"
    using checks(2) by (auto simp: validateAndPrepareFileGraph_def)
  have db2: "insertRevision db1 p vault ?n ?t = Inr (db1\<lparr>revisions := revisions db1 @ [new_row p vault ?n ?t]\<rparr>)"
    using n(3) hash new fresh(2) by (auto simp: insertRevision_Inr f1 getExistingRevision_None)
  show ?thesis
    unfolding commitNewRevision_def
    using n checks(1) db1 db2 rc fresh(3) v idem
    by (auto simp: readNow_def requireSafeSequence_def Let_def replaceParentHeads_eq insertRevisionEvent_def
        advanceCursor_def insertIdempotencyRecord_def f1 getIdempotencyRecord_def list_ex_iff)
qed

text \<open>What one call of \<^verbatim>\<open>commitRevision\<close> does to the tables a push looks at.\<close>

lemma commitRevision_tables:
  assumes "commitRevision env clock snapshot db input = (res, db')"
  obtains (same) "revisions db' = revisions db" "vaults db' = vaults db"
  | (new) p vault t where "prepareCommit env snapshot input = Inr p"
      "vaults db (vaultId (p_header p)) = Some vault"
      "revisions db' = revisions db @ [new_row p vault (next_server_sequence vault) t]"
      "vaults db' = (vaults db)(vaultId (p_header p) \<mapsto> vault\<lparr>next_server_sequence := next_server_sequence vault + 1\<rparr>)"
      "getExistingRevision db (revisionId (p_header p)) = None"
proof (cases "bind_result (prepareCommit env snapshot input) (commitPrepared env clock db)")
  case (Inl e)
  then show thesis using assms same by (simp add: commitRevision_def)
next
  case (Inr x)
  then obtain p res' where p: "prepareCommit env snapshot input = Inr p"
    and cp: "commitPrepared env clock db p = Inr (res', db')"
    using assms by (cases x) (auto simp: commitRevision_def result_simps)
  from cp show thesis
  proof (cases rule: commitPrepared_cases)
    case (accept vault)
    from commitNewRevision_Inr [OF accept(6,1)] obtain now where
      eq: "db' = (committed db p vault (env_iso env now))\<lparr>idempotency_records := idempotency_records db'\<rparr>" by metis
    show thesis by (rule new [OF p accept(1) _ _ accept(3), of "env_iso env now"]) (subst eq, simp)+
  qed (use same in auto)
qed




section \<open>The disk after a push\<close>

lemma listHashes_lookup: "h \<in> set (listHashes d) \<longleftrightarrow> sha256_hex h \<and> lookup_node d h \<noteq> None"
  by (auto simp: listHashes_def lookup_node_def map_of_eq_None_iff)


lemma put_without_faults:
  assumes "disk_ok sha d" "sha256_hex h" "sha bytes = h"
  obtains stored d' where "put (\<lambda>_. False) sha d unique bytes (Some h) = (Inr stored, d')"
    "wr_hash stored = h" "wr_byteLength stored = length bytes" "disk_ok sha d'"
    "set (listHashes d') = insert h (set (listHashes d))"
proof (cases "lookup_node d h")
  case None
  let ?t = "temporary_name h unique"
  let ?ops = "[CreateFile ?t, WriteFile ?t bytes, SyncFile ?t, RenameFile ?t h]"
  have put: "put (\<lambda>_. False) sha d unique bytes (Some h) =
      (Inr \<lparr>wr_hash = h, wr_byteLength = length bytes, wr_created = True\<rparr>, foldl apply_op d ?ops)"
    using None assms(2) by (simp add: put_def putSerialized_def Let_def)
  have keep: "keeps_blobs sha d (foldl apply_op d ?ops)"
    by (rule keeps_blobs_publish(1) [OF assms(1,2,3) None temporary_not_hash])
  have "lookup_node (foldl apply_op d ?ops) x \<noteq> None \<longleftrightarrow> x = h \<or> lookup_node d x \<noteq> None" if "sha256_hex x" for x
    using that hash_not_temporary [OF that, of h unique] by auto
  then have "set (listHashes (foldl apply_op d ?ops)) = insert h (set (listHashes d))"
    using assms(2) unfolding set_eq_iff insert_iff listHashes_lookup by blast
  then show thesis using that [OF put] keep by (simp add: keeps_blobs_def)
next
  case (Some n)
  then obtain b where "n = RegularFile b True" "sha b = h"
    using assms(1,2) by (auto simp: disk_ok_def lookup_node_def dest: map_of_SomeD)
  then have "put (\<lambda>_. False) sha d unique bytes (Some h) =
      (Inr \<lparr>wr_hash = h, wr_byteLength = length bytes, wr_created = False\<rparr>, d)"
    using Some assms(2) by (simp add: put_def putSerialized_def Let_def verifyExisting_def readExisting_def)
  moreover have "h \<in> set (listHashes d)" using Some assms(2) by (simp add: listHashes_lookup)
  ultimately show thesis using that assms(1) by (auto simp: insert_absorb)
qed



lemma parse_commit_request:
  "parse_header uuid (in_header (commit_request act hash n r)) = Some h \<Longrightarrow> h = ri_header r"
  by (simp add: commit_request_def parse_header_json split: if_splits)

text \<open>The three ways one revision ends, and the state each leaves.\<close>

lemma pushOne_cases:
  assumes "pushOne deps others clock k act w (h, r) = (res, w')"
  obtains (refused) "w' = others k w"
  | (put) w2 pres disk where "w2 = others (k + 1) (others k w)"
      "put (d_fails deps) (d_hashBlob deps) (w_disk w2) (d_unique deps) (ri_payload r) (Some h) = (pres, disk)"
      "w' = w2\<lparr>w_disk := disk\<rparr>"
  | (commit) w2 pres disk w4 h' n cres db where "w2 = others (k + 1) (others k w)"
      "put (d_fails deps) (d_hashBlob deps) (w_disk w2) (d_unique deps) (ri_payload r) (Some h) = (pres, disk)"
      "w4 = others (k + 2) (w2\<lparr>w_disk := disk\<rparr>)"
      "commitRevision (d_env deps) clock (w_db w2) (w_db w4) (commit_request act h' n r) = (cres, db)"
      "w' = w4\<lparr>w_db := db\<rparr>"
proof -
  define w2 where "w2 = others (k + 1) (others k w)"
  obtain pres disk where written: "put (d_fails deps) (d_hashBlob deps) (w_disk w2) (d_unique deps) (ri_payload r) (Some h) = (pres, disk)"
    by fastforce
  define w4 where "w4 = others (k + 2) (w2\<lparr>w_disk := disk\<rparr>)"
  have w4: "others (Suc (Suc k)) (w2\<lparr>w_disk := disk\<rparr>) = w4" by (simp add: w4_def)
  consider "w' = others k w" | "w' = w2\<lparr>w_disk := disk\<rparr>"
    | h' n cres db where "commitRevision (d_env deps) clock (w_db w2) (w_db w4) (commit_request act h' n r) = (cres, db)"
        "w' = w4\<lparr>w_db := db\<rparr>"
    using assms written unfolding pushOne_def prod.case Let_def w2_def [symmetric]
    by (auto simp: w4 split: sum.splits prod.splits)
  then show thesis
  proof cases
    case 1 then show thesis by (rule refused)
  next
    case 2 then show thesis by (rule put [OF w2_def written])
  next
    case (3 h' n cres db) then show thesis by (rule commit [OF w2_def written w4_def])
  qed
qed


lemma notify_peers_simps [simp]:
  "w_db (notify_peers deps v results w) = w_db w" "w_disk (notify_peers deps v results w) = w_disk w"
  by (simp_all add: notify_peers_def split: sum.splits)

text \<open>
  The loop preserves whatever one revision preserves; \<open>I n\<close> may depend on how many are left.
\<close>

lemma pushLoop_preserves:
  assumes step: "\<And>k w x res w' n. x \<in> X \<Longrightarrow> I (Suc n) w \<Longrightarrow>
      pushOne deps others clock k act w x = (res, w') \<Longrightarrow> I n w'"
    and mono: "\<And>n m w. I n w \<Longrightarrow> m \<le> n \<Longrightarrow> I m w"
    and notify: "\<And>n w results. I n w \<Longrightarrow> I n (notify_peers deps v results w)"
  shows "set hashed \<subseteq> X \<Longrightarrow> I (length hashed) w \<Longrightarrow>
    I 0 (snd (pushLoop deps others clock k v act w results hashed))"
proof (induction hashed arbitrary: k w results)
  case (Cons x rest)
  obtain res w' where one: "pushOne deps others clock k act w x = (res, w')" by fastforce
  have I: "I (length rest) w'" using step [OF _ _ one, of "length rest"] Cons.prems by simp
  then have "I 0 w'" "\<And>rs. I 0 (notify_peers deps v rs w')" using mono notify by blast+
  then show ?case using one Cons.IH [OF _ I] Cons.prems(1)
    by (simp split: sum.splits push_failure.splits)
qed (use notify in simp)

section \<open>What the guards establish\<close>

lemma loadActiveMembership_Some:
  "loadActiveMembership db u v = Some m \<Longrightarrow>
   \<exists>row. (m, row) \<in> set (memberships db) \<and> ms_user_id row = u \<and> ms_vault_id row = v \<and> ms_status row = js ''active''"
  by (auto simp: loadActiveMembership_def find_Some_iff)
    (metis nth_mem)



lemma pushGuards_Inr:
  assumes "pushGuards deps db session v body = Inr (act, ordered)"
  obtains ss m raws parsed where "session = Some ss" "loadActiveMembership db (ss_userId ss) v = Some m"
    "act = \<lparr>deviceId = ss_deviceId ss, memberId = m\<rparr>"
    "parse_push_body body = Some raws" "length raws \<le> d_maxBatchSize deps"
    "parseBatch (d_env deps) raws (d_maxPayloadBytes deps) = Some parsed" "orderBatch parsed = Some ordered"
    "\<And>r. r \<in> set parsed \<Longrightarrow> vaultId (ri_header r) = v \<and> expectedMemberId (ri_header r) = m \<and>
       expectedDeviceId (ri_header r) = ss_deviceId ss"
  using assms
  by (auto simp: pushGuards_def list_ex_iff split: if_splits option.splits intro: that)

section \<open>Examples\<close>

definition ex_vault :: ident where
  "ex_vault = js ''00000000-0000-1000-8000-000000000000''"

definition ex_push_header :: protected_header where
  "ex_push_header = \<lparr>protocol = (1, 0), vaultId = ex_vault, fileId = [2], revisionId = [5], parentRevisionIds = [],
     expectedMemberId = [3], expectedDeviceId = [4]\<rparr>"

definition ex_push_store :: store where
  "ex_push_store = ex_store\<lparr>
     vaults := [ex_vault \<mapsto> \<lparr>write_epoch = 0, next_server_sequence = 1, quota_bytes = None, deleted_at = None\<rparr>],
     memberships := [([3], \<lparr>ms_vault_id = ex_vault, ms_user_id = [6], ms_status = js ''active''\<rparr>)]\<rparr>"

definition ex_deps :: route_deps where
  "ex_deps = \<lparr>d_env = ex_env, d_maxBatchSize = 64, d_maxPayloadBytes = 36, d_vaultQuotaBytes = 100,
     d_freeDiskBytes = None, d_minFreeDiskBytes = 0, d_hashBlob = (\<lambda>_. replicate 64 97), d_fails = (\<lambda>_. False),
     d_unique = [1], d_hasWakeRegistry = True\<rparr>"

definition ex_world :: world where
  "ex_world = \<lparr>w_db = ex_push_store, w_disk = [], w_wakes = []\<rparr>"

definition ex_session :: access_session where
  "ex_session = \<lparr>ss_userId = [6], ss_deviceId = [4]\<rparr>"

definition ex_body :: json where
  "ex_body = JObj [(js ''revisions'', JArr [JObj [(js ''header'', header_json ex_push_header),
     (js ''idempotencyKey'', JStr (js ''k'')), (js ''payload'', JStr (js ''QUJD''))]])]"

definition ex_revision_input :: revision_input where
  "ex_revision_input = \<lparr>ri_header = ex_push_header, ri_idempotencyKey = js ''k'', ri_payload = [65, 66, 67]\<rparr>"

lemma ex_push_parse: "parse_header (env_uuid ex_env) (header_json ex_push_header) = Some ex_push_header"
  unfolding parse_header_json
  by (simp add: ex_env_def header_ok_def ex_push_header_def parents_ok_def MAX_SAFE_INTEGER_def)

lemma ex_body_parse: "parse_push_body ex_body = Some [(Some (header_json ex_push_header), js ''k'', js ''QUJD'')]"
  by (simp add: parse_push_body_def ex_body_def strict_object_def parse_revision_input_def js_def base64_pattern_def
      base64_char_def)

lemma ex_batch_parse:
  "parseBatch ex_env [(Some (header_json ex_push_header), js ''k'', js ''QUJD'')] 36 = Some [ex_revision_input]"
  by (simp add: parseBatch_def ex_push_parse bufferFromBase64_def js_def base64_char_def b64_value_def ex_revision_input_def)

lemma ex_guards:
  "pushGuards ex_deps ex_push_store (Some ex_session) ex_vault ex_body =
     Inr (\<lparr>deviceId = [4], memberId = [3]\<rparr>, [ex_revision_input])"
proof -
  have "uuid_pattern ex_vault" by (simp add: uuid_pattern_def ex_vault_def js_def hex_digit_def upt_conv_Cons)
  moreover have "orderBatch [ex_revision_input] = Some [ex_revision_input]"
    by (simp add: orderBatch_def Let_def initial_degree_def batch_parents_def ex_revision_input_def ex_push_header_def
        children_of_def find_revision_def)
  ultimately show ?thesis
    by (simp add: pushGuards_def ex_body_parse ex_batch_parse ex_deps_def ex_session_def ex_push_store_def
        loadActiveMembership_def) (simp add: ex_revision_input_def ex_push_header_def)
qed

lemma ex_push_store_inv: "store_inv ex_env ex_push_store"
  by (auto simp: ex_push_store_def store_inv_def ex_store_def edges_ok_def heads_ok_def files_ok_def sequences_ok_def
      events_ok_def vault_rows_def vault_log_def)

text \<open>The push of the example, evaluated.\<close>

definition ex_prepared :: prepared_commit where
  "ex_prepared = \<lparr>p_actor = \<lparr>deviceId = [4], memberId = [3]\<rparr>, p_blobHash = replicate 64 97, p_blobSize = 3,
     p_header = ex_push_header, p_headerBytes = canonicalJson (\<lambda>_. []) (header_json ex_push_header),
     p_headerHash = canonicalJson (\<lambda>_. []) (header_json ex_push_header), p_idempotencyKey = js ''k'',
     p_requestHash = canonicalJson (\<lambda>_. [])
       (request_json \<lparr>deviceId = [4], memberId = [3]\<rparr> (replicate 64 97) ex_push_header)\<rparr>"

definition ex_request :: commit_input where
  "ex_request = commit_request \<lparr>deviceId = [4], memberId = [3]\<rparr> (replicate 64 97) 3 ex_revision_input"

lemma ex_push_prepare: "prepareHeader ex_env ex_push_store ex_request = Inr (ex_prepared\<lparr>p_blobSize := 0\<rparr>)"
proof -
  have "parse_header (env_uuid ex_env) (in_header ex_request) = Some ex_push_header"
    using ex_push_parse by (simp add: ex_request_def commit_request_def ex_revision_input_def)
  then show ?thesis
    by (simp add: prepareHeader_def ex_request_def commit_request_def ex_hash validateIdempotencyKey_def
        js_whitespace_def containsAsciiControlCharacter_def ex_revision_input_def ex_push_header_def
        assertAuthorizedActor_def ex_push_store_def ex_store_def getExistingRevision_def hashCanonicalJson_def
        ex_prepared_def ex_env_def js_def)
qed

lemmas ex_checks = ex_prepared_def ex_push_store_def ex_store_def ex_push_header_def assertAuthorizedActor_def getVault_def
  getExistingRevision_def getIdempotencyRecord_def assertWithinQuota_def vaultContainsBlob_def computeVaultStorageBytes_def
  vault_rows_def resolveEffectiveQuotaBytes_def ex_env_def assertFileGraphCommittable_def

lemma ex_push_feasible: "assertCommittable ex_env ex_push_store ex_push_store ex_request 3 = Inr ()"
  unfolding assertCommittable_def ex_push_prepare
  by (simp add: assertWouldCommit_def ex_checks)

definition ex_push_result :: commit_result where
  "ex_push_result = \<lparr>res_receipt = new_receipt ex_prepared 1 [7], res_status = Accepted\<rparr>"

lemma ex_push_commit: "\<exists>db. commitRevision ex_env (Some 0) ex_push_store ex_push_store ex_request = (Inr ex_push_result, db) \<and>
  new_row ex_prepared \<lparr>write_epoch = 0, next_server_sequence = 1, quota_bytes = None, deleted_at = None\<rparr> 1 [7] \<in> set (revisions db) \<and>
  getCursor db ex_vault = Inr 1"
proof -
  have prep: "prepareCommit ex_env ex_push_store ex_request = Inr ex_prepared"
    unfolding prepareCommit_def ex_push_prepare by (simp add: ex_request_def commit_request_def ex_prepared_def)
  let ?v = "\<lparr>write_epoch = 0, next_server_sequence = 1, quota_bytes = None, deleted_at = None\<rparr>"
  have "receipt_ok ex_env (new_receipt ex_prepared 1 [7])"
    by (simp add: receipt_ok_def new_receipt_def ex_prepared_def ex_hash ex_env_def MAX_SAFE_INTEGER_def
        ex_push_header_def parents_ok_def)
  then have "\<exists>db. commitNewRevision ex_env (Some 0) ex_push_store ex_prepared ?v = Inr (ex_push_result, db)"
    using commitNewRevision_succeeds [OF ex_push_store_inv, of ex_prepared ?v True 0]
    by (auto simp: ex_checks has_room_def MAX_SAFE_INTEGER_def ex_push_result_def commitNewRevision_def
        readNow_def requireSafeSequence_def Let_def result_simps)
  then obtain db where commit: "commitNewRevision ex_env (Some 0) ex_push_store ex_prepared ?v = Inr (ex_push_result, db)" by blast
  then have "commitPrepared ex_env (Some 0) ex_push_store ex_prepared = Inr (ex_push_result, db)"
    unfolding commitPrepared_def Let_def by (simp add: ex_checks)
  then have c: "commitRevision ex_env (Some 0) ex_push_store ex_push_store ex_request = (Inr ex_push_result, db)"
    by (simp add: commitRevision_def prep)
  have v: "vaults ex_push_store (vaultId (p_header ex_prepared)) = Some ?v" by (simp add: ex_checks)
  from commitNewRevision_Inr [OF commit v] obtain now where
    eq: "db = (committed ex_push_store ex_prepared ?v (env_iso ex_env now))\<lparr>idempotency_records := idempotency_records db\<rparr>" by metis
  have "revisions db = [new_row ex_prepared ?v 1 [7]]" by (subst eq) (simp add: ex_env_def ex_push_store_def ex_store_def)
  moreover have "vaults db ex_vault = Some (?v\<lparr>next_server_sequence := 2\<rparr>)"
    by (subst eq) (simp add: ex_prepared_def ex_push_header_def)
  ultimately show ?thesis using c by (simp add: getCursor_def getVault_def requireSafeSequence_def MAX_SAFE_INTEGER_def)
qed

lemma ex_push:
  obtains w' where "pushRoute ex_deps (\<lambda>_ w. w) (Some 0) ex_world (Some ex_session) ex_vault ex_body =
      (Inr [Committed (new_receipt ex_prepared 1 [7]) [5] Accepted], w')"
    "new_row ex_prepared \<lparr>write_epoch = 0, next_server_sequence = 1, quota_bytes = None, deleted_at = None\<rparr> 1 [7]
       \<in> set (revisions (w_db w'))" "getCursor (w_db w') ex_vault = Inr 1"
proof -
  obtain db where commit: "commitRevision ex_env (Some 0) ex_push_store ex_push_store ex_request = (Inr ex_push_result, db)"
    and row: "new_row ex_prepared \<lparr>write_epoch = 0, next_server_sequence = 1, quota_bytes = None, deleted_at = None\<rparr> 1 [7] \<in> set (revisions db)"
    and cur: "getCursor db ex_vault = Inr 1" using ex_push_commit by blast
  obtain stored d where put: "put (\<lambda>_. False) (\<lambda>_. replicate 64 97) [] [1] [65, 66, 67] (Some (replicate 64 97)) = (Inr stored, d)"
    "wr_hash stored = replicate 64 97" "wr_byteLength stored = 3"
    by (rule put_without_faults [of "\<lambda>_. replicate 64 97" "[]" "replicate 64 97" "[65, 66, 67]" "[1]"])
      (use ex_hash in \<open>auto simp: disk_ok_def\<close>)
  have one: "pushOne ex_deps (\<lambda>_ w. w) (Some 0) 1 \<lparr>deviceId = [4], memberId = [3]\<rparr> ex_world (replicate 64 97, ex_revision_input) =
      (Inr ex_push_result, ex_world\<lparr>w_disk := d, w_db := db\<rparr>)"
  proof -
    have len: "length (ri_payload ex_revision_input) = 3" and pay: "ri_payload ex_revision_input = [65, 66, 67]"
      by (simp_all add: ex_revision_input_def)
    have f: "d_env ex_deps = ex_env" "d_fails ex_deps = (\<lambda>_. False)" "d_hashBlob ex_deps = (\<lambda>_. replicate 64 97)"
        "d_unique ex_deps = [1]" "w_db ex_world = ex_push_store" "w_disk ex_world = []"
      by (simp_all add: ex_deps_def ex_world_def)
    show ?thesis
      unfolding pushOne_def prod.case Let_def len
      unfolding f ex_push_feasible [unfolded ex_request_def] sum.case pay put(1)
      using commit put(2,3) by (simp add: ex_request_def f)
  qed
  have "\<not> precheckVaultQuota ex_push_store ex_vault [(replicate 64 97, ex_revision_input)] 100"
    by (simp add: precheckVaultQuota_def ex_push_store_def ex_store_def readVaultQuotaBytes_def
        resolveEffectiveQuotaBytes_def computeVaultStorageBytes_def vault_rows_def vaultContainsBlob_def ex_revision_input_def)
  then have "pushRoute ex_deps (\<lambda>_ w. w) (Some 0) ex_world (Some ex_session) ex_vault ex_body =
      (Inr [Committed (new_receipt ex_prepared 1 [7]) [5] Accepted],
       notify_peers ex_deps ex_vault [Committed (new_receipt ex_prepared 1 [7]) [5] Accepted] (ex_world\<lparr>w_disk := d, w_db := db\<rparr>))"
    using ex_guards one
    by (simp add: pushRoute_def ex_world_def diskGuard_def ex_deps_def ex_push_result_def)
      (simp add: ex_revision_input_def ex_push_header_def)
  then show thesis using that row cur by (simp add: ex_world_def)
qed

section \<open>Properties\<close>



lemma pushOne_inv:
  assumes others: "\<And>k w. store_inv (d_env deps) (w_db w) \<and> disk_ok (d_hashBlob deps) (w_disk w) \<Longrightarrow>
      store_inv (d_env deps) (w_db (others k w)) \<and> disk_ok (d_hashBlob deps) (w_disk (others k w))"
    and x: "fst x = d_hashBlob deps (ri_payload (snd x))"
    and inv: "store_inv (d_env deps) (w_db w) \<and> disk_ok (d_hashBlob deps) (w_disk w)"
    and one: "pushOne deps others clock k act w x = (res, w')"
  shows "store_inv (d_env deps) (w_db w') \<and> disk_ok (d_hashBlob deps) (w_disk w')"
proof -
  obtain h r where xr: "x = (h, r)" by fastforce
  let ?J = "\<lambda>w. store_inv (d_env deps) (w_db w) \<and> disk_ok (d_hashBlob deps) (w_disk w)"
  have J2: "?J (others (k + 1) (others k w))" using others inv by blast
  have disk: "?J (w2\<lparr>w_disk := disk\<rparr>)"
    if w2: "w2 = others (k + 1) (others k w)"
      and put: "put (d_fails deps) (d_hashBlob deps) (w_disk w2) (d_unique deps) (ri_payload r) (Some h) = (pres, disk)"
    for w2 pres disk
  proof -
    obtain ops where ops: "putSerialized (d_fails deps) (d_hashBlob deps) (w_disk w2) (d_unique deps) h (ri_payload r) = (pres, ops)"
      "disk = foldl apply_op (w_disk w2) ops"
      using put by (auto simp: put_def split: prod.splits)
    have "keeps_blobs (d_hashBlob deps) (w_disk w2) disk"
      unfolding ops(2) by (rule putSerialized_prefix [OF _ _ ops(1)]) (use J2 w2 x xr in auto)
    then show ?thesis using J2 w2 by (simp add: keeps_blobs_def)
  qed
  from one [unfolded xr] show ?thesis
  proof (cases rule: pushOne_cases)
    case refused
    then show ?thesis using others inv by blast
  next
    case (put w2 pres disk)
    then show ?thesis using disk by blast
  next
    case (commit w2 pres disk w4 h' n cres db)
    have "?J w4" using disk [OF commit(1,2)] others commit(3) by blast
    moreover have "store_inv (d_env deps) db"
      using commitRevision_inv [of "d_env deps" "w_db w4" clock "w_db w2" "commit_request act h' n r"] calculation commit(4)
      by simp
    ultimately show ?thesis by (simp add: commit(5))
  qed
qed

text \<open>
  The invariants of both stores survive a push under interference: whatever other requests do
  between its awaits, whatever disk call fails and however the push ends, as long as the others
  keep the invariants, so does the push.
\<close>

theorem push_keeps_invariants:
  assumes others: "\<And>k w. store_inv (d_env deps) (w_db w) \<and> disk_ok (d_hashBlob deps) (w_disk w) \<Longrightarrow>
      store_inv (d_env deps) (w_db (others k w)) \<and> disk_ok (d_hashBlob deps) (w_disk (others k w))"
    and inv: "store_inv (d_env deps) (w_db w)" "disk_ok (d_hashBlob deps) (w_disk w)"
    and push: "pushRoute deps others clock w session v body = (reply, w')"
  shows "store_inv (d_env deps) (w_db w') \<and> disk_ok (d_hashBlob deps) (w_disk w')"
proof -
  let ?J = "\<lambda>w. store_inv (d_env deps) (w_db w) \<and> disk_ok (d_hashBlob deps) (w_disk w)"
  have w0: "?J w" "?J (others 0 w)" using inv others by auto
  have "?J (snd (pushLoop deps others clock 1 v act (others 0 w) [] (map (\<lambda>r. (d_hashBlob deps (ri_payload r), r)) ordered)))"
    for act ordered
  proof (rule pushLoop_preserves [where I = "\<lambda>_. ?J" and X = "{x. fst x = d_hashBlob deps (ri_payload (snd x))}"])
    fix k w x res w' n
    assume "x \<in> {x. fst x = d_hashBlob deps (ri_payload (snd x))}" "?J w" "pushOne deps others clock k act w x = (res, w')"
    then show "?J w'" using pushOne_inv [where others = others, OF others] by blast
  qed (use w0 in auto)
  note loop = this
  consider "w' = w" | "w' = others 0 w" | act ordered where "pushLoop deps others clock 1 v act (others 0 w) []
      (map (\<lambda>r. (d_hashBlob deps (ri_payload r), r)) ordered) = (reply, w')"
    using push by (auto simp: pushRoute_def Let_def split: sum.splits if_splits prod.splits)
  then show ?thesis
  proof cases
    case (3 act ordered)
    then show ?thesis using loop [of act ordered] by simp
  qed (use w0 in simp_all)
qed

theorem push_keeps_invariants_witness:
  "store_inv ex_env (w_db (snd (pushRoute ex_deps (\<lambda>_ w. w) (Some 0) ex_world (Some ex_session) ex_vault ex_body)))"
proof -
  obtain reply w' where push: "pushRoute ex_deps (\<lambda>_ w. w) (Some 0) ex_world (Some ex_session) ex_vault ex_body = (reply, w')"
    by fastforce
  have "store_inv (d_env ex_deps) (w_db ex_world)" "disk_ok (d_hashBlob ex_deps) (w_disk ex_world)"
    using ex_push_store_inv by (simp_all add: ex_deps_def ex_world_def disk_ok_def)
  then have "store_inv (d_env ex_deps) (w_db w')" using push_keeps_invariants [OF _ _ _ push] by blast
  then show ?thesis using push by (simp add: ex_deps_def)
qed






lemma pushOne_scope:
  assumes one: "pushOne deps (\<lambda>_ w. w) clock k act w x = (res, w')"
    and row: "row \<in> set (revisions (w_db w'))"
  shows "row \<in> set (revisions (w_db w)) \<or> vault_id row = vaultId (ri_header (snd x)) \<and>
    membership_id row = memberId act \<and> device_id row = deviceId act"
proof -
  obtain h r where x: "x = (h, r)" by fastforce
  have new: "row \<in> set (revisions db) \<or> vault_id row = vaultId (ri_header r) \<and> membership_id row = memberId act \<and>
      device_id row = deviceId act"
    if commit: "commitRevision (d_env deps) clock db db (commit_request act h' n r) = (cres, db')"
      and row: "row \<in> set (revisions db')" for db h' n cres db'
    using commit
  proof (cases rule: commitRevision_tables)
    case (new p vault t)
    have "p_header p = ri_header r" "p_actor p = act"
      using new(1) parse_commit_request [of "env_uuid (d_env deps)" act h' n r]
      by (auto simp: prepareCommit_def result_simps commit_request_def elim!: prepareHeader_Inr)
    then show ?thesis using new(3) row by (auto simp: new_row_def)
  qed (use row in simp)
  from one [unfolded x] show ?thesis
  proof (cases rule: pushOne_cases)
    case (commit w2 pres disk w4 h' n cres db)
    have "w_db w2 = w_db w" "w_db w4 = w_db w" using commit(1,3) by simp_all
    then show ?thesis using new [of "w_db w" h' n cres db] commit(4,5) row x by simp
  qed (use row in simp_all)
qed

text \<open>
  C13. Nobody writes for somebody else: a revision that appears through a push carries the device of
  the session and a membership of the session's user that is active in that vault, and belongs to
  the vault named in the request.
\<close>

theorem push_writes_only_as_its_session:
  assumes push: "pushRoute deps (\<lambda>_ w. w) clock w session v body = (reply, w')"
    and row: "row \<in> set (revisions (w_db w'))" "row \<notin> set (revisions (w_db w))"
  shows "\<exists>ss m mrow. session = Some ss \<and> (m, mrow) \<in> set (memberships (w_db w)) \<and>
    ms_user_id mrow = ss_userId ss \<and> ms_vault_id mrow = v \<and> ms_status mrow = js ''active'' \<and>
    vault_id row = v \<and> membership_id row = m \<and> device_id row = ss_deviceId ss"
proof -
  obtain act ordered where g: "pushGuards deps (w_db w) session v body = Inr (act, ordered)"
    and loop: "w' = snd (pushLoop deps (\<lambda>_ w. w) clock 1 v act w []
      (map (\<lambda>r. (d_hashBlob deps (ri_payload r), r)) ordered))"
    using push row by (auto simp: pushRoute_def Let_def split: sum.splits if_splits)
  from g obtain ss m parsed where s: "session = Some ss" "loadActiveMembership (w_db w) (ss_userId ss) v = Some m"
    "act = \<lparr>deviceId = ss_deviceId ss, memberId = m\<rparr>" and order: "orderBatch parsed = Some ordered"
    and scope: "\<And>r. r \<in> set parsed \<Longrightarrow> vaultId (ri_header r) = v" by (auto elim!: pushGuards_Inr)
  have mem: "r \<in> set parsed" if "r \<in> set ordered" for r using that orderBatch_mset [OF order] by (metis set_mset_mset)
  let ?I = "\<lambda>_ w1. \<forall>row \<in> set (revisions (w_db w1)). row \<in> set (revisions (w_db w)) \<or>
      vault_id row = v \<and> membership_id row = m \<and> device_id row = ss_deviceId ss"
  have "?I 0 w'" unfolding loop
  proof (rule pushLoop_preserves [where X = "(\<lambda>r. (d_hashBlob deps (ri_payload r), r)) ` set ordered"])
    fix k w1 x res w2 n
    assume "x \<in> (\<lambda>r. (d_hashBlob deps (ri_payload r), r)) ` set ordered" "?I (Suc n) w1"
      "pushOne deps (\<lambda>_ w. w) clock k act w1 x = (res, w2)"
    then obtain r where r: "x = (d_hashBlob deps (ri_payload r), r)" "r \<in> set ordered" and I: "?I (Suc n) w1"
      and one: "pushOne deps (\<lambda>_ w. w) clock k act w1 x = (res, w2)" by auto
    have "vaultId (ri_header r) = v" using scope mem r(2) by blast
    then have new: "row \<in> set (revisions (w_db w1)) \<or> vault_id row = v \<and> membership_id row = m \<and> device_id row = ss_deviceId ss"
      if "row \<in> set (revisions (w_db w2))" for row
      using pushOne_scope [OF one that] s(3) r(1) by simp
    show "?I n w2"
    proof
      fix row assume "row \<in> set (revisions (w_db w2))"
      from new [OF this] show "row \<in> set (revisions (w_db w)) \<or>
          vault_id row = v \<and> membership_id row = m \<and> device_id row = ss_deviceId ss"
        using I by blast
    qed
  qed auto
  then show ?thesis using row s(1) loadActiveMembership_Some [OF s(2)] by blast
qed

theorem push_writes_only_as_its_session_witness:
  "\<exists>ss m mrow. Some ex_session = Some ss \<and> (m, mrow) \<in> set (memberships ex_push_store) \<and> ms_status mrow = js ''active'' \<and>
     m = [3] \<and> ss_deviceId ss = [4]"
proof -
  let ?row = "new_row ex_prepared \<lparr>write_epoch = 0, next_server_sequence = 1, quota_bytes = None, deleted_at = None\<rparr> 1 [7]"
  obtain w' where push: "pushRoute ex_deps (\<lambda>_ w. w) (Some 0) ex_world (Some ex_session) ex_vault ex_body =
      (Inr [Committed (new_receipt ex_prepared 1 [7]) [5] Accepted], w')" and row: "?row \<in> set (revisions (w_db w'))"
    by (rule ex_push)
  have "?row \<notin> set (revisions (w_db ex_world))" by (simp add: ex_world_def ex_push_store_def ex_store_def)
  from push_writes_only_as_its_session [OF push row this]
  show ?thesis by (auto simp: ex_world_def new_row_def ex_prepared_def)
qed


text \<open>
  A download gives away only what the vault holds: the session's user has an active membership,
  the vault is not deleted, one of its revisions references the blob, and the bytes hash to the
  name that was asked for.
\<close>

theorem blob_download_authorized:
  assumes "blobRoute db d charge session v hash = Inr bytes" "disk_ok sha d"
  shows "sha bytes = hash \<and> charge (ss_deviceId (the session)) (length bytes) \<and>
    (\<exists>m mrow. (m, mrow) \<in> set (memberships db) \<and> ms_user_id mrow = ss_userId (the session) \<and>
       ms_vault_id mrow = v \<and> ms_status mrow = js ''active'') \<and>
    (\<exists>r \<in> set (revisions db). vault_id r = v \<and> blob_hash r = hash) \<and>
    (\<exists>row. vaults db v = Some row \<and> deleted_at row = None)"
proof -
  obtain ss m where s: "session = Some ss" "loadActiveMembership db (ss_userId ss) v = Some m" "sha256_hex hash"
      "blobBelongsToVault db v hash" "blob_read_bytes d hash = Inr bytes" "charge (ss_deviceId ss) (length bytes)"
    using assms(1) by (auto simp: blobRoute_def split: if_splits option.splits sum.splits)
  obtain n where "lookup_node d hash = Some n" "n = RegularFile bytes True \<or> n = RegularFile bytes False"
    using s(3,5) by (auto simp: blob_read_bytes_def readExisting_def split: option.splits node.splits)
  moreover from this have "(hash, n) \<in> set d" by (simp add: lookup_node_def map_of_SomeD)
  ultimately have "sha bytes = hash" using assms(2) s(3) by (auto simp: disk_ok_def)
  then show ?thesis using s loadActiveMembership_Some [OF s(2)]
    by (auto simp: blobBelongsToVault_def list_ex_iff split: option.splits)
qed

theorem blob_download_authorized_witness:
  "sha256_hex (replicate 64 97) \<and>
   (\<exists>db. blobRoute db [(replicate 64 97, RegularFile [65] True)] (\<lambda>_ _. True) (Some ex_session) ex_vault (replicate 64 97) = Inr [65] \<and>
     (\<exists>row. vaults db ex_vault = Some row \<and> deleted_at row = None))"
proof -
  obtain db where row: "new_row ex_prepared \<lparr>write_epoch = 0, next_server_sequence = 1, quota_bytes = None, deleted_at = None\<rparr> 1 [7]
      \<in> set (revisions db)" and cur: "getCursor db ex_vault = Inr 1" using ex_push_commit by blast
  let ?db = "db\<lparr>memberships := memberships ex_push_store\<rparr>" and ?d = "[(replicate 64 97, RegularFile [65] True)]"
  have "blobBelongsToVault ?db ex_vault (replicate 64 97)"
    using row cur by (force simp: blobBelongsToVault_def list_ex_iff getCursor_def getVault_def ex_prepared_def
        ex_push_header_def result_simps split: option.splits if_splits)
  moreover have "uuid_pattern ex_vault" by (simp add: uuid_pattern_def ex_vault_def js_def hex_digit_def upt_conv_Cons)
  moreover have "loadActiveMembership ?db [6] ex_vault = Some [3]" by (simp add: loadActiveMembership_def ex_push_store_def)
  ultimately have b: "blobRoute ?db ?d (\<lambda>_ _. True) (Some ex_session) ex_vault (replicate 64 97) = Inr [65]"
    using ex_hash by (simp add: blobRoute_def ex_session_def blob_read_bytes_def readExisting_def lookup_node_def)
  have "disk_ok (\<lambda>_. replicate 64 97) ?d" by (simp add: disk_ok_def)
  from blob_download_authorized [OF b this] show ?thesis using b ex_hash by blast
qed

end
