(* ===== verification/Wire.thy ===== *)
theory Wire
  imports Transport SyncPull Push_Theorems
begin

text \<open>
  Client and server together: the JSON replies of the sync routes, how the client's transport reads
  them, and what the composition of the two gives.
\<close>

section \<open>Replies of the server\<close>

fun sync_code_text :: "sync_code \<Rightarrow> jsstr" where
  "sync_code_text S_CONFLICT = js ''CONFLICT''"
| "sync_code_text S_CURSOR_INVALID = js ''CURSOR_INVALID''"
| "sync_code_text S_FORBIDDEN = js ''FORBIDDEN''"
| "sync_code_text S_HEAD_SET_CHANGED = js ''HEAD_SET_CHANGED''"
| "sync_code_text S_INTERNAL = js ''INTERNAL''"
| "sync_code_text S_INVALID_BATCH = js ''INVALID_BATCH''"
| "sync_code_text S_INVALID_REQUEST = js ''INVALID_REQUEST''"
| "sync_code_text S_MISSING_PARENT = js ''MISSING_PARENT''"
| "sync_code_text S_NOT_FOUND = js ''NOT_FOUND''"
| "sync_code_text S_QUOTA_EXCEEDED = js ''QUOTA_EXCEEDED''"
| "sync_code_text S_RATE_LIMITED = js ''RATE_LIMITED''"
| "sync_code_text S_REVISION_ID_REUSE = js ''REVISION_ID_REUSE''"
| "sync_code_text S_STORAGE_UNAVAILABLE = js ''STORAGE_UNAVAILABLE''"
| "sync_code_text S_UNAUTHENTICATED = js ''UNAUTHENTICATED''"

definition sendErrorCode :: "nat \<Rightarrow> jsstr \<Rightarrow> http_response" where
  "sendErrorCode status code =
     \<lparr>rs_status = int status, rs_json = Some (JObj [(js ''error'', JObj [(js ''code'', JStr code)])])\<rparr>"

fun push_result_json :: "push_result \<Rightarrow> json" where
  "push_result_json (Committed rc i st) =
     JObj [(js ''receipt'', receipt_json rc), (js ''revisionId'', JStr i),
           (js ''status'', JStr (case st of Accepted \<Rightarrow> js ''accepted'' | Replayed \<Rightarrow> js ''replayed''))]"
| "push_result_json (Rejected c i) =
     JObj [(js ''code'', JStr (sync_code_text c)), (js ''revisionId'', JStr i), (js ''status'', JStr (js ''rejected''))]"

definition push_reply :: "http_error + push_result list \<Rightarrow> http_response" where
  "push_reply r =
     (case r of
        Inl (status, code) \<Rightarrow> sendErrorCode status (sync_code_text code)
      | Inr results \<Rightarrow> \<lparr>rs_status = 200, rs_json = Some (JObj [(js ''results'', JArr (map push_result_json results))])\<rparr>)"

definition stored_event_json :: "stored_event \<Rightarrow> json" where
  "stored_event_json e =
     JObj [(js ''fileId'', JStr (se_fileId e)), (js ''receipt'', receipt_json (se_receipt e)),
           (js ''revisionId'', JStr (se_revisionId e)), (js ''serverSequence'', JInt (int (se_serverSequence e)))]"

definition pull_reply :: "http_error + pull_page \<Rightarrow> http_response" where
  "pull_reply r =
     (case r of
        Inl (status, code) \<Rightarrow> sendErrorCode status (sync_code_text code)
      | Inr page \<Rightarrow> \<lparr>rs_status = 200, rs_json = Some (JObj
          ((js ''cursor'', JInt (int (pg_cursor page))) #
           (case pg_epoch page of None \<Rightarrow> [] | Some e \<Rightarrow> [(js ''epoch'', JStr e)]) @
           [(js ''events'', JArr (map stored_event_json (pg_events page)))]))\<rparr>)"

section \<open>How the client reads them\<close>

lemma js_eq [simp]: "js s = js t \<longleftrightarrow> s = t"
  by (auto simp: js_def inj_map_eq_map inj_on_def)

lemma receipt_fields [simp]:
  "isRecord (receipt_json rc)"
  "field (receipt_json rc) (js ''revisionId'') = Some (JStr (rc_revisionId rc))"
  "field (receipt_json rc) (js ''serverSequence'') = Some (JInt (int (rc_serverSequence rc)))"
  "field (receipt_json rc) (js ''blobHash'') = Some (JStr (rc_blobHash rc))"
  "field (receipt_json rc) (js ''memberId'') = Some (JStr (rc_memberId rc))"
  "field (receipt_json rc) (js ''serverTime'') = Some (JStr (rc_serverTime rc))"
  "field (receipt_json rc) (js ''parentRevisionIds'') = map_option (\<lambda>ps. JArr (map JStr ps)) (rc_parentRevisionIds rc)"
  by (simp_all add: receipt_json_def isRecord_def field_def split: option.split)

lemma each_or_map: "(\<And>x. x \<in> set xs \<Longrightarrow> f (g x) = Inr (h x)) \<Longrightarrow> each_or f (map g xs) = Inr (map h xs)"
  by (induction xs) auto

fun client_item :: "push_result \<Rightarrow> push_item_result" where
  "client_item (Committed rc i st) =
     \<lparr>pi_revisionId = i, pi_outcome = ItemAccepted,
      pi_receipt = Some \<lparr>pr_revisionId = rc_revisionId rc, pr_serverSequence = int (rc_serverSequence rc)\<rparr>,
      pi_permanent = None, pi_missingParent = None\<rparr>"
| "client_item (Rejected c i) =
     \<lparr>pi_revisionId = i, pi_outcome = ItemRejected, pi_receipt = None,
      pi_permanent = Some (c \<in> {S_INVALID_REQUEST, S_INVALID_BATCH, S_FORBIDDEN, S_REVISION_ID_REUSE, S_CONFLICT, S_NOT_FOUND}),
      pi_missingParent = (if c = S_MISSING_PARENT then Some True else None)\<rparr>"

fun safe_result :: "push_result \<Rightarrow> bool" where
  "safe_result (Committed rc i st) \<longleftrightarrow> int (rc_serverSequence rc) \<le> MAX_SAFE_INTEGER"
| "safe_result (Rejected c i) \<longleftrightarrow> True"

lemma parse_push_result_json: "safe_result r \<Longrightarrow> parse_push_item (push_result_json r) = Inr (client_item r)"
proof (cases r)
  case (Committed rc i st)
  assume "safe_result r"
  then show ?thesis using Committed
    by (cases st) (simp_all add: parse_push_item_def field_def [of "JObj _"] isRecord_def [of "JObj _"] MAX_SAFE_INTEGER_def)
next
  case (Rejected c i)
  then show ?thesis
    by (cases c) (simp_all add: parse_push_item_def field_def isRecord_def isPermanentSyncCode_def PERMANENT_SYNC_CODES_def)
qed

text \<open>
  C39. The client understands every answer of a push, revision by revision: a committed revision is an
  accepted item with the receipt the server wrote, new or replayed, and a rejected one is dead-lettered
  exactly for the codes the same bytes can never satisfy. A changed head set, a missing parent, an
  exceeded quota or an internal error leaves the revision in the outbox.
\<close>

theorem push_answer_understood:
  assumes "list_all safe_result results"
  shows "parsePushResponse (push_reply (Inr results)) = Inr (map client_item results)"
proof -
  have "each_or parse_push_item (map push_result_json results) = Inr (map client_item results)"
    by (rule each_or_map) (use assms parse_push_result_json in \<open>auto simp: list_all_iff\<close>)
  then show ?thesis by (simp add: parsePushResponse_def push_reply_def isRecord_def field_def)
qed

theorem push_answer_understood_witness:
  "parsePushResponse (push_reply (Inr [Rejected S_MISSING_PARENT [7], Rejected S_CONFLICT [8]])) =
     Inr [\<lparr>pi_revisionId = [7], pi_outcome = ItemRejected, pi_receipt = None, pi_permanent = Some False, pi_missingParent = Some True\<rparr>,
          \<lparr>pi_revisionId = [8], pi_outcome = ItemRejected, pi_receipt = None, pi_permanent = Some True, pi_missingParent = None\<rparr>]"
  using push_answer_understood [of "[Rejected S_MISSING_PARENT [7], Rejected S_CONFLICT [8]]"] by simp

section \<open>Refused requests\<close>

text \<open>The errors a push can be refused with as a whole.\<close>

definition push_errors :: "http_error set" where
  "push_errors = {(400, S_INVALID_REQUEST), (401, S_UNAUTHENTICATED), (403, S_FORBIDDEN), (422, S_INVALID_BATCH),
     (507, S_STORAGE_UNAVAILABLE), (413, S_QUOTA_EXCEEDED), (500, S_INTERNAL)}"

lemma pushLoop_errors: "pushLoop deps others clock k v act w results xs = (Inl e, w') \<Longrightarrow> e \<in> push_errors"
proof (induction xs arbitrary: k w results)
  case (Cons x xs)
  obtain r w1 where one: "pushOne deps others clock k act w x = (r, w1)" by fastforce
  show ?case
  proof (cases r)
    case (Inl f)
    then show ?thesis using Cons one
      by (cases f) (auto simp: push_errors_def sendCommitError_def domain_error_def split: if_splits)
  next
    case (Inr res)
    then show ?thesis using Cons one by auto
  qed
qed simp

lemma pushRoute_errors: "pushRoute deps others clock w session v body = (Inl e, w') \<Longrightarrow> e \<in> push_errors"
proof -
  assume run: "pushRoute deps others clock w session v body = (Inl e, w')"
  have guards: "e \<in> push_errors" if "pushGuards deps (w_db w) session v body = Inl e"
    using that by (auto simp: pushGuards_def push_errors_def split: if_splits option.splits)
  have codes: "(507, S_STORAGE_UNAVAILABLE) \<in> push_errors" "(413, S_QUOTA_EXCEEDED) \<in> push_errors"
    by (simp_all add: push_errors_def)
  show ?thesis
    using run guards codes by (auto simp: pushRoute_def Let_def dest: pushLoop_errors split: sum.splits if_splits)
qed

lemma request_refused:
  assumes "to_getAuthToken opts v = (Inr token, v1)"
    and "\<And>rq. to_requestUrl opts rq v1 = (Inr (sendErrorCode status code), f rq)" "300 \<le> status"
  shows "\<exists>e v2. request opts verb url body v = (Inl e, v2) \<and>
    fl_authDenied e = (status = 401 \<and> code \<noteq> js ''QUOTA_EXCEEDED'') \<and>
    fl_permanent e = (status \<in> {400, 403, 413, 422} \<and> code \<noteq> js ''QUOTA_EXCEEDED'')"
proof -
  have code: "wholeRequestCode (sendErrorCode status code) = Some code"
    by (simp add: wholeRequestCode_def sendErrorCode_def isRecord_def field_def)
  have status: "rs_status (sendErrorCode status code) = int status" by (simp add: sendErrorCode_def)
  have "isPermanentStatus (int status) = (status \<in> {400, 403, 413, 422})" by (auto simp: isPermanentStatus_def)
  then show ?thesis using assms code status by (auto simp: request_def transport_failure_def)
qed

text \<open>
  C38. How the client takes a push the server refused as a whole. A refused session stops the client;
  only a refusal of the bytes themselves - an invalid request, a foreign identity, an invalid batch -
  counts against the revisions. A full quota, a full disk and a fault of the server are waited out,
  so they never quarantine anything.
\<close>

theorem refused_push_classified:
  assumes "pushRoute deps others clock w session v body = (Inl e, w')"
    and "to_getAuthToken opts u = (Inr token, u1)"
    and "\<And>rq. to_requestUrl opts rq u1 = (Inr (push_reply (Inl e)), f rq)"
    and "push_entries opts resolve queued = Inr entries"
  shows "\<exists>err u2. transport_push opts resolve queued u = (Inl err, u2) \<and>
    (isAuthDenied err \<longleftrightarrow> e = (401, S_UNAUTHENTICATED)) \<and>
    (isPermanentError err \<longleftrightarrow> e \<in> {(400, S_INVALID_REQUEST), (403, S_FORBIDDEN), (422, S_INVALID_BATCH)})"
proof -
  obtain status code where e: "e = (status, code)" by fastforce
  have err: "(status, code) \<in> push_errors" using pushRoute_errors [OF assms(1)] e by simp
  have reply: "to_requestUrl opts rq u1 = (Inr (sendErrorCode status (sync_code_text code)), f rq)" for rq
    using assms(3) e by (simp add: push_reply_def)
  have "300 \<le> status" using err by (auto simp: push_errors_def)
  from request_refused [OF assms(2) reply this] obtain err u2 where req: "request opts (js ''POST'')
        (to_apiBaseUrl opts @ js ''/vaults/'' @ to_vaultId opts @ js ''/revisions'')
        (Some (JObj [(js ''revisions'', JArr entries)])) u = (Inl err, u2)"
    "fl_authDenied err = (status = 401 \<and> sync_code_text code \<noteq> js ''QUOTA_EXCEEDED'')"
    "fl_permanent err = (status \<in> {400, 403, 413, 422} \<and> sync_code_text code \<noteq> js ''QUOTA_EXCEEDED'')"
    by blast
  have "transport_push opts resolve queued u = (Inl err, u2)" by (simp add: transport_push_def assms(4) req(1))
  moreover have "isAuthDenied err \<longleftrightarrow> e = (401, S_UNAUTHENTICATED)"
    using err req(2) by (auto simp: e isAuthDenied_def push_errors_def)
  moreover have "isPermanentError err \<longleftrightarrow> e \<in> {(400, S_INVALID_REQUEST), (403, S_FORBIDDEN), (422, S_INVALID_BATCH)}"
    using err req(3) by (auto simp: e isPermanentError_def push_errors_def)
  ultimately show ?thesis by blast
qed

definition ex_options :: "http_response \<Rightarrow> unit transport_options" where
  "ex_options response = \<lparr>to_requestUrl = (\<lambda>_ v. (Inr response, v)), to_apiBaseUrl = js ''https://host'', to_vaultId = ex_vault,
     to_getAuthToken = (\<lambda>v. (Inr [1], v)), to_serverEpoch = (\<lambda>_. None),
     to_identity = Some \<lparr>id_vaultId = ex_vault, id_memberId = [3], id_deviceId = [4]\<rparr>\<rparr>"

definition ex_queued :: push_revision where
  "ex_queued = \<lparr>pv_revisionId = [5], pv_fileId = [2], pv_contentHash = [], pv_payloadBytes = None, pv_parentRevisionIds = None\<rparr>"

text \<open>An envelope whose header was built under another membership and device.\<close>

definition ex_stale :: stored_envelope where
  "ex_stale = (Some (header_json (ex_push_header\<lparr>expectedMemberId := [9], expectedDeviceId := [9]\<rparr>)), js ''k'', js ''QUJD'')"

lemma pushGuards_disk: "pushGuards (deps\<lparr>d_freeDiskBytes := a, d_minFreeDiskBytes := b\<rparr>) db session v body = pushGuards deps db session v body"
  by (simp add: pushGuards_def cong: option.case_cong if_cong)

theorem refused_push_classified_witness:
  "\<exists>err u2. transport_push (ex_options (push_reply (Inl (507, S_STORAGE_UNAVAILABLE)))) (\<lambda>_. Some ex_stale) [ex_queued] () = (Inl err, u2) \<and>
     \<not> isAuthDenied err \<and> \<not> isPermanentError err"
proof -
  let ?deps = "ex_deps\<lparr>d_freeDiskBytes := Some (Some 0), d_minFreeDiskBytes := 1\<rparr>"
  have "pushGuards ?deps ex_push_store (Some ex_session) ex_vault ex_body = Inr (\<lparr>deviceId = [4], memberId = [3]\<rparr>, [ex_revision_input])"
    using ex_guards by (simp only: pushGuards_disk)
  then have "pushRoute ?deps (\<lambda>_ w. w) None ex_world (Some ex_session) ex_vault ex_body = (Inl (507, S_STORAGE_UNAVAILABLE), ex_world)"
    by (simp add: pushRoute_def ex_world_def diskGuard_def)
  from refused_push_classified [OF this, of "ex_options (push_reply (Inl (507, S_STORAGE_UNAVAILABLE)))" "()" "[1]" "()"
      "\<lambda>_. ()" "\<lambda>_. Some ex_stale" "[ex_queued]"]
  show ?thesis by (simp add: ex_options_def)
qed

section \<open>Identity\<close>

lemma push_entries_resolve:
  "push_entries opts resolve rs = Inr entries \<Longrightarrow>
     \<exists>es. entries = map (revision_entry opts) es \<and> length es = length rs"
proof (induction rs arbitrary: entries)
  case (Cons r rs)
  then obtain e tl where "resolve (pv_revisionId r) = Some e" "push_entries opts resolve rs = Inr tl"
    "entries = revision_entry opts e # tl" by (auto split: option.splits sum.splits)
  with Cons.IH [of tl] show ?case by (metis length_Cons list.simps(9))
qed simp

lemma stamped_header:
  assumes "stampCurrentIdentity h (Some i) = Some j" "parse_header uuid j = Some hdr"
  shows "vaultId hdr = id_vaultId i \<and> expectedMemberId hdr = id_memberId i \<and> expectedDeviceId hdr = id_deviceId i"
proof (cases "\<exists>kvs. h = Some (JObj kvs)")
  case True
  then obtain kvs where "h = Some (JObj kvs)" by blast
  then show ?thesis using assms
    by (auto simp: stampCurrentIdentity_def parse_header_def strict_object_def header_of_members_def
        bind_eq_Some_conv split: if_splits)
next
  case False
  then have "j = the h" "h \<noteq> None" using assms(1) by (auto simp: stampCurrentIdentity_def split: json.splits option.splits)
  then show ?thesis using assms(2) False
    by (cases j) (auto simp: parse_header_def strict_object_def)
qed

lemma map_option_list_SomeE:
  "map_option_list f xs = Some ys \<Longrightarrow> y \<in> set ys \<Longrightarrow> \<exists>x \<in> set xs. f x = Some y"
  by (induction xs arbitrary: ys) (auto simp: bind_eq_Some_conv)

lemma entry_header:
  assumes "parse_revision_input (revision_entry opts env) = Some (h, key, payload)"
  shows "h = stampCurrentIdentity (fst env) (to_identity opts)"
  using assms
  by (cases env) (auto simp: revision_entry_def parse_revision_input_def strict_object_def bind_eq_Some_conv
      split: if_splits option.splits)

text \<open>
  A revision built under an earlier session never makes the server refuse the batch: whatever
  identity the stored headers carry, a push sent with the identity of the session's active membership
  and device passes the identity check of the server, so it is never answered 403.
\<close>

theorem stamped_push_never_forbidden:
  assumes "loadActiveMembership db (ss_userId ss) v = Some membershipId"
    and "to_identity opts = Some \<lparr>id_vaultId = v, id_memberId = membershipId, id_deviceId = ss_deviceId ss\<rparr>"
    and "push_entries opts resolve queued = Inr entries"
  shows "\<forall>code. pushGuards deps db (Some ss) v (JObj [(js ''revisions'', JArr entries)]) \<noteq> Inl (403, code)"
proof -
  obtain es where es: "entries = map (revision_entry opts) es" using push_entries_resolve [OF assms(3)] by blast
  have ids: "vaultId (ri_header r) = v \<and> expectedMemberId (ri_header r) = membershipId \<and> expectedDeviceId (ri_header r) = ss_deviceId ss"
    if raws: "parse_push_body (JObj [(js ''revisions'', JArr entries)]) = Some raws"
      and batch: "parseBatch (d_env deps) raws maxBytes = Some parsed" and r: "r \<in> set parsed" for raws maxBytes parsed r
  proof -
    obtain h key p where raw: "(h, key, p) \<in> set raws" "Option.bind h (parse_header (env_uuid (d_env deps))) = Some (ri_header r)"
      using map_option_list_SomeE [OF batch [unfolded parseBatch_def] r]
      by (auto simp: bind_eq_Some_conv Let_def split: if_splits)
    have "map_option_list parse_revision_input entries = Some raws"
      using raws by (auto simp: parse_push_body_def strict_object_def split: if_splits)
    from map_option_list_SomeE [OF this raw(1)] obtain e where "parse_revision_input (revision_entry opts e) = Some (h, key, p)"
      unfolding es by auto
    then have "h = stampCurrentIdentity (fst e) (to_identity opts)" by (rule entry_header)
    then show ?thesis using raw(2) stamped_header assms(2) by (fastforce simp: bind_eq_Some_conv)
  qed
  show ?thesis
    using assms(1) ids by (auto simp: pushGuards_def list_ex_iff split: if_splits option.splits)
qed

theorem stamped_push_never_forbidden_witness:
  "pushGuards ex_deps ex_push_store (Some ex_session) ex_vault
     (JObj [(js ''revisions'', JArr [revision_entry (ex_options (push_reply (Inr []))) ex_stale])]) \<noteq> Inl (403, S_FORBIDDEN)"
proof -
  have "loadActiveMembership ex_push_store (ss_userId ex_session) ex_vault = Some [3]"
    by (simp add: loadActiveMembership_def ex_push_store_def ex_session_def)
  from stamped_push_never_forbidden [OF this, of "ex_options (push_reply (Inr []))" "\<lambda>_. Some ex_stale" "[ex_queued]"]
  show ?thesis by (simp add: ex_options_def ex_session_def)
qed

section \<open>Pulling from the server\<close>

definition client_event :: "stored_event \<Rightarrow> remote_event" where
  "client_event e = (let rc = se_receipt e in
     \<lparr>re_serverSequence = int (se_serverSequence e),
      re_revision = \<lparr>rr_revisionId = se_revisionId e, rr_fileId = se_fileId e, rr_contentHash = rc_blobHash rc,
        rr_parentRevisionIds = rc_parentRevisionIds rc, rr_authorMembershipId = Some (rc_memberId rc),
        rr_acceptedAt = Some (rc_serverTime rc)\<rparr>\<rparr>)"

lemma parse_stored_event_json:
  "int (se_serverSequence e) \<le> MAX_SAFE_INTEGER \<Longrightarrow> parse_pull_event (stored_event_json e) = Inr (client_event e)"
  by (simp add: parse_pull_event_def stored_event_json_def field_def [of "JObj _"] client_event_def Let_def MAX_SAFE_INTEGER_def)
     (cases "rc_parentRevisionIds (se_receipt e)"; simp)

lemma parse_pull_reply:
  assumes "int (pg_cursor pg) \<le> MAX_SAFE_INTEGER" "\<forall>e \<in> set (pg_events pg). int (se_serverSequence e) \<le> MAX_SAFE_INTEGER"
  shows "parsePullResponse (pull_reply (Inr pg)) =
    Inr \<lparr>pl_cursor = int (pg_cursor pg), pl_epoch = pg_epoch pg, pl_events = map client_event (pg_events pg)\<rparr>"
proof -
  have "each_or parse_pull_event (map stored_event_json (pg_events pg)) = Inr (map client_event (pg_events pg))"
    by (rule each_or_map) (use assms(2) parse_stored_event_json in auto)
  then show ?thesis using assms(1)
    by (cases "pg_epoch pg") (simp_all add: parsePullResponse_def pull_reply_def field_def MAX_SAFE_INTEGER_def)
qed

text \<open>A page of the server: its events are entries of the vault's log, all numbers are safe.\<close>

lemma eventsRoute_page:
  assumes "store_inv env db" "eventsRoute env db epoch session v (Some q) = Inr pg"
  shows "int (pg_cursor pg) \<le> MAX_SAFE_INTEGER \<and> (\<forall>se \<in> set (pg_events pg). int (se_serverSequence se) \<le> MAX_SAFE_INTEGER \<and>
    (\<exists>e \<in> set (vault_log db v). ev_server_sequence e = se_serverSequence se \<and> ev_revision_id e = se_revisionId se))"
proof -
  let ?after = "case q_after q of Some n \<Rightarrow> n | None \<Rightarrow> 0" and ?limit = "case q_limit q of Some n \<Rightarrow> n | None \<Rightarrow> 100"
  obtain events where cur: "getCursor db v = Inr (pg_cursor pg)" "?after \<le> pg_cursor pg"
    and page: "listEvents env db v (int ?after) (int ?limit) = Inr events" "pg_events pg = events"
    using assms(2) by (auto simp: eventsRoute_def Let_def split: if_splits option.splits sum.splits)
  obtain row where row: "vaults db v = Some row" "int (next_server_sequence row) \<le> MAX_SAFE_INTEGER" "0 < next_server_sequence row"
      "pg_cursor pg = next_server_sequence row - 1"
    using cur(1) by (auto simp: getCursor_def getVault_def requireSafeSequence_def result_simps split: option.splits if_splits)
  have limit: "int ?after \<le> MAX_SAFE_INTEGER" "0 < ?limit" "?limit \<le> 1000"
    using page(1) unfolding listEvents_def by (auto split: if_splits)
  from listEvents_page [OF assms(1) row(1) limit] page obtain
    nums: "map se_serverSequence (pg_events pg) = take ?limit [?after + 1..<next_server_sequence row]"
    and log: "\<forall>se \<in> set (pg_events pg). \<exists>e \<in> set (vault_log db v).
       ev_server_sequence e = se_serverSequence se \<and> ev_revision_id e = se_revisionId se" by auto
  have "se_serverSequence se < next_server_sequence row" if "se \<in> set (pg_events pg)" for se
    using that nums by (metis atLeastLessThan_iff in_set_takeD list.set_map rev_image_eqI set_upt)
  then show ?thesis using log row by fastforce
qed

text \<open>
  C32. Client and server together lose no revision. The client's pull asks the server's event route
  through the transport; whatever else happens during the pull, every number between the cursor it
  started from and the cursor it stores afterwards is the number of an event in the vault's log, and
  the revision of that event was written by this client, applied by its vault, or is parked.
\<close>

theorem client_misses_no_revision:
  assumes "store_inv env db" "ce_pull E = transport_pull opts"
    and "\<And>rq u. to_requestUrl opts rq u = (Inr (pull_reply (eventsRoute env db epoch session v (Some q))), f rq u)"
    and "loadCursor (ce_cfg E) (ce_io E (cl_tick w)) (cl_state w) = (Inr cursor, d0)"
    and "runPull (client_ports E) r w = (res, r', w')"
    and "cursor < n" "n \<le> client_cursor w'"
  shows "\<exists>e \<in> set (vault_log db v). int (ev_server_sequence e) = n \<and> settled w' (ev_revision_id e)"
proof -
  obtain page u' ev where page: "transport_pull opts cursor (cl_rest w) = (Inr page, u')" "ev \<in> set (pl_events page)"
      "re_serverSequence ev = n" "settled w' (rr_revisionId (re_revision ev))"
    using runPull_passes_page [OF assms(4,5)] assms(2,6,7) by metis
  let ?reply = "eventsRoute env db epoch session v (Some q)"
  have ok: "\<not> (rs_status (pull_reply ?reply) < 200 \<or> rs_status (pull_reply ?reply) \<ge> 300)"
    and parsed: "parsePullResponse (pull_reply ?reply) = Inr page"
    using page(1) assms(3)
    by (auto simp: transport_pull_def request_def split: option.splits prod.splits sum.splits if_splits)
  obtain pg where pg: "?reply = Inr pg"
  proof (cases ?reply)
    case (Inl e)
    then show ?thesis using parsed
      by (cases e) (simp add: parsePullResponse_def pull_reply_def sendErrorCode_def field_def)
  qed
  note facts = eventsRoute_page [OF assms(1) pg]
  then have "pl_events page = map client_event (pg_events pg)"
    using parsed parse_pull_reply [of pg] unfolding pg by auto
  then obtain se where "se \<in> set (pg_events pg)" "ev = client_event se" using page(2) by auto
  moreover from this facts obtain e where "e \<in> set (vault_log db v)" "ev_server_sequence e = se_serverSequence se"
    "ev_revision_id e = se_revisionId se" by blast
  ultimately show ?thesis using page(3,4) by (intro bexI [of _ e]) (simp_all add: client_event_def Let_def)
qed

text \<open>A server store with one revision, and a client that pulls from it.\<close>

definition ex_served :: store where
  "ex_served = committed ex_push_store ex_prepared
     \<lparr>write_epoch = 0, next_server_sequence = 1, quota_bytes = None, deleted_at = None\<rparr> [7]"

definition ex_query :: pull_query where
  "ex_query = \<lparr>q_after = Some 0, q_epoch = None, q_limit = None\<rparr>"

definition ex_pulling :: "unit client_env" where
  "ex_pulling = ex_client_env\<lparr>ce_pull :=
     transport_pull (ex_options (pull_reply (eventsRoute ex_env ex_served None (Some ex_session) ex_vault (Some ex_query))))\<rparr>"

lemma ex_served_inv: "store_inv ex_env ex_served"
  unfolding ex_served_def
  by (rule store_inv_committed [OF ex_push_store_inv])
     (simp_all add: ex_checks receipt_ok_def new_receipt_def ex_hash MAX_SAFE_INTEGER_def parents_ok_def)

definition ex_page :: pull_result where
  "ex_page = \<lparr>pl_cursor = 1, pl_epoch = None, pl_events = [\<lparr>re_serverSequence = 1,
     re_revision = \<lparr>rr_revisionId = [5], rr_fileId = [2], rr_contentHash = replicate 64 97, rr_parentRevisionIds = Some [],
       rr_authorMembershipId = Some [3], rr_acceptedAt = Some [7]\<rparr>\<rparr>]\<rparr>"

text \<open>The reply does not depend on the header text of the row and its hashes, so they stay variables.\<close>

definition ex_served_with :: "jsstr \<Rightarrow> jsstr \<Rightarrow> jsstr \<Rightarrow> store" where
  "ex_served_with headerText headerHash requestHash = committed ex_push_store
     \<lparr>p_actor = \<lparr>deviceId = [4], memberId = [3]\<rparr>, p_blobHash = replicate 64 97, p_blobSize = 3,
      p_header = ex_push_header, p_headerBytes = headerText, p_headerHash = headerHash, p_idempotencyKey = js ''k'',
      p_requestHash = requestHash\<rparr>
     \<lparr>write_epoch = 0, next_server_sequence = 1, quota_bytes = None, deleted_at = None\<rparr> [7]"

lemma ex_reply_with:
  "parsePullResponse (pull_reply (eventsRoute ex_env (ex_served_with t h q) None (Some ex_session) ex_vault (Some ex_query))) = Inr ex_page"
  "rs_status (pull_reply (eventsRoute ex_env (ex_served_with t h q) None (Some ex_session) ex_vault (Some ex_query))) = 200"
  by code_simp+

lemma ex_reply:
  "parsePullResponse (pull_reply (eventsRoute ex_env ex_served None (Some ex_session) ex_vault (Some ex_query))) = Inr ex_page"
  "rs_status (pull_reply (eventsRoute ex_env ex_served None (Some ex_session) ex_vault (Some ex_query))) = 200"
  using ex_reply_with unfolding ex_served_with_def ex_served_def ex_prepared_def by blast+

lemma ex_pulling_page: "ex_pulling = ex_client_env\<lparr>ce_pull := (\<lambda>_ u. (Inr ex_page, u))\<rparr>"
  unfolding ex_pulling_def
  by (simp add: fun_eq_iff transport_pull_def request_def ex_options_def ex_reply)

theorem client_misses_no_revision_witness:
  "client_cursor (snd (snd (runPull (client_ports ex_pulling) new_runner ex_client))) = 1 \<and>
   (\<exists>e \<in> set (vault_log ex_served ex_vault). int (ev_server_sequence e) = 1 \<and>
      settled (snd (snd (runPull (client_ports ex_pulling) new_runner ex_client))) (ev_revision_id e))"
proof -
  let ?run = "runPull (client_ports ex_pulling) new_runner ex_client"
  obtain res r' w' where run: "?run = (res, r', w')" by (metis prod_cases3)
  have cursor: "client_cursor (snd (snd ?run)) = 1" unfolding ex_pulling_page by code_simp
  have "fst (loadCursor (ce_cfg ex_pulling) (ce_io ex_pulling (cl_tick ex_client)) (cl_state ex_client)) = Inr 0"
    using ex_client_loads by (simp add: ex_pulling_def)
  then obtain d0 where load: "loadCursor (ce_cfg ex_pulling) (ce_io ex_pulling (cl_tick ex_client)) (cl_state ex_client) = (Inr 0, d0)"
    by (metis prod.collapse)
  from client_misses_no_revision [OF ex_served_inv _ _ load run, of
      "ex_options (pull_reply (eventsRoute ex_env ex_served None (Some ex_session) ex_vault (Some ex_query)))"
      None "Some ex_session" ex_vault ex_query "\<lambda>_ u. u" 1]
  show ?thesis using cursor run by (simp add: ex_pulling_def ex_options_def)
qed

end
