(* ===== verification/Tokens.thy ===== *)
theory Tokens
  imports SyncRoutes
begin

text \<open>
  The secrets of the server (\<^verbatim>\<open>apps/server/src/auth/tokens.ts\<close>, \<^verbatim>\<open>verification-pin.ts\<close>): their form,
  their lifetimes and the comparison of their hashes. A token is a prefix that names its domain and
  32 bytes in base64url; SHA-256 is the parameter \<open>sha\<close>, the random bytes are arguments.
\<close>

section \<open>Base64url\<close>

definition url_char :: "code_unit \<Rightarrow> bool" where
  "url_char c \<longleftrightarrow> (65 \<le> c \<and> c \<le> 90) \<or> (97 \<le> c \<and> c \<le> 122) \<or> (48 \<le> c \<and> c \<le> 57) \<or> c = 45 \<or> c = 95"

definition url_value :: "code_unit \<Rightarrow> nat" where
  "url_value c =
     (if 65 \<le> c \<and> c \<le> 90 then c - 65
      else if 97 \<le> c \<and> c \<le> 122 then c - 71
      else if 48 \<le> c \<and> c \<le> 57 then c + 4
      else if c = 45 then 62 else 63)"

definition url_digit :: "nat \<Rightarrow> code_unit" where
  "url_digit n = (if n < 26 then 65 + n else if n < 52 then 71 + n else if n < 62 then n - 4 else if n = 62 then 45 else 95)"

text \<open>\<^verbatim>\<open>buffer.toString('base64url')\<close>, without padding.\<close>

fun encode_url :: "nat list \<Rightarrow> jsstr" where
  "encode_url (a # b # c # bytes) =
     url_digit (a div 4) # url_digit (a mod 4 * 16 + b div 16) # url_digit (b mod 16 * 4 + c div 64) # url_digit (c mod 64) #
     encode_url bytes"
| "encode_url [a, b] = [url_digit (a div 4), url_digit (a mod 4 * 16 + b div 16), url_digit (b mod 16 * 4)]"
| "encode_url [a] = [url_digit (a div 4), url_digit (a mod 4 * 16)]"
| "encode_url [] = []"

text \<open>\<^verbatim>\<open>Buffer.from(text, 'base64url')\<close> on a text of the alphabet; left-over bits are dropped.\<close>

fun decode_url :: "jsstr \<Rightarrow> nat list" where
  "decode_url (p # q # r # s # cs) =
     (url_value p * 4 + url_value q div 16) # (url_value q mod 16 * 16 + url_value r div 4) #
     (url_value r mod 4 * 64 + url_value s) # decode_url cs"
| "decode_url [p, q, r] = [url_value p * 4 + url_value q div 16, url_value q mod 16 * 16 + url_value r div 4]"
| "decode_url [p, q] = [url_value p * 4 + url_value q div 16]"
| "decode_url _ = []"

section \<open>Tokens\<close>

definition TOKEN_BYTE_LENGTH :: nat where
  "TOKEN_BYTE_LENGTH = 32"

definition TOKEN_PAYLOAD_LENGTH :: nat where
  "TOKEN_PAYLOAD_LENGTH = 43"

datatype token_domain =
    AccessTokenDomain | RefreshTokenDomain | PairingTokenDomain | InvitationTokenDomain | PendingDeviceCredentialDomain
  | RejoinSecretDomain | RefreshRotationIdDomain

fun domain_prefix :: "token_domain \<Rightarrow> jsstr" where
  "domain_prefix AccessTokenDomain = js ''hm_at_''"
| "domain_prefix RefreshTokenDomain = js ''hm_rt_''"
| "domain_prefix PairingTokenDomain = js ''hm_pt_''"
| "domain_prefix InvitationTokenDomain = js ''hm_it_''"
| "domain_prefix PendingDeviceCredentialDomain = js ''hm_pd_''"
| "domain_prefix RejoinSecretDomain = js ''hm_rj_''"
| "domain_prefix RefreshRotationIdDomain = js ''hm_ri_''"

definition generateToken :: "token_domain \<Rightarrow> nat list \<Rightarrow> jsstr" where
  "generateToken domain bytes = domain_prefix domain @ encode_url bytes"

text \<open>\<open>None\<close> is the thrown \<^verbatim>\<open>INVALID_TOKEN\<close>.\<close>

definition parseToken :: "token_domain \<Rightarrow> jsstr \<Rightarrow> jsstr option" where
  "parseToken domain value =
     (let prefix = domain_prefix domain; payload = drop (length prefix) value; decoded = decode_url payload
      in if length value \<noteq> length prefix + TOKEN_PAYLOAD_LENGTH \<or> take (length prefix) value \<noteq> prefix then None
         else if \<not> (length payload = TOKEN_PAYLOAD_LENGTH \<and> list_all url_char payload) then None
         else if length decoded \<noteq> TOKEN_BYTE_LENGTH \<or> encode_url decoded \<noteq> payload then None
         else Some value)"

text \<open>\<^verbatim>\<open>hashRefreshToken(parseRefreshToken(value))\<close> and its relatives.\<close>

definition hashParsed :: "(jsstr \<Rightarrow> jsstr) \<Rightarrow> token_domain \<Rightarrow> jsstr \<Rightarrow> jsstr option" where
  "hashParsed sha domain value = map_option sha (parseToken domain value)"

text \<open>\<open>None\<close> is the thrown \<^verbatim>\<open>INVALID_TOKEN_HASH\<close>.\<close>

definition tokenHashesEqual :: "jsstr \<Rightarrow> jsstr \<Rightarrow> bool option" where
  "tokenHashesEqual left right = (if sha256_hex left \<and> sha256_hex right then Some (left = right) else None)"

definition rejoinSecretMatchesHash :: "(jsstr \<Rightarrow> jsstr) \<Rightarrow> jsstr \<Rightarrow> jsstr option \<Rightarrow> bool" where
  "rejoinSecretMatchesHash sha rawSecret storedHash =
     (case storedHash of
        None \<Rightarrow> False
      | Some stored \<Rightarrow>
          (case hashParsed sha RejoinSecretDomain rawSecret of
             None \<Rightarrow> False
           | Some presented \<Rightarrow> (case tokenHashesEqual presented stored of Some b \<Rightarrow> b | None \<Rightarrow> False)))"

section \<open>Lifetimes\<close>

definition ACCESS_TOKEN_MIN_TTL_SECONDS :: int where
  "ACCESS_TOKEN_MIN_TTL_SECONDS = 10 * 60"

definition ACCESS_TOKEN_MAX_TTL_SECONDS :: int where
  "ACCESS_TOKEN_MAX_TTL_SECONDS = 15 * 60"

definition REFRESH_TOKEN_MAX_TTL_SECONDS :: int where
  "REFRESH_TOKEN_MAX_TTL_SECONDS = 30 * 24 * 60 * 60"

definition validateIntegerTtl :: "int \<Rightarrow> int \<Rightarrow> int \<Rightarrow> bool" where
  "validateIntegerTtl seconds minimum maximum \<longleftrightarrow>
     \<bar>seconds\<bar> \<le> MAX_SAFE_INTEGER \<and> \<not> seconds < minimum \<and> \<not> seconds > maximum"

definition validateAccessTokenTtl :: "int \<Rightarrow> bool" where
  "validateAccessTokenTtl seconds = validateIntegerTtl seconds ACCESS_TOKEN_MIN_TTL_SECONDS ACCESS_TOKEN_MAX_TTL_SECONDS"

definition validateRefreshTokenTtl :: "int \<Rightarrow> bool" where
  "validateRefreshTokenTtl seconds = validateIntegerTtl seconds 1 REFRESH_TOKEN_MAX_TTL_SECONDS"

section \<open>Verification codes\<close>

definition PIN_DIGITS :: nat where
  "PIN_DIGITS = 6"

definition PIN_UPPER_BOUND :: nat where
  "PIN_UPPER_BOUND = 1000000"

fun decimal_text :: "nat \<Rightarrow> jsstr" where
  "decimal_text n = (if n < 10 then [48 + n] else decimal_text (n div 10) @ [48 + n mod 10])"

declare decimal_text.simps [simp del]

text \<open>\<open>value\<close> is the result of \<^verbatim>\<open>randomInt(0, PIN_UPPER_BOUND)\<close>.\<close>

definition generateVerificationPin :: "nat \<Rightarrow> jsstr" where
  "generateVerificationPin value =
     (let digits = decimal_text value in replicate (PIN_DIGITS - length digits) 48 @ digits)"

definition parseVerificationPin :: "jsstr \<Rightarrow> jsstr option" where
  "parseVerificationPin value =
     (if length value = 6 \<and> list_all (\<lambda>c. 48 \<le> c \<and> c \<le> 57) value then Some value else None)"

section \<open>Lemmas\<close>

lemma url_value_digit [simp]: "n < 64 \<Longrightarrow> url_value (url_digit n) = n"
  by (auto simp: url_digit_def url_value_def)

lemma url_char_digit [simp]: "n < 64 \<Longrightarrow> url_char (url_digit n)"
  by (auto simp: url_digit_def url_char_def)

lemma sextets:
  "a < 256 \<Longrightarrow> a div 4 < (64 :: nat)" "b < 256 \<Longrightarrow> a mod 4 * 16 + b div 16 < (64 :: nat)" "a mod 64 < (64 :: nat)"
  "b mod 16 * 4 < (64 :: nat)" "a mod 4 * 16 < (64 :: nat)" "c < 256 \<Longrightarrow> b mod 16 * 4 + c div 64 < (64 :: nat)"
  by auto

lemma decode_encode_url: "list_all (\<lambda>b. b < 256) bytes \<Longrightarrow> decode_url (encode_url bytes) = bytes"
proof (induction bytes rule: encode_url.induct)
  case (1 a b c bytes)
  have "(a mod 4 * 16 + b div 16) div 16 = a mod 4" "(a mod 4 * 16 + b div 16) mod 16 = b div 16"
    "(b mod 16 * 4 + c div 64) div 4 = b mod 16" "(b mod 16 * 4 + c div 64) mod 4 = c div 64"
    using 1(2) by auto
  then show ?case using 1 by (simp add: sextets)
next
  case (2 a b)
  have "(a mod 4 * 16 + b div 16) div 16 = a mod 4" "(a mod 4 * 16 + b div 16) mod 16 = b div 16" using 2 by auto
  then show ?case using 2 by (simp add: sextets)
next
  case (3 a)
  then show ?case by (simp add: sextets)
qed simp

lemma encode_url_chars: "list_all (\<lambda>b. b < 256) bytes \<Longrightarrow> list_all url_char (encode_url bytes)"
  by (induction bytes rule: encode_url.induct) (simp_all add: sextets)

lemma length_encode_url: "length (encode_url bytes) = (length bytes * 4 + 2) div 3"
  by (induction bytes rule: encode_url.induct) auto

lemma length_domain_prefix [simp]: "length (domain_prefix d) = 6"
  by (cases d) (simp_all add: js_def)

lemma parseToken_Some: "parseToken domain value = Some v \<Longrightarrow> v = value \<and> take 6 value = domain_prefix domain"
  by (auto simp: parseToken_def Let_def split: if_splits)

lemma domain_prefix_inj [simp]: "domain_prefix d = domain_prefix d' \<longleftrightarrow> d = d'"
  by (cases d; cases d'; simp add: js_def)

text \<open>
  Secrets of different kinds cannot be confused: a token made for one domain is accepted by the
  parser of that domain, unchanged, and by no other.
\<close>

theorem token_domains_separate:
  assumes "length bytes = TOKEN_BYTE_LENGTH" "list_all (\<lambda>b. b < 256) bytes"
  shows "parseToken d (generateToken d' bytes) = (if d = d' then Some (generateToken d' bytes) else None)"
proof -
  have pay: "length (encode_url bytes) = 43" using assms(1) by (simp add: length_encode_url TOKEN_BYTE_LENGTH_def)
  show ?thesis
  proof (cases "d = d'")
    case True
    then show ?thesis
      using assms pay by (simp add: parseToken_def generateToken_def Let_def TOKEN_PAYLOAD_LENGTH_def
          decode_encode_url encode_url_chars)
  next
    case False
    then have "take 6 (generateToken d' bytes) \<noteq> domain_prefix d" by (simp add: generateToken_def)
    then show ?thesis using False by (simp add: parseToken_def Let_def)
  qed
qed

theorem token_domains_separate_witness:
  "parseToken RefreshTokenDomain (generateToken RefreshTokenDomain (replicate 32 7)) =
     Some (generateToken RefreshTokenDomain (replicate 32 7)) \<and>
   parseToken AccessTokenDomain (generateToken RefreshTokenDomain (replicate 32 7)) = None"
  using token_domains_separate [of "replicate 32 7" RefreshTokenDomain RefreshTokenDomain]
    token_domains_separate [of "replicate 32 7" AccessTokenDomain RefreshTokenDomain]
  by (simp add: TOKEN_BYTE_LENGTH_def list_all_iff)

end
