(* ===== verification/Sessions.thy ===== *)
theory Sessions
  imports Tokens
begin

text \<open>
  The session repository of the server (\<^verbatim>\<open>apps/server/src/auth/session-repository.ts\<close>) and the
  revocation of a membership (\<^verbatim>\<open>membership-revocation.ts\<close>): refresh token families with rotation and
  reuse detection, access tokens, and the rows of users, devices and memberships they rest on.

  The SQLite tables are the fields of \<open>auth_db\<close>, in insertion order; a violated constraint is the error
  \<open>SqliteError\<close> of the operation. A stored date is the instant its text denotes, \<open>None\<close> when
  \<^verbatim>\<open>Date.parse\<close> rejects the text. The clock is an argument (\<open>None\<close> an invalid \<^verbatim>\<open>Date\<close>), and so are the UUIDs and
  random bytes an operation draws, in the order it draws them.
\<close>

section \<open>Tables\<close>

type_synonym stored_date = "int option"

datatype user_status = UserActive | UserRevoked
datatype device_status = DevicePending | DeviceApproved | DeviceRevoked
datatype family_status = FamilyActive | FamilyRevoked | FamilyReuseDetected
datatype member_status = MemberActive | MemberRevoked
datatype member_role = RoleOwner | RoleEditor
datatype member_kind = KindPerson | KindAgent

record user_row =
  us_displayName :: jsstr
  us_status :: user_status

record device_row =
  dv_userId :: ident
  dv_displayName :: jsstr
  dv_status :: device_status
  dv_approvedAt :: "stored_date option"
  dv_revokedAt :: "stored_date option"
  dv_rejoinSecretHash :: "jsstr option"
  dv_vaultId :: "ident option"

record member_row =
  mb_vaultId :: ident
  mb_userId :: ident
  mb_role :: member_role
  mb_status :: member_status
  mb_kind :: member_kind
  mb_revokedAt :: "stored_date option"

record family_row =
  fa_userId :: ident
  fa_deviceId :: ident
  fa_status :: family_status
  fa_currentGeneration :: nat
  fa_expiresAt :: stored_date
  fa_revokedAt :: "stored_date option"

record refresh_row =
  rt_id :: ident
  rt_familyId :: ident
  rt_generation :: nat
  rt_tokenHash :: jsstr
  rt_createdAt :: stored_date
  rt_consumedAt :: "stored_date option"
  rt_rotationId :: "jsstr option"
  rt_successorTokenHash :: "jsstr option"
  rt_expiresAt :: stored_date

record access_row =
  at_id :: ident
  at_familyId :: ident
  at_userId :: ident
  at_deviceId :: ident
  at_tokenHash :: jsstr
  at_expiresAt :: stored_date
  at_revokedAt :: "stored_date option"

record invitation_row =
  iv_vaultId :: ident
  iv_createdByMembershipId :: ident
  iv_inviterDeviceId :: ident
  iv_tokenHash :: jsstr
  iv_verificationSecret :: jsstr
  iv_intendedRole :: member_role
  iv_expiresAt :: stored_date
  iv_createdAt :: stored_date
  iv_consumedAt :: "stored_date option"
  iv_consumedByUserId :: "ident option"
  iv_pendingDeviceId :: "ident option"
  iv_revokedAt :: "stored_date option"
  iv_intendedMemberDisplayName :: "jsstr option"
  iv_intendedMemberId :: "ident option"
  iv_pendingCredentialHash :: "jsstr option"
  iv_pendingRefreshTokenHash :: "jsstr option"
  iv_approvalAttempts :: nat
  iv_intendedKind :: member_kind

record grant_row =
  gr_membershipId :: ident
  gr_deviceId :: ident
  gr_createdByMembershipId :: ident
  gr_createdAt :: stored_date
  gr_expiresAt :: stored_date
  gr_consumedAt :: "stored_date option"

text \<open>
  \<open>au_pinned\<close> are the devices and memberships that rows outside this model refer to with
  \<^verbatim>\<open>ON DELETE RESTRICT\<close>: the authors of revisions, paired owner devices, enrolled agents.
\<close>

record auth_db =
  au_vaults :: "(ident \<times> (jsstr \<times> bool)) list"
  au_users :: "(ident \<times> user_row) list"
  au_devices :: "(ident \<times> device_row) list"
  au_memberships :: "(ident \<times> member_row) list"
  au_families :: "(ident \<times> family_row) list"
  au_refresh :: "refresh_row list"
  au_access :: "access_row list"
  au_invitations :: "(ident \<times> invitation_row) list"
  au_grants :: "(ident \<times> grant_row) list"
  au_pinned :: "ident list"

section \<open>Errors and dates\<close>

datatype session_error =
    INVALID_CLOCK | INVALID_INPUT | INVALID_REFRESH | REFRESH_REUSE_DETECTED | SESSION_INTEGRITY | SESSION_REVOKED
  | SessionSqlite | SessionRange | SessionToken

record session_env =
  sv_sha :: "jsstr \<Rightarrow> jsstr"
  sv_accessTtlSeconds :: int

definition requireUuid :: "jsstr \<Rightarrow> session_error + jsstr" where
  "requireUuid value = (if uuid_pattern value then Inr value else Inl INVALID_INPUT)"

definition requireStoredUuid :: "jsstr \<Rightarrow> session_error + jsstr" where
  "requireStoredUuid value = (if uuid_pattern value then Inr value else Inl SESSION_INTEGRITY)"

definition requireGeneration :: "nat \<Rightarrow> session_error + nat" where
  "requireGeneration value = (if int value \<le> MAX_SAFE_INTEGER then Inr value else Inl SESSION_INTEGRITY)"

definition readClock :: "int option \<Rightarrow> session_error + int" where
  "readClock now = (case now of Some ms \<Rightarrow> Inr ms | None \<Rightarrow> Inl INVALID_CLOCK)"

definition requireStoredDate :: "stored_date \<Rightarrow> session_error + int" where
  "requireStoredDate value = (case value of Some ms \<Rightarrow> Inr ms | None \<Rightarrow> Inl SESSION_INTEGRITY)"

text \<open>\<^verbatim>\<open>toISOString\<close> throws a \<^verbatim>\<open>RangeError\<close> beyond the range of \<^verbatim>\<open>Date\<close>.\<close>

definition MAX_DATE :: int where
  "MAX_DATE = 8640000000000000"

definition addSeconds :: "int \<Rightarrow> int \<Rightarrow> session_error + stored_date" where
  "addSeconds date seconds =
     (let milliseconds = date + seconds * 1000
      in if \<bar>milliseconds\<bar> > MAX_SAFE_INTEGER then Inl INVALID_CLOCK
         else if \<bar>milliseconds\<bar> > MAX_DATE then Inl SessionRange
         else Inr (Some milliseconds))"

section \<open>Statements\<close>

definition insert_family :: "auth_db \<Rightarrow> ident \<Rightarrow> family_row \<Rightarrow> session_error + auth_db" where
  "insert_family db i row =
     (if map_of (au_families db) i \<noteq> None \<or> map_of (au_users db) (fa_userId row) = None \<or>
         map_of (au_devices db) (fa_deviceId row) = None then Inl SessionSqlite
      else Inr (db\<lparr>au_families := au_families db @ [(i, row)]\<rparr>))"

definition insert_refresh :: "auth_db \<Rightarrow> refresh_row \<Rightarrow> session_error + auth_db" where
  "insert_refresh db row =
     (if list_ex (\<lambda>r. rt_id r = rt_id row \<or> rt_tokenHash r = rt_tokenHash row \<or>
          (rt_familyId r = rt_familyId row \<and> rt_generation r = rt_generation row)) (au_refresh db) \<or>
         map_of (au_families db) (rt_familyId row) = None \<or> length (rt_tokenHash row) \<noteq> 64 then Inl SessionSqlite
      else Inr (db\<lparr>au_refresh := au_refresh db @ [row]\<rparr>))"

definition insert_access :: "auth_db \<Rightarrow> access_row \<Rightarrow> session_error + auth_db" where
  "insert_access db row =
     (if list_ex (\<lambda>a. at_id a = at_id row \<or> at_tokenHash a = at_tokenHash row) (au_access db) \<or>
         map_of (au_families db) (at_familyId row) = None \<or> map_of (au_users db) (at_userId row) = None \<or>
         map_of (au_devices db) (at_deviceId row) = None \<or> \<not> sha256_hex (at_tokenHash row) then Inl SessionSqlite
      else Inr (db\<lparr>au_access := au_access db @ [row]\<rparr>))"

definition stamp_once :: "stored_date option \<Rightarrow> int \<Rightarrow> stored_date option" where
  "stamp_once old now = (case old of Some d \<Rightarrow> Some d | None \<Rightarrow> Some (Some now))"

definition update_families :: "(ident \<Rightarrow> family_row \<Rightarrow> bool) \<Rightarrow> (family_row \<Rightarrow> family_row) \<Rightarrow> auth_db \<Rightarrow> auth_db" where
  "update_families p f db = db\<lparr>au_families := map (\<lambda>(i, r). (i, if p i r then f r else r)) (au_families db)\<rparr>"

definition revoke_access :: "(access_row \<Rightarrow> bool) \<Rightarrow> int \<Rightarrow> auth_db \<Rightarrow> auth_db" where
  "revoke_access p now db =
     db\<lparr>au_access := map (\<lambda>a. if p a then a\<lparr>at_revokedAt := stamp_once (at_revokedAt a) now\<rparr> else a) (au_access db)\<rparr>"

text \<open>The joins of the two lookups: a token with its family, user and device.\<close>

definition refresh_join :: "auth_db \<Rightarrow> jsstr \<Rightarrow> (refresh_row \<times> family_row \<times> user_row \<times> device_row) option" where
  "refresh_join db tokenHash =
     Option.bind (find (\<lambda>r. rt_tokenHash r = tokenHash) (au_refresh db)) (\<lambda>r.
     Option.bind (map_of (au_families db) (rt_familyId r)) (\<lambda>f.
     Option.bind (map_of (au_users db) (fa_userId f)) (\<lambda>u.
     Option.bind (map_of (au_devices db) (fa_deviceId f)) (\<lambda>d. Some (r, f, u, d)))))"

definition access_join :: "auth_db \<Rightarrow> jsstr \<Rightarrow> (access_row \<times> family_row \<times> user_row \<times> device_row) option" where
  "access_join db tokenHash =
     Option.bind (find (\<lambda>a. at_tokenHash a = tokenHash) (au_access db)) (\<lambda>a.
     Option.bind (map_of (au_families db) (at_familyId a)) (\<lambda>f.
     Option.bind (map_of (au_users db) (at_userId a)) (\<lambda>u.
     Option.bind (map_of (au_devices db) (at_deviceId a)) (\<lambda>d. Some (a, f, u, d)))))"

section \<open>Issuing\<close>

definition issueAccess ::
    "session_env \<Rightarrow> auth_db \<Rightarrow> ident \<Rightarrow> ident \<Rightarrow> ident \<Rightarrow> int \<Rightarrow> stored_date \<Rightarrow> nat list \<Rightarrow> jsstr \<Rightarrow>
     session_error + (stored_date \<times> jsstr) \<times> auth_db" where
  "issueAccess env db familyId userId devId now familyExpiresAt tokenBytes accessId =
     (let accessToken = generateToken AccessTokenDomain tokenBytes
      in bind_result (addSeconds now (sv_accessTtlSeconds env)) (\<lambda>requestedExpiry.
         bind_result (requireStoredDate familyExpiresAt) (\<lambda>familyMs.
         bind_result (requireStoredDate requestedExpiry) (\<lambda>requestedMs.
           (let accessExpiresAt = (if familyMs < requestedMs then familyExpiresAt else requestedExpiry)
            in bind_result (requireStoredDate accessExpiresAt) (\<lambda>accessMs.
               if accessMs \<le> now then Inl SESSION_REVOKED
               else
                 bind_result (requireUuid accessId) (\<lambda>rowId.
                 case hashParsed (sv_sha env) AccessTokenDomain accessToken of
                   None \<Rightarrow> Inl SessionToken
                 | Some h \<Rightarrow>
                     bind_result (insert_access db \<lparr>at_id = rowId, at_familyId = familyId, at_userId = userId,
                         at_deviceId = devId, at_tokenHash = h, at_expiresAt = accessExpiresAt, at_revokedAt = None\<rparr>)
                       (\<lambda>db'. Inr ((accessExpiresAt, accessToken), db')))))))))"

definition create_family ::
    "session_env \<Rightarrow> auth_db \<Rightarrow> ident \<Rightarrow> ident \<Rightarrow> jsstr \<Rightarrow> int \<Rightarrow> int \<Rightarrow> jsstr \<Rightarrow> jsstr \<Rightarrow>
     session_error + (ident \<times> stored_date) \<times> auth_db" where
  "create_family env db userId devId tokenHash refreshTtl now familyUuid refreshUuid =
     bind_result (addSeconds now refreshTtl) (\<lambda>refreshExpiresAt.
     bind_result (requireUuid familyUuid) (\<lambda>familyId.
     bind_result (requireUuid refreshUuid) (\<lambda>refreshId.
     bind_result (insert_family db familyId \<lparr>fa_userId = userId, fa_deviceId = devId, fa_status = FamilyActive,
         fa_currentGeneration = 0, fa_expiresAt = refreshExpiresAt, fa_revokedAt = None\<rparr>) (\<lambda>db.
     bind_result (insert_refresh db \<lparr>rt_id = refreshId, rt_familyId = familyId, rt_generation = 0, rt_tokenHash = tokenHash,
         rt_createdAt = Some now, rt_consumedAt = None, rt_rotationId = None, rt_successorTokenHash = None,
         rt_expiresAt = refreshExpiresAt\<rparr>) (\<lambda>db. Inr ((familyId, refreshExpiresAt), db))))))"

record initial_session =
  is_accessExpiresAt :: stored_date
  is_accessToken :: jsstr
  is_familyId :: ident
  is_refreshExpiresAt :: stored_date

definition createInitialSessionInCurrentTransaction ::
    "session_env \<Rightarrow> int option \<Rightarrow> auth_db \<Rightarrow> ident \<Rightarrow> ident \<Rightarrow> jsstr \<Rightarrow> int \<Rightarrow> jsstr \<Rightarrow> jsstr \<Rightarrow> nat list \<Rightarrow> jsstr \<Rightarrow>
     session_error + initial_session \<times> auth_db" where
  "createInitialSessionInCurrentTransaction env clock db rawUserId rawDeviceId initialRefreshToken refreshTtl
       familyUuid refreshUuid tokenBytes accessUuid =
     bind_result (requireUuid rawUserId) (\<lambda>userId.
     bind_result (requireUuid rawDeviceId) (\<lambda>devId.
     case hashParsed (sv_sha env) RefreshTokenDomain initialRefreshToken of
       None \<Rightarrow> Inl INVALID_REFRESH
     | Some tokenHash \<Rightarrow>
         if \<not> validateRefreshTokenTtl refreshTtl \<or> refreshTtl < sv_accessTtlSeconds env then Inl INVALID_INPUT
         else
           bind_result (readClock clock) (\<lambda>now.
           bind_result (create_family env db userId devId tokenHash refreshTtl now familyUuid refreshUuid)
             (\<lambda>((familyId, refreshExpiresAt), db).
           bind_result (issueAccess env db familyId userId devId now refreshExpiresAt tokenBytes accessUuid)
             (\<lambda>((accessExpiresAt, accessToken), db).
               Inr (\<lparr>is_accessExpiresAt = accessExpiresAt, is_accessToken = accessToken, is_familyId = familyId,
                     is_refreshExpiresAt = refreshExpiresAt\<rparr>, db))))))"

definition createInitialFamilyFromHashInCurrentTransaction ::
    "session_env \<Rightarrow> int option \<Rightarrow> auth_db \<Rightarrow> ident \<Rightarrow> ident \<Rightarrow> jsstr \<Rightarrow> int \<Rightarrow> jsstr \<Rightarrow> jsstr \<Rightarrow>
     session_error + (ident \<times> stored_date) \<times> auth_db" where
  "createInitialFamilyFromHashInCurrentTransaction env clock db rawUserId rawDeviceId refreshTokenHash refreshTtl
       familyUuid refreshUuid =
     bind_result (requireUuid rawUserId) (\<lambda>userId.
     bind_result (requireUuid rawDeviceId) (\<lambda>devId.
       if \<not> sha256_hex refreshTokenHash then Inl INVALID_REFRESH
       else if \<not> validateRefreshTokenTtl refreshTtl \<or> refreshTtl < sv_accessTtlSeconds env then Inl INVALID_INPUT
       else
         bind_result (readClock clock) (\<lambda>now.
           create_family env db userId devId refreshTokenHash refreshTtl now familyUuid refreshUuid)))"

section \<open>Lookups\<close>

record auth_session =
  se_deviceId :: ident
  se_expiresAt :: stored_date
  se_familyId :: ident
  se_userId :: ident

definition lookupAccess :: "session_env \<Rightarrow> int option \<Rightarrow> auth_db \<Rightarrow> jsstr \<Rightarrow> session_error + auth_session option" where
  "lookupAccess env clock db rawAccessToken =
     (case hashParsed (sv_sha env) AccessTokenDomain rawAccessToken of
        None \<Rightarrow> Inr None
      | Some tokenHash \<Rightarrow>
          bind_result (readClock clock) (\<lambda>now.
          case access_join db tokenHash of
            None \<Rightarrow> Inr None
          | Some (a, f, u, d) \<Rightarrow>
              bind_result (requireStoredDate (at_expiresAt a)) (\<lambda>accessExpiry.
              bind_result (requireStoredDate (fa_expiresAt f)) (\<lambda>familyExpiry.
                if at_revokedAt a \<noteq> None \<or> fa_status f \<noteq> FamilyActive \<or> us_status u \<noteq> UserActive \<or>
                   dv_status d \<noteq> DeviceApproved \<or> accessExpiry \<le> now \<or> familyExpiry \<le> now
                then Inr None
                else
                  bind_result (requireStoredUuid (at_deviceId a)) (\<lambda>devId.
                  bind_result (requireStoredUuid (at_familyId a)) (\<lambda>familyId.
                  bind_result (requireStoredUuid (at_userId a)) (\<lambda>userId.
                    Inr (Some \<lparr>se_deviceId = devId, se_expiresAt = at_expiresAt a, se_familyId = familyId,
                               se_userId = userId\<rparr>))))))))"

definition lookupRefreshContext ::
    "session_env \<Rightarrow> int option \<Rightarrow> auth_db \<Rightarrow> jsstr \<Rightarrow> session_error + (ident \<times> ident \<times> ident) option" where
  "lookupRefreshContext env clock db rawRefreshToken =
     (case hashParsed (sv_sha env) RefreshTokenDomain rawRefreshToken of
        None \<Rightarrow> Inr None
      | Some tokenHash \<Rightarrow>
          bind_result (readClock clock) (\<lambda>now.
          case refresh_join db tokenHash of
            None \<Rightarrow> Inr None
          | Some (r, f, u, d) \<Rightarrow>
              if rt_consumedAt r \<noteq> None then Inr None
              else
                bind_result (requireStoredDate (rt_expiresAt r)) (\<lambda>refreshExpiry.
                if refreshExpiry \<le> now then Inr None
                else
                  bind_result (requireStoredDate (fa_expiresAt f)) (\<lambda>familyExpiry.
                  if familyExpiry \<le> now \<or> fa_status f \<noteq> FamilyActive \<or> us_status u \<noteq> UserActive \<or> dv_status d \<noteq> DeviceApproved
                  then Inr None
                  else
                    bind_result (requireGeneration (rt_generation r)) (\<lambda>generation.
                    bind_result (requireGeneration (fa_currentGeneration f)) (\<lambda>currentGeneration.
                    if generation \<noteq> currentGeneration then Inr None
                    else
                      bind_result (requireStoredUuid (fa_deviceId f)) (\<lambda>devId.
                      bind_result (requireStoredUuid (rt_familyId r)) (\<lambda>familyId.
                      bind_result (requireStoredUuid (fa_userId f)) (\<lambda>userId.
                        Inr (Some (devId, familyId, userId)))))))))))"

definition lookupRefreshFamilyId :: "session_env \<Rightarrow> auth_db \<Rightarrow> jsstr \<Rightarrow> ident option" where
  "lookupRefreshFamilyId env db rawRefreshToken =
     (case hashParsed (sv_sha env) RefreshTokenDomain rawRefreshToken of
        None \<Rightarrow> None
      | Some tokenHash \<Rightarrow> map_option rt_familyId (find (\<lambda>r. rt_tokenHash r = tokenHash) (au_refresh db)))"

section \<open>Rotation\<close>

record prepared_rotation =
  pp_currentTokenHash :: jsstr
  pp_rotationId :: jsstr
  pp_successorTokenHash :: jsstr

definition prepareRotation :: "session_env \<Rightarrow> jsstr \<Rightarrow> jsstr \<Rightarrow> jsstr \<Rightarrow> session_error + prepared_rotation" where
  "prepareRotation env currentRefreshToken rotationId successorRefreshToken =
     (case parseToken RefreshTokenDomain currentRefreshToken of
        None \<Rightarrow> Inl INVALID_REFRESH
      | Some current \<Rightarrow>
          (case (parseToken RefreshTokenDomain successorRefreshToken, parseToken RefreshRotationIdDomain rotationId) of
             (Some successor, Some rotation) \<Rightarrow>
               if current = successor then Inl INVALID_INPUT
               else
                 (case (hashParsed (sv_sha env) RefreshTokenDomain current, hashParsed (sv_sha env) RefreshTokenDomain successor) of
                    (Some h, Some h') \<Rightarrow> Inr \<lparr>pp_currentTokenHash = h, pp_rotationId = rotation, pp_successorTokenHash = h'\<rparr>
                  | _ \<Rightarrow> Inl SessionToken)
           | _ \<Rightarrow> Inl INVALID_INPUT))"

definition successorExists :: "auth_db \<Rightarrow> ident \<Rightarrow> nat \<Rightarrow> jsstr \<Rightarrow> bool" where
  "successorExists db familyId generation tokenHash \<longleftrightarrow>
     list_ex (\<lambda>r. rt_familyId r = familyId \<and> rt_generation r = generation \<and> rt_tokenHash r = tokenHash) (au_refresh db)"

definition markReuse :: "ident \<Rightarrow> int \<Rightarrow> auth_db \<Rightarrow> auth_db" where
  "markReuse familyId now db =
     revoke_access (\<lambda>a. at_familyId a = familyId) now
       (update_families (\<lambda>i _. i = familyId)
          (\<lambda>f. f\<lparr>fa_status := FamilyReuseDetected, fa_revokedAt := stamp_once (fa_revokedAt f) now\<rparr>) db)"

definition familyWindowSeconds :: "auth_db \<Rightarrow> ident \<Rightarrow> session_error + int" where
  "familyWindowSeconds db familyId =
     (case find (\<lambda>r. rt_familyId r = familyId \<and> rt_generation r = 0) (au_refresh db) of
        None \<Rightarrow> Inl SESSION_INTEGRITY
      | Some r \<Rightarrow>
          bind_result (requireStoredDate (rt_expiresAt r)) (\<lambda>expires.
          bind_result (requireStoredDate (rt_createdAt r)) (\<lambda>created.
            (let seconds = (expires - created) div 1000
             in if seconds \<le> 0 then Inl SESSION_INTEGRITY else Inr (min seconds REFRESH_TOKEN_MAX_TTL_SECONDS)))))"

record rotation_result =
  rr_accessExpiresAt :: stored_date
  rr_accessToken :: jsstr
  rr_familyId :: ident
  rr_generation :: nat
  rr_wasRetry :: bool

datatype rotation_outcome = Reuse | Rotated rotation_result

definition exactRetry :: "auth_db \<Rightarrow> prepared_rotation \<Rightarrow> refresh_row \<Rightarrow> nat \<Rightarrow> session_error + bool" where
  "exactRetry db prepared r currentGeneration =
     (if rt_rotationId r \<noteq> Some (pp_rotationId prepared) then Inr False
      else
        (case rt_successorTokenHash r of
           None \<Rightarrow> Inr False
         | Some stored \<Rightarrow>
             (case tokenHashesEqual stored (pp_successorTokenHash prepared) of
                None \<Rightarrow> Inl SessionToken
              | Some equal \<Rightarrow>
                  Inr (equal \<and> currentGeneration = rt_generation r + 1 \<and>
                       successorExists db (rt_familyId r) (rt_generation r + 1) (pp_successorTokenHash prepared)))))"

text \<open>The writes of a first rotation: consume the token, add its successor, advance the family.\<close>

definition consume_refresh :: "prepared_rotation \<Rightarrow> int \<Rightarrow> refresh_row \<Rightarrow> refresh_row" where
  "consume_refresh prepared now r = r\<lparr>rt_consumedAt := Some (Some now), rt_rotationId := Some (pp_rotationId prepared),
     rt_successorTokenHash := Some (pp_successorTokenHash prepared)\<rparr>"

definition advance_family ::
    "session_env \<Rightarrow> auth_db \<Rightarrow> int \<Rightarrow> refresh_row \<Rightarrow> family_row \<Rightarrow> stored_date \<Rightarrow> nat list \<Rightarrow> jsstr \<Rightarrow>
     session_error + rotation_outcome \<times> auth_db" where
  "advance_family env db now r f familyExpiresAt tokenBytes accessUuid =
     (let familyId = rt_familyId r; nextGeneration = rt_generation r + 1;
          advance = (\<lambda>i x. i = familyId \<and> fa_status x = FamilyActive \<and> fa_currentGeneration x = rt_generation r)
      in if length (filter (\<lambda>(i, x). advance i x) (au_families db)) \<noteq> 1 then Inl SESSION_INTEGRITY
         else
           bind_result (issueAccess env (update_families advance
                (\<lambda>x. x\<lparr>fa_currentGeneration := nextGeneration, fa_expiresAt := familyExpiresAt\<rparr>) db)
                familyId (fa_userId f) (fa_deviceId f) now familyExpiresAt tokenBytes accessUuid)
             (\<lambda>((accessExpiresAt, accessToken), db').
                Inr (Rotated \<lparr>rr_accessExpiresAt = accessExpiresAt, rr_accessToken = accessToken,
                  rr_familyId = familyId, rr_generation = nextGeneration, rr_wasRetry = False\<rparr>, db')))"

definition rotate_first ::
    "session_env \<Rightarrow> auth_db \<Rightarrow> prepared_rotation \<Rightarrow> int \<Rightarrow> refresh_row \<Rightarrow> family_row \<Rightarrow> jsstr \<Rightarrow> nat list \<Rightarrow> jsstr \<Rightarrow>
     session_error + rotation_outcome \<times> auth_db" where
  "rotate_first env db prepared now r f refreshUuid tokenBytes accessUuid =
     (let generation = rt_generation r; familyId = rt_familyId r;
          hit = (\<lambda>x. rt_id x = rt_id r \<and> rt_consumedAt x = None);
          db1 = db\<lparr>au_refresh := map (\<lambda>x. if hit x then consume_refresh prepared now x else x) (au_refresh db)\<rparr>;
          nextGeneration = generation + 1
      in if length (filter hit (au_refresh db)) \<noteq> 1 \<or> int nextGeneration > MAX_SAFE_INTEGER then Inl SESSION_INTEGRITY
         else
           bind_result (familyWindowSeconds db1 familyId) (\<lambda>window.
           bind_result (addSeconds now window) (\<lambda>slidExpiresAt.
           bind_result (requireStoredDate slidExpiresAt) (\<lambda>slidMs.
           bind_result (requireStoredDate (fa_expiresAt f)) (\<lambda>oldMs.
             (let familyExpiresAt = (if slidMs > oldMs then slidExpiresAt else fa_expiresAt f)
              in bind_result (requireUuid refreshUuid) (\<lambda>refreshId.
                 bind_result (insert_refresh db1 \<lparr>rt_id = refreshId, rt_familyId = familyId, rt_generation = nextGeneration,
                     rt_tokenHash = pp_successorTokenHash prepared, rt_createdAt = Some now, rt_consumedAt = None,
                     rt_rotationId = None, rt_successorTokenHash = None, rt_expiresAt = familyExpiresAt\<rparr>)
                   (\<lambda>db2. advance_family env db2 now r f familyExpiresAt tokenBytes accessUuid))))))))"

definition rotateInTransaction ::
    "session_env \<Rightarrow> auth_db \<Rightarrow> prepared_rotation \<Rightarrow> int \<Rightarrow> jsstr \<Rightarrow> nat list \<Rightarrow> jsstr \<Rightarrow>
     session_error + rotation_outcome \<times> auth_db" where
  "rotateInTransaction env db prepared now refreshUuid tokenBytes accessUuid =
     (case refresh_join db (pp_currentTokenHash prepared) of
        None \<Rightarrow> Inl INVALID_REFRESH
      | Some (r, f, u, d) \<Rightarrow>
          bind_result (if rt_consumedAt r = None
                       then bind_result (requireStoredDate (rt_expiresAt r)) (\<lambda>e. Inr (e \<le> now)) else Inr False) (\<lambda>expired.
          if expired then Inl INVALID_REFRESH
          else
            bind_result (requireStoredDate (fa_expiresAt f)) (\<lambda>familyExpiry.
            if familyExpiry \<le> now then Inl INVALID_REFRESH
            else if fa_status f \<noteq> FamilyActive \<or> us_status u \<noteq> UserActive \<or> dv_status d \<noteq> DeviceApproved
            then Inl SESSION_REVOKED
            else
              bind_result (requireGeneration (rt_generation r)) (\<lambda>generation.
              bind_result (requireGeneration (fa_currentGeneration f)) (\<lambda>currentGeneration.
              bind_result (requireStoredUuid (rt_familyId r)) (\<lambda>familyId.
              bind_result (requireStoredUuid (fa_userId f)) (\<lambda>userId.
              bind_result (requireStoredUuid (fa_deviceId f)) (\<lambda>devId.
                if rt_consumedAt r \<noteq> None
                then
                  bind_result (exactRetry db prepared r currentGeneration) (\<lambda>retry.
                  if \<not> retry then Inr (Reuse, markReuse familyId now db)
                  else
                    bind_result (issueAccess env db familyId userId devId now (fa_expiresAt f) tokenBytes accessUuid)
                      (\<lambda>((accessExpiresAt, accessToken), db').
                         Inr (Rotated \<lparr>rr_accessExpiresAt = accessExpiresAt, rr_accessToken = accessToken,
                           rr_familyId = familyId, rr_generation = generation + 1, rr_wasRetry = True\<rparr>, db')))
                else if generation \<noteq> currentGeneration then Inr (Reuse, markReuse familyId now db)
                else if list_ex (\<lambda>x. rt_tokenHash x = pp_successorTokenHash prepared) (au_refresh db)
                then Inr (Reuse, markReuse familyId now db)
                else rotate_first env db prepared now r f refreshUuid tokenBytes accessUuid))))))))"

text \<open>An error inside the transaction rolls it back; a detected reuse commits and is thrown after it.\<close>

definition rotateRefresh ::
    "session_env \<Rightarrow> int option \<Rightarrow> auth_db \<Rightarrow> jsstr \<Rightarrow> jsstr \<Rightarrow> jsstr \<Rightarrow> jsstr \<Rightarrow> nat list \<Rightarrow> jsstr \<Rightarrow>
     (session_error + rotation_result) \<times> auth_db" where
  "rotateRefresh env clock db currentRefreshToken rotationId successorRefreshToken refreshUuid tokenBytes accessUuid =
     (case prepareRotation env currentRefreshToken rotationId successorRefreshToken of
        Inl e \<Rightarrow> (Inl e, db)
      | Inr prepared \<Rightarrow>
          (case readClock clock of
             Inl e \<Rightarrow> (Inl e, db)
           | Inr now \<Rightarrow>
               (case rotateInTransaction env db prepared now refreshUuid tokenBytes accessUuid of
                  Inl e \<Rightarrow> (Inl e, db)
                | Inr (Reuse, db') \<Rightarrow> (Inl REFRESH_REUSE_DETECTED, db')
                | Inr (Rotated res, db') \<Rightarrow> (Inr res, db'))))"

section \<open>Revocation\<close>

definition revoke_device_rows :: "ident \<Rightarrow> int \<Rightarrow> auth_db \<Rightarrow> auth_db" where
  "revoke_device_rows devId now db =
     revoke_access (\<lambda>a. at_deviceId a = devId) now
       (update_families (\<lambda>_ f. fa_deviceId f = devId)
          (\<lambda>f. f\<lparr>fa_status := FamilyRevoked, fa_revokedAt := stamp_once (fa_revokedAt f) now\<rparr>)
          (db\<lparr>au_devices := map (\<lambda>(i, d). (i, if i = devId
             then d\<lparr>dv_status := DeviceRevoked, dv_revokedAt := stamp_once (dv_revokedAt d) now\<rparr> else d)) (au_devices db)\<rparr>))"

definition revokeDeviceInCurrentTransaction :: "int option \<Rightarrow> ident \<Rightarrow> auth_db \<Rightarrow> session_error + auth_db" where
  "revokeDeviceInCurrentTransaction clock devId db =
     bind_result (requireUuid devId) (\<lambda>_. bind_result (readClock clock) (\<lambda>now. Inr (revoke_device_rows devId now db)))"

datatype revocation_error = RevocationInvalidInput | MEMBERSHIP_NOT_FOUND | RevocationSession session_error

fun revoke_devices :: "int option \<Rightarrow> ident list \<Rightarrow> auth_db \<Rightarrow> session_error + auth_db" where
  "revoke_devices clock [] db = Inr db"
| "revoke_devices clock (i # is) db =
     bind_result (revokeDeviceInCurrentTransaction clock i db) (revoke_devices clock is)"

definition revokeMembership :: "int option \<Rightarrow> ident \<Rightarrow> auth_db \<Rightarrow> (revocation_error + ident) \<times> auth_db" where
  "revokeMembership clock membershipId db =
     (if \<not> uuid_pattern membershipId then (Inl RevocationInvalidInput, db)
      else
        (case clock of
           None \<Rightarrow> (Inl RevocationInvalidInput, db)
         | Some now \<Rightarrow>
             (case map_of (au_memberships db) membershipId of
                None \<Rightarrow> (Inl MEMBERSHIP_NOT_FOUND, db)
              | Some m \<Rightarrow>
                  (let db1 = db\<lparr>au_memberships := map (\<lambda>(i, x). (i, if i = membershipId
                         then x\<lparr>mb_status := MemberRevoked, mb_revokedAt := stamp_once (mb_revokedAt x) now\<rparr> else x))
                         (au_memberships db)\<rparr>;
                       burnt = map fst (filter (\<lambda>(i, d). dv_userId d = mb_userId m \<and>
                         (dv_vaultId d = Some (mb_vaultId m) \<or> dv_vaultId d = None)) (au_devices db1))
                   in case revoke_devices clock burnt db1 of
                        Inl e \<Rightarrow> (Inl (RevocationSession e), db)
                      | Inr db' \<Rightarrow> (Inr membershipId, db')))))"

end
