(* ===== verification/Invitations.thy ===== *)
theory Invitations
  imports Sessions
begin

text \<open>
  Invitations and the onboarding of a device (\<^verbatim>\<open>apps/server/src/auth/invitations.ts\<close>), over the tables of
  the session repository. Every method is one immediate transaction: the result is an error, which rolls
  back, or the reply with the new tables; the outcomes that commit and throw afterwards - an expired
  invitation, a wrong code, a lockout - are the operations' second stage. UUIDs, random bytes and the
  verification code's random number are arguments, in the order they are drawn.
\<close>

section \<open>Errors and input\<close>

datatype invitation_error =
    IE_APPROVAL_LOCKED | IE_INVALID_INPUT | IE_INVALID_INVITATION | IE_INVITATION_ALREADY_REDEEMED | IE_INVITATION_EXPIRED
  | IE_NO_PENDING_DEVICE | IE_NOT_AUTHORIZED | IE_PHRASE_MISMATCH nat | IE_REPOSITORY_INTEGRITY
  | IE_Sqlite | IE_Range | IE_Pin | IE_Session session_error

fun ERROR_HTTP_STATUS :: "invitation_error \<Rightarrow> nat option" where
  "ERROR_HTTP_STATUS IE_APPROVAL_LOCKED = Some 403"
| "ERROR_HTTP_STATUS IE_INVALID_INPUT = Some 400"
| "ERROR_HTTP_STATUS IE_INVALID_INVITATION = Some 404"
| "ERROR_HTTP_STATUS IE_INVITATION_ALREADY_REDEEMED = Some 409"
| "ERROR_HTTP_STATUS IE_INVITATION_EXPIRED = Some 410"
| "ERROR_HTTP_STATUS IE_NO_PENDING_DEVICE = Some 409"
| "ERROR_HTTP_STATUS IE_NOT_AUTHORIZED = Some 403"
| "ERROR_HTTP_STATUS (IE_PHRASE_MISMATCH _) = Some 403"
| "ERROR_HTTP_STATUS IE_REPOSITORY_INTEGRITY = Some 500"
| "ERROR_HTTP_STATUS _ = None"

record invitation_env = session_env +
  ie_refreshTtlSeconds :: int

definition INVITATION_TTL_SECONDS :: int where
  "INVITATION_TTL_SECONDS = 15 * 60"

definition PENDING_APPROVAL_TTL_SECONDS :: int where
  "PENDING_APPROVAL_TTL_SECONDS = 60 * 60"

definition MAX_DISPLAY_NAME_LENGTH :: nat where
  "MAX_DISPLAY_NAME_LENGTH = 80"

definition MAX_APPROVAL_ATTEMPTS :: nat where
  "MAX_APPROVAL_ATTEMPTS = 3"

definition DEFAULT_INTENDED_MEMBER_NAME :: jsstr where
  "DEFAULT_INTENDED_MEMBER_NAME = js ''Invited member''"

definition hasControlCharacter :: "jsstr \<Rightarrow> bool" where
  "hasControlCharacter value = list_ex (\<lambda>c. c < 32) value"

definition invite_uuid :: "jsstr \<Rightarrow> invitation_error + jsstr" where
  "invite_uuid value = (if uuid_pattern value then Inr value else Inl IE_INVALID_INPUT)"

text \<open>\<^verbatim>\<open>value !== value.trim()\<close> holds when the first or the last code unit is white space.\<close>

definition requireDisplayName :: "jsstr \<Rightarrow> invitation_error + jsstr" where
  "requireDisplayName value =
     (if length value = 0 \<or> length value > MAX_DISPLAY_NAME_LENGTH \<or> js_whitespace (hd value) \<or> js_whitespace (last value) \<or>
         hasControlCharacter value
      then Inl IE_INVALID_INPUT else Inr value)"

definition hashOptionalRejoinSecret :: "invitation_env \<Rightarrow> jsstr option \<Rightarrow> invitation_error + jsstr option" where
  "hashOptionalRejoinSecret env value =
     (case value of
        None \<Rightarrow> Inr None
      | Some raw \<Rightarrow> (case hashParsed (sv_sha env) RejoinSecretDomain raw of None \<Rightarrow> Inl IE_INVALID_INPUT | Some h \<Rightarrow> Inr (Some h)))"

definition requireRole :: "member_role option \<Rightarrow> member_role" where
  "requireRole value = (case value of None \<Rightarrow> RoleEditor | Some r \<Rightarrow> r)"

definition requireKind :: "member_kind option \<Rightarrow> member_kind" where
  "requireKind value = (case value of None \<Rightarrow> KindPerson | Some k \<Rightarrow> k)"

definition invite_clock :: "int option \<Rightarrow> invitation_error + int" where
  "invite_clock now = (case now of Some ms \<Rightarrow> Inr ms | None \<Rightarrow> Inl IE_INVALID_INPUT)"

definition invite_addSeconds :: "int \<Rightarrow> int \<Rightarrow> invitation_error + stored_date" where
  "invite_addSeconds date seconds =
     (let milliseconds = date + seconds * 1000
      in if \<bar>milliseconds\<bar> > MAX_SAFE_INTEGER then Inl IE_INVALID_INPUT
         else if \<bar>milliseconds\<bar> > MAX_DATE then Inl IE_Range
         else Inr (Some milliseconds))"

definition invite_date :: "stored_date \<Rightarrow> invitation_error + int" where
  "invite_date value = (case value of Some ms \<Rightarrow> Inr ms | None \<Rightarrow> Inl IE_REPOSITORY_INTEGRITY)"

section \<open>Lookups\<close>

definition loadInvitationByHash :: "auth_db \<Rightarrow> jsstr \<Rightarrow> invitation_error + ident \<times> invitation_row" where
  "loadInvitationByHash db tokenHash =
     (case find (\<lambda>(i, v). iv_tokenHash v = tokenHash) (au_invitations db) of
        None \<Rightarrow> Inl IE_INVALID_INVITATION | Some r \<Rightarrow> Inr r)"

definition loadInvitationById :: "auth_db \<Rightarrow> ident \<Rightarrow> invitation_error + invitation_row" where
  "loadInvitationById db invitationId =
     (case map_of (au_invitations db) invitationId of None \<Rightarrow> Inl IE_INVALID_INVITATION | Some v \<Rightarrow> Inr v)"

definition requireOwnerMembership :: "auth_db \<Rightarrow> ident \<Rightarrow> ident \<Rightarrow> invitation_error + member_row" where
  "requireOwnerMembership db membershipId vault =
     (case map_of (au_memberships db) membershipId of
        None \<Rightarrow> Inl IE_NOT_AUTHORIZED
      | Some m \<Rightarrow> if mb_status m \<noteq> MemberActive \<or> mb_role m \<noteq> RoleOwner \<or> mb_vaultId m \<noteq> vault then Inl IE_NOT_AUTHORIZED else Inr m)"

definition requireInviterDevice :: "auth_db \<Rightarrow> ident \<Rightarrow> ident \<Rightarrow> invitation_error + unit" where
  "requireInviterDevice db inviterDeviceId ownerUserId =
     (case map_of (au_devices db) inviterDeviceId of
        None \<Rightarrow> Inl IE_NOT_AUTHORIZED
      | Some d \<Rightarrow> if dv_status d \<noteq> DeviceApproved \<or> dv_userId d \<noteq> ownerUserId then Inl IE_NOT_AUTHORIZED else Inr ())"

section \<open>Statements\<close>

definition insert_invitation :: "auth_db \<Rightarrow> ident \<Rightarrow> invitation_row \<Rightarrow> invitation_error + auth_db" where
  "insert_invitation db i row =
     (if map_of (au_invitations db) i \<noteq> None \<or> map_of (au_vaults db) (iv_vaultId row) = None \<or>
         map_of (au_memberships db) (iv_createdByMembershipId row) = None \<or> map_of (au_devices db) (iv_inviterDeviceId row) = None \<or>
         list_ex (\<lambda>(_, v). iv_tokenHash v = iv_tokenHash row) (au_invitations db) \<or> length (iv_tokenHash row) \<noteq> 64 \<or>
         iv_verificationSecret row = [] then Inl IE_Sqlite
      else Inr (db\<lparr>au_invitations := au_invitations db @ [(i, row)]\<rparr>))"

definition insert_user :: "auth_db \<Rightarrow> ident \<Rightarrow> user_row \<Rightarrow> invitation_error + auth_db" where
  "insert_user db i row =
     (if map_of (au_users db) i \<noteq> None \<or> i = [] \<or> us_displayName row = [] then Inl IE_Sqlite
      else Inr (db\<lparr>au_users := au_users db @ [(i, row)]\<rparr>))"

definition insert_device :: "auth_db \<Rightarrow> ident \<Rightarrow> device_row \<Rightarrow> invitation_error + auth_db" where
  "insert_device db i row =
     (if map_of (au_devices db) i \<noteq> None \<or> map_of (au_users db) (dv_userId row) = None \<or> dv_displayName row = [] then Inl IE_Sqlite
      else Inr (db\<lparr>au_devices := au_devices db @ [(i, row)]\<rparr>))"

definition insert_member :: "auth_db \<Rightarrow> ident \<Rightarrow> member_row \<Rightarrow> invitation_error + auth_db" where
  "insert_member db i row =
     (if map_of (au_memberships db) i \<noteq> None \<or> map_of (au_users db) (mb_userId row) = None \<or>
         map_of (au_vaults db) (mb_vaultId row) = None \<or>
         list_ex (\<lambda>(_, m). mb_vaultId m = mb_vaultId row \<and> mb_userId m = mb_userId row) (au_memberships db) then Inl IE_Sqlite
      else Inr (db\<lparr>au_memberships := au_memberships db @ [(i, row)]\<rparr>))"

definition update_invitation :: "(ident \<Rightarrow> invitation_row \<Rightarrow> bool) \<Rightarrow> (invitation_row \<Rightarrow> invitation_row) \<Rightarrow> auth_db \<Rightarrow> auth_db" where
  "update_invitation p f db = db\<lparr>au_invitations := map (\<lambda>(i, v). (i, if p i v then f v else v)) (au_invitations db)\<rparr>"

definition recordApprovalAttempts :: "ident \<Rightarrow> nat \<Rightarrow> auth_db \<Rightarrow> auth_db" where
  "recordApprovalAttempts invitationId attempts = update_invitation (\<lambda>i _. i = invitationId) (\<lambda>v. v\<lparr>iv_approvalAttempts := attempts\<rparr>)"

definition burnInvitation :: "ident \<Rightarrow> int \<Rightarrow> auth_db \<Rightarrow> auth_db" where
  "burnInvitation invitationId now =
     update_invitation (\<lambda>i v. i = invitationId \<and> iv_consumedAt v = None) (\<lambda>v. v\<lparr>iv_consumedAt := Some (Some now)\<rparr>)"

text \<open>
  \<^verbatim>\<open>DELETE FROM users\<close> with its foreign keys: devices, memberships, families, tokens and grants of the user
  go with it, invitations keep their row and lose the reference, and a row that must not lose its parent
  refuses the statement.
\<close>

definition deletePendingUser :: "ident \<Rightarrow> auth_db \<Rightarrow> invitation_error + auth_db" where
  "deletePendingUser userId db =
     (let devs = map fst (filter (\<lambda>(_, d). dv_userId d = userId) (au_devices db));
          mems = map fst (filter (\<lambda>(_, m). mb_userId m = userId) (au_memberships db));
          fams = map fst (filter (\<lambda>(_, f). fa_userId f = userId \<or> fa_deviceId f \<in> set devs) (au_families db))
      in if map_of (au_users db) userId = None then Inr db
         else if list_ex (\<lambda>(_, v). iv_createdByMembershipId v \<in> set mems \<or> iv_inviterDeviceId v \<in> set devs) (au_invitations db) \<or>
                 list_ex (\<lambda>(_, g). gr_createdByMembershipId g \<in> set mems) (au_grants db) \<or>
                 list_ex (\<lambda>x. x \<in> set devs \<or> x \<in> set mems) (au_pinned db) then Inl IE_Sqlite
         else Inr (db\<lparr>
           au_users := filter (\<lambda>(i, _). i \<noteq> userId) (au_users db),
           au_devices := filter (\<lambda>(_, d). dv_userId d \<noteq> userId) (au_devices db),
           au_memberships := filter (\<lambda>(_, m). mb_userId m \<noteq> userId) (au_memberships db),
           au_families := filter (\<lambda>(i, _). i \<notin> set fams) (au_families db),
           au_refresh := filter (\<lambda>r. rt_familyId r \<notin> set fams) (au_refresh db),
           au_access := filter (\<lambda>a. at_familyId a \<notin> set fams \<and> at_userId a \<noteq> userId \<and> at_deviceId a \<notin> set devs) (au_access db),
           au_invitations := map (\<lambda>(i, v). (i, v\<lparr>
             iv_consumedByUserId := (if iv_consumedByUserId v = Some userId then None else iv_consumedByUserId v),
             iv_pendingDeviceId := (case iv_pendingDeviceId v of
                Some d \<Rightarrow> if d \<in> set devs then None else Some d | None \<Rightarrow> None)\<rparr>)) (au_invitations db),
           au_grants := filter (\<lambda>(_, g). gr_membershipId g \<notin> set mems \<and> gr_deviceId g \<notin> set devs) (au_grants db)\<rparr>))"

section \<open>Operations\<close>

record create_invitation_input =
  ci_vaultId :: jsstr
  ci_createdByMembershipId :: jsstr
  ci_inviterDeviceId :: jsstr
  ci_intendedRole :: "member_role option"
  ci_intendedKind :: "member_kind option"
  ci_intendedMemberDisplayName :: "jsstr option"

record create_invitation_result =
  cr_invitationId :: ident
  cr_invitationToken :: jsstr
  cr_expiresAt :: stored_date
  cr_intendedMemberId :: ident
  cr_intendedMemberDisplayName :: jsstr

definition createInvitation ::
    "invitation_env \<Rightarrow> int option \<Rightarrow> nat list \<Rightarrow> nat \<Rightarrow> jsstr \<Rightarrow> jsstr \<Rightarrow> create_invitation_input \<Rightarrow> auth_db \<Rightarrow>
     invitation_error + create_invitation_result \<times> auth_db" where
  "createInvitation env clock tokenBytes pin memberUuid invitationUuid input db =
     bind_result (invite_uuid (ci_vaultId input)) (\<lambda>vault.
     bind_result (invite_uuid (ci_createdByMembershipId input)) (\<lambda>membershipId.
     bind_result (invite_uuid (ci_inviterDeviceId input)) (\<lambda>inviterDeviceId.
     bind_result (requireDisplayName (case ci_intendedMemberDisplayName input of None \<Rightarrow> DEFAULT_INTENDED_MEMBER_NAME | Some n \<Rightarrow> n)) (\<lambda>name.
     bind_result (invite_clock clock) (\<lambda>now.
     bind_result (invite_addSeconds now INVITATION_TTL_SECONDS) (\<lambda>expiresAt.
     bind_result (invite_uuid memberUuid) (\<lambda>intendedMemberId.
     bind_result (requireOwnerMembership db membershipId vault) (\<lambda>membership.
     bind_result (requireInviterDevice db inviterDeviceId (mb_userId membership)) (\<lambda>_.
     bind_result (invite_uuid invitationUuid) (\<lambda>invitationId.
       (let invitationToken = generateToken InvitationTokenDomain tokenBytes
        in bind_result (insert_invitation db invitationId
             \<lparr>iv_vaultId = vault, iv_createdByMembershipId = membershipId, iv_inviterDeviceId = inviterDeviceId,
              iv_tokenHash = sv_sha env invitationToken, iv_verificationSecret = generateVerificationPin pin,
              iv_intendedRole = requireRole (ci_intendedRole input), iv_expiresAt = expiresAt, iv_createdAt = Some now,
              iv_consumedAt = None, iv_consumedByUserId = None, iv_pendingDeviceId = None, iv_revokedAt = None,
              iv_intendedMemberDisplayName = Some name, iv_intendedMemberId = Some intendedMemberId,
              iv_pendingCredentialHash = None, iv_pendingRefreshTokenHash = None, iv_approvalAttempts = 0,
              iv_intendedKind = requireKind (ci_intendedKind input)\<rparr>) (\<lambda>db'.
           Inr (\<lparr>cr_invitationId = invitationId, cr_invitationToken = invitationToken, cr_expiresAt = expiresAt,
                 cr_intendedMemberId = intendedMemberId, cr_intendedMemberDisplayName = name\<rparr>, db')))))))))))))"

definition rejectPendingDevice :: "ident \<Rightarrow> ident \<Rightarrow> auth_db \<Rightarrow> invitation_error + auth_db" where
  "rejectPendingDevice rawInvitationId rawApproverId db =
     bind_result (invite_uuid rawInvitationId) (\<lambda>invitationId.
     bind_result (invite_uuid rawApproverId) (\<lambda>approverId.
     bind_result (loadInvitationById db invitationId) (\<lambda>invitation.
     bind_result (requireOwnerMembership db approverId (iv_vaultId invitation)) (\<lambda>_.
       case (iv_pendingDeviceId invitation, iv_consumedByUserId invitation) of
         (Some _, Some userId) \<Rightarrow> deletePendingUser userId db
       | _ \<Rightarrow> Inl IE_NO_PENDING_DEVICE))))"

record pending_approval =
  pa_invitationId :: ident
  pa_pendingDeviceId :: ident
  pa_deviceDisplayName :: jsstr
  pa_expiresAt :: stored_date
  pa_intendedMemberDisplayName :: jsstr
  pa_intendedRole :: member_role
  pa_intendedKind :: member_kind

text \<open>
  The rows of the join that the listing returns, before they are sorted by creation and id; \<open>order\<close> is the
  comparison of the stored texts.
\<close>

definition pending_rows :: "ident \<Rightarrow> auth_db \<Rightarrow> (ident \<times> invitation_row \<times> device_row) list" where
  "pending_rows vault db =
     concat (map (\<lambda>(i, v). case iv_pendingDeviceId v of
         Some d \<Rightarrow> (case map_of (au_devices db) d of
             Some dev \<Rightarrow> if iv_vaultId v = vault \<and> iv_consumedAt v \<noteq> None \<and> iv_revokedAt v = None \<and> dv_status dev = DevicePending
               then [(i, v, dev)] else []
           | None \<Rightarrow> [])
       | None \<Rightarrow> []) (au_invitations db))"

fun pending_results :: "(ident \<times> invitation_row \<times> device_row) list \<Rightarrow> invitation_error + pending_approval list" where
  "pending_results [] = Inr []"
| "pending_results ((i, v, d) # rows) =
     bind_result (requireDisplayName (dv_displayName d)) (\<lambda>deviceName.
     bind_result (case iv_intendedMemberDisplayName v of None \<Rightarrow> Inl IE_INVALID_INPUT | Some n \<Rightarrow> requireDisplayName n) (\<lambda>memberName.
     bind_result (invite_uuid i) (\<lambda>invitationId.
     bind_result (case iv_pendingDeviceId v of None \<Rightarrow> Inl IE_INVALID_INPUT | Some p \<Rightarrow> invite_uuid p) (\<lambda>pendingDeviceId.
     bind_result (pending_results rows) (\<lambda>rest.
       Inr (\<lparr>pa_invitationId = invitationId, pa_pendingDeviceId = pendingDeviceId, pa_deviceDisplayName = deviceName,
             pa_expiresAt = iv_expiresAt v, pa_intendedMemberDisplayName = memberName, pa_intendedRole = iv_intendedRole v,
             pa_intendedKind = iv_intendedKind v\<rparr> # rest))))))"

definition listPendingApprovals ::
    "((ident \<times> invitation_row \<times> device_row) list \<Rightarrow> (ident \<times> invitation_row \<times> device_row) list) \<Rightarrow> ident \<Rightarrow> ident \<Rightarrow> auth_db \<Rightarrow>
     invitation_error + pending_approval list" where
  "listPendingApprovals order rawVaultId rawApproverId db =
     bind_result (invite_uuid rawVaultId) (\<lambda>vault.
     bind_result (invite_uuid rawApproverId) (\<lambda>approverId.
     bind_result (requireOwnerMembership db approverId vault) (\<lambda>_.
       pending_results (order (pending_rows vault db)))))"

record invitation_review =
  vr_expiresAt :: stored_date
  vr_intendedMemberDisplayName :: jsstr
  vr_inviterDisplayName :: jsstr
  vr_memberId :: ident
  vr_vaultId :: ident
  vr_vaultName :: jsstr

definition reviewInvitation :: "invitation_env \<Rightarrow> int option \<Rightarrow> jsstr \<Rightarrow> auth_db \<Rightarrow> invitation_error + invitation_review" where
  "reviewInvitation env clock rawInvitationToken db =
     (case hashParsed (sv_sha env) InvitationTokenDomain rawInvitationToken of
        None \<Rightarrow> Inl IE_INVALID_INPUT
      | Some tokenHash \<Rightarrow>
          bind_result (invite_clock clock) (\<lambda>now.
          bind_result (loadInvitationByHash db tokenHash) (\<lambda>(_, v).
          if iv_consumedAt v \<noteq> None then Inl IE_INVITATION_ALREADY_REDEEMED
          else
            bind_result (invite_date (iv_expiresAt v)) (\<lambda>expiry.
            if expiry \<le> now then Inl IE_INVITATION_EXPIRED
            else
              (case (iv_intendedMemberId v, iv_intendedMemberDisplayName v) of
                 (Some member, Some name) \<Rightarrow>
                   (case (map_of (au_vaults db) (iv_vaultId v),
                          Option.bind (map_of (au_devices db) (iv_inviterDeviceId v)) (\<lambda>d. map_of (au_users db) (dv_userId d))) of
                      (Some (vaultName, _), Some inviter) \<Rightarrow>
                        Inr \<lparr>vr_expiresAt = iv_expiresAt v, vr_intendedMemberDisplayName = name,
                          vr_inviterDisplayName = us_displayName inviter, vr_memberId = member, vr_vaultId = iv_vaultId v,
                          vr_vaultName = vaultName\<rparr>
                    | _ \<Rightarrow> Inl IE_REPOSITORY_INTEGRITY)
               | _ \<Rightarrow> Inl IE_REPOSITORY_INTEGRITY)))))"

text \<open>The statements of a redemption: the user and the pending device are created and the invitation is consumed.\<close>

record redeem_input =
  ri_invitationToken :: jsstr
  ri_deviceLabel :: jsstr
  ri_initialRefreshToken :: jsstr
  ri_redemptionId :: jsstr
  ri_rejoinSecret :: "jsstr option"

record redeem_result =
  dr_pendingCredential :: jsstr
  dr_pendingDeviceId :: ident
  dr_verificationPhrase :: jsstr

definition consume_invitation :: "int \<Rightarrow> ident \<Rightarrow> ident \<Rightarrow> jsstr \<Rightarrow> jsstr \<Rightarrow> invitation_row \<Rightarrow> invitation_row" where
  "consume_invitation now userId devId credentialHash refreshTokenHash v =
     v\<lparr>iv_consumedAt := Some (Some now), iv_consumedByUserId := Some userId, iv_pendingDeviceId := Some devId,
       iv_pendingCredentialHash := Some credentialHash, iv_pendingRefreshTokenHash := Some refreshTokenHash\<rparr>"

definition redeem_rows ::
    "invitation_env \<Rightarrow> int \<Rightarrow> jsstr \<Rightarrow> jsstr \<Rightarrow> jsstr option \<Rightarrow> jsstr \<Rightarrow> jsstr \<Rightarrow> ident \<Rightarrow> invitation_row \<Rightarrow> ident \<Rightarrow> jsstr \<Rightarrow> auth_db \<Rightarrow>
     invitation_error + (ident \<times> jsstr) \<times> auth_db" where
  "redeem_rows env now credentialHash refreshTokenHash rejoinSecretHash deviceUuid deviceName invitationId v userId userName db =
     bind_result (invite_uuid deviceUuid) (\<lambda>devId.
     bind_result (insert_user db userId \<lparr>us_displayName = userName, us_status = UserActive\<rparr>) (\<lambda>db1.
     bind_result (insert_device db1 devId \<lparr>dv_userId = userId, dv_displayName = deviceName, dv_status = DevicePending, dv_approvedAt = None,
        dv_revokedAt = None, dv_rejoinSecretHash = rejoinSecretHash, dv_vaultId = Some (iv_vaultId v)\<rparr>) (\<lambda>db2.
       (let hit = (\<lambda>i x. i = invitationId \<and> iv_consumedAt x = None)
        in if length (filter (\<lambda>(i, x). hit i x) (au_invitations db2)) \<noteq> 1 then Inl IE_INVITATION_ALREADY_REDEEMED
           else
             (case parseVerificationPin (iv_verificationSecret v) of
                None \<Rightarrow> Inl IE_Pin
              | Some phrase \<Rightarrow>
                  Inr ((devId, phrase), update_invitation hit (consume_invitation now userId devId credentialHash refreshTokenHash) db2))))))"

text \<open>The transaction; \<open>Inr (None, _)\<close> is the expired invitation, burnt and committed.\<close>

definition redeem_transaction ::
    "invitation_env \<Rightarrow> int \<Rightarrow> jsstr \<Rightarrow> jsstr \<Rightarrow> jsstr \<Rightarrow> jsstr option \<Rightarrow> jsstr \<Rightarrow> jsstr \<Rightarrow> auth_db \<Rightarrow>
     invitation_error + (ident \<times> jsstr) option \<times> auth_db" where
  "redeem_transaction env now tokenHash credentialHash refreshTokenHash rejoinSecretHash deviceUuid deviceName db =
     bind_result (loadInvitationByHash db tokenHash) (\<lambda>(invitationId, v).
     if iv_consumedAt v \<noteq> None then Inl IE_INVITATION_ALREADY_REDEEMED
     else
       bind_result (invite_date (iv_expiresAt v)) (\<lambda>expiry.
       if expiry \<le> now then Inr (None, burnInvitation invitationId now db)
       else
         (case (iv_intendedMemberId v, iv_intendedMemberDisplayName v) of
            (Some userId, Some userName) \<Rightarrow>
              bind_result (redeem_rows env now credentialHash refreshTokenHash rejoinSecretHash deviceUuid deviceName
                  invitationId v userId userName db) (\<lambda>(r, db'). Inr (Some r, db'))
          | _ \<Rightarrow> Inl IE_REPOSITORY_INTEGRITY)))"

text \<open>The checks of the request, then the transaction.\<close>

definition redeem_checked ::
    "invitation_env \<Rightarrow> int option \<Rightarrow> jsstr \<Rightarrow> jsstr \<Rightarrow> redeem_input \<Rightarrow> auth_db \<Rightarrow> invitation_error + (ident \<times> jsstr) option \<times> auth_db" where
  "redeem_checked env clock pendingCredential deviceUuid input db =
     bind_result (case (hashParsed (sv_sha env) InvitationTokenDomain (ri_invitationToken input),
                        hashParsed (sv_sha env) RefreshTokenDomain (ri_initialRefreshToken input)) of
                    (Some h, Some h') \<Rightarrow> Inr (h, h') | _ \<Rightarrow> Inl IE_INVALID_INPUT) (\<lambda>(tokenHash, refreshTokenHash).
     bind_result (requireDisplayName (ri_deviceLabel input)) (\<lambda>deviceName.
     bind_result (invite_uuid (ri_redemptionId input)) (\<lambda>_.
     bind_result (hashOptionalRejoinSecret env (ri_rejoinSecret input)) (\<lambda>rejoinSecretHash.
     bind_result (invite_clock clock) (\<lambda>now.
       redeem_transaction env now tokenHash (sv_sha env pendingCredential) refreshTokenHash rejoinSecretHash deviceUuid deviceName db)))))"

definition redeemInvitationForOnboarding ::
    "invitation_env \<Rightarrow> int option \<Rightarrow> nat list \<Rightarrow> jsstr \<Rightarrow> redeem_input \<Rightarrow> auth_db \<Rightarrow> (invitation_error + redeem_result) \<times> auth_db" where
  "redeemInvitationForOnboarding env clock credentialBytes deviceUuid input db =
     (let pendingCredential = generateToken PendingDeviceCredentialDomain credentialBytes
      in case redeem_checked env clock pendingCredential deviceUuid input db of
           Inl e \<Rightarrow> (Inl e, db)
         | Inr (None, db') \<Rightarrow> (Inl IE_INVITATION_EXPIRED, db')
         | Inr (Some (devId, phrase), db') \<Rightarrow>
             (Inr \<lparr>dr_pendingCredential = pendingCredential, dr_pendingDeviceId = devId, dr_verificationPhrase = phrase\<rparr>, db'))"

datatype approval_status = ApprovalPending | ApprovalRejected | ApprovalApproved ident ident

definition getApprovalStatus :: "invitation_env \<Rightarrow> jsstr \<Rightarrow> jsstr \<Rightarrow> auth_db \<Rightarrow> invitation_error + approval_status" where
  "getApprovalStatus env pendingDeviceId rawPendingCredential db =
     bind_result (invite_uuid pendingDeviceId) (\<lambda>_.
     case hashParsed (sv_sha env) PendingDeviceCredentialDomain rawPendingCredential of
       None \<Rightarrow> Inl IE_INVALID_INPUT
     | Some credentialHash \<Rightarrow>
         (case find (\<lambda>(_, v). iv_pendingCredentialHash v = Some credentialHash) (au_invitations db) of
            None \<Rightarrow> Inl IE_INVALID_INVITATION
          | Some (_, v) \<Rightarrow>
              (case iv_pendingDeviceId v of
                 None \<Rightarrow> Inr ApprovalRejected
               | Some d \<Rightarrow>
                   if d \<noteq> pendingDeviceId then Inl IE_INVALID_INVITATION
                   else
                     (case map_of (au_devices db) pendingDeviceId of
                        None \<Rightarrow> Inr ApprovalRejected
                      | Some dev \<Rightarrow>
                          (case dv_status dev of
                             DevicePending \<Rightarrow> Inr ApprovalPending
                           | DeviceApproved \<Rightarrow>
                               (case find (\<lambda>(_, m). mb_userId m = dv_userId dev \<and> mb_vaultId m = iv_vaultId v \<and> mb_status m = MemberActive)
                                     (au_memberships db) of
                                  None \<Rightarrow> Inl IE_REPOSITORY_INTEGRITY
                                | Some (membershipId, _) \<Rightarrow> Inr (ApprovalApproved pendingDeviceId membershipId))
                           | DeviceRevoked \<Rightarrow> Inr ApprovalRejected)))))"

record approve_result =
  ar_deviceId :: ident
  ar_familyId :: ident
  ar_membershipId :: ident
  ar_userId :: ident

datatype approve_outcome = ApproveMismatch nat | ApproveLocked | ApproveOk approve_result

text \<open>A wrong code counts; the last one allowed deletes the pending user.\<close>

definition wrong_code :: "ident \<Rightarrow> invitation_row \<Rightarrow> ident \<Rightarrow> auth_db \<Rightarrow> invitation_error + approve_outcome \<times> auth_db" where
  "wrong_code invitationId v pendingUserId db =
     (let attempts = iv_approvalAttempts v + 1; db' = recordApprovalAttempts invitationId attempts db
      in if attempts \<ge> MAX_APPROVAL_ATTEMPTS then bind_result (deletePendingUser pendingUserId db') (\<lambda>db''. Inr (ApproveLocked, db''))
         else Inr (ApproveMismatch (MAX_APPROVAL_ATTEMPTS - attempts), db'))"

text \<open>An error of the session repository passes through the service.\<close>

definition session_result :: "session_error + 'a \<Rightarrow> invitation_error + 'a" where
  "session_result r = (case r of Inl e \<Rightarrow> Inl (IE_Session e) | Inr x \<Rightarrow> Inr x)"

text \<open>The right code: the device is approved, the membership created and the device's own family opened.\<close>

definition activate_device ::
    "invitation_env \<Rightarrow> int \<Rightarrow> int option \<Rightarrow> jsstr \<Rightarrow> jsstr \<Rightarrow> jsstr \<Rightarrow> ident \<Rightarrow> invitation_row \<Rightarrow> ident \<Rightarrow> ident \<Rightarrow> jsstr \<Rightarrow> auth_db \<Rightarrow>
     invitation_error + approve_outcome \<times> auth_db" where
  "activate_device env now clock memberUuid familyUuid refreshUuid invitationId v pendingDeviceId pendingUserId refreshTokenHash db =
     (let db1 = recordApprovalAttempts invitationId 0 db;
          hit = (\<lambda>i d. i = pendingDeviceId \<and> dv_status d = DevicePending);
          db2 = db1\<lparr>au_devices := map (\<lambda>(i, d). (i, if hit i d then d\<lparr>dv_status := DeviceApproved, dv_approvedAt := Some (Some now)\<rparr> else d))
                   (au_devices db1)\<rparr>
      in if length (filter (\<lambda>(i, d). hit i d) (au_devices db1)) \<noteq> 1 then Inl IE_REPOSITORY_INTEGRITY
         else
           bind_result (invite_uuid memberUuid) (\<lambda>membershipId.
           bind_result (insert_member db2 membershipId \<lparr>mb_vaultId = iv_vaultId v, mb_userId = pendingUserId, mb_role = iv_intendedRole v,
              mb_status = MemberActive, mb_kind = iv_intendedKind v, mb_revokedAt = None\<rparr>) (\<lambda>db3.
           bind_result (session_result (createInitialFamilyFromHashInCurrentTransaction (session_env.truncate env) clock db3 pendingUserId
               pendingDeviceId refreshTokenHash (ie_refreshTtlSeconds env) familyUuid refreshUuid)) (\<lambda>((familyId, _), db4).
             Inr (ApproveOk \<lparr>ar_deviceId = pendingDeviceId, ar_familyId = familyId, ar_membershipId = membershipId,
                   ar_userId = pendingUserId\<rparr>, db4)))))"

definition approve_transaction ::
    "invitation_env \<Rightarrow> int \<Rightarrow> int option \<Rightarrow> jsstr \<Rightarrow> jsstr \<Rightarrow> jsstr \<Rightarrow> ident \<Rightarrow> ident \<Rightarrow> jsstr \<Rightarrow> auth_db \<Rightarrow>
     invitation_error + approve_outcome \<times> auth_db" where
  "approve_transaction env now clock memberUuid familyUuid refreshUuid invitationId approverId suppliedPhrase db =
     bind_result (loadInvitationById db invitationId) (\<lambda>v.
     bind_result (requireOwnerMembership db approverId (iv_vaultId v)) (\<lambda>_.
     case (iv_pendingDeviceId v, iv_consumedByUserId v, iv_pendingRefreshTokenHash v) of
       (Some pendingDeviceId, Some pendingUserId, Some refreshTokenHash) \<Rightarrow>
         bind_result (case iv_consumedAt v of
                        None \<Rightarrow> Inr True
                      | Some consumed \<Rightarrow> bind_result (invite_date consumed) (\<lambda>ms. Inr (ms + PENDING_APPROVAL_TTL_SECONDS * 1000 \<le> now))) (\<lambda>stale.
         if stale then Inl IE_NO_PENDING_DEVICE
         else
           (case map_of (au_devices db) pendingDeviceId of
              None \<Rightarrow> Inl IE_NO_PENDING_DEVICE
            | Some dev \<Rightarrow>
                if dv_status dev \<noteq> DevicePending then Inl IE_NO_PENDING_DEVICE
                else
                  (case parseVerificationPin (iv_verificationSecret v) of
                     None \<Rightarrow> Inl IE_Pin
                   | Some expectedPhrase \<Rightarrow>
                       if suppliedPhrase \<noteq> expectedPhrase then wrong_code invitationId v pendingUserId db
                       else activate_device env now clock memberUuid familyUuid refreshUuid invitationId v pendingDeviceId
                              pendingUserId refreshTokenHash db)))
     | _ \<Rightarrow> Inl IE_NO_PENDING_DEVICE))"

definition approve_checked ::
    "invitation_env \<Rightarrow> int option \<Rightarrow> int option \<Rightarrow> jsstr \<Rightarrow> jsstr \<Rightarrow> jsstr \<Rightarrow> ident \<Rightarrow> ident \<Rightarrow> jsstr \<Rightarrow> auth_db \<Rightarrow>
     invitation_error + approve_outcome \<times> auth_db" where
  "approve_checked env clock clock2 memberUuid familyUuid refreshUuid rawInvitationId rawApproverId verificationPhrase db =
     bind_result (invite_uuid rawInvitationId) (\<lambda>invitationId.
     bind_result (invite_uuid rawApproverId) (\<lambda>approverId.
     bind_result (case parseVerificationPin verificationPhrase of None \<Rightarrow> Inl IE_INVALID_INPUT | Some p \<Rightarrow> Inr p) (\<lambda>suppliedPhrase.
     bind_result (invite_clock clock) (\<lambda>now.
       approve_transaction env now clock2 memberUuid familyUuid refreshUuid invitationId approverId suppliedPhrase db))))"

definition approveRedeemedDevice ::
    "invitation_env \<Rightarrow> int option \<Rightarrow> int option \<Rightarrow> jsstr \<Rightarrow> jsstr \<Rightarrow> jsstr \<Rightarrow> ident \<Rightarrow> ident \<Rightarrow> jsstr \<Rightarrow> auth_db \<Rightarrow>
     (invitation_error + approve_result) \<times> auth_db" where
  "approveRedeemedDevice env clock clock2 memberUuid familyUuid refreshUuid rawInvitationId rawApproverId verificationPhrase db =
     (case approve_checked env clock clock2 memberUuid familyUuid refreshUuid rawInvitationId rawApproverId verificationPhrase db of
        Inl e \<Rightarrow> (Inl e, db)
      | Inr (ApproveLocked, db') \<Rightarrow> (Inl IE_APPROVAL_LOCKED, db')
      | Inr (ApproveMismatch n, db') \<Rightarrow> (Inl (IE_PHRASE_MISMATCH n), db')
      | Inr (ApproveOk r, db') \<Rightarrow> (Inr r, db'))"

end
