(* ===== verification/Sessions_Inv.thy ===== *)
theory Sessions_Inv
  imports Sessions
begin

text \<open>
  The invariant of the session tables - every refresh family is one chain of generations whose last
  token alone is unconsumed - and what each operation does to the tables.
\<close>

section \<open>The invariant\<close>

definition token_ok :: "auth_db \<Rightarrow> refresh_row \<Rightarrow> bool" where
  "token_ok db r \<longleftrightarrow> sha256_hex (rt_tokenHash r) \<and>
     (\<exists>f. map_of (au_families db) (rt_familyId r) = Some f \<and> rt_generation r \<le> fa_currentGeneration f \<and>
        (rt_consumedAt r = None \<longleftrightarrow> rt_generation r = fa_currentGeneration f)) \<and>
     (rt_consumedAt r \<noteq> None \<longrightarrow> rt_rotationId r \<noteq> None \<and>
        (\<exists>s \<in> set (au_refresh db). rt_familyId s = rt_familyId r \<and> rt_generation s = rt_generation r + 1 \<and>
           rt_successorTokenHash r = Some (rt_tokenHash s)))"

definition sess_inv :: "auth_db \<Rightarrow> bool" where
  "sess_inv db \<longleftrightarrow>
     distinct (map fst (au_families db)) \<and> distinct (map rt_id (au_refresh db)) \<and>
     distinct (map rt_tokenHash (au_refresh db)) \<and>
     distinct (map (\<lambda>r. (rt_familyId r, rt_generation r)) (au_refresh db)) \<and>
     distinct (map at_tokenHash (au_access db)) \<and>
     (\<forall>r \<in> set (au_refresh db). token_ok db r) \<and>
     (\<forall>a \<in> set (au_access db). map_of (au_families db) (at_familyId a) \<noteq> None)"

lemma token_ok_cong:
  "au_families db = au_families db' \<Longrightarrow> au_refresh db = au_refresh db' \<Longrightarrow> token_ok db r = token_ok db' r"
  by (simp add: token_ok_def)

section \<open>Statements\<close>

lemma insert_family_Inr:
  "insert_family db i row = Inr db' \<longleftrightarrow>
     map_of (au_families db) i = None \<and> map_of (au_users db) (fa_userId row) \<noteq> None \<and>
     map_of (au_devices db) (fa_deviceId row) \<noteq> None \<and> db' = db\<lparr>au_families := au_families db @ [(i, row)]\<rparr>"
  by (auto simp: insert_family_def)

lemma insert_refresh_Inr:
  "insert_refresh db row = Inr db' \<longleftrightarrow>
     (\<forall>r \<in> set (au_refresh db). rt_id r \<noteq> rt_id row \<and> rt_tokenHash r \<noteq> rt_tokenHash row \<and>
        (rt_familyId r, rt_generation r) \<noteq> (rt_familyId row, rt_generation row)) \<and>
     map_of (au_families db) (rt_familyId row) \<noteq> None \<and> length (rt_tokenHash row) = 64 \<and>
     db' = db\<lparr>au_refresh := au_refresh db @ [row]\<rparr>"
  by (auto simp: insert_refresh_def list_ex_iff)

lemma insert_access_Inr:
  "insert_access db row = Inr db' \<longleftrightarrow>
     (\<forall>a \<in> set (au_access db). at_id a \<noteq> at_id row \<and> at_tokenHash a \<noteq> at_tokenHash row) \<and>
     map_of (au_families db) (at_familyId row) \<noteq> None \<and> map_of (au_users db) (at_userId row) \<noteq> None \<and>
     map_of (au_devices db) (at_deviceId row) \<noteq> None \<and> sha256_hex (at_tokenHash row) \<and>
     db' = db\<lparr>au_access := au_access db @ [row]\<rparr>"
  by (auto simp: insert_access_def list_ex_iff)

lemma addSeconds_Inr: "addSeconds now s = Inr e \<Longrightarrow> e = Some (now + s * 1000)"
  by (auto simp: addSeconds_def Let_def split: if_splits)

lemma requireStoredDate_Inr: "requireStoredDate v = Inr ms \<longleftrightarrow> v = Some ms"
  by (auto simp: requireStoredDate_def split: option.splits)

lemma issueAccess_Inr:
  assumes "issueAccess env db familyId userId devId now familyExpiresAt tokenBytes accessId = Inr ((e, tok), db')"
  obtains row ms familyMs where "db' = db\<lparr>au_access := au_access db @ [row]\<rparr>" "at_familyId row = familyId" "at_deviceId row = devId"
    "at_userId row = userId" "at_revokedAt row = None" "at_expiresAt row = e" "hashParsed (sv_sha env) AccessTokenDomain tok = Some (at_tokenHash row)"
    "\<forall>a \<in> set (au_access db). at_tokenHash a \<noteq> at_tokenHash row" "map_of (au_families db) familyId \<noteq> None"
    "e = Some ms" "familyExpiresAt = Some familyMs" "now < ms" "ms \<le> now + sv_accessTtlSeconds env * 1000" "ms \<le> familyMs"
proof -
  let ?tok = "generateToken AccessTokenDomain tokenBytes"
  obtain requested familyMs requestedMs where dates: "addSeconds now (sv_accessTtlSeconds env) = Inr requested"
      "familyExpiresAt = Some familyMs" "requested = Some requestedMs"
    and rest: "bind_result (requireStoredDate (if familyMs < requestedMs then familyExpiresAt else requested)) (\<lambda>accessMs.
               if accessMs \<le> now then Inl SESSION_REVOKED
               else
                 bind_result (requireUuid accessId) (\<lambda>rowId.
                 case hashParsed (sv_sha env) AccessTokenDomain ?tok of
                   None \<Rightarrow> Inl SessionToken
                 | Some h \<Rightarrow>
                     bind_result (insert_access db \<lparr>at_id = rowId, at_familyId = familyId, at_userId = userId,
                         at_deviceId = devId, at_tokenHash = h,
                         at_expiresAt = if familyMs < requestedMs then familyExpiresAt else requested, at_revokedAt = None\<rparr>)
                       (\<lambda>db'. Inr ((if familyMs < requestedMs then familyExpiresAt else requested, ?tok), db')))) = Inr ((e, tok), db')"
    using assms unfolding issueAccess_def Let_def by (auto simp only: bind_result_eq_Inr requireStoredDate_Inr)
  have e: "(if familyMs < requestedMs then familyExpiresAt else requested) = Some (min familyMs requestedMs)"
    using dates by auto
  from rest [unfolded e] obtain rowId h where later: "\<not> min familyMs requestedMs \<le> now"
      "hashParsed (sv_sha env) AccessTokenDomain ?tok = Some h" "e = Some (min familyMs requestedMs)" "tok = ?tok"
    and ins: "insert_access db \<lparr>at_id = rowId, at_familyId = familyId, at_userId = userId, at_deviceId = devId, at_tokenHash = h,
        at_expiresAt = Some (min familyMs requestedMs), at_revokedAt = None\<rparr> = Inr db'"
    by (auto simp: bind_result_eq_Inr requireStoredDate_Inr split: if_splits option.splits)
  show thesis
    by (rule that [OF _ _ _ _ _ _ _ _ _ later(3) dates(2)])
       (use ins later dates(3) addSeconds_Inr [OF dates(1)] in \<open>auto simp: insert_access_Inr\<close>)
qed

lemma sess_inv_access:
  assumes "sess_inv db" "\<forall>a \<in> set (au_access db). at_tokenHash a \<noteq> at_tokenHash row" "map_of (au_families db) (at_familyId row) \<noteq> None"
  shows "sess_inv (db\<lparr>au_access := au_access db @ [row]\<rparr>)"
  using assms token_ok_cong [of db "db\<lparr>au_access := au_access db @ [row]\<rparr>"] by (auto simp: sess_inv_def)

lemma map_of_append_new: "map_of xs i = None \<Longrightarrow> map_of (xs @ [(i, v)]) j = (if j = i then Some v else map_of xs j)"
  by (auto simp: map_add_def split: option.splits)

lemma create_family_Inr:
  assumes "create_family env db userId devId tokenHash ttl now fu ru = Inr ((fid, e), db')"
  obtains r where "db' = db\<lparr>au_families := au_families db @ [(fid, \<lparr>fa_userId = userId, fa_deviceId = devId, fa_status = FamilyActive,
         fa_currentGeneration = 0, fa_expiresAt = e, fa_revokedAt = None\<rparr>)], au_refresh := au_refresh db @ [r]\<rparr>"
    "map_of (au_families db) fid = None" "rt_familyId r = fid" "rt_generation r = 0" "rt_tokenHash r = tokenHash" "rt_consumedAt r = None"
    "\<forall>x \<in> set (au_refresh db). rt_id x \<noteq> rt_id r \<and> rt_tokenHash x \<noteq> rt_tokenHash r \<and>
        (rt_familyId x, rt_generation x) \<noteq> (rt_familyId r, rt_generation r)"
    "e = Some (now + ttl * 1000)" "map_of (au_users db) userId \<noteq> None" "map_of (au_devices db) devId \<noteq> None"
proof -
  obtain ri where dates: "addSeconds now ttl = Inr e"
    and ins: "insert_family db fid \<lparr>fa_userId = userId, fa_deviceId = devId, fa_status = FamilyActive,
         fa_currentGeneration = 0, fa_expiresAt = e, fa_revokedAt = None\<rparr> =
       Inr (db\<lparr>au_families := au_families db @ [(fid, \<lparr>fa_userId = userId, fa_deviceId = devId, fa_status = FamilyActive,
         fa_currentGeneration = 0, fa_expiresAt = e, fa_revokedAt = None\<rparr>)]\<rparr>)"
      "insert_refresh (db\<lparr>au_families := au_families db @ [(fid, \<lparr>fa_userId = userId, fa_deviceId = devId, fa_status = FamilyActive,
         fa_currentGeneration = 0, fa_expiresAt = e, fa_revokedAt = None\<rparr>)]\<rparr>)
        \<lparr>rt_id = ri, rt_familyId = fid, rt_generation = 0, rt_tokenHash = tokenHash,
         rt_createdAt = Some now, rt_consumedAt = None, rt_rotationId = None, rt_successorTokenHash = None,
         rt_expiresAt = e\<rparr> = Inr db'"
    using assms by (auto simp only: create_family_def bind_result_eq_Inr insert_family_Inr sum.inject prod.inject)
  show thesis
    by (rule that [of "\<lparr>rt_id = ri, rt_familyId = fid, rt_generation = 0, rt_tokenHash = tokenHash,
         rt_createdAt = Some now, rt_consumedAt = None, rt_rotationId = None, rt_successorTokenHash = None,
         rt_expiresAt = e\<rparr>"])
       (use ins addSeconds_Inr [OF dates] in \<open>simp_all add: insert_family_Inr insert_refresh_Inr\<close>)
qed

lemma create_family_inv:
  assumes inv: "sess_inv db" and hex: "sha256_hex tokenHash" and run: "create_family env db userId devId tokenHash ttl now fu ru = Inr ((fid, e), db')"
  shows "sess_inv db'"
  using run
proof (rule create_family_Inr)
  fix r
  let ?f = "\<lparr>fa_userId = userId, fa_deviceId = devId, fa_status = FamilyActive,
         fa_currentGeneration = 0, fa_expiresAt = e, fa_revokedAt = None\<rparr>"
  assume eq: "db' = db\<lparr>au_families := au_families db @ [(fid, ?f)], au_refresh := au_refresh db @ [r]\<rparr>"
    and new: "map_of (au_families db) fid = None" and r: "rt_familyId r = fid" "rt_generation r = 0" "rt_tokenHash r = tokenHash" "rt_consumedAt r = None"
    and fresh: "\<forall>x \<in> set (au_refresh db). rt_id x \<noteq> rt_id r \<and> rt_tokenHash x \<noteq> rt_tokenHash r \<and>
        (rt_familyId x, rt_generation x) \<noteq> (rt_familyId r, rt_generation r)"
  have fams: "map_of (au_families db') j = (if j = fid then Some ?f else map_of (au_families db) j)" for j
    using map_of_append_new [OF new] by (simp add: eq)
  have "token_ok db' x" if "x \<in> set (au_refresh db)" for x
  proof -
    have "rt_familyId x \<noteq> fid" using that inv new by (auto simp: sess_inv_def token_ok_def)
    moreover have "token_ok db x" using that inv by (simp add: sess_inv_def)
    ultimately show ?thesis unfolding token_ok_def fams by (auto simp: eq)
  qed
  moreover have "token_ok db' r" using r hex by (simp add: token_ok_def fams)
  moreover have "fid \<notin> fst ` set (au_families db)" using new by (simp add: map_of_eq_None_iff)
  ultimately show ?thesis using inv fresh fams unfolding sess_inv_def eq by fastforce
qed

section \<open>Marking and revoking\<close>

lemma map_of_update_families:
  "map_of (au_families (update_families p f db)) i = map_option (\<lambda>r. if p i r then f r else r) (map_of (au_families db) i)"
proof -
  have "map_of (map (\<lambda>(i, r). (i, if p i r then f r else r)) xs) i = map_option (\<lambda>r. if p i r then f r else r) (map_of xs i)" for xs
    by (induction xs) auto
  then show ?thesis by (simp add: update_families_def)
qed

lemma sess_inv_flags:
  assumes inv: "sess_inv db" and eq: "au_refresh db' = au_refresh db" "map fst (au_families db') = map fst (au_families db)"
    "\<And>i. map_option fa_currentGeneration (map_of (au_families db') i) = map_option fa_currentGeneration (map_of (au_families db) i)"
    "map at_tokenHash (au_access db') = map at_tokenHash (au_access db)"
    "map at_familyId (au_access db') = map at_familyId (au_access db)"
  shows "sess_inv db'"
proof -
  have "token_ok db' r" if r: "r \<in> set (au_refresh db)" for r
  proof -
    obtain f where f: "map_of (au_families db) (rt_familyId r) = Some f" "rt_generation r \<le> fa_currentGeneration f"
      "rt_consumedAt r = None \<longleftrightarrow> rt_generation r = fa_currentGeneration f" and ok: "token_ok db r"
      using inv r unfolding sess_inv_def token_ok_def by blast
    then obtain f' where "map_of (au_families db') (rt_familyId r) = Some f'" "fa_currentGeneration f' = fa_currentGeneration f"
      using eq(3) [of "rt_familyId r"] by auto
    then show ?thesis using f ok by (simp add: token_ok_def eq(1))
  qed
  moreover have "map_of (au_families db') (at_familyId a) \<noteq> None" if "a \<in> set (au_access db')" for a
  proof -
    have "at_familyId a \<in> set (map at_familyId (au_access db'))" using that by simp
    then obtain b where "b \<in> set (au_access db)" "at_familyId b = at_familyId a" using eq(5) by auto
    then have "map_of (au_families db) (at_familyId a) \<noteq> None" using inv unfolding sess_inv_def by metis
    then show ?thesis using eq(3) [of "at_familyId a"] by auto
  qed
  ultimately show ?thesis using inv eq(1,2,4) by (simp add: sess_inv_def)
qed

lemma revoke_access_fields [simp]:
  "au_refresh (revoke_access p now db) = au_refresh db" "au_families (revoke_access p now db) = au_families db"
  "au_users (revoke_access p now db) = au_users db" "au_devices (revoke_access p now db) = au_devices db"
  "au_memberships (revoke_access p now db) = au_memberships db"
  "map at_tokenHash (au_access (revoke_access p now db)) = map at_tokenHash (au_access db)"
  "map at_familyId (au_access (revoke_access p now db)) = map at_familyId (au_access db)"
  by (simp_all add: revoke_access_def comp_def if_distrib [of at_tokenHash] if_distrib [of at_familyId])

lemma update_families_fields [simp]:
  "au_refresh (update_families p f db) = au_refresh db" "au_access (update_families p f db) = au_access db"
  "au_users (update_families p f db) = au_users db" "au_devices (update_families p f db) = au_devices db"
  "au_memberships (update_families p f db) = au_memberships db"
  "map fst (au_families (update_families p f db)) = map fst (au_families db)"
  by (simp_all add: update_families_def comp_def split_beta)

lemma markReuse_inv: "sess_inv db \<Longrightarrow> sess_inv (markReuse i now db)"
  by (rule sess_inv_flags) (auto simp: markReuse_def map_of_update_families option.map_comp comp_def intro!: option.map_cong)

lemma revoke_device_rows_inv: "sess_inv db \<Longrightarrow> sess_inv (revoke_device_rows i now db)"
proof (rule sess_inv_flags)
  let ?db = "db\<lparr>au_devices := map (\<lambda>(j, d). (j, if j = i
             then d\<lparr>dv_status := DeviceRevoked, dv_revokedAt := stamp_once (dv_revokedAt d) now\<rparr> else d)) (au_devices db)\<rparr>"
  show "map_option fa_currentGeneration (map_of (au_families (revoke_device_rows i now db)) j) =
      map_option fa_currentGeneration (map_of (au_families db) j)" for j
    by (auto simp: revoke_device_rows_def map_of_update_families option.map_comp comp_def intro!: option.map_cong)
qed (simp_all add: revoke_device_rows_def)

section \<open>Rotation\<close>

text \<open>What the first statement of a rotation does to one row.\<close>

definition consume_if :: "prepared_rotation \<Rightarrow> int \<Rightarrow> refresh_row \<Rightarrow> refresh_row \<Rightarrow> refresh_row" where
  "consume_if prepared now r x = (if rt_id x = rt_id r \<and> rt_consumedAt x = None then consume_refresh prepared now x else x)"

lemma consume_if_fields [simp]:
  "rt_id (consume_if prepared now r x) = rt_id x" "rt_familyId (consume_if prepared now r x) = rt_familyId x"
  "rt_generation (consume_if prepared now r x) = rt_generation x" "rt_tokenHash (consume_if prepared now r x) = rt_tokenHash x"
  by (simp_all add: consume_if_def consume_refresh_def)

lemma rotate_first_Inr:
  assumes "rotate_first env db prepared now r f ru bytes au = Inr (out, db')"
  obtains n fe e tok where
    "issueAccess env (update_families (\<lambda>i x. i = rt_familyId r \<and> fa_status x = FamilyActive \<and> fa_currentGeneration x = rt_generation r)
        (\<lambda>x. x\<lparr>fa_currentGeneration := rt_generation r + 1, fa_expiresAt := fe\<rparr>)
        (db\<lparr>au_refresh := map (consume_if prepared now r) (au_refresh db) @ [n]\<rparr>)) (rt_familyId r) (fa_userId f) (fa_deviceId f) now fe bytes au = Inr ((e, tok), db')"
    "rt_familyId n = rt_familyId r" "rt_generation n = rt_generation r + 1" "rt_tokenHash n = pp_successorTokenHash prepared"
    "rt_consumedAt n = None" "\<forall>x \<in> set (au_refresh db). rt_id x \<noteq> rt_id n \<and> rt_tokenHash x \<noteq> rt_tokenHash n \<and>
        (rt_familyId x, rt_generation x) \<noteq> (rt_familyId n, rt_generation n)"
    "length (filter (\<lambda>x. rt_id x = rt_id r \<and> rt_consumedAt x = None) (au_refresh db)) = 1"
    "length (filter (\<lambda>(i, x). i = rt_familyId r \<and> fa_status x = FamilyActive \<and> fa_currentGeneration x = rt_generation r) (au_families db)) = 1"
    "out = Rotated \<lparr>rr_accessExpiresAt = e, rr_accessToken = tok, rr_familyId = rt_familyId r,
       rr_generation = rt_generation r + 1, rr_wasRetry = False\<rparr>"
proof -
  let ?hit = "\<lambda>x. rt_id x = rt_id r \<and> rt_consumedAt x = None"
  let ?advance = "\<lambda>i x. i = rt_familyId r \<and> fa_status x = FamilyActive \<and> fa_currentGeneration x = rt_generation r"
  let ?consumed = "map (consume_if prepared now r) (au_refresh db)"
  have len: "length (filter ?hit (au_refresh db)) = 1"
    using assms unfolding rotate_first_def Let_def by (auto split: if_split_asm)
  obtain fe refreshId db2 where ins: "insert_refresh (db\<lparr>au_refresh := ?consumed\<rparr>) \<lparr>rt_id = refreshId, rt_familyId = rt_familyId r,
       rt_generation = rt_generation r + 1, rt_tokenHash = pp_successorTokenHash prepared, rt_createdAt = Some now, rt_consumedAt = None,
       rt_rotationId = None, rt_successorTokenHash = None, rt_expiresAt = fe\<rparr> = Inr db2"
    and rest: "advance_family env db2 now r f fe bytes au = Inr (out, db')"
    using assms unfolding rotate_first_def Let_def consume_if_def [symmetric]
    by (auto simp only: bind_result_eq_Inr sum.distinct split: if_split_asm)
  have db2: "db2 = db\<lparr>au_refresh := ?consumed @ [\<lparr>rt_id = refreshId, rt_familyId = rt_familyId r,
       rt_generation = rt_generation r + 1, rt_tokenHash = pp_successorTokenHash prepared, rt_createdAt = Some now, rt_consumedAt = None,
       rt_rotationId = None, rt_successorTokenHash = None, rt_expiresAt = fe\<rparr>]\<rparr>"
    using ins by (simp add: insert_refresh_Inr)
  have fresh: "\<forall>x \<in> set (au_refresh db). rt_id x \<noteq> refreshId \<and> rt_tokenHash x \<noteq> pp_successorTokenHash prepared \<and>
        (rt_familyId x, rt_generation x) \<noteq> (rt_familyId r, rt_generation r + 1)"
    using ins by (auto simp: insert_refresh_Inr)
  from rest obtain e tok where adv: "length (filter (\<lambda>(i, x). ?advance i x) (au_families db2)) = 1"
    and acc: "issueAccess env (update_families ?advance (\<lambda>x. x\<lparr>fa_currentGeneration := rt_generation r + 1, fa_expiresAt := fe\<rparr>) db2)
        (rt_familyId r) (fa_userId f) (fa_deviceId f) now fe bytes au = Inr ((e, tok), db')"
      "out = Rotated \<lparr>rr_accessExpiresAt = e, rr_accessToken = tok, rr_familyId = rt_familyId r,
         rr_generation = rt_generation r + 1, rr_wasRetry = False\<rparr>"
    by (auto simp: advance_family_def Let_def bind_result_eq_Inr split: if_split_asm)
  show thesis
    by (rule that [OF acc(1) [unfolded db2] _ _ _ _ _ len _ acc(2)]) (use fresh adv db2 in simp_all)
qed


lemma rotate_first_inv:
  assumes inv: "sess_inv db" and r: "r \<in> set (au_refresh db)" "rt_consumedAt r = None"
    and f: "map_of (au_families db) (rt_familyId r) = Some f" "fa_status f = FamilyActive" "fa_currentGeneration f = rt_generation r"
    and hex: "sha256_hex (pp_successorTokenHash prepared)" and run: "rotate_first env db prepared now r f ru bytes au = Inr (out, db')"
  shows "sess_inv db'"
  using run
proof (rule rotate_first_Inr)
  fix n fe e tok
  let ?advance = "\<lambda>i x. i = rt_familyId r \<and> fa_status x = FamilyActive \<and> fa_currentGeneration x = rt_generation r"
  let ?db = "update_families ?advance (\<lambda>x. x\<lparr>fa_currentGeneration := rt_generation r + 1, fa_expiresAt := fe\<rparr>)
        (db\<lparr>au_refresh := map (consume_if prepared now r) (au_refresh db) @ [n]\<rparr>)"
  assume acc: "issueAccess env ?db (rt_familyId r) (fa_userId f) (fa_deviceId f) now fe bytes au = Inr ((e, tok), db')"
    and n: "rt_familyId n = rt_familyId r" "rt_generation n = rt_generation r + 1" "rt_tokenHash n = pp_successorTokenHash prepared"
      "rt_consumedAt n = None"
    and fresh: "\<forall>x \<in> set (au_refresh db). rt_id x \<noteq> rt_id n \<and> rt_tokenHash x \<noteq> rt_tokenHash n \<and>
        (rt_familyId x, rt_generation x) \<noteq> (rt_familyId n, rt_generation n)"
  have refresh: "au_refresh ?db = map (consume_if prepared now r) (au_refresh db) @ [n]" by simp
  have fams: "map_of (au_families ?db) j = (if j = rt_familyId r then Some (f\<lparr>fa_currentGeneration := rt_generation r + 1, fa_expiresAt := fe\<rparr>)
      else map_of (au_families db) j)" for j
    using f by (auto simp: map_of_update_families option.map_ident)
  have ids: "distinct (map rt_id (au_refresh db))" "distinct (map (\<lambda>r. (rt_familyId r, rt_generation r)) (au_refresh db))"
    using inv by (simp_all add: sess_inv_def)
  have "token_ok ?db (consume_if prepared now r x)" if x: "x \<in> set (au_refresh db)" for x
  proof (cases "x = r")
    case True
    moreover have "sha256_hex (rt_tokenHash r)" using inv r by (auto simp: sess_inv_def token_ok_def)
    ultimately show ?thesis using r n unfolding token_ok_def fams by (simp add: consume_if_def consume_refresh_def)
  next
    case False
    then have "rt_id x \<noteq> rt_id r" "(rt_familyId x, rt_generation x) \<noteq> (rt_familyId r, rt_generation r)"
      using ids x r by (auto simp: distinct_map inj_on_def)
    then have same: "consume_if prepared now r x = x" and gen: "rt_familyId x = rt_familyId r \<Longrightarrow> rt_generation x \<noteq> rt_generation r"
      by (auto simp: consume_if_def)
    have ok: "token_ok db x" using inv x by (simp add: sess_inv_def)
    have "\<exists>s \<in> set (au_refresh ?db). rt_familyId s = rt_familyId x \<and> rt_generation s = rt_generation x + 1 \<and>
           rt_successorTokenHash x = Some (rt_tokenHash s)" if c: "rt_consumedAt x \<noteq> None"
    proof -
      obtain s where "s \<in> set (au_refresh db)" "rt_familyId s = rt_familyId x" "rt_generation s = rt_generation x + 1"
          "rt_successorTokenHash x = Some (rt_tokenHash s)"
        using ok c unfolding token_ok_def by blast
      then show ?thesis unfolding refresh by (intro bexI [of _ "consume_if prepared now r s"]) simp_all
    qed
    then show ?thesis using ok gen f unfolding same token_ok_def fams by auto
  qed
  moreover have "token_ok ?db n" using n hex unfolding token_ok_def fams by simp
  ultimately have toks: "\<forall>x \<in> set (au_refresh ?db). token_ok ?db x" by (simp add: refresh)
  have "sess_inv ?db"
    using inv fresh toks unfolding sess_inv_def refresh fams by (auto simp: comp_def)
  then show ?thesis using acc by (auto elim!: issueAccess_Inr intro: sess_inv_access)
qed


lemma refresh_join_Some:
  assumes "refresh_join db h = Some (r, f, u, d)"
  shows "r \<in> set (au_refresh db)" "rt_tokenHash r = h" "map_of (au_families db) (rt_familyId r) = Some f"
    "map_of (au_users db) (fa_userId f) = Some u" "map_of (au_devices db) (fa_deviceId f) = Some d"
  using assms by (auto simp: refresh_join_def bind_eq_Some_conv find_Some_iff in_set_conv_nth)

definition live_context :: "int \<Rightarrow> family_row \<Rightarrow> user_row \<Rightarrow> device_row \<Rightarrow> bool" where
  "live_context now f u d \<longleftrightarrow> (\<exists>e. fa_expiresAt f = Some e \<and> now < e) \<and> fa_status f = FamilyActive \<and>
     us_status u = UserActive \<and> dv_status d = DeviceApproved"

lemma rotateInTransaction_Inr:
  assumes run: "rotateInTransaction env db prepared now ru bytes au = Inr (out, db')"
  obtains (reuse) r f u d where "refresh_join db (pp_currentTokenHash prepared) = Some (r, f, u, d)" "live_context now f u d"
      "out = Reuse" "db' = markReuse (rt_familyId r) now db"
    | (retry) r f u d e tok where "refresh_join db (pp_currentTokenHash prepared) = Some (r, f, u, d)" "live_context now f u d"
      "rt_consumedAt r \<noteq> None" "exactRetry db prepared r (fa_currentGeneration f) = Inr True"
      "issueAccess env db (rt_familyId r) (fa_userId f) (fa_deviceId f) now (fa_expiresAt f) bytes au = Inr ((e, tok), db')"
      "out = Rotated \<lparr>rr_accessExpiresAt = e, rr_accessToken = tok, rr_familyId = rt_familyId r, rr_generation = rt_generation r + 1,
          rr_wasRetry = True\<rparr>"
    | (first) r f u d where "refresh_join db (pp_currentTokenHash prepared) = Some (r, f, u, d)" "live_context now f u d"
      "rt_consumedAt r = None" "fa_currentGeneration f = rt_generation r" "\<exists>e. rt_expiresAt r = Some e \<and> now < e"
      "rotate_first env db prepared now r f ru bytes au = Inr (out, db')"
proof -
  obtain r f u d where join: "refresh_join db (pp_currentTokenHash prepared) = Some (r, f, u, d)"
    using run by (auto simp: rotateInTransaction_def split: option.splits)
  have live: "live_context now f u d"
    using run by (auto simp: rotateInTransaction_def join live_context_def bind_result_eq_Inr requireStoredDate_Inr split: if_split_asm)
  show thesis
  proof (cases "rt_consumedAt r = None")
    case True
    have exp: "\<exists>e. rt_expiresAt r = Some e \<and> now < e"
      using run True by (auto simp: rotateInTransaction_def join bind_result_eq_Inr requireStoredDate_Inr split: if_split_asm)
    have "out = Reuse \<and> db' = markReuse (rt_familyId r) now db \<or>
        fa_currentGeneration f = rt_generation r \<and> rotate_first env db prepared now r f ru bytes au = Inr (out, db')"
      using run True
      by (auto simp: rotateInTransaction_def join bind_result_eq_Inr requireGeneration_def requireStoredUuid_def split: if_split_asm)
    then show thesis using reuse [OF join live] first [OF join live True _ exp] by blast
  next
    case False
    then obtain retry' where ex: "exactRetry db prepared r (fa_currentGeneration f) = Inr retry'"
      and rest: "(if \<not> retry' then Inr (Reuse, markReuse (rt_familyId r) now db)
         else bind_result (issueAccess env db (rt_familyId r) (fa_userId f) (fa_deviceId f) now (fa_expiresAt f) bytes au)
                (\<lambda>((accessExpiresAt, accessToken), db').
                   Inr (Rotated \<lparr>rr_accessExpiresAt = accessExpiresAt, rr_accessToken = accessToken,
                     rr_familyId = rt_familyId r, rr_generation = rt_generation r + 1, rr_wasRetry = True\<rparr>, db'))) = Inr (out, db')"
      using run
      by (auto simp: rotateInTransaction_def join bind_result_eq_Inr requireGeneration_def requireStoredUuid_def split: if_split_asm)
    show thesis
    proof (cases retry')
      case True
      then show thesis using rest ex False retry [OF join live False] by (auto simp: bind_result_eq_Inr)
    next
      case False
      then show thesis using rest reuse [OF join live] by simp
    qed
  qed
qed

lemma rotateInTransaction_inv:
  assumes inv: "sess_inv db" and hex: "sha256_hex (pp_successorTokenHash prepared)"
    and run: "rotateInTransaction env db prepared now ru bytes au = Inr (out, db')"
  shows "sess_inv db'"
  using run
proof (cases rule: rotateInTransaction_Inr)
  case (reuse r f u d)
  then show ?thesis using markReuse_inv [OF inv] by simp
next
  case (retry r f u d e tok)
  show ?thesis using retry(5) by (auto elim!: issueAccess_Inr intro: sess_inv_access [OF inv])
next
  case (first r f u d)
  then show ?thesis
    using rotate_first_inv [OF inv _ _ _ _ _ hex first(6)] refresh_join_Some [OF first(1)] by (simp add: live_context_def)
qed

end
