(* ===== verification/Sessions_Theorems.thy ===== *)
theory Sessions_Theorems
  imports Sessions_Inv
begin

text \<open>
  What the session repository promises over any sequence of its operations: one live refresh token per
  family, a replayed token burns its family for good, a lost reply can be asked for again, and the
  revocation of a membership shuts out exactly the devices of that member in that vault.
\<close>

section \<open>Operations as steps\<close>

datatype session_op =
    RotateOp "int option" jsstr jsstr jsstr jsstr "nat list" jsstr
  | CreateSessionOp "int option" ident ident jsstr int jsstr jsstr "nat list" jsstr
  | CreateFamilyOp "int option" ident ident jsstr int jsstr jsstr
  | RevokeDeviceOp "int option" ident
  | RevokeMembershipOp "int option" ident

text \<open>An operation that throws rolls its transaction back.\<close>

definition settled_op :: "auth_db \<Rightarrow> 'e + 'a \<times> auth_db \<Rightarrow> bool \<times> auth_db" where
  "settled_op db r = (case r of Inl _ \<Rightarrow> (False, db) | Inr (_, db') \<Rightarrow> (True, db'))"

fun session_step :: "session_env \<Rightarrow> auth_db \<Rightarrow> session_op \<Rightarrow> bool \<times> auth_db" where
  "session_step env db (RotateOp clock cur rot suc ru bytes au) =
     (let (res, db') = rotateRefresh env clock db cur rot suc ru bytes au in (\<not> isl res, db'))"
| "session_step env db (CreateSessionOp clock u d tok ttl fu ru bytes au) =
     settled_op db (createInitialSessionInCurrentTransaction env clock db u d tok ttl fu ru bytes au)"
| "session_step env db (CreateFamilyOp clock u d h ttl fu ru) =
     settled_op db (createInitialFamilyFromHashInCurrentTransaction env clock db u d h ttl fu ru)"
| "session_step env db (RevokeDeviceOp clock d) =
     settled_op db (bind_result (revokeDeviceInCurrentTransaction clock d db) (\<lambda>db'. Inr ((), db')))"
| "session_step env db (RevokeMembershipOp clock m) = (let (res, db') = revokeMembership clock m db in (\<not> isl res, db'))"

text \<open>SHA-256 digests are written as 64 lower-case hexadecimal digits.\<close>

definition hex_digest :: "session_env \<Rightarrow> bool" where
  "hex_digest env \<longleftrightarrow> (\<forall>v. sha256_hex (sv_sha env v))"

text \<open>The five ways an operation changes the tables.\<close>

lemma prepareRotation_Inr:
  assumes "prepareRotation env cur rot suc = Inr p"
  shows "pp_currentTokenHash p = sv_sha env cur" "pp_rotationId p = rot" "pp_successorTokenHash p = sv_sha env suc" "cur \<noteq> suc"
  using assms
  by (auto simp: prepareRotation_def hashParsed_def split: option.splits if_splits dest!: parseToken_Some)

lemma rotateRefresh_cases:
  obtains (fails) e where "rotateRefresh env clock db cur rot suc ru bytes au = (Inl e, db)"
    | (commits) p now out db' where "prepareRotation env cur rot suc = Inr p" "clock = Some now"
      "rotateInTransaction env db p now ru bytes au = Inr (out, db')"
      "rotateRefresh env clock db cur rot suc ru bytes au =
         ((case out of Reuse \<Rightarrow> Inl REFRESH_REUSE_DETECTED | Rotated res \<Rightarrow> Inr res), db')"
proof (cases "prepareRotation env cur rot suc")
  case (Inl e)
  then show thesis by (intro fails) (simp add: rotateRefresh_def)
next
  case prep: (Inr p)
  show thesis
  proof (cases "bind_result (readClock clock) (\<lambda>now. rotateInTransaction env db p now ru bytes au)")
    case (Inl e)
    then show thesis by (intro fails) (auto simp: rotateRefresh_def prep bind_result_eq_Inl)
  next
    case (Inr y)
    then obtain now out db' where "readClock clock = Inr now" "rotateInTransaction env db p now ru bytes au = Inr (out, db')"
      by (cases y) (auto simp: bind_result_eq_Inr)
    then show thesis using prep
      by (intro commits [of p now out db'])
         (auto simp: rotateRefresh_def readClock_def split: option.splits rotation_outcome.splits)
  qed
qed

lemma settled_op_cases:
  obtains "settled_op db r = (False, db)" | a db' where "r = Inr (a, db')" "settled_op db r = (True, db')"
  by (cases r) (auto simp: settled_op_def)

section \<open>The invariant holds always\<close>

lemma revokeMembership_cases:
  obtains (fails) e where "revokeMembership clock mid db = (Inl e, db)"
    | (commits) now m db' where "clock = Some now" "map_of (au_memberships db) mid = Some m"
      "revokeMembership clock mid db = (Inr mid, db')"
      "revoke_devices clock (map fst (filter (\<lambda>(i, d). dv_userId d = mb_userId m \<and>
           (dv_vaultId d = Some (mb_vaultId m) \<or> dv_vaultId d = None)) (au_devices db)))
         (db\<lparr>au_memberships := map (\<lambda>(i, x). (i, if i = mid
            then x\<lparr>mb_status := MemberRevoked, mb_revokedAt := stamp_once (mb_revokedAt x) now\<rparr> else x)) (au_memberships db)\<rparr>) = Inr db'"
proof (cases "uuid_pattern mid \<and> clock \<noteq> None \<and> map_of (au_memberships db) mid \<noteq> None")
  case True
  then obtain now m where c: "uuid_pattern mid" "clock = Some now" "map_of (au_memberships db) mid = Some m" by auto
  let ?r = "revoke_devices clock (map fst (filter (\<lambda>(i, d). dv_userId d = mb_userId m \<and>
           (dv_vaultId d = Some (mb_vaultId m) \<or> dv_vaultId d = None)) (au_devices db)))
         (db\<lparr>au_memberships := map (\<lambda>(i, x). (i, if i = mid
            then x\<lparr>mb_status := MemberRevoked, mb_revokedAt := stamp_once (mb_revokedAt x) now\<rparr> else x)) (au_memberships db)\<rparr>)"
  have "revokeMembership clock mid db = (case ?r of Inl e \<Rightarrow> (Inl (RevocationSession e), db) | Inr db' \<Rightarrow> (Inr mid, db'))"
    using c by (simp add: revokeMembership_def)
  then show thesis using fails commits [OF c(2,3)] by (cases ?r) auto
next
  case False
  then show thesis
  proof -
    have "\<exists>e. revokeMembership clock mid db = (Inl e, db)"
      using False by (auto simp: revokeMembership_def split: option.splits)
    then show thesis using fails by blast
  qed
qed

lemma revokeDevice_Inr:
  "revokeDeviceInCurrentTransaction clock d db = Inr db' \<longleftrightarrow>
     uuid_pattern d \<and> (\<exists>now. clock = Some now \<and> db' = revoke_device_rows d now db)"
  by (auto simp: revokeDeviceInCurrentTransaction_def requireUuid_def readClock_def bind_result_eq_Inr split: option.splits if_splits)

text \<open>A property that every device revocation keeps is kept by a list of them.\<close>

lemma revoke_devices_induct:
  assumes "revoke_devices clock ds db = Inr db'" "P db" "\<And>now d db. clock = Some now \<Longrightarrow> d \<in> set ds \<Longrightarrow> P db \<Longrightarrow> P (revoke_device_rows d now db)"
  shows "P db'"
  using assms
proof (induction ds arbitrary: db)
  case (Cons d ds)
  then obtain now where "clock = Some now" "revoke_devices clock ds (revoke_device_rows d now db) = Inr db'"
    by (auto simp: bind_result_eq_Inr revokeDevice_Inr)
  then show ?case using Cons.IH [of "revoke_device_rows d now db"] Cons.prems(2,3) by simp
qed simp

lemma sess_inv_memberships [simp]: "sess_inv (db\<lparr>au_memberships := ms\<rparr>) \<longleftrightarrow> sess_inv db"
  by (simp add: sess_inv_def token_ok_def)

lemma createInitialSession_Inr:
  assumes "createInitialSessionInCurrentTransaction env clock db u d tok ttl fu ru bytes au = Inr (res, db')"
  obtains now fid e e' tok' db1 where "clock = Some now" "parseToken RefreshTokenDomain tok = Some tok"
    "create_family env db u d (sv_sha env tok) ttl now fu ru = Inr ((fid, e), db1)"
    "issueAccess env db1 fid u d now e bytes au = Inr ((e', tok'), db')"
proof -
  obtain h where h: "hashParsed (sv_sha env) RefreshTokenDomain tok = Some h"
    using assms by (auto simp: createInitialSessionInCurrentTransaction_def bind_result_eq_Inr split: option.splits)
  then have tok: "parseToken RefreshTokenDomain tok = Some tok" "h = sv_sha env tok"
    using parseToken_Some by (auto simp: hashParsed_def)
  obtain now where "readClock clock = Inr now" and rest: "bind_result (create_family env db u d h ttl now fu ru)
      (\<lambda>((familyId, refreshExpiresAt), db).
           bind_result (issueAccess env db familyId u d now refreshExpiresAt bytes au)
             (\<lambda>((accessExpiresAt, accessToken), db).
               Inr (\<lparr>is_accessExpiresAt = accessExpiresAt, is_accessToken = accessToken, is_familyId = familyId,
                     is_refreshExpiresAt = refreshExpiresAt\<rparr>, db))) = Inr (res, db')"
    using assms h
    by (auto simp: createInitialSessionInCurrentTransaction_def bind_result_eq_Inr requireUuid_def split: if_split_asm)
  then show thesis using that [OF _ tok(1)] unfolding tok(2)
    by (auto simp: readClock_def bind_result_eq_Inr split: option.splits)
qed

lemma createInitialFamily_Inr:
  assumes "createInitialFamilyFromHashInCurrentTransaction env clock db u d h ttl fu ru = Inr (res, db')"
  obtains now where "clock = Some now" "sha256_hex h" "create_family env db u d h ttl now fu ru = Inr (res, db')"
  using assms
  by (auto simp: createInitialFamilyFromHashInCurrentTransaction_def bind_result_eq_Inr requireUuid_def readClock_def
      split: if_split_asm option.splits)

lemma session_step_inv:
  assumes inv: "sess_inv db" and hex: "hex_digest env"
  shows "sess_inv (snd (session_step env db op))"
proof (cases op)
  case (RotateOp clock cur rot suc ru bytes au)
  show ?thesis
  proof (cases rule: rotateRefresh_cases [of env clock db cur rot suc ru bytes au])
    case (commits p now out db')
    have "sha256_hex (pp_successorTokenHash p)" using hex prepareRotation_Inr [OF commits(1)] by (simp add: hex_digest_def)
    then show ?thesis using rotateInTransaction_inv [OF inv _ commits(3)] commits(4) RotateOp by simp
  qed (use inv RotateOp in simp)
next
  case (CreateSessionOp clock u d tok ttl fu ru bytes au)
  show ?thesis
  proof (cases rule: settled_op_cases [of db "createInitialSessionInCurrentTransaction env clock db u d tok ttl fu ru bytes au"])
    case (2 a db')
    from 2(1) show ?thesis
    proof (rule createInitialSession_Inr)
      fix now fid e e' tok' db1
      assume run: "create_family env db u d (sv_sha env tok) ttl now fu ru = Inr ((fid, e), db1)"
        "issueAccess env db1 fid u d now e bytes au = Inr ((e', tok'), db')"
      have "sess_inv db1" using create_family_inv [OF inv _ run(1)] hex by (simp add: hex_digest_def)
      then show ?thesis using run(2) 2(2) CreateSessionOp by (auto elim!: issueAccess_Inr intro: sess_inv_access)
    qed
  qed (use inv CreateSessionOp in simp)
next
  case (CreateFamilyOp clock u d h ttl fu ru)
  show ?thesis
  proof (cases rule: settled_op_cases [of db "createInitialFamilyFromHashInCurrentTransaction env clock db u d h ttl fu ru"])
    case (2 a db')
    then show ?thesis using CreateFamilyOp
      by (cases a) (auto elim!: createInitialFamily_Inr intro: create_family_inv [OF inv])
  qed (use inv CreateFamilyOp in simp)
next
  case (RevokeDeviceOp clock d)
  then show ?thesis using inv
    by (auto simp: settled_op_def bind_result_eq_Inr revokeDevice_Inr revoke_device_rows_inv split: sum.splits)
next
  case (RevokeMembershipOp clock m)
  show ?thesis
  proof (cases rule: revokeMembership_cases [of clock m db])
    case (commits now x db')
    have "sess_inv db'" by (rule revoke_devices_induct [OF commits(4)]) (simp_all add: inv revoke_device_rows_inv)
    then show ?thesis using commits(3) RevokeMembershipOp by simp
  qed (use inv RevokeMembershipOp in simp)
qed

interpretation sessions: invariant_machine "session_step env" "\<lambda>db. hex_digest env \<and> sess_inv db" for env
  by unfold_locales (simp add: session_step_inv)


section \<open>One live token\<close>

definition live_tokens :: "auth_db \<Rightarrow> ident \<Rightarrow> jsstr list" where
  "live_tokens db fam = map rt_tokenHash (filter (\<lambda>r. rt_familyId r = fam \<and> rt_consumedAt r = None) (au_refresh db))"

lemma filter_single:
  assumes "distinct (map g xs)" "r \<in> set xs" "P r" "\<And>x. x \<in> set xs \<Longrightarrow> P x \<Longrightarrow> g x = g r"
  shows "filter P xs = [r]"
  using assms
proof (induction xs)
  case (Cons a xs)
  show ?case
  proof (cases "P a")
    case True
    then have "g a = g r" using Cons.prems(4) [of a] by simp
    then have "r = a" using Cons.prems(1,2) by (metis distinct.simps(2) image_eqI list.set_map list.simps(9) set_ConsD)
    moreover have "\<not> P x" if "x \<in> set xs" for x
      using that Cons.prems(1) Cons.prems(4) [of x] \<open>g a = g r\<close> by (auto simp: rev_image_eqI)
    ultimately show ?thesis using True by (simp add: filter_empty_conv)
  next
    case False
    then have "r \<in> set xs" using Cons.prems(2,3) by auto
    then show ?thesis using False Cons.IH Cons.prems(1,3) Cons.prems(4) by (metis distinct.simps(2) filter.simps(2) list.set_intros(2) list.simps(9))
  qed
qed simp

lemma live_single:
  assumes inv: "sess_inv db" and r: "r \<in> set (au_refresh db)" "rt_consumedAt r = None"
  shows "live_tokens db (rt_familyId r) = [rt_tokenHash r]"
proof -
  have gen: "rt_generation x = fa_currentGeneration f"
    if "x \<in> set (au_refresh db)" "rt_consumedAt x = None" "map_of (au_families db) (rt_familyId x) = Some f" for x f
    using inv that unfolding sess_inv_def token_ok_def by fastforce
  obtain f where "map_of (au_families db) (rt_familyId r) = Some f" using inv r unfolding sess_inv_def token_ok_def by blast
  then have "filter (\<lambda>x. rt_familyId x = rt_familyId r \<and> rt_consumedAt x = None) (au_refresh db) = [r]"
    using r gen inv by (intro filter_single [where g = "\<lambda>r. (rt_familyId r, rt_generation r)"]) (auto simp: sess_inv_def)
  then show ?thesis by (simp add: live_tokens_def)
qed

lemma filter_map_same:
  "(\<And>x. x \<in> set xs \<Longrightarrow> P (c x) = P x \<and> (P x \<longrightarrow> c x = x)) \<Longrightarrow> filter P (map c xs) = filter P xs"
  by (induction xs) auto

lemma rotate_first_live:
  assumes inv: "sess_inv db" and r: "r \<in> set (au_refresh db)" and run: "rotate_first env db p now r f ru bytes au = Inr (out, db')"
  shows "\<exists>n \<in> set (au_refresh db'). rt_familyId n = rt_familyId r \<and> rt_tokenHash n = pp_successorTokenHash p \<and> rt_consumedAt n = None"
    and "fam \<noteq> rt_familyId r \<Longrightarrow> live_tokens db' fam = live_tokens db fam"
proof -
  have same: "fam \<noteq> rt_familyId r \<Longrightarrow> filter (\<lambda>x. rt_familyId x = fam \<and> rt_consumedAt x = None) (map (consume_if p now r) (au_refresh db)) =
      filter (\<lambda>x. rt_familyId x = fam \<and> rt_consumedAt x = None) (au_refresh db)"
  proof (rule filter_map_same)
    fix x assume fam: "fam \<noteq> rt_familyId r" and x: "x \<in> set (au_refresh db)"
    have "rt_id x = rt_id r \<Longrightarrow> x = r" using inv x r by (auto simp: sess_inv_def distinct_map inj_on_def)
    then show "(rt_familyId (consume_if p now r x) = fam \<and> rt_consumedAt (consume_if p now r x) = None) =
         (rt_familyId x = fam \<and> rt_consumedAt x = None) \<and>
         (rt_familyId x = fam \<and> rt_consumedAt x = None \<longrightarrow> consume_if p now r x = x)"
      using fam by (auto simp: consume_if_def consume_refresh_def)
  qed
  show "\<exists>n \<in> set (au_refresh db'). rt_familyId n = rt_familyId r \<and> rt_tokenHash n = pp_successorTokenHash p \<and> rt_consumedAt n = None"
    using run by (auto elim!: rotate_first_Inr issueAccess_Inr)
  show "fam \<noteq> rt_familyId r \<Longrightarrow> live_tokens db' fam = live_tokens db fam"
    using run same by (auto elim!: rotate_first_Inr issueAccess_Inr simp: live_tokens_def)
qed

text \<open>
  A rotation moves the one live refresh token of its family: before it the presented token is the
  only unconsumed token of the family, after it the successor is, and no other family changes.
\<close>

theorem rotation_moves_the_live_token:
  assumes inv: "sess_inv db" and hex: "hex_digest env"
    and run: "rotateRefresh env clock db cur rot suc ru bytes au = (Inr res, db')" and first: "\<not> rr_wasRetry res"
  shows "live_tokens db (rr_familyId res) = [sv_sha env cur] \<and> live_tokens db' (rr_familyId res) = [sv_sha env suc] \<and>
     (\<forall>fam. fam \<noteq> rr_familyId res \<longrightarrow> live_tokens db' fam = live_tokens db fam)"
proof (cases rule: rotateRefresh_cases [of env clock db cur rot suc ru bytes au])
  case (commits p now out db1)
  have eq: "out = Rotated res" "db1 = db'" using commits(4) run by (auto split: rotation_outcome.splits)
  have h: "pp_currentTokenHash p = sv_sha env cur" "pp_successorTokenHash p = sv_sha env suc"
    using prepareRotation_Inr [OF commits(1)] by simp_all
  have "sha256_hex (pp_successorTokenHash p)" using hex h by (simp add: hex_digest_def)
  then have inv': "sess_inv db'" using rotateInTransaction_inv [OF inv _ commits(3)] eq by simp
  from commits(3) show ?thesis
  proof (cases rule: rotateInTransaction_Inr)
    case (first r f u d)
    note j = refresh_join_Some [OF first(1)]
    obtain n where n: "n \<in> set (au_refresh db')" "rt_familyId n = rt_familyId r" "rt_tokenHash n = pp_successorTokenHash p" "rt_consumedAt n = None"
      using rotate_first_live(1) [OF inv j(1) first(6)] eq by auto
    have "rr_familyId res = rt_familyId r" using first(6) eq by (auto elim!: rotate_first_Inr)
    then show ?thesis
      using live_single [OF inv j(1) first(3)] live_single [OF inv' n(1) n(4)] n j h rotate_first_live(2) [OF inv j(1) first(6)] eq
      by auto
  qed (use eq first in auto)
qed (use run in auto)


section \<open>Burnt families and revoked devices stay shut\<close>

definition family_dead :: "ident \<Rightarrow> auth_db \<Rightarrow> bool" where
  "family_dead i db \<longleftrightarrow> (case map_of (au_families db) i of Some f \<Rightarrow> fa_status f \<noteq> FamilyActive | None \<Rightarrow> False)"

definition device_revoked :: "ident \<Rightarrow> auth_db \<Rightarrow> bool" where
  "device_revoked d db \<longleftrightarrow> (case map_of (au_devices db) d of Some r \<Rightarrow> dv_status r = DeviceRevoked | None \<Rightarrow> False)"

lemma issueAccess_tables:
  assumes "issueAccess env db fid u d now fe bytes au = Inr ((e, tok), db')"
  shows "au_families db' = au_families db" "au_devices db' = au_devices db" "au_refresh db' = au_refresh db" "au_users db' = au_users db"
  using assms by (auto elim!: issueAccess_Inr)

lemma map_of_map_snd: "map_of (map (\<lambda>(i, x). (i, if p i x then f x else x)) xs) j = map_option (\<lambda>x. if p j x then f x else x) (map_of xs j)"
  by (induction xs) auto

lemma revoke_device_rows_devices:
  "map_of (au_devices (revoke_device_rows d now db)) j =
     map_option (\<lambda>x. if j = d then x\<lparr>dv_status := DeviceRevoked, dv_revokedAt := stamp_once (dv_revokedAt x) now\<rparr> else x)
       (map_of (au_devices db) j)"
  using map_of_map_snd [of "\<lambda>i _. i = d" "\<lambda>x. x\<lparr>dv_status := DeviceRevoked, dv_revokedAt := stamp_once (dv_revokedAt x) now\<rparr>" "au_devices db" j]
  by (simp add: revoke_device_rows_def)

lemma revoke_device_rows_families:
  "map_of (au_families (revoke_device_rows d now db)) j =
     map_option (\<lambda>f. if fa_deviceId f = d then f\<lparr>fa_status := FamilyRevoked, fa_revokedAt := stamp_once (fa_revokedAt f) now\<rparr> else f)
       (map_of (au_families db) j)"
  by (simp add: revoke_device_rows_def map_of_update_families)

lemma shut_revoke_rows:
  "family_dead i db \<Longrightarrow> family_dead i (revoke_device_rows d now db)"
  "device_revoked x db \<Longrightarrow> device_revoked x (revoke_device_rows d now db)"
  by (simp_all add: family_dead_def device_revoked_def revoke_device_rows_families revoke_device_rows_devices split: option.splits)

lemma rotate_first_tables:
  assumes "rotate_first env db p now r f ru bytes au = Inr (out, db')"
  shows "au_devices db' = au_devices db" "au_users db' = au_users db"
    "\<exists>fe. au_families db' = au_families (update_families (\<lambda>i x. i = rt_familyId r \<and> fa_status x = FamilyActive \<and> fa_currentGeneration x = rt_generation r)
        (\<lambda>x. x\<lparr>fa_currentGeneration := rt_generation r + 1, fa_expiresAt := fe\<rparr>) db)"
proof -
  let ?p = "\<lambda>i x. i = rt_familyId r \<and> fa_status x = FamilyActive \<and> fa_currentGeneration x = rt_generation r"
  obtain n fe e tok where acc: "issueAccess env (update_families ?p (\<lambda>x. x\<lparr>fa_currentGeneration := rt_generation r + 1, fa_expiresAt := fe\<rparr>)
        (db\<lparr>au_refresh := map (consume_if p now r) (au_refresh db) @ [n]\<rparr>)) (rt_familyId r) (fa_userId f) (fa_deviceId f) now fe bytes au =
      Inr ((e, tok), db')"
    using assms by (rule rotate_first_Inr)
  show "au_devices db' = au_devices db" "au_users db' = au_users db" using issueAccess_tables [OF acc] by simp_all
  have "au_families db' = au_families (update_families ?p (\<lambda>x. x\<lparr>fa_currentGeneration := rt_generation r + 1, fa_expiresAt := fe\<rparr>) db)"
    using issueAccess_tables(1) [OF acc] by (simp add: update_families_def)
  then show "\<exists>fe. au_families db' = au_families (update_families ?p
        (\<lambda>x. x\<lparr>fa_currentGeneration := rt_generation r + 1, fa_expiresAt := fe\<rparr>) db)" by blast
qed

lemma shut_rotate:
  assumes "rotateInTransaction env db p now ru bytes au = Inr (out, db')"
  shows "(family_dead i db \<longrightarrow> family_dead i db') \<and> au_devices db' = au_devices db"
  using assms
proof (cases rule: rotateInTransaction_Inr)
  case (reuse r f u d)
  then show ?thesis by (simp add: family_dead_def markReuse_def map_of_update_families split: option.splits)
next
  case (retry r f u d e tok)
  then show ?thesis using issueAccess_tables [OF retry(5)] by (simp add: family_dead_def)
next
  case (first r f u d)
  obtain fe where "au_families db' = au_families (update_families (\<lambda>i x. i = rt_familyId r \<and> fa_status x = FamilyActive \<and> fa_currentGeneration x = rt_generation r)
        (\<lambda>x. x\<lparr>fa_currentGeneration := rt_generation r + 1, fa_expiresAt := fe\<rparr>) db)"
    using rotate_first_tables(3) [OF first(6)] by blast
  then show ?thesis
    using rotate_first_tables(1) [OF first(6)] by (simp add: family_dead_def map_of_update_families split: option.splits)
qed

lemma shut_create:
  assumes "create_family env db u d h ttl now fu ru = Inr ((fid, e), db')"
  shows "family_dead i db \<Longrightarrow> family_dead i db'" and "au_devices db' = au_devices db"
  using assms by (auto elim!: create_family_Inr simp: family_dead_def map_of_append_new simp del: map_of_append split: option.splits if_splits)

lemma shut_revoke_devices:
  assumes "revoke_devices clock ds db = Inr db'"
  shows "family_dead i db \<Longrightarrow> family_dead i db'" and "device_revoked x db \<Longrightarrow> device_revoked x db'"
  by (auto intro: revoke_devices_induct [OF assms] shut_revoke_rows)

text \<open>No operation revives a family or a device.\<close>

lemma session_step_shut:
  "family_dead i db \<Longrightarrow> family_dead i (snd (session_step env db op))" (is "?A \<Longrightarrow> ?A'")
  "device_revoked x db \<Longrightarrow> device_revoked x (snd (session_step env db op))" (is "?B \<Longrightarrow> ?B'")
proof -
  have "(?A \<longrightarrow> ?A') \<and> (?B \<longrightarrow> ?B')"
  proof (cases op)
    case (RotateOp clock cur rot suc ru bytes au)
    show ?thesis
    proof (cases rule: rotateRefresh_cases [of env clock db cur rot suc ru bytes au])
      case (commits p now out db')
      then show ?thesis using shut_rotate [OF commits(3)] RotateOp by (simp add: device_revoked_def)
    qed (use RotateOp in simp)
  next
    case (CreateSessionOp clock u d tok ttl fu ru bytes au)
    show ?thesis
    proof (cases rule: settled_op_cases [of db "createInitialSessionInCurrentTransaction env clock db u d tok ttl fu ru bytes au"])
      case (2 a db')
      from 2(1) show ?thesis
      proof (rule createInitialSession_Inr)
        fix now fid e e' tok' db1
        assume run: "create_family env db u d (sv_sha env tok) ttl now fu ru = Inr ((fid, e), db1)"
          "issueAccess env db1 fid u d now e bytes au = Inr ((e', tok'), db')"
        then show ?thesis using shut_create [OF run(1)] issueAccess_tables [OF run(2)] 2(2) CreateSessionOp
          by (simp add: device_revoked_def family_dead_def)
      qed
    qed (use CreateSessionOp in simp)
  next
    case (CreateFamilyOp clock u d h ttl fu ru)
    show ?thesis
    proof (cases rule: settled_op_cases [of db "createInitialFamilyFromHashInCurrentTransaction env clock db u d h ttl fu ru"])
      case (2 a db')
      then obtain now where run: "create_family env db u d h ttl now fu ru = Inr ((fst a, snd a), db')"
        by (auto elim!: createInitialFamily_Inr)
      then show ?thesis using shut_create [OF run] 2(2) CreateFamilyOp by (simp add: device_revoked_def)
    qed (use CreateFamilyOp in simp)
  next
    case (RevokeDeviceOp clock d)
    then show ?thesis
      by (auto simp: settled_op_def bind_result_eq_Inr revokeDevice_Inr shut_revoke_rows split: sum.splits)
  next
    case (RevokeMembershipOp clock m)
    show ?thesis
    proof (cases rule: revokeMembership_cases [of clock m db])
      case (commits now x db')
      then show ?thesis using shut_revoke_devices [OF commits(4)] RevokeMembershipOp by (simp add: device_revoked_def family_dead_def)
    qed (use RevokeMembershipOp in simp)
  qed
  then show "?A \<Longrightarrow> ?A'" "?B \<Longrightarrow> ?B'" by blast+
qed

interpretation burnt: invariant_machine "session_step env" "family_dead i" for env i
  by unfold_locales (rule session_step_shut(1))

interpretation expelled: invariant_machine "session_step env" "device_revoked d" for env d
  by unfold_locales (rule session_step_shut(2))

lemma access_join_Some:
  assumes "access_join db h = Some (a, f, u, d)"
  shows "a \<in> set (au_access db)" "at_tokenHash a = h" "map_of (au_families db) (at_familyId a) = Some f"
    "map_of (au_users db) (at_userId a) = Some u" "map_of (au_devices db) (at_deviceId a) = Some d"
  using assms by (auto simp: access_join_def bind_eq_Some_conv find_Some_iff in_set_conv_nth)

lemma lookupAccess_Some:
  assumes "lookupAccess env clock db tok = Inr (Some s)"
  obtains now a f u d where "clock = Some now" "a \<in> set (au_access db)" "at_tokenHash a = sv_sha env tok"
    "map_of (au_families db) (se_familyId s) = Some f" "map_of (au_users db) (se_userId s) = Some u"
    "map_of (au_devices db) (se_deviceId s) = Some d" "live_context now f u d" "at_revokedAt a = None"
    "at_familyId a = se_familyId s" "at_deviceId a = se_deviceId s" "at_userId a = se_userId s" "\<exists>e. at_expiresAt a = Some e \<and> now < e"
proof -
  obtain h now a f u d where h: "hashParsed (sv_sha env) AccessTokenDomain tok = Some h" "clock = Some now"
    and join: "access_join db h = Some (a, f, u, d)"
    using assms by (auto simp: lookupAccess_def bind_result_eq_Inr readClock_def split: option.splits)
  have s: "live_context now f u d" "at_revokedAt a = None" "\<exists>e. at_expiresAt a = Some e \<and> now < e"
    "s = \<lparr>se_deviceId = at_deviceId a, se_expiresAt = at_expiresAt a, se_familyId = at_familyId a, se_userId = at_userId a\<rparr>"
    using assms h
    by (auto simp: lookupAccess_def join bind_result_eq_Inr requireStoredDate_Inr requireStoredUuid_def readClock_def live_context_def
        split: if_split_asm)
  show thesis
    by (rule that [OF h(2)]) (use s h(1) access_join_Some [OF join] in \<open>auto simp: hashParsed_def dest!: parseToken_Some\<close>)
qed

lemma dead_family_lookup: "family_dead i db \<Longrightarrow> lookupAccess env clock db tok = Inr (Some s) \<Longrightarrow> se_familyId s \<noteq> i"
  by (auto simp: family_dead_def live_context_def elim!: lookupAccess_Some)

lemma revoked_device_lookup: "device_revoked d db \<Longrightarrow> lookupAccess env clock db tok = Inr (Some s) \<Longrightarrow> se_deviceId s \<noteq> d"
  by (auto simp: device_revoked_def live_context_def elim!: lookupAccess_Some)

lemma dead_family_rotation:
  assumes "family_dead i db" "rotateRefresh env clock db cur rot suc ru bytes au = (Inr res, db')"
  shows "rr_familyId res \<noteq> i"
proof (cases rule: rotateRefresh_cases [of env clock db cur rot suc ru bytes au])
  case (commits p now out db1)
  then have out: "out = Rotated res" using assms(2) by (auto split: rotation_outcome.splits)
  from commits(3) show ?thesis
  proof (cases rule: rotateInTransaction_Inr)
    case (retry r f u d e tok)
    then show ?thesis using assms(1) refresh_join_Some [OF retry(1)] out by (auto simp: family_dead_def live_context_def)
  next
    case (first r f u d)
    have "rr_familyId res = rt_familyId r" using first(6) out by (auto elim!: rotate_first_Inr)
    then show ?thesis using assms(1) first(2) refresh_join_Some [OF first(1)] by (auto simp: family_dead_def live_context_def)
  qed (use out in simp)
qed (use assms in simp)


section \<open>Replayed tokens\<close>

lemma consumed_never_expires:
  assumes "rt_consumedAt r \<noteq> None" "refresh_join db (pp_currentTokenHash p) = Some (r, f, u, d)" "live_context now f u d"
    "exactRetry db p r (fa_currentGeneration f) = Inr False"
    "uuid_pattern (rt_familyId r)" "uuid_pattern (fa_userId f)" "uuid_pattern (fa_deviceId f)"
    "int (rt_generation r) \<le> MAX_SAFE_INTEGER" "int (fa_currentGeneration f) \<le> MAX_SAFE_INTEGER"
  shows "rotateInTransaction env db p now ru bytes au = Inr (Reuse, markReuse (rt_familyId r) now db)"
  using assms
  by (auto simp: rotateInTransaction_def live_context_def requireStoredDate_def requireGeneration_def requireStoredUuid_def)

lemma exactRetry_other:
  assumes inv: "sess_inv db" and r: "r \<in> set (au_refresh db)" and hex: "sha256_hex (pp_successorTokenHash p)"
    and other: "rt_rotationId r \<noteq> Some (pp_rotationId p) \<or> rt_successorTokenHash r \<noteq> Some (pp_successorTokenHash p)"
    and used: "rt_consumedAt r \<noteq> None"
  shows "exactRetry db p r g = Inr False"
proof -
  obtain s where "s \<in> set (au_refresh db)" "rt_successorTokenHash r = Some (rt_tokenHash s)" "sha256_hex (rt_tokenHash s)"
    using inv r used unfolding sess_inv_def token_ok_def by blast
  then show ?thesis using other hex by (auto simp: exactRetry_def tokenHashesEqual_def)
qed

text \<open>Rows as the repository writes them: identifiers are UUIDs, generations are safe integers.\<close>

definition stored_ok :: "refresh_row \<Rightarrow> family_row \<Rightarrow> bool" where
  "stored_ok r f \<longleftrightarrow> uuid_pattern (rt_familyId r) \<and> uuid_pattern (fa_userId f) \<and> uuid_pattern (fa_deviceId f) \<and>
     int (rt_generation r) \<le> MAX_SAFE_INTEGER \<and> int (fa_currentGeneration f) \<le> MAX_SAFE_INTEGER"

lemma markReuse_dead: "map_of (au_families db) i = Some f \<Longrightarrow> family_dead i (markReuse i now db)"
  by (simp add: family_dead_def markReuse_def map_of_update_families)

text \<open>
  C18. A stolen refresh token is contained. When a token that was already rotated is presented again with
  another rotation id or another successor, the request is refused as reuse and the family is burnt:
  whatever sessions, rotations and revocations follow, no access token of the family is ever accepted
  again and no token of the family rotates again.
\<close>

theorem stolen_token_is_contained:
  assumes inv: "sess_inv db" and hex: "hex_digest env" and prep: "prepareRotation env cur rot suc = Inr p"
    and join: "refresh_join db (sv_sha env cur) = Some (r, f, u, d)" and used: "rt_consumedAt r \<noteq> None"
    and other: "rt_rotationId r \<noteq> Some rot \<or> rt_successorTokenHash r \<noteq> Some (sv_sha env suc)"
    and live: "live_context now f u d" and ok: "stored_ok r f"
  shows "\<exists>db'. rotateRefresh env (Some now) db cur rot suc ru bytes au = (Inl REFRESH_REUSE_DETECTED, db') \<and>
     (\<forall>ops clock tok s. lookupAccess env clock (sessions.run env db' ops) tok = Inr (Some s) \<longrightarrow> se_familyId s \<noteq> rt_familyId r) \<and>
     (\<forall>ops clock cur rot suc ru bytes au res db''.
        rotateRefresh env clock (sessions.run env db' ops) cur rot suc ru bytes au = (Inr res, db'') \<longrightarrow> rr_familyId res \<noteq> rt_familyId r)"
proof (intro exI conjI allI impI)
  let ?db = "markReuse (rt_familyId r) now db"
  note h = prepareRotation_Inr [OF prep] and j = refresh_join_Some [OF join]
  have "exactRetry db p r (fa_currentGeneration f) = Inr False"
    using exactRetry_other [OF inv j(1) _ _ used] other h hex by (simp add: hex_digest_def)
  then have "rotateInTransaction env db p now ru bytes au = Inr (Reuse, ?db)"
    using consumed_never_expires [OF used _ live] join h ok by (simp add: stored_ok_def)
  then show "rotateRefresh env (Some now) db cur rot suc ru bytes au = (Inl REFRESH_REUSE_DETECTED, ?db)"
    by (simp add: rotateRefresh_def prep readClock_def)
  have dead: "family_dead (rt_familyId r) (sessions.run env ?db ops)" for ops
    using burnt.run_inv [OF markReuse_dead [OF j(3)]] .
  show "se_familyId s \<noteq> rt_familyId r" if "lookupAccess env clock (sessions.run env ?db ops) tok = Inr (Some s)" for ops clock tok s
    using dead_family_lookup [OF dead that] .
  show "rr_familyId res \<noteq> rt_familyId r"
    if "rotateRefresh env clock (sessions.run env ?db ops) cur rot suc ru bytes au = (Inr res, db'')" for ops clock cur rot suc ru bytes au res db''
    using dead_family_rotation [OF dead that] .
qed

section \<open>Lost replies\<close>

text \<open>The state a successful rotation leaves: its request is now an exact retry.\<close>

lemma find_map_hash:
  "(\<And>x. P (c x) = P x) \<Longrightarrow> find P (map c xs) = map_option c (find P xs)"
  by (induction xs) auto

lemma find_append: "find P (xs @ ys) = (case find P xs of Some x \<Rightarrow> Some x | None \<Rightarrow> find P ys)"
  by (induction xs) auto

lemma rotate_first_join:
  assumes join: "refresh_join db (pp_currentTokenHash p) = Some (r, f, u, d)" and live: "live_context now f u d"
    and unused: "rt_consumedAt r = None" "fa_currentGeneration f = rt_generation r"
    and hex: "sha256_hex (pp_successorTokenHash p)" and run: "rotate_first env db p now r f ru bytes au = Inr (out, db')"
  obtains fe where "refresh_join db' (pp_currentTokenHash p) = Some (consume_refresh p now r,
       f\<lparr>fa_currentGeneration := rt_generation r + 1, fa_expiresAt := fe\<rparr>, u, d)"
    "exactRetry db' p (consume_refresh p now r) (rt_generation r + 1) = Inr True" "int (rt_generation r + 1) \<le> MAX_SAFE_INTEGER"
proof -
  obtain n fe e tok where acc: "issueAccess env (update_families (\<lambda>i x. i = rt_familyId r \<and> fa_status x = FamilyActive \<and> fa_currentGeneration x = rt_generation r)
        (\<lambda>x. x\<lparr>fa_currentGeneration := rt_generation r + 1, fa_expiresAt := fe\<rparr>)
        (db\<lparr>au_refresh := map (consume_if p now r) (au_refresh db) @ [n]\<rparr>)) (rt_familyId r) (fa_userId f) (fa_deviceId f) now fe bytes au = Inr ((e, tok), db')"
    and n: "rt_familyId n = rt_familyId r" "rt_generation n = rt_generation r + 1" "rt_tokenHash n = pp_successorTokenHash p"
    using run by (rule rotate_first_Inr)
  note t = issueAccess_tables [OF acc] and j = refresh_join_Some [OF join]
  have "find (\<lambda>x. rt_tokenHash x = pp_currentTokenHash p) (au_refresh db) = Some r"
    using join by (auto simp: refresh_join_def bind_eq_Some_conv)
  then have "find (\<lambda>x. rt_tokenHash x = pp_currentTokenHash p) (au_refresh db') = Some (consume_refresh p now r)"
    using t(3) unused by (simp add: find_append find_map_hash consume_if_def [of p now r r])
  moreover have "map_of (au_families db') (rt_familyId r) = Some (f\<lparr>fa_currentGeneration := rt_generation r + 1, fa_expiresAt := fe\<rparr>)"
    using t(1) j(3) live unused by (simp add: map_of_update_families live_context_def)
  ultimately have "refresh_join db' (pp_currentTokenHash p) = Some (consume_refresh p now r,
       f\<lparr>fa_currentGeneration := rt_generation r + 1, fa_expiresAt := fe\<rparr>, u, d)"
    using t j by (simp add: refresh_join_def consume_refresh_def)
  moreover have "exactRetry db' p (consume_refresh p now r) (rt_generation r + 1) = Inr True"
    using t(3) n hex by (simp add: exactRetry_def consume_refresh_def tokenHashesEqual_def successorExists_def)
  moreover have "int (rt_generation r + 1) \<le> MAX_SAFE_INTEGER"
    using run by (auto simp: rotate_first_def Let_def split: if_split_asm)
  ultimately show thesis by (rule that)
qed


definition fresh_access :: "session_env \<Rightarrow> auth_db \<Rightarrow> int \<Rightarrow> nat list \<Rightarrow> jsstr \<Rightarrow> bool" where
  "fresh_access env db now bytes au \<longleftrightarrow> length bytes = TOKEN_BYTE_LENGTH \<and> list_all (\<lambda>b. b < 256) bytes \<and> uuid_pattern au \<and>
     list_all (\<lambda>a. at_id a \<noteq> au \<and> at_tokenHash a \<noteq> sv_sha env (generateToken AccessTokenDomain bytes)) (au_access db) \<and>
     0 < sv_accessTtlSeconds env \<and> \<bar>now + sv_accessTtlSeconds env * 1000\<bar> \<le> MAX_DATE"

lemma issueAccess_succeeds:
  assumes fresh: "fresh_access env db now bytes au" and hex: "hex_digest env" and "fe = Some e" "now < e"
    and rows: "map_of (au_families db) fid \<noteq> None" "map_of (au_users db) u \<noteq> None" "map_of (au_devices db) d \<noteq> None"
  obtains e' tok db' where "issueAccess env db fid u d now fe bytes au = Inr ((e', tok), db')"
proof -
  let ?tok = "generateToken AccessTokenDomain bytes" and ?req = "now + sv_accessTtlSeconds env * 1000"
  have h: "hashParsed (sv_sha env) AccessTokenDomain ?tok = Some (sv_sha env ?tok)"
    using fresh token_domains_separate [of bytes AccessTokenDomain AccessTokenDomain] by (simp add: hashParsed_def fresh_access_def)
  have add: "addSeconds now (sv_accessTtlSeconds env) = Inr (Some ?req)"
    using fresh by (simp add: addSeconds_def fresh_access_def MAX_DATE_def MAX_SAFE_INTEGER_def Let_def)
  have req: "now < ?req" using fresh by (simp add: fresh_access_def)
  let ?row = "\<lambda>x. \<lparr>at_id = au, at_familyId = fid, at_userId = u, at_deviceId = d, at_tokenHash = sv_sha env ?tok,
      at_expiresAt = x, at_revokedAt = None\<rparr>"
  have ins: "insert_access db (?row x) = Inr (db\<lparr>au_access := au_access db @ [?row x]\<rparr>)" for x
    unfolding insert_access_Inr using fresh hex rows by (simp add: fresh_access_def hex_digest_def list_all_iff)
  have "uuid_pattern au" using fresh by (simp add: fresh_access_def)
  then have "\<exists>e' tok db'. issueAccess env db fid u d now fe bytes au = Inr ((e', tok), db')"
    using assms(3,4) add req h ins by (cases "e < ?req") (simp_all add: issueAccess_def Let_def requireStoredDate_def requireUuid_def)
  then show thesis using that by blast
qed

text \<open>The replay of an exact retry.\<close>

lemma exactRetry_cong: "au_refresh db' = au_refresh db \<Longrightarrow> exactRetry db' p r g = exactRetry db p r g"
proof -
  assume "au_refresh db' = au_refresh db"
  then have "successorExists db' = successorExists db" by (simp add: fun_eq_iff successorExists_def)
  then show ?thesis by (simp only: exactRetry_def)
qed

lemma retry_succeeds:
  assumes join: "refresh_join db (pp_currentTokenHash p) = Some (r, f, u, d)" and live: "live_context now f u d"
    and used: "rt_consumedAt r \<noteq> None" and retry: "exactRetry db p r (fa_currentGeneration f) = Inr True" and ok: "stored_ok r f"
    and fresh: "fresh_access env db now bytes au" and hex: "hex_digest env"
  obtains e tok db' where "rotateInTransaction env db p now ru bytes au = Inr (Rotated \<lparr>rr_accessExpiresAt = e, rr_accessToken = tok,
      rr_familyId = rt_familyId r, rr_generation = rt_generation r + 1, rr_wasRetry = True\<rparr>, db')"
    "au_refresh db' = au_refresh db" "au_families db' = au_families db"
proof -
  note j = refresh_join_Some [OF join]
  obtain fe where fe: "fa_expiresAt f = Some fe" "now < fe" using live by (auto simp: live_context_def)
  obtain e tok db' where acc: "issueAccess env db (rt_familyId r) (fa_userId f) (fa_deviceId f) now (fa_expiresAt f) bytes au = Inr ((e, tok), db')"
    using issueAccess_succeeds [OF fresh hex fe, of "rt_familyId r" "fa_userId f" "fa_deviceId f"] j by auto
  have "rotateInTransaction env db p now ru bytes au = Inr (Rotated \<lparr>rr_accessExpiresAt = e, rr_accessToken = tok,
      rr_familyId = rt_familyId r, rr_generation = rt_generation r + 1, rr_wasRetry = True\<rparr>, db')"
    using join live used retry ok fe acc
    by (auto simp: rotateInTransaction_def live_context_def requireStoredDate_def requireGeneration_def requireStoredUuid_def stored_ok_def)
  then show thesis using that issueAccess_tables [OF acc] by blast
qed

text \<open>What the server keeps of a rotation that succeeded, first time or again.\<close>

lemma rotated_is_retryable:
  assumes hex: "hex_digest env" and run: "rotateRefresh env (Some now) db cur rot suc ru bytes au = (Inr res, db')"
  obtains p r f u d where "prepareRotation env cur rot suc = Inr p" "refresh_join db' (pp_currentTokenHash p) = Some (r, f, u, d)"
    "fa_status f = FamilyActive" "us_status u = UserActive" "dv_status d = DeviceApproved" "rt_consumedAt r \<noteq> None"
    "exactRetry db' p r (fa_currentGeneration f) = Inr True" "stored_ok r f" "rt_familyId r = rr_familyId res"
    "rr_generation res = rt_generation r + 1"
proof (cases rule: rotateRefresh_cases [of env "Some now" db cur rot suc ru bytes au])
  case (commits p t out db1)
  have eq: "out = Rotated res" "db1 = db'" "t = now" using commits run by (auto split: rotation_outcome.splits)
  have h: "sha256_hex (pp_successorTokenHash p)" using hex prepareRotation_Inr [OF commits(1)] by (simp add: hex_digest_def)
  note tx = commits(3) [unfolded eq]
  from tx show thesis
  proof (cases rule: rotateInTransaction_Inr)
    case (retry r f u d e tok)
    have ok: "stored_ok r f" using tx retry(1)
      by (auto simp: rotateInTransaction_def stored_ok_def bind_result_eq_Inr requireGeneration_def requireStoredUuid_def split: if_split_asm)
    note t = issueAccess_tables [OF retry(5)]
    have "refresh_join db' (pp_currentTokenHash p) = Some (r, f, u, d)" using retry(1) t by (simp add: refresh_join_def)
    moreover have "exactRetry db' p r (fa_currentGeneration f) = Inr True" using retry(4) exactRetry_cong [OF t(3)] by simp
    ultimately show thesis using that [OF commits(1)] retry ok by (simp add: live_context_def)
  next
    case (first r f u d)
    have ok: "stored_ok r f" using tx first(1)
      by (auto simp: rotateInTransaction_def stored_ok_def bind_result_eq_Inr requireGeneration_def requireStoredUuid_def split: if_split_asm)
    have res: "rr_familyId res = rt_familyId r" "rr_generation res = rt_generation r + 1"
      using first(6) by (auto elim!: rotate_first_Inr)
    from rotate_first_join [OF first(1-4) h first(6)] obtain fe where
      join: "refresh_join db' (pp_currentTokenHash p) = Some (consume_refresh p now r,
         f\<lparr>fa_currentGeneration := rt_generation r + 1, fa_expiresAt := fe\<rparr>, u, d)"
      and ex: "exactRetry db' p (consume_refresh p now r) (rt_generation r + 1) = Inr True" "int (rt_generation r + 1) \<le> MAX_SAFE_INTEGER"
      by blast
    show thesis by (rule that [OF commits(1) join])
        (use ok ex res first(2) in \<open>simp_all add: stored_ok_def consume_refresh_def live_context_def\<close>)
  qed simp
qed (use run in simp)

text \<open>
  A rotation whose reply was lost can be asked for again: the same request, repeated while its family
  lives, is recognised, succeeds with the same family and generation and leaves every refresh token and
  family as it was; it is never taken for theft.
\<close>

theorem lost_reply_can_be_retried:
  assumes hex: "hex_digest env" and run: "rotateRefresh env (Some now) db cur rot suc ru bytes au = (Inr res, db1)"
    and live: "map_of (au_families db1) (rr_familyId res) = Some f" "fa_expiresAt f = Some e" "now' < e"
    and fresh: "fresh_access env db1 now' bytes' au'"
  shows "\<exists>res' db2. rotateRefresh env (Some now') db1 cur rot suc ru' bytes' au' = (Inr res', db2) \<and> rr_wasRetry res' \<and>
     rr_familyId res' = rr_familyId res \<and> rr_generation res' = rr_generation res \<and>
     au_refresh db2 = au_refresh db1 \<and> au_families db2 = au_families db1"
  using hex run
proof (rule rotated_is_retryable)
  fix p r f0 u d
  assume prep: "prepareRotation env cur rot suc = Inr p"
    and r: "refresh_join db1 (pp_currentTokenHash p) = Some (r, f0, u, d)" "fa_status f0 = FamilyActive" "us_status u = UserActive"
      "dv_status d = DeviceApproved" "rt_consumedAt r \<noteq> None" "exactRetry db1 p r (fa_currentGeneration f0) = Inr True" "stored_ok r f0"
      "rt_familyId r = rr_familyId res" "rr_generation res = rt_generation r + 1"
  have "f0 = f" using refresh_join_Some(3) [OF r(1)] live(1) r(8) by simp
  then have "live_context now' f0 u d" using live r by (simp add: live_context_def)
  then obtain e tok db2 where "rotateInTransaction env db1 p now' ru' bytes' au' = Inr (Rotated \<lparr>rr_accessExpiresAt = e, rr_accessToken = tok,
      rr_familyId = rt_familyId r, rr_generation = rt_generation r + 1, rr_wasRetry = True\<rparr>, db2)"
    "au_refresh db2 = au_refresh db1" "au_families db2 = au_families db1"
    by (rule retry_succeeds [OF r(1) _ r(5-7) fresh hex])
  then show ?thesis using r(8,9) by (simp add: rotateRefresh_def prep readClock_def)
qed


section \<open>Revocation\<close>

definition device_families :: "ident \<Rightarrow> auth_db \<Rightarrow> (ident \<times> family_row) list" where
  "device_families d db = filter (\<lambda>(i, f). fa_deviceId f = d) (au_families db)"

definition device_access :: "ident \<Rightarrow> auth_db \<Rightarrow> access_row list" where
  "device_access d db = filter (\<lambda>a. at_deviceId a = d) (au_access db)"

lemma revoke_device_rows_other:
  assumes "x \<noteq> d"
  shows "device_families x (revoke_device_rows d now db) = device_families x db"
    "device_access x (revoke_device_rows d now db) = device_access x db"
    "map_of (au_devices (revoke_device_rows d now db)) x = map_of (au_devices db) x"
proof -
  show "device_families x (revoke_device_rows d now db) = device_families x db"
    using assms unfolding device_families_def revoke_device_rows_def revoke_access_def update_families_def
    by (auto intro!: filter_map_same)
  show "device_access x (revoke_device_rows d now db) = device_access x db"
    using assms unfolding device_access_def revoke_device_rows_def revoke_access_def update_families_def
    by (auto intro!: filter_map_same)
  show "map_of (au_devices (revoke_device_rows d now db)) x = map_of (au_devices db) x"
    using assms by (simp add: revoke_device_rows_devices option.map_ident)
qed

lemma revoke_devices_other:
  assumes "revoke_devices clock ds db = Inr db'" "x \<notin> set ds"
  shows "device_families x db' = device_families x db \<and> device_access x db' = device_access x db \<and>
     map_of (au_devices db') x = map_of (au_devices db) x"
proof (rule revoke_devices_induct [OF assms(1)])
  fix now d db0
  assume d: "d \<in> set ds" and ih: "device_families x db0 = device_families x db \<and> device_access x db0 = device_access x db \<and>
     map_of (au_devices db0) x = map_of (au_devices db) x"
  have "x \<noteq> d" using d assms(2) by blast
  from ih revoke_device_rows_other [OF this] show "device_families x (revoke_device_rows d now db0) = device_families x db \<and>
     device_access x (revoke_device_rows d now db0) = device_access x db \<and>
     map_of (au_devices (revoke_device_rows d now db0)) x = map_of (au_devices db) x" by simp
qed simp

lemma revoke_devices_hit:
  assumes "revoke_devices clock ds db = Inr db'" "x \<in> set ds" "map_of (au_devices db) x \<noteq> None"
  shows "device_revoked x db'"
  using assms
proof (induction ds arbitrary: db)
  case (Cons d ds)
  obtain now where run: "clock = Some now" "revoke_devices clock ds (revoke_device_rows d now db) = Inr db'"
    using Cons.prems(1) by (auto simp: bind_result_eq_Inr revokeDevice_Inr)
  show ?case
  proof (cases "x = d")
    case True
    have "device_revoked d (revoke_device_rows d now db)"
      using Cons.prems(3) True by (auto simp: device_revoked_def revoke_device_rows_devices)
    then show ?thesis using shut_revoke_devices(2) [OF run(2)] True by simp
  next
    case False
    then show ?thesis using Cons.IH [OF run(2)] Cons.prems(2,3) by (simp add: revoke_device_rows_devices)
  qed
qed simp

lemma keyed_filter:
  "distinct (map fst xs) \<Longrightarrow> map_of xs x = Some r \<Longrightarrow> x \<in> set (map fst (filter (\<lambda>(i, d). P d) xs)) \<longleftrightarrow> P r"
proof -
  assume keys: "distinct (map fst xs)" and x: "map_of xs x = Some r"
  have "(x, d) \<in> set xs \<longleftrightarrow> d = r" for d using map_of_eq_Some_iff [OF keys, of x d] x by auto
  then show ?thesis by force
qed

definition member_device :: "member_row \<Rightarrow> device_row \<Rightarrow> bool" where
  "member_device m d \<longleftrightarrow> dv_userId d = mb_userId m \<and> (dv_vaultId d = Some (mb_vaultId m) \<or> dv_vaultId d = None)"

text \<open>
  C19. The revocation of a membership locks out exactly the devices of that member in that vault (and those
  not bound to a vault): after it no access token resolves to such a device, whatever sessions, rotations
  and revocations follow, and the rows, families and access tokens of every other device are untouched.
\<close>

theorem revocation_locks_out_exactly:
  assumes keys: "distinct (map fst (au_devices db))" and m: "map_of (au_memberships db) mid = Some m"
    and run: "revokeMembership clock mid db = (Inr mid, db')" and x: "map_of (au_devices db) x = Some row"
  shows "if member_device m row
     then \<forall>env ops now tok s. lookupAccess env now (sessions.run env db' ops) tok = Inr (Some s) \<longrightarrow> se_deviceId s \<noteq> x
     else device_families x db' = device_families x db \<and> device_access x db' = device_access x db \<and>
          map_of (au_devices db') x = Some row"
proof (cases rule: revokeMembership_cases [of clock mid db])
  case (commits now m' db1)
  let ?burnt = "map fst (filter (\<lambda>(i, d). dv_userId d = mb_userId m \<and>
      (dv_vaultId d = Some (mb_vaultId m) \<or> dv_vaultId d = None)) (au_devices db))"
  have eq: "m' = m" "db1 = db'" using commits(2,3) m run by simp_all
  have mem: "x \<in> set ?burnt \<longleftrightarrow> member_device m row"
    using keyed_filter [OF keys x, of "member_device m"] by (simp add: member_device_def)
  show ?thesis
  proof (cases "member_device m row")
    case True
    have "device_revoked x db'"
      by (rule revoke_devices_hit [OF commits(4) [unfolded eq]]) (use True mem x in simp_all)
    then have "device_revoked x (sessions.run env db' ops)" for env ops by (rule expelled.run_inv)
    then show ?thesis using True revoked_device_lookup by metis
  next
    case False
    then show ?thesis using revoke_devices_other [OF commits(4) [unfolded eq], of x] mem x
      by (simp add: device_families_def device_access_def)
  qed
qed (use run in simp)


section \<open>A small server\<close>

definition demo_uuid :: "nat \<Rightarrow> jsstr" where
  "demo_uuid n = replicate 8 48 @ [45] @ replicate 4 48 @ [45, 52] @ replicate 3 48 @ [45, 56] @ replicate 3 48 @ [45] @ replicate 11 48 @ [48 + n]"

definition demo_token :: "token_domain \<Rightarrow> nat \<Rightarrow> jsstr" where
  "demo_token domain k = generateToken domain (replicate 32 (4 * k))"

definition demo_env :: session_env where
  "demo_env = \<lparr>sv_sha = (\<lambda>v. replicate 63 48 @ [48 + v ! 6 mod 10]), sv_accessTtlSeconds = 600\<rparr>"

definition demo_db :: auth_db where
  "demo_db = \<lparr>au_vaults = [(demo_uuid 0, ([86], False))],
     au_users = [(demo_uuid 1, \<lparr>us_displayName = [65], us_status = UserActive\<rparr>)],
     au_devices = [(demo_uuid 2, \<lparr>dv_userId = demo_uuid 1, dv_displayName = [76], dv_status = DeviceApproved, dv_approvedAt = None,
         dv_revokedAt = None, dv_rejoinSecretHash = None, dv_vaultId = Some (demo_uuid 0)\<rparr>)],
     au_memberships = [(demo_uuid 3, \<lparr>mb_vaultId = demo_uuid 0, mb_userId = demo_uuid 1, mb_role = RoleOwner,
         mb_status = MemberActive, mb_kind = KindPerson, mb_revokedAt = None\<rparr>)],
     au_families = [], au_refresh = [], au_access = [], au_invitations = [], au_grants = [], au_pinned = []\<rparr>"

definition demo_open :: auth_db where
  "demo_open = snd (session_step demo_env demo_db (CreateSessionOp (Some 0) (demo_uuid 1) (demo_uuid 2) (demo_token RefreshTokenDomain 1)
     86400 (demo_uuid 4) (demo_uuid 5) (replicate 32 0) (demo_uuid 6)))"

definition demo_rotate :: "nat \<Rightarrow> auth_db \<Rightarrow> (session_error + rotation_result) \<times> auth_db" where
  "demo_rotate k db = rotateRefresh demo_env (Some 1000) db (demo_token RefreshTokenDomain 1) (demo_token RefreshRotationIdDomain k)
     (demo_token RefreshTokenDomain (k + 1)) (demo_uuid 7) (replicate 32 4) (demo_uuid 8)"

lemma demo_hex: "hex_digest demo_env"
  by (auto simp: hex_digest_def demo_env_def sha256_hex_def list_all_iff)

lemma demo_open_inv: "sess_inv demo_open"
proof -
  have "sess_inv demo_db" by (simp add: sess_inv_def demo_db_def)
  then show ?thesis unfolding demo_open_def by (rule session_step_inv [OF _ demo_hex])
qed

lemma live_context_code [code]:
  "live_context now f u d \<longleftrightarrow> (case fa_expiresAt f of Some e \<Rightarrow> now < e | None \<Rightarrow> False) \<and> fa_status f = FamilyActive \<and>
     us_status u = UserActive \<and> dv_status d = DeviceApproved"
  by (auto simp: live_context_def split: option.splits)

text \<open>A session is opened, its token rotated; the same request is repeated, and a thief presents the old token.\<close>

lemma demo_rotates:
  "case demo_rotate 1 demo_open of
     (Inr res, db) \<Rightarrow> \<not> rr_wasRetry res \<and>
       (case map_of (au_families db) (rr_familyId res) of Some f \<Rightarrow> (case fa_expiresAt f of Some e \<Rightarrow> 2000 < e | None \<Rightarrow> False) | None \<Rightarrow> False) \<and>
       fresh_access demo_env db 2000 (replicate 32 8) (demo_uuid 9) \<and>
       (case refresh_join db (sv_sha demo_env (demo_token RefreshTokenDomain 1)) of
          Some (r, f, u, d) \<Rightarrow> rt_consumedAt r \<noteq> None \<and> rt_rotationId r \<noteq> Some (demo_token RefreshRotationIdDomain 2) \<and>
            live_context 2000 f u d \<and> stored_ok r f
        | None \<Rightarrow> False)
   | _ \<Rightarrow> False"
  by code_simp

lemma demo_prepares:
  "case prepareRotation demo_env (demo_token RefreshTokenDomain 1) (demo_token RefreshRotationIdDomain 2) (demo_token RefreshTokenDomain 3) of
     Inr _ \<Rightarrow> True | Inl _ \<Rightarrow> False"
  by code_simp

lemma demo_revokes:
  "case revokeMembership (Some 5) (demo_uuid 3) demo_db of (Inr i, db) \<Rightarrow> i = demo_uuid 3 | _ \<Rightarrow> False"
  by code_simp

lemma demo_rotated:
  obtains res db where "demo_rotate 1 demo_open = (Inr res, db)" "\<not> rr_wasRetry res"
    "\<exists>f e. map_of (au_families db) (rr_familyId res) = Some f \<and> fa_expiresAt f = Some e \<and> 2000 < e"
    "fresh_access demo_env db 2000 (replicate 32 8) (demo_uuid 9)"
    "\<exists>r f u d. refresh_join db (sv_sha demo_env (demo_token RefreshTokenDomain 1)) = Some (r, f, u, d) \<and> rt_consumedAt r \<noteq> None \<and>
       rt_rotationId r \<noteq> Some (demo_token RefreshRotationIdDomain 2) \<and> live_context 2000 f u d \<and> stored_ok r f"
  using demo_rotates by (auto split: prod.splits sum.splits option.splits)

theorem rotation_moves_the_live_token_witness:
  "\<exists>res db. demo_rotate 1 demo_open = (Inr res, db) \<and>
     live_tokens demo_open (rr_familyId res) = [sv_sha demo_env (demo_token RefreshTokenDomain 1)] \<and>
     live_tokens db (rr_familyId res) = [sv_sha demo_env (demo_token RefreshTokenDomain 2)]"
proof (rule demo_rotated)
  fix res db
  assume run: "demo_rotate 1 demo_open = (Inr res, db)" and "\<not> rr_wasRetry res"
  then show ?thesis
    using rotation_moves_the_live_token [OF demo_open_inv demo_hex run [unfolded demo_rotate_def]] by (simp add: numeral_2_eq_2)
qed

theorem lost_reply_can_be_retried_witness:
  "\<exists>res db res' db'. demo_rotate 1 demo_open = (Inr res, db) \<and>
     rotateRefresh demo_env (Some 2000) db (demo_token RefreshTokenDomain 1) (demo_token RefreshRotationIdDomain 1)
       (demo_token RefreshTokenDomain (1 + 1)) (demo_uuid 9) (replicate 32 8) (demo_uuid 9) = (Inr res', db') \<and>
     rr_wasRetry res' \<and> rr_generation res' = rr_generation res \<and> au_refresh db' = au_refresh db"
proof (rule demo_rotated)
  fix res db
  assume run: "demo_rotate 1 demo_open = (Inr res, db)" and "fresh_access demo_env db 2000 (replicate 32 8) (demo_uuid 9)"
    "\<exists>f e. map_of (au_families db) (rr_familyId res) = Some f \<and> fa_expiresAt f = Some e \<and> 2000 < e"
  then show ?thesis
    using lost_reply_can_be_retried [OF demo_hex run [unfolded demo_rotate_def], of _ _ 2000 "replicate 32 8" "demo_uuid 9" "demo_uuid 9"]
    by blast
qed

theorem stolen_token_is_contained_witness:
  "\<exists>db db' fam. snd (demo_rotate 1 demo_open) = db \<and>
     rotateRefresh demo_env (Some 2000) db (demo_token RefreshTokenDomain 1) (demo_token RefreshRotationIdDomain 2)
       (demo_token RefreshTokenDomain 3) (demo_uuid 9) (replicate 32 8) (demo_uuid 9) = (Inl REFRESH_REUSE_DETECTED, db') \<and>
     (\<forall>ops clock tok s. lookupAccess demo_env clock (sessions.run demo_env db' ops) tok = Inr (Some s) \<longrightarrow> se_familyId s \<noteq> fam)"
proof (rule demo_rotated)
  fix res db
  assume run: "demo_rotate 1 demo_open = (Inr res, db)" and "\<exists>r f u d. refresh_join db (sv_sha demo_env (demo_token RefreshTokenDomain 1)) =
      Some (r, f, u, d) \<and> rt_consumedAt r \<noteq> None \<and> rt_rotationId r \<noteq> Some (demo_token RefreshRotationIdDomain 2) \<and>
      live_context 2000 f u d \<and> stored_ok r f"
  then obtain r f u d where r: "refresh_join db (sv_sha demo_env (demo_token RefreshTokenDomain 1)) = Some (r, f, u, d)"
      "rt_consumedAt r \<noteq> None" "rt_rotationId r \<noteq> Some (demo_token RefreshRotationIdDomain 2)" "live_context 2000 f u d" "stored_ok r f"
    by blast
  have "db = snd (session_step demo_env demo_open (RotateOp (Some 1000) (demo_token RefreshTokenDomain 1) (demo_token RefreshRotationIdDomain 1)
     (demo_token RefreshTokenDomain (1 + 1)) (demo_uuid 7) (replicate 32 4) (demo_uuid 8)))"
    using run by (simp add: demo_rotate_def)
  then have inv: "sess_inv db" using session_step_inv [OF demo_open_inv demo_hex] by (simp only:)
  obtain p where prep: "prepareRotation demo_env (demo_token RefreshTokenDomain 1) (demo_token RefreshRotationIdDomain 2) (demo_token RefreshTokenDomain 3) = Inr p"
    using demo_prepares by (auto split: sum.splits)
  show ?thesis
    using stolen_token_is_contained [OF inv demo_hex prep r(1,2) disjI1 [OF r(3)] r(4,5), of "demo_uuid 9" "replicate 32 8" "demo_uuid 9"] run
    by auto
qed

theorem revocation_locks_out_exactly_witness:
  "\<exists>db. revokeMembership (Some 5) (demo_uuid 3) demo_db = (Inr (demo_uuid 3), db) \<and>
     (\<forall>ops now tok s. lookupAccess demo_env now (sessions.run demo_env db ops) tok = Inr (Some s) \<longrightarrow> se_deviceId s \<noteq> demo_uuid 2)"
proof -
  obtain db where run: "revokeMembership (Some 5) (demo_uuid 3) demo_db = (Inr (demo_uuid 3), db)"
    using demo_revokes by (auto split: prod.splits sum.splits)
  show ?thesis
    using revocation_locks_out_exactly [of demo_db "demo_uuid 3" _ "Some 5" db "demo_uuid 2"] run
    by (auto simp: demo_db_def member_device_def)
qed

end
