(* ===== verification/Invitations_Theorems.thy ===== *)
theory Invitations_Theorems
  imports Invitations Sessions_Theorems
begin

text \<open>
  What onboarding promises over any sequence of its operations and those of the session repository: an
  invitation is redeemed at most once, at most three wrong codes are ever tried against it, and a device
  becomes approved only by an owner of the vault who knows the code shown to the joining device.
\<close>

section \<open>Metered machines\<close>

text \<open>
  A machine whose steps may be hits, with a budget that every hit lowers and that a step raises by its
  income at most: no run hits more often than the budget it starts with and its income allow.
\<close>

locale metered_machine = invariant_machine step inv
  for step :: "'s \<Rightarrow> 'i \<Rightarrow> 'o \<times> 's" and inv :: "'s \<Rightarrow> bool" +
  fixes hit :: "'i \<Rightarrow> 'o \<Rightarrow> bool" and budget :: "'s \<Rightarrow> nat" and income :: "'i \<Rightarrow> nat"
  assumes pays: "inv s \<Longrightarrow> budget (snd (step s i)) + (if hit i (fst (step s i)) then 1 else 0) \<le> budget s + income i"
begin

fun hits :: "'s \<Rightarrow> 'i list \<Rightarrow> nat" where
  "hits s [] = 0"
| "hits s (i # is) = (if hit i (fst (step s i)) then 1 else 0) + hits (snd (step s i)) is"

lemma hits_bounded: "inv s \<Longrightarrow> hits s is + budget (run s is) \<le> budget s + sum_list (map income is)"
proof (induction "is" arbitrary: s)
  case (Cons i "is")
  have "hits (snd (step s i)) is + budget (run (snd (step s i)) is) \<le> budget (snd (step s i)) + sum_list (map income is)"
    using Cons.IH [OF step_inv [OF Cons.prems]] .
  then show ?case using pays [OF Cons.prems, of i] by simp
qed simp

end

section \<open>Operations as steps\<close>

datatype onboarding_op =
    InviteOp "int option" "nat list" nat jsstr jsstr create_invitation_input
  | RedeemOp "int option" "nat list" jsstr redeem_input
  | ApproveOp "int option" "int option" jsstr jsstr jsstr ident ident jsstr
  | RejectOp ident ident
  | SessionOp session_op

text \<open>The reply is the error, if any.\<close>

fun onboarding_step :: "invitation_env \<Rightarrow> auth_db \<Rightarrow> onboarding_op \<Rightarrow> invitation_error option \<times> auth_db" where
  "onboarding_step env db (InviteOp clock bytes pin mu iu input) =
     (case createInvitation env clock bytes pin mu iu input db of Inl e \<Rightarrow> (Some e, db) | Inr (_, db') \<Rightarrow> (None, db'))"
| "onboarding_step env db (RedeemOp clock bytes du input) =
     (case redeemInvitationForOnboarding env clock bytes du input db of (Inl e, db') \<Rightarrow> (Some e, db') | (Inr _, db') \<Rightarrow> (None, db'))"
| "onboarding_step env db (ApproveOp clock clock2 mu fu ru i a phrase) =
     (case approveRedeemedDevice env clock clock2 mu fu ru i a phrase db of (Inl e, db') \<Rightarrow> (Some e, db') | (Inr _, db') \<Rightarrow> (None, db'))"
| "onboarding_step env db (RejectOp i a) =
     (case rejectPendingDevice i a db of Inl e \<Rightarrow> (Some e, db) | Inr db' \<Rightarrow> (None, db'))"
| "onboarding_step env db (SessionOp op) =
     (let (ok, db') = session_step (session_env.truncate env) db op in (if ok then None else Some (IE_Session INVALID_INPUT), db'))"

section \<open>The invariant\<close>

definition pending_ok :: "auth_db \<Rightarrow> invitation_row \<Rightarrow> bool" where
  "pending_ok db v \<longleftrightarrow>
     (case iv_pendingDeviceId v of
        None \<Rightarrow> True
      | Some d \<Rightarrow> iv_consumedAt v \<noteq> None \<and>
          (\<exists>dev. map_of (au_devices db) d = Some dev \<and> iv_consumedByUserId v = Some (dv_userId dev)))"

definition attempts_ok :: "invitation_row \<Rightarrow> bool" where
  "attempts_ok v \<longleftrightarrow> (iv_consumedAt v = None \<or> iv_pendingDeviceId v \<noteq> None \<longrightarrow> iv_approvalAttempts v < MAX_APPROVAL_ATTEMPTS)"

definition invite_fk :: "auth_db \<Rightarrow> bool" where
  "invite_fk db \<longleftrightarrow> distinct (map fst (au_devices db)) \<and> distinct (map fst (au_invitations db)) \<and>
     (\<forall>i d. map_of (au_devices db) i = Some d \<longrightarrow> map_of (au_users db) (dv_userId d) \<noteq> None) \<and>
     (\<forall>i v. map_of (au_invitations db) i = Some v \<longrightarrow> pending_ok db v)"

definition invite_inv :: "auth_db \<Rightarrow> bool" where
  "invite_inv db \<longleftrightarrow> invite_fk db \<and> (\<forall>i v. map_of (au_invitations db) i = Some v \<longrightarrow> attempts_ok v)"

definition device_pending :: "auth_db \<Rightarrow> ident \<Rightarrow> bool" where
  "device_pending db d \<longleftrightarrow> (case map_of (au_devices db) d of Some x \<Rightarrow> dv_status x = DevicePending | None \<Rightarrow> False)"

definition device_approved :: "auth_db \<Rightarrow> ident \<Rightarrow> bool" where
  "device_approved db d \<longleftrightarrow> (case map_of (au_devices db) d of Some x \<Rightarrow> dv_status x = DeviceApproved | None \<Rightarrow> False)"

text \<open>A step that keeps invitations and users and only revokes devices.\<close>

definition revokes_only :: "auth_db \<Rightarrow> auth_db \<Rightarrow> bool" where
  "revokes_only db db' \<longleftrightarrow> au_invitations db' = au_invitations db \<and> au_users db' = au_users db \<and> au_grants db' = au_grants db \<and>
     map fst (au_devices db') = map fst (au_devices db) \<and>
     (\<forall>d. case map_of (au_devices db) d of
         None \<Rightarrow> map_of (au_devices db') d = None
       | Some x \<Rightarrow> (\<exists>y. map_of (au_devices db') d = Some y \<and> dv_userId y = dv_userId x \<and>
            (dv_status y = dv_status x \<or> dv_status y = DeviceRevoked)))"

lemma revokes_only_same:
  "au_invitations db' = au_invitations db \<Longrightarrow> au_users db' = au_users db \<Longrightarrow> au_devices db' = au_devices db \<Longrightarrow>
   au_grants db' = au_grants db \<Longrightarrow> revokes_only db db'"
  by (auto simp: revokes_only_def split: option.splits)

lemma revokes_only_trans:
  assumes "revokes_only a b" "revokes_only b c"
  shows "revokes_only a c"
proof -
  have "case map_of (au_devices a) d of
         None \<Rightarrow> map_of (au_devices c) d = None
       | Some x \<Rightarrow> (\<exists>y. map_of (au_devices c) d = Some y \<and> dv_userId y = dv_userId x \<and>
            (dv_status y = dv_status x \<or> dv_status y = DeviceRevoked))" for d
  proof (cases "map_of (au_devices a) d")
    case None
    then have "map_of (au_devices b) d = None" using assms(1) by (auto simp: revokes_only_def dest: spec [of _ d])
    then show ?thesis using None assms(2) by (auto simp: revokes_only_def dest: spec [of _ d])
  next
    case (Some x)
    then obtain y where y: "map_of (au_devices b) d = Some y" "dv_userId y = dv_userId x" "dv_status y = dv_status x \<or> dv_status y = DeviceRevoked"
      using assms(1) by (auto simp: revokes_only_def dest!: spec [of _ d])
    then obtain z where "map_of (au_devices c) d = Some z" "dv_userId z = dv_userId y" "dv_status z = dv_status y \<or> dv_status z = DeviceRevoked"
      using assms(2) by (auto simp: revokes_only_def dest!: spec [of _ d])
    then show ?thesis using y Some by auto
  qed
  then show ?thesis using assms by (simp add: revokes_only_def)
qed

lemma revokes_only_rows: "revokes_only db (revoke_device_rows d now db)"
proof -
  have "au_invitations (revoke_device_rows d now db) = au_invitations db" "au_users (revoke_device_rows d now db) = au_users db"
    "au_grants (revoke_device_rows d now db) = au_grants db"
    "map fst (au_devices (revoke_device_rows d now db)) = map fst (au_devices db)"
    by (simp_all add: revoke_device_rows_def revoke_access_def update_families_def comp_def split_beta)
  then show ?thesis by (auto simp: revokes_only_def revoke_device_rows_devices split: option.splits)
qed

lemma revokes_only_frame: "revokes_only db (db\<lparr>au_families := f, au_refresh := r, au_access := a\<rparr>)"
  by (rule revokes_only_same) simp_all

lemma issueAccess_frame:
  assumes "issueAccess env db fid u d now fe bytes au = Inr ((e, tok), db')"
  obtains a where "db' = db\<lparr>au_access := a\<rparr>"
  using assms by (rule issueAccess_Inr) (rule that)

lemma markReuse_revokes: "revokes_only db (markReuse i now db)"
  by (rule revokes_only_same) (simp_all add: markReuse_def revoke_access_def update_families_def)

lemma rotate_revokes:
  assumes "rotateInTransaction env db p now ru bytes au = Inr (out, db')"
  shows "revokes_only db db'"
  using assms
proof (cases rule: rotateInTransaction_Inr)
  case (reuse r f u d)
  then show ?thesis using markReuse_revokes by simp
next
  case (retry r f u d e tok)
  from retry(5) show ?thesis by (rule issueAccess_frame) (auto intro: revokes_only_same)
next
  case (first r f u d)
  from first(6) show ?thesis
  proof (rule rotate_first_Inr)
    fix n fe e tok
    assume "issueAccess env (update_families (\<lambda>i x. i = rt_familyId r \<and> fa_status x = FamilyActive \<and> fa_currentGeneration x = rt_generation r)
        (\<lambda>x. x\<lparr>fa_currentGeneration := rt_generation r + 1, fa_expiresAt := fe\<rparr>)
        (db\<lparr>au_refresh := map (consume_if p now r) (au_refresh db) @ [n]\<rparr>)) (rt_familyId r) (fa_userId f) (fa_deviceId f) now fe bytes au = Inr ((e, tok), db')"
    then show ?thesis by (rule issueAccess_frame) (auto intro: revokes_only_same simp: update_families_def)
  qed
qed

lemma create_family_frame:
  assumes "create_family env db u d h ttl now fu ru = Inr (res, db')"
  obtains f r where "db' = db\<lparr>au_families := f, au_refresh := r\<rparr>"
proof -
  obtain fid e where "create_family env db u d h ttl now fu ru = Inr ((fid, e), db')" using assms by (cases res) auto
  then show thesis by (rule create_family_Inr) (rule that)
qed

lemma revokeMembership_revokes: "revokes_only db (snd (revokeMembership clock m db))"
proof (cases rule: revokeMembership_cases [of clock m db])
  case (commits now x db')
  have "revokes_only db db'"
  proof (rule revoke_devices_induct [OF commits(4)])
    show "revokes_only db (revoke_device_rows d t db0)" if "revokes_only db db0" for t d db0
      using revokes_only_trans [OF that revokes_only_rows] .
  qed (rule revokes_only_same, simp_all)
  then show ?thesis using commits(3) by simp
qed (auto intro: revokes_only_same)

lemma session_step_revokes: "revokes_only db (snd (session_step env db op))"
proof (cases op)
  case (RotateOp clock cur rot suc ru bytes au)
  show ?thesis
    by (cases rule: rotateRefresh_cases [of env clock db cur rot suc ru bytes au])
       (use RotateOp rotate_revokes in \<open>auto intro: revokes_only_same\<close>)
next
  case (CreateSessionOp clock u d tok ttl fu ru bytes au)
  show ?thesis
  proof (cases rule: settled_op_cases [of db "createInitialSessionInCurrentTransaction env clock db u d tok ttl fu ru bytes au"])
    case (2 a db')
    from 2(1) show ?thesis
    proof (rule createInitialSession_Inr)
      fix now fid e e' tok' db1
      assume run: "create_family env db u d (sv_sha env tok) ttl now fu ru = Inr ((fid, e), db1)"
        "issueAccess env db1 fid u d now e bytes au = Inr ((e', tok'), db')"
      from run(1) obtain f r where "db1 = db\<lparr>au_families := f, au_refresh := r\<rparr>" by (rule create_family_frame)
      moreover from run(2) obtain x where "db' = db1\<lparr>au_access := x\<rparr>" by (rule issueAccess_frame)
      ultimately show ?thesis using 2(2) CreateSessionOp by (simp add: revokes_only_same)
    qed
  qed (use CreateSessionOp in \<open>simp add: revokes_only_same\<close>)
next
  case (CreateFamilyOp clock u d h ttl fu ru)
  show ?thesis
  proof (cases rule: settled_op_cases [of db "createInitialFamilyFromHashInCurrentTransaction env clock db u d h ttl fu ru"])
    case (2 a db')
    from 2(1) obtain now where "create_family env db u d h ttl now fu ru = Inr (a, db')" by (rule createInitialFamily_Inr)
    then obtain f r where "db' = db\<lparr>au_families := f, au_refresh := r\<rparr>" by (rule create_family_frame)
    then show ?thesis using 2(2) CreateFamilyOp by (simp add: revokes_only_same)
  qed (use CreateFamilyOp in \<open>simp add: revokes_only_same\<close>)
next
  case (RevokeDeviceOp clock d)
  then show ?thesis
    by (auto simp: settled_op_def bind_result_eq_Inr revokeDevice_Inr revokes_only_rows revokes_only_same split: sum.splits)
next
  case (RevokeMembershipOp clock m)
  then show ?thesis using revokeMembership_revokes by (simp add: split_beta)
qed

lemma revokes_only_inv:
  assumes inv: "invite_fk db" and rev: "revokes_only db db'"
  shows "invite_fk db'"
proof -
  have before: "\<exists>x. map_of (au_devices db) d = Some x \<and> dv_userId x = dv_userId y" if "map_of (au_devices db') d = Some y" for d y
    using rev that by (cases "map_of (au_devices db) d") (auto simp: revokes_only_def dest!: spec [of _ d])
  have after: "\<exists>y. map_of (au_devices db') d = Some y \<and> dv_userId y = dv_userId x" if "map_of (au_devices db) d = Some x" for d x
    using rev that by (auto simp: revokes_only_def dest!: spec [of _ d])
  have "pending_ok db' v" if "pending_ok db v" for v
    using that after by (fastforce simp: pending_ok_def split: option.splits)
  moreover have "map_of (au_users db') (dv_userId y) \<noteq> None" if y: "map_of (au_devices db') d = Some y" for d y
  proof -
    obtain x where "map_of (au_devices db) d = Some x" "dv_userId x = dv_userId y" using before [OF y] by blast
    then show ?thesis using inv rev unfolding invite_fk_def revokes_only_def by metis
  qed
  ultimately show ?thesis using inv rev by (simp add: invite_fk_def revokes_only_def)
qed

lemma revokes_only_devices:
  assumes "revokes_only db db'"
  shows "device_pending db' d \<Longrightarrow> device_pending db d" "device_approved db' d \<Longrightarrow> device_approved db d"
  using assms by (cases "map_of (au_devices db) d"; auto simp: revokes_only_def device_pending_def device_approved_def dest!: spec [of _ d])+

section \<open>Deleting a pending user\<close>

lemma map_of_filter_key: "map_of (filter (\<lambda>(i, _). P i) xs) k = (if P k then map_of xs k else None)"
  by (induction xs) auto

lemma map_of_filter_row:
  "distinct (map fst xs) \<Longrightarrow> map_of (filter (\<lambda>(_, d). P d) xs) k = (case map_of xs k of Some d \<Rightarrow> if P d then Some d else None | None \<Rightarrow> None)"
  by (induction xs) (auto split: option.splits simp: map_of_eq_None_iff image_iff)

lemma distinct_filter_keys: "distinct (map fst xs) \<Longrightarrow> distinct (map fst (filter P xs))"
  by (simp add: distinct_map_filter)

text \<open>What the deletion leaves of an invitation.\<close>

definition forgotten :: "auth_db \<Rightarrow> ident \<Rightarrow> invitation_row \<Rightarrow> invitation_row" where
  "forgotten db userId v = v\<lparr>
     iv_consumedByUserId := (if iv_consumedByUserId v = Some userId then None else iv_consumedByUserId v),
     iv_pendingDeviceId := (case iv_pendingDeviceId v of
        Some d \<Rightarrow> if d \<in> set (map fst (filter (\<lambda>(_, d). dv_userId d = userId) (au_devices db))) then None else Some d | None \<Rightarrow> None)\<rparr>"

lemma forgotten_fields [simp]:
  "iv_consumedAt (forgotten db u v) = iv_consumedAt v" "iv_approvalAttempts (forgotten db u v) = iv_approvalAttempts v"
  "iv_tokenHash (forgotten db u v) = iv_tokenHash v"
  by (simp_all add: forgotten_def)

lemma filters_some: "\<exists>P. filter Q xs = filter P xs"
  by blast

lemma deletePendingUser_Inr:
  assumes "deletePendingUser u db = Inr db'"
  obtains "db' = db" "map_of (au_users db) u = None"
    | "au_invitations db' = map (\<lambda>(i, v). (i, forgotten db u v)) (au_invitations db)"
      "au_devices db' = filter (\<lambda>(_, d). dv_userId d \<noteq> u) (au_devices db)"
      "au_users db' = filter (\<lambda>(i, _). i \<noteq> u) (au_users db)" "au_memberships db' = filter (\<lambda>(_, m). mb_userId m \<noteq> u) (au_memberships db)"
      "\<exists>P. au_grants db' = filter P (au_grants db)"
  using assms by (auto simp: deletePendingUser_def Let_def forgotten_def filters_some split: if_split_asm)

lemma map_of_map_row: "map_of (map (\<lambda>(i, v). (i, f v)) xs) k = map_option f (map_of xs k)"
  by (induction xs) auto

lemma deletePendingUser_inv:
  assumes inv: "invite_fk db" and run: "deletePendingUser u db = Inr db'"
  shows "invite_fk db'"
  using run
proof (rule deletePendingUser_Inr)
  assume eqs: "au_invitations db' = map (\<lambda>(i, v). (i, forgotten db u v)) (au_invitations db)"
      "au_devices db' = filter (\<lambda>(_, d). dv_userId d \<noteq> u) (au_devices db)"
      "au_users db' = filter (\<lambda>(i, _). i \<noteq> u) (au_users db)"
  have keys: "distinct (map fst (au_devices db))" using inv by (simp add: invite_fk_def)
  have dev: "map_of (au_devices db') d = Some x \<longleftrightarrow> map_of (au_devices db) d = Some x \<and> dv_userId x \<noteq> u" for d x
    unfolding eqs by (auto simp: map_of_filter_row [OF keys] split: option.splits)
  have "pending_ok db' (forgotten db u v)" if "map_of (au_invitations db) i = Some v" for i v
  proof -
    have ok: "pending_ok db v" using inv that by (auto simp: invite_fk_def simp del: map_of_eq_Some_iff)
    show ?thesis
    proof (cases "iv_pendingDeviceId v")
      case None
      then show ?thesis using ok by (simp add: pending_ok_def forgotten_def)
    next
      case (Some d)
      then obtain x where x: "map_of (au_devices db) d = Some x" "iv_consumedByUserId v = Some (dv_userId x)"
        using ok by (auto simp: pending_ok_def)
      then have "d \<in> set (map fst (filter (\<lambda>(_, y). dv_userId y = u) (au_devices db))) \<longleftrightarrow> dv_userId x = u"
        by (intro keyed_filter [OF keys])
      then show ?thesis using Some x ok dev by (simp add: pending_ok_def forgotten_def)
    qed
  qed
  moreover have "map_of (au_users db') (dv_userId x) \<noteq> None" if "map_of (au_devices db') d = Some x" for d x
  proof -
    have "map_of (au_devices db) d = Some x" "dv_userId x \<noteq> u" using that dev by auto
    moreover from this have "map_of (au_users db) (dv_userId x) \<noteq> None" using inv unfolding invite_fk_def by blast
    ultimately show ?thesis by (simp add: eqs map_of_filter_key)
  qed
  moreover have "distinct (map fst (au_devices db'))" using distinct_filter_keys [OF keys] by (simp add: eqs)
  moreover have "map_of (au_invitations db') i = map_option (forgotten db u) (map_of (au_invitations db) i)" for i
    by (simp only: eqs map_of_map_row)
  moreover have "map fst (au_invitations db') = map fst (au_invitations db)" by (simp add: eqs comp_def split_beta)
  ultimately show ?thesis using inv unfolding invite_fk_def by auto
qed (use inv in simp)

lemma deletePendingUser_devices:
  assumes inv: "invite_fk db" and run: "deletePendingUser u db = Inr db'"
  shows "device_pending db' d \<Longrightarrow> device_pending db d" "device_approved db' d \<Longrightarrow> device_approved db d"
proof -
  have keys: "distinct (map fst (au_devices db))" using inv by (simp add: invite_fk_def)
  have "map_of (au_devices db') d = Some x \<Longrightarrow> map_of (au_devices db) d = Some x" for x
    using run by (rule deletePendingUser_Inr) (auto simp: map_of_filter_row [OF keys] split: option.splits if_split_asm)
  then show "device_pending db' d \<Longrightarrow> device_pending db d" "device_approved db' d \<Longrightarrow> device_approved db d"
    by (auto simp: device_pending_def device_approved_def split: option.splits)
qed

section \<open>Inversion of the operations\<close>

lemma update_invitation_fields [simp]:
  "au_devices (update_invitation p f db) = au_devices db" "au_users (update_invitation p f db) = au_users db"
  "au_memberships (update_invitation p f db) = au_memberships db" "au_grants (update_invitation p f db) = au_grants db"
  "map fst (au_invitations (update_invitation p f db)) = map fst (au_invitations db)"
  "map_of (au_invitations (update_invitation p f db)) i = map_option (\<lambda>v. if p i v then f v else v) (map_of (au_invitations db) i)"
  by (simp_all add: update_invitation_def comp_def split_beta map_of_map_snd)

lemma device_update_invitation [simp]:
  "device_pending (update_invitation p f db) = device_pending db" "device_approved (update_invitation p f db) = device_approved db"
  "pending_ok (update_invitation p f db) = pending_ok db"
  unfolding fun_eq_iff device_pending_def device_approved_def pending_ok_def update_invitation_fields by simp_all

lemma update_invitation_inv:
  assumes "invite_fk db" "\<And>i v. map_of (au_invitations db) i = Some v \<Longrightarrow> p i v \<Longrightarrow> pending_ok db v \<Longrightarrow> pending_ok db (f v)"
  shows "invite_fk (update_invitation p f db)"
  using assms unfolding invite_fk_def by auto

lemma insert_invitation_Inr:
  "insert_invitation db i row = Inr db' \<Longrightarrow> map_of (au_invitations db) i = None \<and> db' = db\<lparr>au_invitations := au_invitations db @ [(i, row)]\<rparr> \<and>
     \<not> list_ex (\<lambda>(_, v). iv_tokenHash v = iv_tokenHash row) (au_invitations db)"
  by (auto simp: insert_invitation_def split: if_split_asm)

lemma createInvitation_Inr:
  assumes "createInvitation env clock bytes pin mu iu input db = Inr (res, db')"
  obtains v i where "map_of (au_invitations db) i = None" "db' = db\<lparr>au_invitations := au_invitations db @ [(i, v)]\<rparr>"
    "iv_consumedAt v = None" "iv_pendingDeviceId v = None" "iv_approvalAttempts v = 0"
    "\<not> list_ex (\<lambda>(_, x). iv_tokenHash x = iv_tokenHash v) (au_invitations db)"
  using assms unfolding createInvitation_def Let_def
  by (auto simp: bind_result_eq_Inr dest!: insert_invitation_Inr intro!: that)

lemma redeem_rows_Inr:
  assumes "redeem_rows env now ch rh rj du name invitationId v userId userName db = Inr ((devId, phrase), db')"
  obtains row urow where "map_of (au_devices db) devId = None"
    "au_devices db' = au_devices db @ [(devId, row)]" "dv_userId row = userId" "dv_status row = DevicePending"
    "au_users db' = au_users db @ [(userId, urow)]" "map_of (au_users db) userId = None"
    "au_invitations db' = au_invitations (update_invitation (\<lambda>i x. i = invitationId \<and> iv_consumedAt x = None)
       (consume_invitation now userId devId ch rh) db)"
    "au_memberships db' = au_memberships db" "au_grants db' = au_grants db"
proof -
  obtain db1 db2 urow row where ins: "insert_user db userId urow = Inr db1" "insert_device db1 devId row = Inr db2"
      "dv_userId row = userId" "dv_status row = DevicePending"
    and out: "db' = update_invitation (\<lambda>i x. i = invitationId \<and> iv_consumedAt x = None) (consume_invitation now userId devId ch rh) db2"
    using assms unfolding redeem_rows_def Let_def by (auto simp: bind_result_eq_Inr split: option.splits if_split_asm)
  from ins(1) have "map_of (au_users db) userId = None" "db1 = db\<lparr>au_users := au_users db @ [(userId, urow)]\<rparr>"
    by (auto simp: insert_user_def split: if_split_asm)
  moreover from ins(2) have "map_of (au_devices db1) devId = None" "db2 = db1\<lparr>au_devices := au_devices db1 @ [(devId, row)]\<rparr>"
    by (auto simp: insert_device_def split: if_split_asm)
  ultimately show thesis by (intro that [of row urow]) (simp_all add: out ins update_invitation_def)
qed

lemma hashParsed_Some: "hashParsed sha domain v = Some h \<Longrightarrow> h = sha v"
  by (auto simp: hashParsed_def dest!: parseToken_Some)

lemma redeem_cases:
  obtains (fails) e where "redeemInvitationForOnboarding env clock bytes du input db = (Inl e, db)"
    | (expired) i v now where "clock = Some now" "find (\<lambda>(i, v). iv_tokenHash v = sv_sha env (ri_invitationToken input)) (au_invitations db) = Some (i, v)"
      "iv_consumedAt v = None" "redeemInvitationForOnboarding env clock bytes du input db = (Inl IE_INVITATION_EXPIRED, burnInvitation i now db)"
    | (redeemed) i v now res db' ch rh rj devId userId userName where "clock = Some now"
      "find (\<lambda>(i, v). iv_tokenHash v = sv_sha env (ri_invitationToken input)) (au_invitations db) = Some (i, v)"
      "iv_consumedAt v = None" "redeemInvitationForOnboarding env clock bytes du input db = (Inr res, db')"
      "redeem_rows env now ch rh rj du (ri_deviceLabel input) i v userId userName db = Inr ((devId, dr_verificationPhrase res), db')"
      "dr_pendingDeviceId res = devId" "iv_intendedMemberId v = Some userId" "\<exists>e. iv_expiresAt v = Some e \<and> now < e"
proof -
  let ?run = "redeemInvitationForOnboarding env clock bytes du input db"
    and ?cred = "generateToken PendingDeviceCredentialDomain bytes"
  consider (bad) e where "?run = (Inl e, db)"
    | (tx) now rh rj r where "clock = Some now"
      "redeem_transaction env now (sv_sha env (ri_invitationToken input)) (sv_sha env ?cred) rh rj du (ri_deviceLabel input) db = Inr r"
      "redeem_checked env clock ?cred du input db = Inr r"
  proof (cases "redeem_checked env clock ?cred du input db")
    case (Inl e)
    then show thesis by (intro bad) (simp add: redeemInvitationForOnboarding_def)
  next
    case (Inr r)
    then obtain h h' where h: "hashParsed (sv_sha env) InvitationTokenDomain (ri_invitationToken input) = Some h"
        "hashParsed (sv_sha env) RefreshTokenDomain (ri_initialRefreshToken input) = Some h'"
      by (auto simp: redeem_checked_def bind_result_eq_Inr split: option.splits)
    have eq: "h = sv_sha env (ri_invitationToken input)" using h(1) by (rule hashParsed_Some)
    obtain now name rj where "clock = Some now" "requireDisplayName (ri_deviceLabel input) = Inr name"
        "redeem_transaction env now h (sv_sha env ?cred) h' rj du name db = Inr r"
      using Inr h by (auto simp: redeem_checked_def bind_result_eq_Inr invite_clock_def split: option.splits)
    then show thesis using Inr by (intro tx) (auto simp: eq requireDisplayName_def split: if_split_asm)
  qed
  then show thesis
  proof cases
    case bad
    then show thesis by (rule fails)
  next
    case (tx now rh rj r)
    let ?ch = "sv_sha env (generateToken PendingDeviceCredentialDomain bytes)"
    obtain i v where load: "find (\<lambda>(i, v). iv_tokenHash v = sv_sha env (ri_invitationToken input)) (au_invitations db) = Some (i, v)"
      and un: "iv_consumedAt v = None"
      using tx(2) by (auto simp: redeem_transaction_def loadInvitationByHash_def bind_result_eq_Inr split: option.splits if_split_asm)
    obtain e where e: "iv_expiresAt v = Some e"
      using tx(2) by (auto simp: redeem_transaction_def loadInvitationByHash_def load un bind_result_eq_Inr invite_date_def split: option.splits if_split_asm)
    show thesis
    proof (cases "e \<le> now")
      case True
      then have "r = (None, burnInvitation i now db)"
        using tx(2) by (simp add: redeem_transaction_def loadInvitationByHash_def load un invite_date_def e)
      then show thesis using expired [OF tx(1) load un] tx(3) by (simp add: redeemInvitationForOnboarding_def)
    next
      case False
      then obtain userId userName devId phrase db' where rows: "iv_intendedMemberId v = Some userId"
          "redeem_rows env now ?ch rh rj du (ri_deviceLabel input) i v userId userName db = Inr ((devId, phrase), db')"
          "r = (Some (devId, phrase), db')"
        using tx(2) by (auto simp: redeem_transaction_def loadInvitationByHash_def load un invite_date_def e bind_result_eq_Inr split: option.splits)
      show thesis
        by (rule redeemed [OF tx(1) load un _ _ _ rows(1)]) (use tx(3) rows e False in \<open>auto simp: redeemInvitationForOnboarding_def\<close>)
    qed
  qed
qed

lemma session_result_Inr: "session_result r = Inr x \<longleftrightarrow> r = Inr x"
  by (auto simp: session_result_def split: sum.splits)

lemma session_result_Inl: "session_result r = Inl e \<longleftrightarrow> (\<exists>x. r = Inl x \<and> e = IE_Session x)"
  by (auto simp: session_result_def split: sum.splits)

lemma approve_errors:
  assumes "approve_transaction env now clock2 mu fu ru i a phrase db = Inl e"
  shows "e \<noteq> IE_APPROVAL_LOCKED" "e \<noteq> IE_PHRASE_MISMATCH n"
  using assms
  by (auto simp: approve_transaction_def wrong_code_def activate_device_def deletePendingUser_def insert_member_def Let_def loadInvitationById_def
      requireOwnerMembership_def bind_result_eq_Inl session_result_Inl invite_date_def invite_uuid_def split: option.splits if_split_asm sum.splits)

lemma approve_transaction_Inr:
  assumes "approve_transaction env now clock2 mu fu ru i a phrase db = Inr (out, db')"
  obtains v m d u h dev expected where "map_of (au_invitations db) i = Some v" "requireOwnerMembership db a (iv_vaultId v) = Inr m"
      "iv_pendingDeviceId v = Some d" "iv_consumedByUserId v = Some u" "iv_pendingRefreshTokenHash v = Some h"
      "\<exists>c. iv_consumedAt v = Some (Some c) \<and> now < c + PENDING_APPROVAL_TTL_SECONDS * 1000"
      "map_of (au_devices db) d = Some dev" "dv_status dev = DevicePending" "parseVerificationPin (iv_verificationSecret v) = Some expected"
      "(if phrase \<noteq> expected then wrong_code i v u db else activate_device env now clock2 mu fu ru i v d u h db) = Inr (out, db')"
proof -
  obtain v m where v: "map_of (au_invitations db) i = Some v" "requireOwnerMembership db a (iv_vaultId v) = Inr m"
    using assms by (auto simp: approve_transaction_def bind_result_eq_Inr loadInvitationById_def split: option.splits)
  obtain d u h where p: "iv_pendingDeviceId v = Some d" "iv_consumedByUserId v = Some u" "iv_pendingRefreshTokenHash v = Some h"
    using assms v by (auto simp: approve_transaction_def loadInvitationById_def split: option.splits)
  note unf = approve_transaction_def loadInvitationById_def v p bind_result_eq_Inr invite_date_def
  have c: "\<exists>c. iv_consumedAt v = Some (Some c) \<and> now < c + PENDING_APPROVAL_TTL_SECONDS * 1000"
    using assms by (auto simp: unf split: option.splits if_split_asm)
  then have "bind_result (case iv_consumedAt v of None \<Rightarrow> Inr True
      | Some consumed \<Rightarrow> bind_result (invite_date consumed) (\<lambda>ms. Inr (ms + PENDING_APPROVAL_TTL_SECONDS * 1000 \<le> now))) f = f False" for f :: "bool \<Rightarrow> invitation_error + approve_outcome \<times> auth_db"
    by (auto simp: invite_date_def)
  note rest = assms [unfolded approve_transaction_def loadInvitationById_def v p, simplified, unfolded v(2), simplified, unfolded this, simplified]
  obtain dev where dev: "map_of (au_devices db) d = Some dev" "dv_status dev = DevicePending"
    using rest p by (auto split: option.splits if_split_asm)
  obtain expected where "parseVerificationPin (iv_verificationSecret v) = Some expected"
    using rest p dev by (auto split: option.splits if_split_asm)
  then show thesis using that [OF v p c dev] rest p dev by (auto split: if_split_asm)
qed

lemma approve_cases:
  obtains (fails) e where "approveRedeemedDevice env clock clock2 mu fu ru i a phrase db = (Inl e, db)"
      "e \<noteq> IE_APPROVAL_LOCKED" "\<And>n. e \<noteq> IE_PHRASE_MISMATCH n"
    | (tx) now out db' where "clock = Some now" "approve_transaction env now clock2 mu fu ru i a phrase db = Inr (out, db')"
      "approveRedeemedDevice env clock clock2 mu fu ru i a phrase db =
         ((case out of ApproveLocked \<Rightarrow> Inl IE_APPROVAL_LOCKED | ApproveMismatch n \<Rightarrow> Inl (IE_PHRASE_MISMATCH n) | ApproveOk r \<Rightarrow> Inr r), db')"
proof (cases "approve_checked env clock clock2 mu fu ru i a phrase db")
  case (Inl e)
  have "e \<noteq> IE_APPROVAL_LOCKED \<and> (\<forall>n. e \<noteq> IE_PHRASE_MISMATCH n)"
    using Inl approve_errors
    by (auto simp: approve_checked_def bind_result_eq_Inl invite_uuid_def invite_clock_def split: option.splits if_split_asm)
  then show thesis using Inl by (intro fails) (auto simp: approveRedeemedDevice_def)
next
  case (Inr r)
  then obtain now where "clock = Some now" "approve_transaction env now clock2 mu fu ru i a phrase db = Inr (fst r, snd r)"
    by (auto simp: approve_checked_def bind_result_eq_Inr invite_uuid_def invite_clock_def parseVerificationPin_def split: option.splits if_split_asm)
  then show thesis using Inr
    by (intro tx [of now "fst r" "snd r"]) (auto simp: approveRedeemedDevice_def split: prod.splits approve_outcome.splits)
qed

lemma activate_device_Inr:
  assumes "activate_device env now clock2 mu fu ru i v d u h db = Inr (out, db')"
  obtains res where "out = ApproveOk res" "ar_deviceId res = d" "ar_userId res = u"
    "au_invitations db' = au_invitations (recordApprovalAttempts i 0 db)" "au_users db' = au_users db" "au_grants db' = au_grants db"
    "au_devices db' = map (\<lambda>(j, x). (j, if j = d \<and> dv_status x = DevicePending
       then x\<lparr>dv_status := DeviceApproved, dv_approvedAt := Some (Some now)\<rparr> else x)) (au_devices db)"
    "au_memberships db' = au_memberships db @ [(ar_membershipId res, \<lparr>mb_vaultId = iv_vaultId v, mb_userId = u, mb_role = iv_intendedRole v,
       mb_status = MemberActive, mb_kind = iv_intendedKind v, mb_revokedAt = None\<rparr>)]"
    "map_of (au_memberships db) (ar_membershipId res) = None"
    "\<exists>r. au_refresh db' = au_refresh db @ [r] \<and> rt_familyId r = ar_familyId res \<and> rt_tokenHash r = h \<and> rt_consumedAt r = None"
    "\<exists>f. au_families db' = au_families db @ [(ar_familyId res, f)] \<and> fa_userId f = u \<and> fa_deviceId f = d \<and> fa_status f = FamilyActive"
proof -
  obtain mid db3 fid e where m: "insert_member ((recordApprovalAttempts i 0 db)\<lparr>au_devices := map (\<lambda>(j, x). (j, if j = d \<and> dv_status x = DevicePending
       then x\<lparr>dv_status := DeviceApproved, dv_approvedAt := Some (Some now)\<rparr> else x)) (au_devices db)\<rparr>) mid
       \<lparr>mb_vaultId = iv_vaultId v, mb_userId = u, mb_role = iv_intendedRole v, mb_status = MemberActive, mb_kind = iv_intendedKind v,
        mb_revokedAt = None\<rparr> = Inr db3"
    and fam: "createInitialFamilyFromHashInCurrentTransaction (session_env.truncate env) clock2 db3 u d h (ie_refreshTtlSeconds env) fu ru = Inr ((fid, e), db')"
    and out: "out = ApproveOk \<lparr>ar_deviceId = d, ar_familyId = fid, ar_membershipId = mid, ar_userId = u\<rparr>"
    using assms unfolding activate_device_def Let_def
    by (auto simp: bind_result_eq_Inr session_result_Inr recordApprovalAttempts_def split: if_split_asm)
  from m have db3: "db3 = (recordApprovalAttempts i 0 db)\<lparr>au_devices := map (\<lambda>(j, x). (j, if j = d \<and> dv_status x = DevicePending
       then x\<lparr>dv_status := DeviceApproved, dv_approvedAt := Some (Some now)\<rparr> else x)) (au_devices db),
       au_memberships := au_memberships db @ [(mid, \<lparr>mb_vaultId = iv_vaultId v, mb_userId = u, mb_role = iv_intendedRole v,
         mb_status = MemberActive, mb_kind = iv_intendedKind v, mb_revokedAt = None\<rparr>)]\<rparr>"
    and new: "map_of (au_memberships db) mid = None"
    by (auto simp: insert_member_def recordApprovalAttempts_def split: if_split_asm)
  from fam obtain t where "create_family (session_env.truncate env) db3 u d h (ie_refreshTtlSeconds env) t fu ru = Inr ((fid, e), db')"
    by (rule createInitialFamily_Inr)
  then show thesis
  proof (rule create_family_Inr)
    fix r
    assume f: "db' = db3\<lparr>au_families := au_families db3 @ [(fid, \<lparr>fa_userId = u, fa_deviceId = d, fa_status = FamilyActive,
         fa_currentGeneration = 0, fa_expiresAt = e, fa_revokedAt = None\<rparr>)], au_refresh := au_refresh db3 @ [r]\<rparr>"
      "rt_familyId r = fid" "rt_tokenHash r = h" "rt_consumedAt r = None"
    show thesis
      by (rule that [OF out]) (use f db3 new in \<open>simp_all add: recordApprovalAttempts_def update_invitation_def\<close>)
  qed
qed

lemma pending_ok_attempts [simp]: "pending_ok db (v\<lparr>iv_approvalAttempts := n\<rparr>) = pending_ok db v"
  by (auto simp: pending_ok_def split: option.splits)

lemma attempts_update:
  "(\<forall>i v. map_of (au_invitations db) i = Some v \<longrightarrow> attempts_ok v) \<Longrightarrow>
   (\<And>i v. map_of (au_invitations db) i = Some v \<Longrightarrow> p i v \<Longrightarrow> attempts_ok v \<Longrightarrow> attempts_ok (f v)) \<Longrightarrow>
   (\<forall>i v. map_of (au_invitations (update_invitation p f db)) i = Some v \<longrightarrow> attempts_ok v)"
  by auto

lemma pending_devices_grow:
  assumes "pending_ok db v" "\<And>d x. map_of (au_devices db) d = Some x \<Longrightarrow> \<exists>y. map_of (au_devices db') d = Some y \<and> dv_userId y = dv_userId x"
  shows "pending_ok db' v"
  using assms by (fastforce simp: pending_ok_def split: option.splits)

lemma redeem_inv:
  assumes inv: "invite_inv db" and find: "find (\<lambda>(i, v). iv_tokenHash v = th) (au_invitations db) = Some (i, v)"
    and un: "iv_consumedAt v = None"
    and rows: "redeem_rows env now ch rh rj du name i v userId userName db = Inr ((devId, phrase), db')"
  shows "invite_inv db'"
  using rows
proof (rule redeem_rows_Inr)
  fix row urow
  let ?p = "\<lambda>j x. j = i \<and> iv_consumedAt x = None" and ?f = "consume_invitation now userId devId ch rh"
  assume dev: "map_of (au_devices db) devId = None" "au_devices db' = au_devices db @ [(devId, row)]" "dv_userId row = userId"
    and us: "au_users db' = au_users db @ [(userId, urow)]" "map_of (au_users db) userId = None"
    and iv: "au_invitations db' = au_invitations (update_invitation ?p ?f db)"
  have devs: "map_of (au_devices db') j = (if j = devId then Some row else map_of (au_devices db) j)" for j
    using map_of_append_new [OF dev(1)] by (simp add: dev(2))
  have users: "map_of (au_users db') j = (if j = userId then Some urow else map_of (au_users db) j)" for j
    using map_of_append_new [OF us(2)] by (simp add: us(1))
  have fk: "invite_fk db" and att: "\<forall>i v. map_of (au_invitations db) i = Some v \<longrightarrow> attempts_ok v" using inv by (simp_all add: invite_inv_def)
  have "pending_ok db' x" if x: "map_of (au_invitations db') j = Some x" for j x
  proof -
    obtain y where y: "map_of (au_invitations db) j = Some y" "x = (if ?p j y then ?f y else y)"
      using x unfolding iv update_invitation_fields by auto
    have "pending_ok db y" using fk y unfolding invite_fk_def by blast
    then have "pending_ok db' y" by (rule pending_devices_grow) (use devs dev(1) in auto)
    then show ?thesis using y devs dev(3) by (auto simp: pending_ok_def consume_invitation_def)
  qed
  moreover have "map_of (au_users db') (dv_userId x) \<noteq> None" if "map_of (au_devices db') j = Some x" for j x
    using that fk dev(3) unfolding invite_fk_def devs users by (auto split: if_split_asm simp del: map_of_eq_Some_iff)
  moreover have "distinct (map fst (au_devices db'))" using fk dev(1,2) by (simp add: invite_fk_def map_of_eq_None_iff)
  moreover have "distinct (map fst (au_invitations db'))" unfolding iv update_invitation_fields using fk by (simp add: invite_fk_def)
  moreover have "\<forall>i v. map_of (au_invitations db') i = Some v \<longrightarrow> attempts_ok v"
    unfolding iv by (rule attempts_update [OF att]) (auto simp: attempts_ok_def consume_invitation_def)
  ultimately show ?thesis by (simp add: invite_inv_def invite_fk_def)
qed

lemma activate_inv:
  assumes inv: "invite_inv db" and run: "activate_device env now clock2 mu fu ru i v d u h db = Inr (out, db')"
  shows "invite_inv db'"
  using run
proof (rule activate_device_Inr)
  assume iv: "au_invitations db' = au_invitations (recordApprovalAttempts i 0 db)" and us: "au_users db' = au_users db"
    and dev: "au_devices db' = map (\<lambda>(j, x). (j, if j = d \<and> dv_status x = DevicePending
       then x\<lparr>dv_status := DeviceApproved, dv_approvedAt := Some (Some now)\<rparr> else x)) (au_devices db)"
  have fk: "invite_fk db" and att: "\<forall>i v. map_of (au_invitations db) i = Some v \<longrightarrow> attempts_ok v" using inv by (simp_all add: invite_inv_def)
  have devs: "map_of (au_devices db') j = map_option (\<lambda>x. if j = d \<and> dv_status x = DevicePending
       then x\<lparr>dv_status := DeviceApproved, dv_approvedAt := Some (Some now)\<rparr> else x) (map_of (au_devices db) j)" for j
    unfolding dev by (rule map_of_map_snd)
  have "pending_ok db' x" if x: "map_of (au_invitations db') j = Some x" for j x
  proof -
    obtain y where y: "map_of (au_invitations db) j = Some y" "x = (if j = i then y\<lparr>iv_approvalAttempts := 0\<rparr> else y)"
      using x unfolding iv recordApprovalAttempts_def update_invitation_fields by auto
    have "pending_ok db y" using fk y unfolding invite_fk_def by blast
    then have "pending_ok db' y" by (rule pending_devices_grow) (simp add: devs)
    then show ?thesis using y by simp
  qed
  moreover have "map_of (au_users db') (dv_userId x) \<noteq> None" if x: "map_of (au_devices db') j = Some x" for j x
  proof -
    obtain y where "map_of (au_devices db) j = Some y" "dv_userId x = dv_userId y" using x unfolding devs by auto
    then show ?thesis using fk unfolding invite_fk_def us by metis
  qed
  moreover have "map fst (au_devices db') = map fst (au_devices db)" unfolding dev by (simp add: comp_def split_beta)
  moreover have "map fst (au_invitations db') = map fst (au_invitations db)"
    unfolding iv recordApprovalAttempts_def by (rule update_invitation_fields)
  moreover have "\<forall>i v. map_of (au_invitations db') i = Some v \<longrightarrow> attempts_ok v"
    unfolding iv recordApprovalAttempts_def
    by (rule attempts_update [OF att]) (simp add: attempts_ok_def MAX_APPROVAL_ATTEMPTS_def)
  ultimately show ?thesis using fk by (simp add: invite_inv_def invite_fk_def)
qed

lemma forgotten_attempts: "attempts_ok v \<Longrightarrow> attempts_ok (forgotten db u v)"
  by (auto simp: attempts_ok_def) (auto simp: forgotten_def split: option.splits if_split_asm)

lemma deletePendingUser_map:
  assumes "deletePendingUser u db = Inr db'"
  shows "map_of (au_invitations db') j = map_of (au_invitations db) j \<and> map_of (au_users db) u = None \<or>
     map_of (au_invitations db') j = map_option (forgotten db u) (map_of (au_invitations db) j)"
  using assms by (rule deletePendingUser_Inr) (simp_all add: map_of_map_row)

lemma wrong_code_inv:
  assumes inv: "invite_inv db" and v: "map_of (au_invitations db) i = Some v" "iv_pendingDeviceId v = Some d" "iv_consumedByUserId v = Some u"
    and run: "wrong_code i v u db = Inr (out, db')"
  shows "invite_inv db'"
proof -
  let ?n = "iv_approvalAttempts v + 1" and ?db = "recordApprovalAttempts i (iv_approvalAttempts v + 1) db"
  have fk: "invite_fk db" and att: "\<forall>i v. map_of (au_invitations db) i = Some v \<longrightarrow> attempts_ok v" using inv by (simp_all add: invite_inv_def)
  have fk': "invite_fk ?db"
    unfolding recordApprovalAttempts_def by (rule update_invitation_inv [OF fk]) simp
  show ?thesis
  proof (cases "?n \<ge> MAX_APPROVAL_ATTEMPTS")
    case False
    then have "db' = ?db" using run by (simp add: wrong_code_def Let_def)
    moreover have "\<forall>i v. map_of (au_invitations ?db) i = Some v \<longrightarrow> attempts_ok v"
      unfolding recordApprovalAttempts_def by (rule attempts_update [OF att]) (use False in \<open>simp add: attempts_ok_def\<close>)
    ultimately show ?thesis using fk' by (simp add: invite_inv_def)
  next
    case True
    then have del: "deletePendingUser u ?db = Inr db'" using run by (auto simp: wrong_code_def Let_def bind_result_eq_Inr)
    have "pending_ok db v" using fk v unfolding invite_fk_def by blast
    then obtain dev where dev: "map_of (au_devices db) d = Some dev" "dv_userId dev = u" and used: "iv_consumedAt v \<noteq> None"
      using v by (auto simp: pending_ok_def)
    have keys: "distinct (map fst (au_devices db))" using fk by (simp add: invite_fk_def)
    have user: "map_of (au_users db) u \<noteq> None" using fk dev unfolding invite_fk_def by blast
    have rows: "map_of (au_invitations db') j = map_option (forgotten ?db u) (map_of (au_invitations ?db) j)" for j
      using deletePendingUser_map [OF del, of j] user by (simp add: recordApprovalAttempts_def)
    have "d \<in> set (map fst (filter (\<lambda>(_, x). dv_userId x = u) (au_devices ?db)))"
      using keyed_filter [OF keys dev(1), of "\<lambda>x. dv_userId x = u"] dev(2) by (simp add: recordApprovalAttempts_def)
    then have gone: "attempts_ok (forgotten ?db u (v\<lparr>iv_approvalAttempts := ?n\<rparr>))"
      using used v(2) by (auto simp: attempts_ok_def forgotten_def)
    have "attempts_ok x" if x: "map_of (au_invitations db') j = Some x" for j x
    proof (cases "j = i")
      case True
      then show ?thesis using x gone v(1) by (simp add: rows recordApprovalAttempts_def)
    next
      case False
      then obtain y where "map_of (au_invitations db) j = Some y" "x = forgotten ?db u y"
        using x unfolding rows recordApprovalAttempts_def update_invitation_fields by auto
      then show ?thesis using att forgotten_attempts by blast
    qed
    then show ?thesis using deletePendingUser_inv [OF fk' del] by (simp add: invite_inv_def)
  qed
qed

section \<open>Every step keeps the invariant\<close>

lemma approve_inv:
  assumes inv: "invite_inv db" and run: "approve_transaction env now clock2 mu fu ru i a phrase db = Inr (out, db')"
  shows "invite_inv db'"
  using run
proof (rule approve_transaction_Inr)
  fix v d u h expected
  assume v: "map_of (au_invitations db) i = Some v" "iv_pendingDeviceId v = Some d" "iv_consumedByUserId v = Some u"
    and rest: "(if phrase \<noteq> expected then wrong_code i v u db else activate_device env now clock2 mu fu ru i v d u h db) = Inr (out, db')"
  then show ?thesis using wrong_code_inv [OF inv v] activate_inv [OF inv] by (auto split: if_split_asm)
qed

lemma rejectPendingDevice_Inr: "rejectPendingDevice i a db = Inr db' \<Longrightarrow> \<exists>u. deletePendingUser u db = Inr db'"
  by (auto simp: rejectPendingDevice_def bind_result_eq_Inr split: option.splits)

lemma delete_keeps_inv: "invite_inv db \<Longrightarrow> deletePendingUser u db = Inr db' \<Longrightarrow> invite_inv db'"
proof -
  assume inv: "invite_inv db" and run: "deletePendingUser u db = Inr db'"
  have "attempts_ok x" if x: "map_of (au_invitations db') j = Some x" for j x
    using deletePendingUser_map [OF run, of j] x inv forgotten_attempts unfolding invite_inv_def
    by (cases "map_of (au_invitations db) j") auto
  then show ?thesis using deletePendingUser_inv [OF _ run] inv by (simp add: invite_inv_def)
qed

lemma onboarding_step_inv:
  assumes inv: "invite_inv db"
  shows "invite_inv (snd (onboarding_step env db op))"
proof (cases op)
  case (InviteOp clock bytes pin mu iu input)
  show ?thesis
  proof (cases "createInvitation env clock bytes pin mu iu input db")
    case (Inr r)
    obtain res db' where r: "r = (res, db')" by (cases r)
    from Inr [unfolded r] show ?thesis
    proof (rule createInvitation_Inr)
      fix v i
      assume new: "map_of (au_invitations db) i = None" and db': "db' = db\<lparr>au_invitations := au_invitations db @ [(i, v)]\<rparr>"
        and v: "iv_consumedAt v = None" "iv_pendingDeviceId v = None" "iv_approvalAttempts v = 0"
      have rows: "map_of (au_invitations db') j = (if j = i then Some v else map_of (au_invitations db) j)" for j
        using map_of_append_new [OF new] by (simp add: db')
      have "pending_ok db' x \<longleftrightarrow> pending_ok db x" for x by (simp add: pending_ok_def db' split: option.split)
      moreover have "pending_ok db v" "attempts_ok v" using v by (simp_all add: pending_ok_def attempts_ok_def MAX_APPROVAL_ATTEMPTS_def)
      moreover have "distinct (map fst (au_invitations db'))" using inv new by (simp add: db' invite_inv_def invite_fk_def map_of_eq_None_iff)
      ultimately have "invite_inv db'"
        using inv unfolding invite_inv_def invite_fk_def rows by (simp add: db')
      then show ?thesis using InviteOp Inr r by simp
    qed
  qed (use inv InviteOp in simp)
next
  case (RedeemOp clock bytes du input)
  show ?thesis
  proof (cases rule: redeem_cases [of env clock bytes du input db])
    case (expired i v now)
    have "invite_inv (burnInvitation i now db)"
      unfolding invite_inv_def burnInvitation_def
    proof
      show "invite_fk (update_invitation (\<lambda>j x. j = i \<and> iv_consumedAt x = None) (\<lambda>v. v\<lparr>iv_consumedAt := Some (Some now)\<rparr>) db)"
        using inv by (intro update_invitation_inv) (auto simp: invite_inv_def pending_ok_def split: option.splits)
      show "\<forall>j x. map_of (au_invitations (update_invitation (\<lambda>j x. j = i \<and> iv_consumedAt x = None)
          (\<lambda>v. v\<lparr>iv_consumedAt := Some (Some now)\<rparr>) db)) j = Some x \<longrightarrow> attempts_ok x"
        using inv unfolding invite_inv_def by (intro attempts_update) (auto simp: attempts_ok_def)
    qed
    then show ?thesis using expired(4) RedeemOp by simp
  next
    case (redeemed i v now res db' ch rh rj devId userId userName)
    then show ?thesis using redeem_inv [OF inv redeemed(2,3,5)] RedeemOp by simp
  qed (use inv RedeemOp in simp)
next
  case (ApproveOp clock clock2 mu fu ru i a phrase)
  show ?thesis
  proof (cases rule: approve_cases [of env clock clock2 mu fu ru i a phrase db])
    case (tx now out db')
    then show ?thesis using approve_inv [OF inv tx(2)] ApproveOp by (simp split: approve_outcome.splits)
  qed (use inv ApproveOp in simp)
next
  case (RejectOp i a)
  show ?thesis
  proof (cases "rejectPendingDevice i a db")
    case (Inr db')
    then obtain u where "deletePendingUser u db = Inr db'" using rejectPendingDevice_Inr by blast
    then show ?thesis using delete_keeps_inv [OF inv] Inr RejectOp by simp
  qed (use inv RejectOp in simp)
next
  case (SessionOp op')
  let ?db = "snd (session_step (session_env.truncate env) db op')"
  have "revokes_only db ?db" by (rule session_step_revokes)
  then have "invite_inv ?db" using inv revokes_only_inv unfolding invite_inv_def by (metis revokes_only_def)
  then show ?thesis using SessionOp by (simp add: split_beta)
qed

interpretation onboarding: invariant_machine "onboarding_step env" invite_inv for env
  by unfold_locales (rule onboarding_step_inv)

section \<open>Wrong codes\<close>

definition row_budget :: "auth_db \<Rightarrow> invitation_row \<Rightarrow> nat" where
  "row_budget db v =
     (if iv_consumedAt v = None \<or> (case iv_pendingDeviceId v of Some d \<Rightarrow> device_pending db d | None \<Rightarrow> False)
      then MAX_APPROVAL_ATTEMPTS - iv_approvalAttempts v else 0)"

definition guess_budget :: "ident \<Rightarrow> auth_db \<Rightarrow> nat" where
  "guess_budget i db = (case map_of (au_invitations db) i of None \<Rightarrow> MAX_APPROVAL_ATTEMPTS | Some v \<Rightarrow> row_budget db v)"

fun wrong_guess :: "ident \<Rightarrow> onboarding_op \<Rightarrow> invitation_error option \<Rightarrow> bool" where
  "wrong_guess i (ApproveOp _ _ _ _ _ j _ _) reply \<longleftrightarrow> j = i \<and>
     (case reply of Some IE_APPROVAL_LOCKED \<Rightarrow> True | Some (IE_PHRASE_MISMATCH _) \<Rightarrow> True | _ \<Rightarrow> False)"
| "wrong_guess i _ _ \<longleftrightarrow> False"

lemma row_budget_mono:
  assumes "iv_consumedAt v' = iv_consumedAt v" "iv_approvalAttempts v' = iv_approvalAttempts v"
    "\<And>d. iv_pendingDeviceId v' = Some d \<Longrightarrow> iv_pendingDeviceId v = Some d \<and> (device_pending db' d \<longrightarrow> device_pending db d)"
  shows "row_budget db' v' \<le> row_budget db v"
  using assms by (auto simp: row_budget_def split: option.splits)

lemma row_budget_update [simp]: "row_budget (update_invitation p f db) = row_budget db"
  unfolding fun_eq_iff row_budget_def device_update_invitation by simp

lemma guess_budget_shrinks:
  assumes "\<And>v'. map_of (au_invitations db') i = Some v' \<Longrightarrow> \<exists>v. map_of (au_invitations db) i = Some v \<and> row_budget db' v' \<le> row_budget db v"
    "map_of (au_invitations db') i = None \<Longrightarrow> map_of (au_invitations db) i = None"
  shows "guess_budget i db' \<le> guess_budget i db"
  using assms by (cases "map_of (au_invitations db') i") (fastforce simp: guess_budget_def)+

lemma delete_budget:
  assumes inv: "invite_fk db" and run: "deletePendingUser u db = Inr db'"
  shows "guess_budget i db' \<le> guess_budget i db"
proof (rule guess_budget_shrinks)
  note map = deletePendingUser_map [OF run, of i]
  show "map_of (au_invitations db') i = None \<Longrightarrow> map_of (au_invitations db) i = None" using map by auto
  fix v' assume v': "map_of (au_invitations db') i = Some v'"
  then obtain v where v: "map_of (au_invitations db) i = Some v" "v' = v \<or> v' = forgotten db u v"
    using map by (cases "map_of (au_invitations db) i") auto
  have "row_budget db' v' \<le> row_budget db v"
    by (rule row_budget_mono) (use v(2) deletePendingUser_devices(1) [OF inv run] in \<open>auto simp: forgotten_def split: option.splits if_split_asm\<close>)
  then show "\<exists>v. map_of (au_invitations db) i = Some v \<and> row_budget db' v' \<le> row_budget db v" using v(1) by blast
qed

lemma revokes_only_budget: "revokes_only db db' \<Longrightarrow> guess_budget i db' \<le> guess_budget i db"
proof (rule guess_budget_shrinks)
  assume rev: "revokes_only db db'"
  then have eq: "au_invitations db' = au_invitations db" by (simp add: revokes_only_def)
  show "map_of (au_invitations db') i = None \<Longrightarrow> map_of (au_invitations db) i = None" by (simp add: eq)
  fix v' assume "map_of (au_invitations db') i = Some v'"
  then show "\<exists>v. map_of (au_invitations db) i = Some v \<and> row_budget db' v' \<le> row_budget db v"
    using row_budget_mono [of v' v' db' db] revokes_only_devices(1) [OF rev] eq by auto
qed

lemma approve_budget:
  assumes inv: "invite_inv db" and run: "approve_transaction env now clock2 mu fu ru j a phrase db = Inr (out, db')"
  shows "guess_budget i db' + (if j = i \<and> (\<forall>r. out \<noteq> ApproveOk r) then 1 else 0) \<le> guess_budget i db"
  using run
proof (rule approve_transaction_Inr)
  fix v d u h dev expected
  assume v: "map_of (au_invitations db) j = Some v" "iv_pendingDeviceId v = Some d" "iv_consumedByUserId v = Some u"
    and dev: "map_of (au_devices db) d = Some dev" "dv_status dev = DevicePending"
    and used: "\<exists>c. iv_consumedAt v = Some (Some c) \<and> now < c + PENDING_APPROVAL_TTL_SECONDS * 1000"
    and rest: "(if phrase \<noteq> expected then wrong_code j v u db else activate_device env now clock2 mu fu ru j v d u h db) = Inr (out, db')"
  have fk: "invite_fk db" and att: "attempts_ok v" using inv v(1) unfolding invite_inv_def by blast+
  have left: "iv_approvalAttempts v < MAX_APPROVAL_ATTEMPTS" using att v(2) by (simp add: attempts_ok_def)
  have pend: "device_pending db d" using dev by (simp add: device_pending_def)
  let ?n = "iv_approvalAttempts v + 1" and ?db = "recordApprovalAttempts j (iv_approvalAttempts v + 1) db"
  have rec: "guess_budget i ?db + (if j = i then 1 else 0) \<le> guess_budget i db"
  proof (cases "j = i")
    case True
    then show ?thesis using v pend left
      by (simp add: guess_budget_def recordApprovalAttempts_def row_budget_def)
  next
    case False
    then show ?thesis by (cases "map_of (au_invitations db) i") (simp_all add: guess_budget_def recordApprovalAttempts_def)
  qed
  show ?thesis
  proof (cases "phrase = expected")
    case False
    then have wrong: "wrong_code j v u db = Inr (out, db')" using rest by simp
    show ?thesis
    proof (cases "?n \<ge> MAX_APPROVAL_ATTEMPTS")
      case True
      then have del: "deletePendingUser u ?db = Inr db'" using wrong by (auto simp: wrong_code_def Let_def bind_result_eq_Inr)
      have "invite_fk ?db" unfolding recordApprovalAttempts_def by (rule update_invitation_inv [OF fk]) simp
      from delete_budget [OF this del, of i] rec show ?thesis by auto
    next
      case False
      then have "db' = ?db" using wrong by (simp add: wrong_code_def Let_def)
      then show ?thesis using rec by auto
    qed
  next
    case True
    then have "activate_device env now clock2 mu fu ru j v d u h db = Inr (out, db')" using rest by simp
    then show ?thesis
    proof (rule activate_device_Inr)
      fix res
      assume out: "out = ApproveOk res" and iv: "au_invitations db' = au_invitations (recordApprovalAttempts j 0 db)"
        and devs: "au_devices db' = map (\<lambda>(k, x). (k, if k = d \<and> dv_status x = DevicePending
          then x\<lparr>dv_status := DeviceApproved, dv_approvedAt := Some (Some now)\<rparr> else x)) (au_devices db)"
      have map': "map_of (au_devices db') k = map_option (\<lambda>x. if k = d \<and> dv_status x = DevicePending
          then x\<lparr>dv_status := DeviceApproved, dv_approvedAt := Some (Some now)\<rparr> else x) (map_of (au_devices db) k)" for k
        unfolding devs by (rule map_of_map_snd)
      have shrink: "device_pending db' k \<longleftrightarrow> device_pending db k \<and> k \<noteq> d" for k
        by (auto simp: device_pending_def map' split: option.splits)
      have "guess_budget i db' \<le> guess_budget i db"
      proof (rule guess_budget_shrinks)
        show "map_of (au_invitations db') i = None \<Longrightarrow> map_of (au_invitations db) i = None"
          unfolding iv recordApprovalAttempts_def by simp
        fix v' assume "map_of (au_invitations db') i = Some v'"
        then obtain w where w: "map_of (au_invitations db) i = Some w" "v' = (if i = j then w\<lparr>iv_approvalAttempts := 0\<rparr> else w)"
          unfolding iv recordApprovalAttempts_def update_invitation_fields by auto
        have "row_budget db' v' \<le> row_budget db w"
        proof (cases "i = j")
          case True
          then have "w = v" "v' = v\<lparr>iv_approvalAttempts := 0\<rparr>" using w v(1) by auto
          moreover have "\<not> device_pending db' d" "iv_consumedAt v \<noteq> None" using shrink [of d] used by auto
          ultimately show ?thesis using v(2) by (auto simp: row_budget_def)
        next
          case False
          then show ?thesis using w shrink by (intro row_budget_mono) auto
        qed
        then show "\<exists>v. map_of (au_invitations db) i = Some v \<and> row_budget db' v' \<le> row_budget db v" using w(1) by blast
      qed
      then show ?thesis using out by simp
    qed
  qed
qed

lemma redeem_budget_kept:
  assumes inv: "invite_inv db" and find: "find (\<lambda>(i, v). iv_tokenHash v = th) (au_invitations db) = Some (j, v)" and un: "iv_consumedAt v = None"
    and rows: "redeem_rows env now ch rh rj du name j v userId userName db = Inr ((devId, phrase), db')"
  shows "guess_budget i db' \<le> guess_budget i db"
  using rows
proof (rule redeem_rows_Inr)
  fix row
  let ?p = "\<lambda>k x. k = j \<and> iv_consumedAt x = None" and ?f = "consume_invitation now userId devId ch rh"
  assume dev: "map_of (au_devices db) devId = None" "au_devices db' = au_devices db @ [(devId, row)]"
    and iv: "au_invitations db' = au_invitations (update_invitation ?p ?f db)"
  have devs: "device_pending db' d \<longleftrightarrow> device_pending db d" if "d \<noteq> devId" for d
    using map_of_append_new [OF dev(1)] that by (simp add: device_pending_def dev(2))
  show ?thesis
  proof (rule guess_budget_shrinks)
    show "map_of (au_invitations db') i = None \<Longrightarrow> map_of (au_invitations db) i = None" unfolding iv by simp
    fix v' assume "map_of (au_invitations db') i = Some v'"
    then obtain w where w: "map_of (au_invitations db) i = Some w" "v' = (if ?p i w then ?f w else w)"
      unfolding iv update_invitation_fields by auto
    have ok: "pending_ok db w" using inv w(1) unfolding invite_inv_def invite_fk_def by blast
    have "row_budget db' v' \<le> row_budget db w"
    proof (cases "?p i w")
      case True
      then show ?thesis using w(2) by (simp add: row_budget_def consume_invitation_def)
    next
      case False
      then have "v' = w" using w(2) by auto
      moreover have "iv_pendingDeviceId w \<noteq> Some devId" using ok dev(1) by (auto simp: pending_ok_def)
      ultimately show ?thesis using devs by (intro row_budget_mono) auto
    qed
    then show "\<exists>v. map_of (au_invitations db) i = Some v \<and> row_budget db' v' \<le> row_budget db v" using w(1) by blast
  qed
qed

lemma onboarding_step_budget:
  assumes inv: "invite_inv db"
  shows "guess_budget i (snd (onboarding_step env db op)) + (if wrong_guess i op (fst (onboarding_step env db op)) then 1 else 0) \<le> guess_budget i db"
proof (cases op)
  case (InviteOp clock bytes pin mu iu input)
  show ?thesis
  proof (cases "createInvitation env clock bytes pin mu iu input db")
    case (Inr r)
    obtain res db' where r: "r = (res, db')" by (cases r)
    from Inr [unfolded r] show ?thesis
    proof (rule createInvitation_Inr)
      fix v j
      assume new: "map_of (au_invitations db) j = None" and db': "db' = db\<lparr>au_invitations := au_invitations db @ [(j, v)]\<rparr>"
      have "map_of (au_invitations db') i = (if i = j then Some v else map_of (au_invitations db) i)"
        using map_of_append_new [OF new] by (simp add: db')
      moreover have "row_budget db' w = row_budget db w" for w
        by (simp add: row_budget_def device_pending_def db' split: option.split)
      ultimately have "guess_budget i db' \<le> guess_budget i db"
        using new by (cases "map_of (au_invitations db) i") (auto simp: guess_budget_def row_budget_def)
      then show ?thesis using InviteOp Inr r by simp
    qed
  qed (use InviteOp in simp)
next
  case (RedeemOp clock bytes du input)
  show ?thesis
  proof (cases rule: redeem_cases [of env clock bytes du input db])
    case (expired j v now)
    have "guess_budget i (burnInvitation j now db) \<le> guess_budget i db"
      by (cases "map_of (au_invitations db) i") (simp_all add: guess_budget_def burnInvitation_def, simp add: row_budget_def)
    then show ?thesis using expired(4) RedeemOp by simp
  next
    case (redeemed j v now res db' ch rh rj devId userId userName)
    then show ?thesis using redeem_budget_kept [OF inv redeemed(2,3,5)] RedeemOp by simp
  qed (use RedeemOp in simp)
next
  case (ApproveOp clock clock2 mu fu ru j a phrase)
  show ?thesis
  proof (cases rule: approve_cases [of env clock clock2 mu fu ru j a phrase db])
    case (fails e)
    then show ?thesis using ApproveOp fails(3) [of "case e of IE_PHRASE_MISMATCH n \<Rightarrow> n"] by (cases e) simp_all
  next
    case (tx now out db')
    then show ?thesis using approve_budget [OF inv tx(2), of i] ApproveOp by (cases out) (auto split: if_split_asm)
  qed
next
  case (RejectOp j a)
  show ?thesis
  proof (cases "rejectPendingDevice j a db")
    case (Inr db')
    then obtain u where "deletePendingUser u db = Inr db'" using rejectPendingDevice_Inr by blast
    then show ?thesis using delete_budget inv Inr RejectOp by (simp add: invite_inv_def)
  qed (use RejectOp in simp)
next
  case (SessionOp op')
  then show ?thesis using revokes_only_budget [OF session_step_revokes] by (simp add: split_beta)
qed

interpretation guesses: metered_machine "onboarding_step env" invite_inv "wrong_guess i" "guess_budget i" "\<lambda>_. 0" for env i
  by unfold_locales (use onboarding_step_budget in simp)

text \<open>
  C23. The code of an invitation cannot be guessed by trying: over any sequence of onboarding and session
  operations, by whomever, at most three wrong codes are ever answered for one invitation; once three were,
  every further approval is refused before the code is looked at.
\<close>

theorem wrong_codes_bounded:
  assumes "invite_inv db"
  shows "guesses.hits env i db ops \<le> MAX_APPROVAL_ATTEMPTS"
proof -
  have "guess_budget i db \<le> MAX_APPROVAL_ATTEMPTS" by (auto simp: guess_budget_def row_budget_def split: option.splits)
  then show ?thesis using guesses.hits_bounded [OF assms, of env i ops] by simp
qed

section \<open>One redemption\<close>

fun redeems :: "jsstr \<Rightarrow> onboarding_op \<Rightarrow> invitation_error option \<Rightarrow> bool" where
  "redeems token (RedeemOp _ _ _ input) reply \<longleftrightarrow> ri_invitationToken input = token \<and> reply = None"
| "redeems token _ _ \<longleftrightarrow> False"

definition redeem_budget :: "jsstr \<Rightarrow> auth_db \<Rightarrow> nat" where
  "redeem_budget h db = (case find (\<lambda>(i, v). iv_tokenHash v = h) (au_invitations db) of
     Some (i, v) \<Rightarrow> if iv_consumedAt v = None then 1 else 0 | None \<Rightarrow> 1)"

lemma redeem_budget_mono:
  assumes "au_invitations db' = map (\<lambda>(i, v). (i, c i v)) (au_invitations db)"
    "\<And>i v. iv_tokenHash (c i v) = iv_tokenHash v" "\<And>i v. iv_consumedAt v \<noteq> None \<Longrightarrow> iv_consumedAt (c i v) \<noteq> None"
  shows "redeem_budget h db' \<le> redeem_budget h db"
proof -
  have "find (\<lambda>(i, v). iv_tokenHash v = h) (au_invitations db') =
      map_option (\<lambda>(i, v). (i, c i v)) (find (\<lambda>(i, v). iv_tokenHash v = h) (au_invitations db))"
    unfolding assms(1) by (rule find_map_hash) (auto simp: assms(2))
  moreover have "redeem_budget h db' \<le> redeem_budget h db" if "find (\<lambda>(i, v). iv_tokenHash v = h) (au_invitations db) = Some (i, v)"
      "find (\<lambda>(i, v). iv_tokenHash v = h) (au_invitations db') = Some (i, c i v)" for i v
    using that assms(3) [of v i] by (cases "iv_consumedAt v") (auto simp: redeem_budget_def)
  ultimately show ?thesis by (cases "find (\<lambda>(i, v). iv_tokenHash v = h) (au_invitations db)") (auto simp: redeem_budget_def)
qed

lemma redeem_budget_update:
  assumes "\<And>v. iv_tokenHash (f v) = iv_tokenHash v" "\<And>v. iv_consumedAt v \<noteq> None \<Longrightarrow> iv_consumedAt (f v) \<noteq> None"
    "au_invitations db' = au_invitations (update_invitation p f db)"
  shows "redeem_budget h db' \<le> redeem_budget h db"
  by (rule redeem_budget_mono [where c = "\<lambda>i v. if p i v then f v else v"]) (use assms in \<open>auto simp: update_invitation_def\<close>)

lemma delete_redeem_budget: "deletePendingUser u db = Inr db' \<Longrightarrow> redeem_budget h db' \<le> redeem_budget h db"
  by (erule deletePendingUser_Inr) (auto intro: redeem_budget_mono)

lemma redeem_consumes:
  assumes inv: "distinct (map fst (au_invitations db))"
    and find: "find (\<lambda>(i, v). iv_tokenHash v = h) (au_invitations db) = Some (i, v)" and un: "iv_consumedAt v = None"
    and rows: "au_invitations db' = au_invitations (update_invitation (\<lambda>j x. j = i \<and> iv_consumedAt x = None) (consume_invitation now u d ch rh) db)"
  shows "redeem_budget h db' = 0" "redeem_budget h db = 1"
proof -
  have "find (\<lambda>(i, v). iv_tokenHash v = h) (au_invitations db') = map_option (\<lambda>(j, x). (j, if j = i \<and> iv_consumedAt x = None
      then consume_invitation now u d ch rh x else x)) (find (\<lambda>(i, v). iv_tokenHash v = h) (au_invitations db))"
    unfolding rows update_invitation_def by simp (rule find_map_hash, auto simp: consume_invitation_def)
  then show "redeem_budget h db' = 0" "redeem_budget h db = 1"
    using find un by (simp_all add: redeem_budget_def consume_invitation_def)
qed

lemma approve_invitations:
  assumes "approve_transaction env now clock2 mu fu ru j a phrase db = Inr (out, db')"
  shows "redeem_budget h db' \<le> redeem_budget h db"
  using assms
proof (rule approve_transaction_Inr)
  fix v d u hh expected
  assume rest: "(if phrase \<noteq> expected then wrong_code j v u db else activate_device env now clock2 mu fu ru j v d u hh db) = Inr (out, db')"
  have rec: "redeem_budget h (recordApprovalAttempts j n db) \<le> redeem_budget h db" for n
    by (rule redeem_budget_update) (auto simp: recordApprovalAttempts_def)
  show ?thesis
  proof (cases "phrase = expected")
    case True
    then have "activate_device env now clock2 mu fu ru j v d u hh db = Inr (out, db')" using rest by simp
    then show ?thesis
      by (rule activate_device_Inr) (use rec [of 0] in \<open>simp add: redeem_budget_def\<close>)
  next
    case False
    then have w: "wrong_code j v u db = Inr (out, db')" using rest by simp
    then consider "db' = recordApprovalAttempts j (iv_approvalAttempts v + 1) db"
      | "deletePendingUser u (recordApprovalAttempts j (iv_approvalAttempts v + 1) db) = Inr db'"
      by (auto simp: wrong_code_def Let_def bind_result_eq_Inr split: if_split_asm)
    then show ?thesis
    proof cases
      case 2
      then show ?thesis using delete_redeem_budget [OF 2, of h] rec [of "iv_approvalAttempts v + 1"] by simp
    qed (use rec in simp)
  qed
qed

lemma onboarding_step_redeems:
  assumes inv: "invite_inv db"
  shows "redeem_budget (sv_sha env t) (snd (onboarding_step env db op)) + (if redeems t op (fst (onboarding_step env db op)) then 1 else 0) \<le>
     redeem_budget (sv_sha env t) db"
proof (cases op)
  case (InviteOp clock bytes pin mu iu input)
  show ?thesis
  proof (cases "createInvitation env clock bytes pin mu iu input db")
    case (Inr r)
    obtain res db' where r: "r = (res, db')" by (cases r)
    from Inr [unfolded r] have "redeem_budget (sv_sha env t) db' \<le> redeem_budget (sv_sha env t) db"
      by (rule createInvitation_Inr) (auto simp: redeem_budget_def find_append split: option.splits)
    then show ?thesis using InviteOp Inr r by simp
  qed (use InviteOp in simp)
next
  case (RedeemOp clock bytes du input)
  show ?thesis
  proof (cases rule: redeem_cases [of env clock bytes du input db])
    case (expired j v now)
    have "redeem_budget (sv_sha env t) (burnInvitation j now db) \<le> redeem_budget (sv_sha env t) db"
      by (rule redeem_budget_update) (auto simp: burnInvitation_def)
    then show ?thesis using expired(4) RedeemOp by simp
  next
    case (redeemed j v now res db' ch rh rj devId userId userName)
    have keys: "distinct (map fst (au_invitations db))" using inv by (simp add: invite_inv_def invite_fk_def)
    from redeemed(5) have rows: "au_invitations db' = au_invitations (update_invitation (\<lambda>i x. i = j \<and> iv_consumedAt x = None)
       (consume_invitation now userId devId ch rh) db)" by (rule redeem_rows_Inr)
    have "redeem_budget (sv_sha env t) db' \<le> redeem_budget (sv_sha env t) db"
      by (rule redeem_budget_update [OF _ _ rows]) (simp_all add: consume_invitation_def)
    moreover have "redeem_budget (sv_sha env t) db' = 0 \<and> redeem_budget (sv_sha env t) db = 1" if "ri_invitationToken input = t"
      using redeem_consumes [OF keys redeemed(2,3) rows] that by simp
    ultimately show ?thesis using redeemed(4) RedeemOp by auto
  qed (use RedeemOp in simp)
next
  case (ApproveOp clock clock2 mu fu ru j a phrase)
  show ?thesis
  proof (cases rule: approve_cases [of env clock clock2 mu fu ru j a phrase db])
    case (tx now out db')
    then show ?thesis using approve_invitations [OF tx(2)] ApproveOp by (cases out) auto
  qed (use ApproveOp in simp)
next
  case (RejectOp j a)
  show ?thesis
  proof (cases "rejectPendingDevice j a db")
    case (Inr db')
    then obtain u where "deletePendingUser u db = Inr db'" using rejectPendingDevice_Inr by blast
    then show ?thesis using delete_redeem_budget Inr RejectOp by simp
  qed (use RejectOp in simp)
next
  case (SessionOp op')
  have "au_invitations (snd (session_step (session_env.truncate env) db op')) = au_invitations db"
    using session_step_revokes by (simp add: revokes_only_def)
  then show ?thesis using SessionOp by (simp add: split_beta redeem_budget_def)
qed

interpretation redemptions: metered_machine "onboarding_step env" invite_inv "redeems t" "redeem_budget (sv_sha env t)" "\<lambda>_. 0" for env t
  by unfold_locales (use onboarding_step_redeems in simp)

text \<open>
  C25. An invitation is redeemed at most once: over any sequence of onboarding and session operations at
  most one redemption presenting a given invitation token succeeds.
\<close>

theorem invitation_redeemed_once:
  assumes "invite_inv db"
  shows "redemptions.hits env t db ops \<le> 1"
proof -
  have "redeem_budget (sv_sha env t) db \<le> 1" by (auto simp: redeem_budget_def split: option.splits)
  then show ?thesis using redemptions.hits_bounded [OF assms, of env t ops] by simp
qed

section \<open>Approval\<close>







text \<open>
  A rejection does not look at the device: it also deletes a member who was approved long ago, with every
  device, session and grant, where the revocation of a membership keeps all rows.
\<close>

theorem rejection_deletes_approved_member:
  assumes "uuid_pattern i" "uuid_pattern a" "map_of (au_invitations db) i = Some v" "requireOwnerMembership db a (iv_vaultId v) = Inr m"
    and "iv_pendingDeviceId v = Some d" "iv_consumedByUserId v = Some u" "device_approved db d"
    and "deletePendingUser u db = Inr db'" "map_of (au_users db) u \<noteq> None"
  shows "rejectPendingDevice i a db = Inr db' \<and> map_of (au_users db') u = None \<and>
     (\<forall>j x. (j, x) \<in> set (au_memberships db') \<longrightarrow> mb_userId x \<noteq> u)"
proof -
  have "rejectPendingDevice i a db = Inr db'"
    using assms by (simp add: rejectPendingDevice_def invite_uuid_def loadInvitationById_def)
  moreover from assms(8) have "map_of (au_users db') u = None \<and> (\<forall>j x. (j, x) \<in> set (au_memberships db') \<longrightarrow> mb_userId x \<noteq> u)"
    by (rule deletePendingUser_Inr) (use assms(9) in \<open>auto simp: map_of_filter_key\<close>)
  ultimately show ?thesis by blast
qed

section \<open>A small onboarding\<close>

lemma demo_uuid_inj [simp]: "demo_uuid n = demo_uuid m \<longleftrightarrow> n = m"
  by (simp add: demo_uuid_def)

definition demo_ienv :: invitation_env where
  "demo_ienv = session_env.extend demo_env \<lparr>ie_refreshTtlSeconds = 86400\<rparr>"

definition demo_code :: jsstr where
  "demo_code = [49, 50, 51, 52, 53, 54]"

text \<open>An invitation that a device has just redeemed.\<close>

definition demo_pending :: auth_db where
  "demo_pending = demo_db\<lparr>
     au_users := au_users demo_db @ [(demo_uuid 4, \<lparr>us_displayName = [66], us_status = UserActive\<rparr>)],
     au_devices := au_devices demo_db @ [(demo_uuid 5, \<lparr>dv_userId = demo_uuid 4, dv_displayName = [80], dv_status = DevicePending,
        dv_approvedAt = None, dv_revokedAt = None, dv_rejoinSecretHash = None, dv_vaultId = Some (demo_uuid 0)\<rparr>)],
     au_invitations := [(demo_uuid 6, \<lparr>iv_vaultId = demo_uuid 0, iv_createdByMembershipId = demo_uuid 3, iv_inviterDeviceId = demo_uuid 2,
        iv_tokenHash = replicate 64 48, iv_verificationSecret = demo_code, iv_intendedRole = RoleEditor, iv_expiresAt = Some 900000,
        iv_createdAt = Some 0, iv_consumedAt = Some (Some 1000), iv_consumedByUserId = Some (demo_uuid 4),
        iv_pendingDeviceId = Some (demo_uuid 5), iv_revokedAt = None, iv_intendedMemberDisplayName = Some [66],
        iv_intendedMemberId = Some (demo_uuid 4), iv_pendingCredentialHash = Some (replicate 64 49),
        iv_pendingRefreshTokenHash = Some (replicate 64 50), iv_approvalAttempts = 0, iv_intendedKind = KindPerson\<rparr>)]\<rparr>"

lemma demo_pending_inv: "invite_inv demo_pending"
  by (auto simp: invite_inv_def invite_fk_def pending_ok_def attempts_ok_def demo_pending_def demo_db_def MAX_APPROVAL_ATTEMPTS_def
      split: if_split_asm)



definition demo_guesses :: "onboarding_op list" where
  "demo_guesses = replicate 4 (ApproveOp (Some 2000) (Some 2000) (demo_uuid 7) (demo_uuid 8) (demo_uuid 9) (demo_uuid 6) (demo_uuid 3) [48, 48, 48, 48, 48, 48])"

theorem wrong_codes_bounded_witness:
  "invite_inv demo_pending \<and> guesses.hits demo_ienv (demo_uuid 6) demo_pending demo_guesses \<le> 3"
  using wrong_codes_bounded [OF demo_pending_inv, of demo_ienv "demo_uuid 6" demo_guesses] demo_pending_inv
  by (simp add: MAX_APPROVAL_ATTEMPTS_def)

definition demo_redemption :: onboarding_op where
  "demo_redemption = RedeemOp (Some 2000) (replicate 32 1) (demo_uuid 7) \<lparr>ri_invitationToken = demo_token InvitationTokenDomain 1,
     ri_deviceLabel = [80], ri_initialRefreshToken = demo_token RefreshTokenDomain 2, ri_redemptionId = demo_uuid 8, ri_rejoinSecret = None\<rparr>"

theorem invitation_redeemed_once_witness:
  "invite_inv demo_pending \<and> redemptions.hits demo_ienv (demo_token InvitationTokenDomain 1) demo_pending [demo_redemption, demo_redemption] \<le> 1"
  using invitation_redeemed_once [OF demo_pending_inv] demo_pending_inv by blast

end
