(* ===== verification/Rejoin.thy ===== *)
theory Rejoin
  imports Invitations_Theorems
begin

text \<open>
  Rejoin grants (\<^verbatim>\<open>apps/server/src/auth/rejoin-grants.ts\<close>): an owner re-admits a known device, which
  redeems the grant with its own secret. The tables are those of the session repository. The texts of
  the two \<^verbatim>\<open>ORDER BY\<close> clauses are compared as the instants they denote, a missing value before all others.
\<close>

section \<open>Errors and input\<close>

datatype rejoin_error =
    RE_GRANT_NOT_FOUND | RE_INVALID_INPUT | RE_MEMBERSHIP_INACTIVE | RE_NO_BOUND_DEVICE | RE_NOT_AUTHORIZED
  | RE_REPOSITORY_INTEGRITY | RE_SECRET_MISMATCH | RE_WRONG_DEVICE | RE_Sqlite | RE_Range | RE_Session session_error

fun rejoin_http_status :: "rejoin_error \<Rightarrow> nat option" where
  "rejoin_http_status RE_GRANT_NOT_FOUND = Some 404"
| "rejoin_http_status RE_INVALID_INPUT = Some 400"
| "rejoin_http_status RE_MEMBERSHIP_INACTIVE = Some 403"
| "rejoin_http_status RE_NO_BOUND_DEVICE = Some 409"
| "rejoin_http_status RE_NOT_AUTHORIZED = Some 403"
| "rejoin_http_status RE_REPOSITORY_INTEGRITY = Some 500"
| "rejoin_http_status RE_SECRET_MISMATCH = Some 401"
| "rejoin_http_status RE_WRONG_DEVICE = Some 403"
| "rejoin_http_status _ = None"

definition REJOIN_GRANT_TTL_SECONDS :: int where
  "REJOIN_GRANT_TTL_SECONDS = 15 * 60"

definition rejoin_uuid :: "jsstr \<Rightarrow> rejoin_error + jsstr" where
  "rejoin_uuid value = (if uuid_pattern value then Inr value else Inl RE_INVALID_INPUT)"

definition rejoin_clock :: "int option \<Rightarrow> rejoin_error + int" where
  "rejoin_clock now = (case now of Some ms \<Rightarrow> Inr ms | None \<Rightarrow> Inl RE_INVALID_INPUT)"

definition rejoin_addSeconds :: "int \<Rightarrow> int \<Rightarrow> rejoin_error + stored_date" where
  "rejoin_addSeconds date seconds =
     (let milliseconds = date + seconds * 1000
      in if \<bar>milliseconds\<bar> > MAX_SAFE_INTEGER then Inl RE_INVALID_INPUT
         else if \<bar>milliseconds\<bar> > MAX_DATE then Inl RE_Range
         else Inr (Some milliseconds))"

definition rejoin_date :: "stored_date \<Rightarrow> rejoin_error + int" where
  "rejoin_date value = (case value of Some ms \<Rightarrow> Inr ms | None \<Rightarrow> Inl RE_REPOSITORY_INTEGRITY)"

section \<open>Lookups\<close>

fun text_less :: "jsstr \<Rightarrow> jsstr \<Rightarrow> bool" where
  "text_less _ [] \<longleftrightarrow> False"
| "text_less [] (_ # _) \<longleftrightarrow> True"
| "text_less (a # as) (b # bs) \<longleftrightarrow> a < b \<or> a = b \<and> text_less as bs"

definition later :: "stored_date \<Rightarrow> stored_date \<Rightarrow> bool" where
  "later a b = (case a of None \<Rightarrow> False | Some x \<Rightarrow> (case b of None \<Rightarrow> True | Some y \<Rightarrow> y < x))"

text \<open>\<^verbatim>\<open>ORDER BY ... LIMIT 1\<close>.\<close>

fun first_by :: "('a \<Rightarrow> 'a \<Rightarrow> bool) \<Rightarrow> 'a list \<Rightarrow> 'a option" where
  "first_by before [] = None"
| "first_by before (x # xs) =
     (case first_by before xs of None \<Rightarrow> Some x | Some y \<Rightarrow> if before y x then Some y else Some x)"

definition vaultIsLive :: "auth_db \<Rightarrow> ident \<Rightarrow> bool" where
  "vaultIsLive db vault = (case map_of (au_vaults db) vault of Some (_, deleted) \<Rightarrow> \<not> deleted | None \<Rightarrow> False)"

definition loadMembership :: "auth_db \<Rightarrow> ident \<Rightarrow> rejoin_error + member_row" where
  "loadMembership db membershipId =
     (case map_of (au_memberships db) membershipId of
        None \<Rightarrow> Inl RE_GRANT_NOT_FOUND
      | Some m \<Rightarrow> if vaultIsLive db (mb_vaultId m) then Inr m else Inl RE_MEMBERSHIP_INACTIVE)"

definition requireOwner :: "auth_db \<Rightarrow> ident \<Rightarrow> ident \<Rightarrow> rejoin_error + unit" where
  "requireOwner db membershipId vault =
     (case map_of (au_memberships db) membershipId of
        None \<Rightarrow> Inl RE_NOT_AUTHORIZED
      | Some m \<Rightarrow> if mb_status m \<noteq> MemberActive \<or> mb_role m \<noteq> RoleOwner \<or> mb_vaultId m \<noteq> vault then Inl RE_NOT_AUTHORIZED else Inr ())"

definition device_before :: "ident \<times> device_row \<Rightarrow> ident \<times> device_row \<Rightarrow> bool" where
  "device_before p q =
     (let a = snd p; b = snd q; approved = (\<lambda>d. case dv_approvedAt d of Some t \<Rightarrow> t | None \<Rightarrow> None)
      in if (dv_vaultId a = None) \<noteq> (dv_vaultId b = None) then dv_vaultId b = None
         else if later (approved a) (approved b) then True else if later (approved b) (approved a) then False
         else text_less (fst p) (fst q))"

definition resolveBoundDevice :: "auth_db \<Rightarrow> ident \<Rightarrow> ident \<Rightarrow> rejoin_error + ident" where
  "resolveBoundDevice db userId vault =
     (case first_by device_before (filter (\<lambda>(_, d). dv_userId d = userId \<and> dv_status d = DeviceApproved \<and>
             (dv_vaultId d = Some vault \<or> dv_vaultId d = None)) (au_devices db)) of
        None \<Rightarrow> Inl RE_NO_BOUND_DEVICE | Some (i, _) \<Rightarrow> Inr i)"

definition live_grants :: "ident \<Rightarrow> auth_db \<Rightarrow> (ident \<times> grant_row) list" where
  "live_grants membershipId db = filter (\<lambda>(_, g). gr_membershipId g = membershipId \<and> gr_consumedAt g = None) (au_grants db)"

definition grant_before :: "ident \<times> grant_row \<Rightarrow> ident \<times> grant_row \<Rightarrow> bool" where
  "grant_before p q =
     (if later (gr_createdAt (snd p)) (gr_createdAt (snd q)) then True
      else if later (gr_createdAt (snd q)) (gr_createdAt (snd p)) then False else text_less (fst p) (fst q))"

definition loadLiveGrant :: "auth_db \<Rightarrow> ident \<Rightarrow> int \<Rightarrow> rejoin_error + ident \<times> grant_row" where
  "loadLiveGrant db membershipId now =
     (case first_by grant_before (live_grants membershipId db) of
        None \<Rightarrow> Inl RE_GRANT_NOT_FOUND
      | Some (i, g) \<Rightarrow> bind_result (rejoin_date (gr_expiresAt g)) (\<lambda>e. if e \<le> now then Inl RE_GRANT_NOT_FOUND else Inr (i, g)))"

section \<open>Operations\<close>

definition consume_grants :: "(ident \<Rightarrow> grant_row \<Rightarrow> bool) \<Rightarrow> int \<Rightarrow> auth_db \<Rightarrow> auth_db" where
  "consume_grants p now db =
     db\<lparr>au_grants := map (\<lambda>(i, g). (i, if p i g then g\<lparr>gr_consumedAt := Some (Some now)\<rparr> else g)) (au_grants db)\<rparr>"

definition insert_grant :: "auth_db \<Rightarrow> ident \<Rightarrow> grant_row \<Rightarrow> rejoin_error + auth_db" where
  "insert_grant db i row =
     (if map_of (au_grants db) i \<noteq> None \<or> map_of (au_memberships db) (gr_membershipId row) = None \<or>
         map_of (au_devices db) (gr_deviceId row) = None \<or> map_of (au_memberships db) (gr_createdByMembershipId row) = None
      then Inl RE_Sqlite else Inr (db\<lparr>au_grants := au_grants db @ [(i, row)]\<rparr>))"

record create_grant_result =
  cg_grantId :: ident
  cg_membershipId :: ident
  cg_boundDeviceId :: ident
  cg_expiresAt :: stored_date

definition createGrant ::
    "int option \<Rightarrow> jsstr \<Rightarrow> jsstr \<Rightarrow> jsstr \<Rightarrow> auth_db \<Rightarrow> rejoin_error + create_grant_result \<times> auth_db" where
  "createGrant clock grantUuid rawOwnerId rawTargetId db =
     bind_result (rejoin_uuid rawOwnerId) (\<lambda>ownerId.
     bind_result (rejoin_uuid rawTargetId) (\<lambda>targetId.
     bind_result (rejoin_clock clock) (\<lambda>now.
     bind_result (rejoin_addSeconds now REJOIN_GRANT_TTL_SECONDS) (\<lambda>expiresAt.
     bind_result (loadMembership db targetId) (\<lambda>target.
       if mb_status target \<noteq> MemberActive then Inl RE_MEMBERSHIP_INACTIVE
       else
         bind_result (requireOwner db ownerId (mb_vaultId target)) (\<lambda>_.
         bind_result (resolveBoundDevice db (mb_userId target) (mb_vaultId target)) (\<lambda>boundDeviceId.
         bind_result (rejoin_uuid grantUuid) (\<lambda>grantId.
         bind_result (insert_grant (consume_grants (\<lambda>_ g. gr_membershipId g = targetId \<and> gr_consumedAt g = None) now db) grantId
             \<lparr>gr_membershipId = targetId, gr_deviceId = boundDeviceId, gr_createdByMembershipId = ownerId, gr_createdAt = Some now,
              gr_expiresAt = expiresAt, gr_consumedAt = None\<rparr>) (\<lambda>db'.
           Inr (\<lparr>cg_grantId = grantId, cg_membershipId = targetId, cg_boundDeviceId = boundDeviceId, cg_expiresAt = expiresAt\<rparr>, db'))))))))))"

definition rejoin_session :: "session_error + 'a \<Rightarrow> rejoin_error + 'a" where
  "rejoin_session r = (case r of Inl e \<Rightarrow> Inl (RE_Session e) | Inr x \<Rightarrow> Inr x)"

record redeem_grant_result =
  rg_membershipId :: ident
  rg_vaultId :: ident
  rg_deviceId :: ident
  rg_refreshExpiresAt :: stored_date

definition rejoin_transaction ::
    "invitation_env \<Rightarrow> int \<Rightarrow> int option \<Rightarrow> jsstr \<Rightarrow> jsstr \<Rightarrow> ident \<Rightarrow> ident \<Rightarrow> jsstr \<Rightarrow> jsstr \<Rightarrow> auth_db \<Rightarrow>
     rejoin_error + redeem_grant_result \<times> auth_db" where
  "rejoin_transaction env now clock2 familyUuid refreshUuid membershipId devId refreshTokenHash rejoinSecret db =
     bind_result (loadLiveGrant db membershipId now) (\<lambda>(grantId, grant).
     if gr_deviceId grant \<noteq> devId then Inl RE_WRONG_DEVICE
     else
       bind_result (loadMembership db membershipId) (\<lambda>membership.
       if mb_status membership \<noteq> MemberActive then Inl RE_MEMBERSHIP_INACTIVE
       else
         (case map_of (au_devices db) devId of
            None \<Rightarrow> Inl RE_WRONG_DEVICE
          | Some device \<Rightarrow>
              if dv_status device \<noteq> DeviceApproved \<or> dv_userId device \<noteq> mb_userId membership then Inl RE_WRONG_DEVICE
              else if \<not> rejoinSecretMatchesHash (sv_sha env) rejoinSecret (dv_rejoinSecretHash device) then Inl RE_SECRET_MISMATCH
              else
                (let hit = (\<lambda>i g. i = grantId \<and> gr_consumedAt g = None)
                 in if length (filter (\<lambda>(i, g). hit i g) (au_grants db)) \<noteq> 1 then Inl RE_GRANT_NOT_FOUND
                    else
                      bind_result (rejoin_session (createInitialFamilyFromHashInCurrentTransaction (session_env.truncate env) clock2
                          (consume_grants hit now db) (mb_userId membership) devId refreshTokenHash (ie_refreshTtlSeconds env)
                          familyUuid refreshUuid)) (\<lambda>((_, refreshExpiresAt), db').
                        Inr (\<lparr>rg_membershipId = membershipId, rg_vaultId = mb_vaultId membership, rg_deviceId = devId,
                              rg_refreshExpiresAt = refreshExpiresAt\<rparr>, db'))))))"

definition redeemGrant ::
    "invitation_env \<Rightarrow> int option \<Rightarrow> int option \<Rightarrow> jsstr \<Rightarrow> jsstr \<Rightarrow> jsstr \<Rightarrow> jsstr \<Rightarrow> jsstr \<Rightarrow> jsstr \<Rightarrow> auth_db \<Rightarrow>
     rejoin_error + redeem_grant_result \<times> auth_db" where
  "redeemGrant env clock clock2 familyUuid refreshUuid rawMembershipId rawDeviceId refreshTokenHash rejoinSecret db =
     bind_result (rejoin_uuid rawMembershipId) (\<lambda>membershipId.
     bind_result (rejoin_uuid rawDeviceId) (\<lambda>devId.
     if \<not> sha256_hex refreshTokenHash then Inl RE_INVALID_INPUT
     else
       bind_result (rejoin_clock clock) (\<lambda>now.
         rejoin_transaction env now clock2 familyUuid refreshUuid membershipId devId refreshTokenHash rejoinSecret db)))"

section \<open>Inversion\<close>

lemma rejoin_session_Inr: "rejoin_session r = Inr x \<longleftrightarrow> r = Inr x"
  by (auto simp: rejoin_session_def split: sum.splits)

lemma first_by_mem: "first_by before xs = Some x \<Longrightarrow> x \<in> set xs"
  by (induction xs arbitrary: x) (auto split: option.splits if_split_asm)

lemma first_by_None [simp]: "first_by before xs = None \<longleftrightarrow> xs = []"
  by (cases xs) (auto split: option.splits)

lemma loadMembership_Inr:
  "loadMembership db i = Inr m \<longleftrightarrow> map_of (au_memberships db) i = Some m \<and> vaultIsLive db (mb_vaultId m)"
  by (auto simp: loadMembership_def split: option.splits)

lemma insert_grant_Inr:
  "insert_grant db i row = Inr db' \<Longrightarrow> map_of (au_grants db) i = None \<and> db' = db\<lparr>au_grants := au_grants db @ [(i, row)]\<rparr>"
  by (auto simp: insert_grant_def split: if_split_asm)

lemma live_grants_consume:
  "live_grants m (consume_grants p now db) = filter (\<lambda>(i, g). \<not> p i g) (live_grants m db)"
proof -
  have "filter (\<lambda>(_, g). gr_membershipId g = m \<and> gr_consumedAt g = None)
      (map (\<lambda>(i, g). (i, if p i g then g\<lparr>gr_consumedAt := Some (Some now)\<rparr> else g)) xs) =
    filter (\<lambda>(i, g). \<not> p i g) (filter (\<lambda>(_, g). gr_membershipId g = m \<and> gr_consumedAt g = None) xs)" for xs
    by (induction xs) auto
  then show ?thesis by (simp add: live_grants_def consume_grants_def)
qed

lemma consume_grants_ids: "map fst (au_grants (consume_grants p now db)) = map fst (au_grants db)"
  by (simp add: consume_grants_def split_beta comp_def)

lemma consume_grants_fields [simp]:
  "au_vaults (consume_grants p now db) = au_vaults db" "au_users (consume_grants p now db) = au_users db"
  "au_devices (consume_grants p now db) = au_devices db" "au_memberships (consume_grants p now db) = au_memberships db"
  "au_families (consume_grants p now db) = au_families db" "au_refresh (consume_grants p now db) = au_refresh db"
  "au_access (consume_grants p now db) = au_access db" "au_invitations (consume_grants p now db) = au_invitations db"
  by (simp_all add: consume_grants_def)

lemma loadLiveGrant_Inr:
  assumes "loadLiveGrant db m now = Inr (i, g)"
  shows "(i, g) \<in> set (live_grants m db)" "\<exists>e. gr_expiresAt g = Some e \<and> now < e"
  using assms by (auto simp: loadLiveGrant_def rejoin_date_def bind_result_eq_Inr dest!: first_by_mem split: option.splits if_split_asm)

lemma createGrant_Inr:
  assumes "createGrant clock uuid owner target db = Inr (res, db')"
  obtains now row where "clock = Some now" "gr_membershipId row = target" "gr_consumedAt row = None"
    "map_of (au_grants db) (cg_grantId res) = None"
    "db' = (consume_grants (\<lambda>_ g. gr_membershipId g = target \<and> gr_consumedAt g = None) now db)
       \<lparr>au_grants := au_grants (consume_grants (\<lambda>_ g. gr_membershipId g = target \<and> gr_consumedAt g = None) now db) @ [(cg_grantId res, row)]\<rparr>"
proof -
  from assms obtain now e d where clock: "clock = Some now"
    and ins: "insert_grant (consume_grants (\<lambda>_ g. gr_membershipId g = target \<and> gr_consumedAt g = None) now db) (cg_grantId res)
       \<lparr>gr_membershipId = target, gr_deviceId = d, gr_createdByMembershipId = owner, gr_createdAt = Some now,
        gr_expiresAt = e, gr_consumedAt = None\<rparr> = Inr db'"
    by (auto simp: createGrant_def bind_result_eq_Inr rejoin_uuid_def rejoin_clock_def split: if_split_asm option.split_asm)
  have "map_of (au_grants db) (cg_grantId res) = None"
    using insert_grant_Inr [OF ins] consume_grants_ids unfolding map_of_eq_None_iff by (metis list.set_map)
  then show thesis using insert_grant_Inr [OF ins] by (intro that [OF clock]) simp_all
qed

lemma rejoin_transaction_Inr:
  assumes "rejoin_transaction env now clock2 fu ru m d h secret db = Inr (res, db')"
  obtains i g mem dev fid e where "loadLiveGrant db m now = Inr (i, g)" "gr_deviceId g = d"
    "map_of (au_memberships db) m = Some mem" "vaultIsLive db (mb_vaultId mem)" "mb_status mem = MemberActive"
    "map_of (au_devices db) d = Some dev" "dv_status dev = DeviceApproved" "dv_userId dev = mb_userId mem"
    "rejoinSecretMatchesHash (sv_sha env) secret (dv_rejoinSecretHash dev)"
    "createInitialFamilyFromHashInCurrentTransaction (session_env.truncate env) clock2
       (consume_grants (\<lambda>j x. j = i \<and> gr_consumedAt x = None) now db) (mb_userId mem) d h (ie_refreshTtlSeconds env) fu ru = Inr ((fid, e), db')"
    "res = \<lparr>rg_membershipId = m, rg_vaultId = mb_vaultId mem, rg_deviceId = d, rg_refreshExpiresAt = e\<rparr>"
proof -
  obtain i g where load: "loadLiveGrant db m now = Inr (i, g)" and dev: "gr_deviceId g = d"
    using assms by (auto simp: rejoin_transaction_def bind_result_eq_Inr split: if_split_asm)
  obtain mem where mem: "loadMembership db m = Inr mem" "mb_status mem = MemberActive"
    using assms load dev by (auto simp: rejoin_transaction_def bind_result_eq_Inr split: if_split_asm)
  then show thesis
    using assms load dev that [OF load dev, of mem]
    by (auto simp: rejoin_transaction_def Let_def bind_result_eq_Inr loadMembership_Inr rejoin_session_Inr split: if_split_asm option.split_asm)
qed

text \<open>What a matching secret is.\<close>

lemma rejoinSecretMatchesHash_iff:
  "rejoinSecretMatchesHash sha secret stored \<Longrightarrow> stored = Some (sha secret) \<and> parseToken RejoinSecretDomain secret \<noteq> None"
  by (auto simp: rejoinSecretMatchesHash_def hashParsed_def tokenHashesEqual_def dest!: parseToken_Some split: option.split_asm if_split_asm)

section \<open>Operations as steps\<close>

datatype rejoin_op =
    GrantOp "int option" jsstr jsstr jsstr
  | RedeemGrantOp "int option" "int option" jsstr jsstr jsstr jsstr jsstr jsstr
  | OnboardingOp onboarding_op

fun rejoin_step :: "invitation_env \<Rightarrow> auth_db \<Rightarrow> rejoin_op \<Rightarrow> bool \<times> auth_db" where
  "rejoin_step env db (GrantOp clock uuid owner target) = settled_op db (createGrant clock uuid owner target db)"
| "rejoin_step env db (RedeemGrantOp clock clock2 fu ru m d h secret) =
     settled_op db (redeemGrant env clock clock2 fu ru m d h secret db)"
| "rejoin_step env db (OnboardingOp op) = (let (e, db') = onboarding_step env db op in (e = None, db'))"

definition grants_inv :: "auth_db \<Rightarrow> bool" where
  "grants_inv db \<longleftrightarrow> distinct (map fst (au_grants db)) \<and> (\<forall>m. length (live_grants m db) \<le> 1)"

text \<open>No other operation adds or reopens a grant; the deletion of a user removes some.\<close>

lemma live_filtered: "au_grants db' = filter P (au_grants db) \<Longrightarrow> live_grants m db' = filter P (live_grants m db)"
  by (simp add: live_grants_def conj_commute)

lemma grants_inv_filtered:
  assumes "grants_inv db" "au_grants db' = filter P (au_grants db)"
  shows "grants_inv db'"
  using assms live_filtered [OF assms(2)] le_trans [OF length_filter_le] distinct_filter_keys
  unfolding grants_inv_def by metis

lemma deletion_filters: "deletePendingUser u db = Inr db' \<Longrightarrow> \<exists>P. au_grants db' = filter P (au_grants db)"
  by (erule deletePendingUser_Inr) (auto intro: exI [of _ "\<lambda>_. True"])

lemma same_filters: "au_grants db' = au_grants db \<Longrightarrow> \<exists>P. au_grants db' = filter P (au_grants db)"
  by (auto intro: exI [of _ "\<lambda>_. True"])

lemma redeem_row_grants:
  assumes "redeem_rows env now ch rh rj du name i v u un db = Inr ((devId, phrase), db')"
  shows "au_grants db' = au_grants db"
  using assms by (rule redeem_rows_Inr)

lemma wrong_code_filters:
  "wrong_code i v u db = Inr (out, db') \<Longrightarrow> \<exists>P. au_grants db' = filter P (au_grants db)"
proof (cases "iv_approvalAttempts v + 1 \<ge> MAX_APPROVAL_ATTEMPTS")
  case True
  assume "wrong_code i v u db = Inr (out, db')"
  then have "deletePendingUser u (recordApprovalAttempts i (iv_approvalAttempts v + 1) db) = Inr db'"
    using True by (auto simp: wrong_code_def Let_def bind_result_eq_Inr)
  then show ?thesis using deletion_filters by (fastforce simp: recordApprovalAttempts_def)
qed (auto simp: wrong_code_def Let_def recordApprovalAttempts_def intro: same_filters)

lemma activate_grants: "activate_device env now clock2 mu fu ru i v d u h db = Inr (out, db') \<Longrightarrow> au_grants db' = au_grants db"
  by (erule activate_device_Inr)

lemma approve_filters:
  assumes "approve_transaction env now clock2 mu fu ru i a phrase db = Inr (out, db')"
  shows "\<exists>P. au_grants db' = filter P (au_grants db)"
  using assms
proof (rule approve_transaction_Inr)
  fix v d u h expected
  assume "(if phrase \<noteq> expected then wrong_code i v u db else activate_device env now clock2 mu fu ru i v d u h db) = Inr (out, db')"
  then show ?thesis using wrong_code_filters same_filters [OF activate_grants] by (auto split: if_split_asm)
qed

lemma onboarding_filters: "\<exists>P. au_grants (snd (onboarding_step env db op)) = filter P (au_grants db)"
proof (cases op)
  case (InviteOp clock bytes pin mu iu input)
  show ?thesis
  proof (cases "createInvitation env clock bytes pin mu iu input db")
    case (Inr r)
    obtain res db' where r: "r = (res, db')" by (cases r)
    have "au_grants db' = au_grants db" using Inr [unfolded r] by (rule createInvitation_Inr) simp
    then show ?thesis using InviteOp Inr r by (intro same_filters) simp
  qed (rule same_filters, use InviteOp in simp)
next
  case (RedeemOp clock bytes du input)
  show ?thesis
  proof (cases rule: redeem_cases [of env clock bytes du input db])
    case (expired j v now)
    then show ?thesis using RedeemOp by (intro same_filters) (simp add: burnInvitation_def)
  next
    case (redeemed j v now res db' ch rh rj devId userId userName)
    then show ?thesis using redeem_row_grants [OF redeemed(5)] RedeemOp redeemed(4) by (intro same_filters) simp
  qed (rule same_filters, use RedeemOp in simp)
next
  case (ApproveOp clock clock2 mu fu ru j a phrase)
  show ?thesis
  proof (cases rule: approve_cases [of env clock clock2 mu fu ru j a phrase db])
    case (tx now out db')
    then show ?thesis using approve_filters [OF tx(2)] ApproveOp by (cases out) simp_all
  qed (rule same_filters, use ApproveOp in simp)
next
  case (RejectOp j a)
  show ?thesis
  proof (cases "rejectPendingDevice j a db")
    case (Inr db')
    then show ?thesis using RejectOp rejectPendingDevice_Inr [OF Inr] deletion_filters by auto
  qed (rule same_filters, use RejectOp in simp)
next
  case (SessionOp op')
  then show ?thesis using session_step_revokes [of db "session_env.truncate env" op'] by (intro same_filters) (simp add: split_beta revokes_only_def)
qed

section \<open>One live grant\<close>

lemma createGrant_live:
  assumes run: "createGrant clock uuid owner target db = Inr (res, db')" and inv: "grants_inv db"
  shows "grants_inv db'" "length (live_grants target db') = 1" "m \<noteq> target \<Longrightarrow> live_grants m db' = live_grants m db"
proof -
  let ?p = "\<lambda>(_::ident) g. gr_membershipId g = target \<and> gr_consumedAt g = None"
  from run obtain now row where row: "gr_membershipId row = target" "gr_consumedAt row = None"
    and new: "map_of (au_grants db) (cg_grantId res) = None"
    and db': "db' = (consume_grants ?p now db)\<lparr>au_grants := au_grants (consume_grants ?p now db) @ [(cg_grantId res, row)]\<rparr>"
    by (rule createGrant_Inr)
  have live: "live_grants k db' = filter (\<lambda>(i, g). \<not> ?p i g) (live_grants k db) @ (if k = target then [(cg_grantId res, row)] else [])" for k
    using live_grants_consume [of k ?p now db] row by (simp add: live_grants_def db')
  have other: "live_grants k db' = live_grants k db" if "k \<noteq> target" for k
    using that unfolding live by (auto simp: live_grants_def intro!: filter_cong)
  have mine: "live_grants target db' = [(cg_grantId res, row)]"
    unfolding live by (auto simp: live_grants_def filter_empty_conv)
  show "length (live_grants target db') = 1" "m \<noteq> target \<Longrightarrow> live_grants m db' = live_grants m db"
    using mine other by simp_all
  have "map fst (au_grants db') = map fst (au_grants db) @ [cg_grantId res]" using consume_grants_ids by (simp add: db')
  then have "distinct (map fst (au_grants db'))" using inv new by (simp add: grants_inv_def map_of_eq_None_iff)
  moreover have "length (live_grants k db') \<le> 1" for k
    using mine other inv by (cases "k = target") (simp_all add: grants_inv_def)
  ultimately show "grants_inv db'" by (simp add: grants_inv_def)
qed

lemma family_grants:
  assumes "createInitialFamilyFromHashInCurrentTransaction env clock db u d h ttl fu ru = Inr ((fid, e), db')"
  obtains r where "db' = db\<lparr>au_families := au_families db @ [(fid, \<lparr>fa_userId = u, fa_deviceId = d, fa_status = FamilyActive,
         fa_currentGeneration = 0, fa_expiresAt = e, fa_revokedAt = None\<rparr>)], au_refresh := au_refresh db @ [r]\<rparr>"
    "rt_familyId r = fid" "rt_tokenHash r = h" "rt_consumedAt r = None"
  using assms by (elim createInitialFamily_Inr create_family_Inr) (rule that)

lemma redeem_live:
  assumes run: "rejoin_transaction env now clock2 fu ru m d h secret db = Inr (res, db')"
  obtains i g where "(i, g) \<in> set (live_grants m db)"
    "\<And>k. live_grants k db' = filter (\<lambda>(j, x). \<not> (j = i \<and> gr_consumedAt x = None)) (live_grants k db)"
    "map fst (au_grants db') = map fst (au_grants db)"
  using run
proof (rule rejoin_transaction_Inr)
  fix i g mem dev fid e
  assume load: "loadLiveGrant db m now = Inr (i, g)"
    and fam: "createInitialFamilyFromHashInCurrentTransaction (session_env.truncate env) clock2
       (consume_grants (\<lambda>j x. j = i \<and> gr_consumedAt x = None) now db) (mb_userId mem) d h (ie_refreshTtlSeconds env) fu ru = Inr ((fid, e), db')"
  have grants: "au_grants db' = au_grants (consume_grants (\<lambda>j x. j = i \<and> gr_consumedAt x = None) now db)"
    using fam by (rule family_grants) simp
  then have "live_grants k db' = filter (\<lambda>(j, x). \<not> (j = i \<and> gr_consumedAt x = None)) (live_grants k db)" for k
    using live_grants_consume [of k "\<lambda>j x. j = i \<and> gr_consumedAt x = None" now db] by (simp add: live_grants_def)
  then show thesis using that [OF loadLiveGrant_Inr(1) [OF load]] grants consume_grants_ids by simp
qed

lemma redeemGrant_Inr:
  assumes "redeemGrant env clock clock2 fu ru m d h secret db = Inr (res, db')"
  obtains now where "clock = Some now" "rejoin_transaction env now clock2 fu ru m d h secret db = Inr (res, db')"
  using assms by (auto simp: redeemGrant_def bind_result_eq_Inr rejoin_uuid_def rejoin_clock_def split: if_split_asm option.split_asm)

lemma redeem_inv_grants:
  assumes "rejoin_transaction env now clock2 fu ru m d h secret db = Inr (res, db')" and inv: "grants_inv db"
  shows "grants_inv db'" "length (live_grants k db') + (if k = m then 1 else 0) \<le> length (live_grants k db)"
proof -
  from assms(1) obtain i g where mem: "(i, g) \<in> set (live_grants m db)"
    and live: "\<And>k. live_grants k db' = filter (\<lambda>(j, x). \<not> (j = i \<and> gr_consumedAt x = None)) (live_grants k db)"
    and ids: "map fst (au_grants db') = map fst (au_grants db)"
    by (rule redeem_live) blast
  have le: "length (live_grants k db') \<le> length (live_grants k db)" for k unfolding live by simp
  then show "grants_inv db'" using inv le_trans [OF le] unfolding grants_inv_def ids by blast
  have "gr_consumedAt g = None" using mem by (simp add: live_grants_def)
  then have "length (live_grants m db') < length (live_grants m db)"
    unfolding live using mem by (intro length_filter_less [of "(i, g)"]) auto
  then show "length (live_grants k db') + (if k = m then 1 else 0) \<le> length (live_grants k db)" using le by auto
qed

fun redeems_grant :: "ident \<Rightarrow> rejoin_op \<Rightarrow> bool \<Rightarrow> bool" where
  "redeems_grant m (RedeemGrantOp _ _ _ _ k _ _ _) ok \<longleftrightarrow> ok \<and> k = m"
| "redeems_grant _ _ _ \<longleftrightarrow> False"

fun issues_grant :: "ident \<Rightarrow> rejoin_op \<Rightarrow> nat" where
  "issues_grant m (GrantOp _ _ _ target) = (if target = m then 1 else 0)"
| "issues_grant _ _ = 0"

lemma rejoin_step_grants:
  assumes inv: "grants_inv db"
  shows "grants_inv (snd (rejoin_step env db op))"
    "length (live_grants m (snd (rejoin_step env db op))) + (if redeems_grant m op (fst (rejoin_step env db op)) then 1 else 0) \<le>
       length (live_grants m db) + issues_grant m op"
proof -
  have "grants_inv (snd (rejoin_step env db op)) \<and>
    length (live_grants m (snd (rejoin_step env db op))) + (if redeems_grant m op (fst (rejoin_step env db op)) then 1 else 0) \<le>
       length (live_grants m db) + issues_grant m op"
  proof (cases op)
    case (GrantOp clock uuid owner target)
    show ?thesis
    proof (cases rule: settled_op_cases [of db "createGrant clock uuid owner target db"])
      case (2 res db')
      then show ?thesis using createGrant_live [OF 2(1) inv] GrantOp by (cases "target = m") simp_all
    qed (use inv GrantOp in simp)
  next
    case (RedeemGrantOp clock clock2 fu ru k d h secret)
    show ?thesis
    proof (cases rule: settled_op_cases [of db "redeemGrant env clock clock2 fu ru k d h secret db"])
      case (2 res db')
      from 2(1) obtain now where "rejoin_transaction env now clock2 fu ru k d h secret db = Inr (res, db')"
        by (rule redeemGrant_Inr)
      from redeem_inv_grants(1) [OF this inv] redeem_inv_grants(2) [OF this inv, of m] show ?thesis using RedeemGrantOp 2 by (auto split: if_split_asm)
    qed (use inv RedeemGrantOp in simp)
  next
    case (OnboardingOp op')
    obtain P where P: "au_grants (snd (onboarding_step env db op')) = filter P (au_grants db)" using onboarding_filters by blast
    show ?thesis using OnboardingOp grants_inv_filtered [OF inv P] live_filtered [OF P, of m] by (simp add: split_beta)
  qed
  then show "grants_inv (snd (rejoin_step env db op))"
    "length (live_grants m (snd (rejoin_step env db op))) + (if redeems_grant m op (fst (rejoin_step env db op)) then 1 else 0) \<le>
       length (live_grants m db) + issues_grant m op" by simp_all
qed

interpretation rejoins: invariant_machine "rejoin_step env" grants_inv for env
  by unfold_locales (rule rejoin_step_grants)

interpretation rejoinings: metered_machine "rejoin_step env" grants_inv "redeems_grant m" "\<lambda>db. length (live_grants m db)"
    "issues_grant m" for env m
  by unfold_locales (rule rejoin_step_grants)

text \<open>
  C27. At every moment a membership has at most one live grant, whatever owners issue and whoever redeems, and
  over any sequence of rejoin, onboarding and session operations the redemptions that succeed for a
  membership are at most the grants issued for it, plus the one that may be live at the start.
\<close>

theorem rejoin_grants_are_single_use:
  assumes "grants_inv db"
  shows "length (live_grants m (rejoins.run env db ops)) \<le> 1 \<and>
     rejoinings.hits env m db ops \<le> length (live_grants m db) + sum_list (map (issues_grant m) ops)"
  using rejoins.run_inv [OF assms, of env ops] rejoinings.hits_bounded [OF assms, of env m ops] by (simp add: grants_inv_def)

section \<open>Who may rejoin\<close>

text \<open>
  C26. Knowing the ids of a member and a device is not enough to rejoin: a redemption succeeds only while an
  unexpired grant of an active membership in a live vault is open, for the approved device the grant was
  bound to, and with the secret whose hash that device stored. It spends the grant and opens exactly one
  refresh family, for that user and device and the presented token hash; users, devices, memberships and
  every other session stay as they were.
\<close>

theorem rejoin_needs_the_device_secret:
  assumes run: "redeemGrant env (Some now) clock2 fu ru m d h secret db = Inr (res, db')" and inv: "grants_inv db"
  shows "\<exists>i g mem dev fid f r. live_grants m db = [(i, g)] \<and> gr_deviceId g = d \<and> (\<exists>e. gr_expiresAt g = Some e \<and> now < e) \<and>
     map_of (au_memberships db) m = Some mem \<and> mb_status mem = MemberActive \<and> vaultIsLive db (mb_vaultId mem) \<and>
     map_of (au_devices db) d = Some dev \<and> dv_status dev = DeviceApproved \<and> dv_userId dev = mb_userId mem \<and>
     dv_rejoinSecretHash dev = Some (sv_sha env secret) \<and> live_grants m db' = [] \<and>
     au_families db' = au_families db @ [(fid, f)] \<and> fa_userId f = mb_userId mem \<and> fa_deviceId f = d \<and>
     au_refresh db' = au_refresh db @ [r] \<and> rt_familyId r = fid \<and> rt_tokenHash r = h \<and>
     au_users db' = au_users db \<and> au_devices db' = au_devices db \<and> au_memberships db' = au_memberships db \<and> au_access db' = au_access db"
proof -
  have tx: "rejoin_transaction env now clock2 fu ru m d h secret db = Inr (res, db')" using run
    by (rule redeemGrant_Inr) simp
  from tx show ?thesis
  proof (rule rejoin_transaction_Inr)
    fix i g mem dev fid e
    assume g: "loadLiveGrant db m now = Inr (i, g)" "gr_deviceId g = d"
      and mem: "map_of (au_memberships db) m = Some mem" "vaultIsLive db (mb_vaultId mem)" "mb_status mem = MemberActive"
      and dev: "map_of (au_devices db) d = Some dev" "dv_status dev = DeviceApproved" "dv_userId dev = mb_userId mem"
      and secret: "rejoinSecretMatchesHash (sv_sha env) secret (dv_rejoinSecretHash dev)"
      and fam: "createInitialFamilyFromHashInCurrentTransaction (session_env.truncate env) clock2
       (consume_grants (\<lambda>j x. j = i \<and> gr_consumedAt x = None) now db) (mb_userId mem) d h (ie_refreshTtlSeconds env) fu ru = Inr ((fid, e), db')"
    have "length (live_grants m db) \<le> 1" using inv by (simp add: grants_inv_def)
    then have one: "live_grants m db = [(i, g)]"
      using loadLiveGrant_Inr(1) [OF g(1)] by (cases "live_grants m db") (auto simp: le_Suc_eq)
    moreover have "live_grants m db' = []" using redeem_inv_grants(2) [OF tx inv, of m] one by simp
    moreover from fam obtain r where "db' = (consume_grants (\<lambda>j x. j = i \<and> gr_consumedAt x = None) now db)
       \<lparr>au_families := au_families db @ [(fid, \<lparr>fa_userId = mb_userId mem, fa_deviceId = d, fa_status = FamilyActive,
         fa_currentGeneration = 0, fa_expiresAt = e, fa_revokedAt = None\<rparr>)], au_refresh := au_refresh db @ [r]\<rparr>"
        "rt_familyId r = fid" "rt_tokenHash r = h" by (rule family_grants) simp
    ultimately show ?thesis
      using loadLiveGrant_Inr(2) [OF g(1)] g(2) mem dev rejoinSecretMatchesHash_iff [OF secret]
      by (intro exI [of _ i] exI [of _ g] exI [of _ mem] exI [of _ dev] exI [of _ fid] exI [of _ "\<lparr>fa_userId = mb_userId mem, fa_deviceId = d,
         fa_status = FamilyActive, fa_currentGeneration = 0, fa_expiresAt = e, fa_revokedAt = None\<rparr>"] exI [of _ r]) simp
  qed
qed

section \<open>A small rejoin\<close>

text \<open>The demo server's owner re-admits its own device, which holds a secret.\<close>

definition demo_device :: auth_db where
  "demo_device = demo_db\<lparr>au_devices := map (\<lambda>(i, d). (i, d\<lparr>dv_rejoinSecretHash := Some (sv_sha demo_env (demo_token RejoinSecretDomain 1))\<rparr>)) (au_devices demo_db)\<rparr>"

definition demo_granted :: auth_db where
  "demo_granted = snd (rejoin_step demo_ienv demo_device (GrantOp (Some 1000) (demo_uuid 9) (demo_uuid 3) (demo_uuid 3)))"

definition demo_rejoin :: "rejoin_error + redeem_grant_result \<times> auth_db" where
  "demo_rejoin = redeemGrant demo_ienv (Some 2000) (Some 2000) (demo_uuid 4) (demo_uuid 5) (demo_uuid 3) (demo_uuid 2) (replicate 64 48)
     (demo_token RejoinSecretDomain 1) demo_granted"

lemma demo_granted_inv: "grants_inv demo_granted"
proof -
  have "grants_inv demo_device" by (simp add: grants_inv_def live_grants_def demo_device_def demo_db_def)
  then show ?thesis unfolding demo_granted_def by (rule rejoin_step_grants)
qed

lemma demo_rejoins: "case demo_rejoin of Inr (res, db) \<Rightarrow> rg_vaultId res = demo_uuid 0 | Inl _ \<Rightarrow> False"
  by code_simp

theorem rejoin_needs_the_device_secret_witness:
  "\<exists>res db i g. demo_rejoin = Inr (res, db) \<and> live_grants (demo_uuid 3) demo_granted = [(i, g)] \<and> live_grants (demo_uuid 3) db = [] \<and>
     length (au_families db) = length (au_families demo_granted) + 1"
proof -
  obtain res db where run: "demo_rejoin = Inr (res, db)" using demo_rejoins by (auto split: sum.splits)
  show ?thesis using rejoin_needs_the_device_secret [OF run [unfolded demo_rejoin_def] demo_granted_inv] run by (intro exI [of _ res] exI [of _ db]) auto
qed

definition demo_rejoin_op :: rejoin_op where
  "demo_rejoin_op = RedeemGrantOp (Some 2000) (Some 2000) (demo_uuid 4) (demo_uuid 5) (demo_uuid 3) (demo_uuid 2) (replicate 64 48)
     (demo_token RejoinSecretDomain 1)"

theorem rejoin_grants_are_single_use_witness:
  "grants_inv demo_granted \<and> rejoinings.hits demo_ienv (demo_uuid 3) demo_granted [demo_rejoin_op, demo_rejoin_op] \<le> 1"
proof -
  have "length (live_grants (demo_uuid 3) demo_granted) \<le> 1" using demo_granted_inv by (simp add: grants_inv_def)
  then show ?thesis
    using rejoin_grants_are_single_use [OF demo_granted_inv, of "demo_uuid 3" demo_ienv "[demo_rejoin_op, demo_rejoin_op]"] demo_granted_inv
    by (simp add: demo_rejoin_op_def)
qed

end
