(* ===== verification/AccessTokens.thy ===== *)
theory AccessTokens
  imports Invitations_Theorems
begin

text \<open>
  The client's side of a session: \<^verbatim>\<open>apps/obsidian-plugin/src/runtime/access-token.ts\<close>, which turns the
  stored refresh token into access tokens, and the route \<^verbatim>\<open>POST /auth/refresh\<close>
  (\<^verbatim>\<open>apps/server/src/auth/onboarding-routes.ts\<close>) it talks to. The outcome of every access to the secret store
  and the fate of the request on the network are arguments; a write may also take effect and still throw.
\<close>

section \<open>The refresh route\<close>

record pending_rotation =
  pr_refreshToken :: jsstr
  pr_rotationId :: jsstr
  pr_successorRefreshToken :: jsstr

datatype refresh_reply = TokenReply jsstr stored_date | ErrorReply nat | UnreadableReply

definition body_field :: "jsstr \<Rightarrow> bool" where
  "body_field v \<longleftrightarrow> 1 \<le> length v \<and> length v \<le> 200"

definition refresh_body :: "pending_rotation \<Rightarrow> bool" where
  "refresh_body q \<longleftrightarrow> body_field (pr_refreshToken q) \<and> body_field (pr_rotationId q) \<and> body_field (pr_successorRefreshToken q)"

definition refresh_route ::
    "session_env \<Rightarrow> int option \<Rightarrow> jsstr \<Rightarrow> nat list \<Rightarrow> jsstr \<Rightarrow> pending_rotation \<Rightarrow> auth_db \<Rightarrow> refresh_reply \<times> auth_db" where
  "refresh_route env clock refreshUuid tokenBytes accessUuid q db =
     (if \<not> refresh_body q then (ErrorReply 400, db)
      else
        (case rotateRefresh env clock db (pr_refreshToken q) (pr_rotationId q) (pr_successorRefreshToken q)
             refreshUuid tokenBytes accessUuid of
           (Inr rotated, db') \<Rightarrow> (TokenReply (rr_accessToken rotated) (rr_accessExpiresAt rotated), db')
         | (Inl _, db') \<Rightarrow> (ErrorReply 401, db')))"

section \<open>Storage and network\<close>

datatype write_outcome = Written | NotWritten | WrittenButThrew

text \<open>
  A request may never arrive, its reply may be lost, someone between may answer in the server's place, or
  the transaction on the server may fail (a busy or full database), which the route also answers with 401.
\<close>

datatype fate = RequestLost | ReplyLost | Replied | Garbled | Refused nat | ServerFailed

record rotation_io =
  io_get :: bool
  io_load :: bool
  io_save :: write_outcome
  io_fate :: fate
  io_refresh :: write_outcome
  io_clear :: write_outcome

definition stored_after :: "write_outcome \<Rightarrow> 'a \<Rightarrow> 'a \<Rightarrow> 'a" where
  "stored_after w old new = (if w = NotWritten then old else new)"

fun send :: "fate \<Rightarrow> (pending_rotation \<Rightarrow> 'w \<Rightarrow> refresh_reply \<times> 'w) \<Rightarrow> pending_rotation \<Rightarrow> 'w \<Rightarrow> refresh_reply option \<times> 'w" where
  "send RequestLost route q w = (None, w)"
| "send ReplyLost route q w = (None, snd (route q w))"
| "send Replied route q w = (let (r, w') = route q w in (Some r, w'))"
| "send Garbled route q w =
     (let (r, w') = route q w in (Some (case r of TokenReply _ _ \<Rightarrow> UnreadableReply | _ \<Rightarrow> r), w'))"
| "send (Refused status) route q w = (Some (ErrorReply status), w)"
| "send ServerFailed route q w = (Some (ErrorReply 401), w)"

section \<open>The provider\<close>

definition EXPIRY_SKEW_MS :: int where
  "EXPIRY_SKEW_MS = 30000"

datatype token_error = NO_REFRESH_TOKEN | STORE_FAILED | NETWORK_FAILED | AUTH_DENIED | REFRESH_FAILED nat | MALFORMED_REPLY

record provider =
  ap_cachedToken :: "jsstr option"
  ap_cachedExpiry :: stored_date
  ap_memoryPending :: "pending_rotation option"
  ap_inFlight :: bool

record secret_store =
  ss_refresh :: "jsstr option"
  ss_pending :: "pending_rotation option"

definition new_provider :: provider where
  "new_provider = \<lparr>ap_cachedToken = None, ap_cachedExpiry = Some 0, ap_memoryPending = None, ap_inFlight = False\<rparr>"

datatype access_answer = CachedToken jsstr | StartsRotation | JoinsRotation

text \<open>The cached token while it is fresh; otherwise the caller starts a rotation or joins the one in flight.\<close>

definition rotate_single :: "provider \<Rightarrow> access_answer \<times> provider" where
  "rotate_single p = (if ap_inFlight p then (JoinsRotation, p) else (StartsRotation, p\<lparr>ap_inFlight := True\<rparr>))"

definition getAccessToken :: "int \<Rightarrow> provider \<Rightarrow> access_answer \<times> provider" where
  "getAccessToken now p =
     (case (ap_cachedToken p, ap_cachedExpiry p) of
        (Some token, Some expiry) \<Rightarrow> if now < expiry - EXPIRY_SKEW_MS then (CachedToken token, p) else rotate_single p
      | _ \<Rightarrow> rotate_single p)"

text \<open>\<open>durable\<close> tells whether the callbacks of the secret store are wired.\<close>

definition loadPending :: "bool \<Rightarrow> rotation_io \<Rightarrow> provider \<Rightarrow> secret_store \<Rightarrow> token_error + pending_rotation option" where
  "loadPending durable io p s =
     (if \<not> durable then Inr (ap_memoryPending p) else if io_load io then Inr (ss_pending s) else Inl STORE_FAILED)"

definition savePending :: "bool \<Rightarrow> rotation_io \<Rightarrow> pending_rotation \<Rightarrow> secret_store \<Rightarrow> (token_error + unit) \<times> secret_store" where
  "savePending durable io q s =
     (if \<not> durable then (Inr (), s)
      else (if io_save io = Written then Inr () else Inl STORE_FAILED, s\<lparr>ss_pending := stored_after (io_save io) (ss_pending s) (Some q)\<rparr>))"

definition clearPendingRotation :: "bool \<Rightarrow> rotation_io \<Rightarrow> provider \<Rightarrow> secret_store \<Rightarrow> provider \<times> secret_store" where
  "clearPendingRotation durable io p s =
     (p\<lparr>ap_memoryPending := None\<rparr>, if durable then s\<lparr>ss_pending := stored_after (io_clear io) (ss_pending s) None\<rparr> else s)"

definition resolvePendingRotation ::
    "bool \<Rightarrow> rotation_io \<Rightarrow> jsstr \<Rightarrow> jsstr \<Rightarrow> jsstr \<Rightarrow> provider \<Rightarrow> secret_store \<Rightarrow>
     (token_error + pending_rotation) \<times> provider \<times> secret_store" where
  "resolvePendingRotation durable io newRotationId newSuccessor refreshToken p s =
     (case loadPending durable io p s of
        Inl e \<Rightarrow> (Inl e, p, s)
      | Inr existing \<Rightarrow>
          (let q = \<lparr>pr_refreshToken = refreshToken, pr_rotationId = newRotationId, pr_successorRefreshToken = newSuccessor\<rparr>;
               fresh = (case savePending durable io q s of
                 (Inl e, s') \<Rightarrow> (Inl e, p\<lparr>ap_memoryPending := Some q\<rparr>, s')
               | (Inr _, s') \<Rightarrow> (Inr q, p\<lparr>ap_memoryPending := Some q\<rparr>, s'))
           in case existing of
                Some old \<Rightarrow> if pr_refreshToken old = refreshToken then (Inr old, p, s) else fresh
              | None \<Rightarrow> fresh))"

definition rotateOnce ::
    "bool \<Rightarrow> rotation_io \<Rightarrow> jsstr \<Rightarrow> jsstr \<Rightarrow> (pending_rotation \<Rightarrow> 'w \<Rightarrow> refresh_reply \<times> 'w) \<Rightarrow> provider \<Rightarrow> secret_store \<Rightarrow> 'w \<Rightarrow>
     (token_error + jsstr) \<times> provider \<times> secret_store \<times> 'w" where
  "rotateOnce durable io newRotationId newSuccessor route p s w =
     (if \<not> io_get io then (Inl STORE_FAILED, p, s, w)
      else
        (case ss_refresh s of
           None \<Rightarrow> (Inl NO_REFRESH_TOKEN, p, s, w)
         | Some refreshToken \<Rightarrow>
             (case resolvePendingRotation durable io newRotationId newSuccessor refreshToken p s of
                (Inl e, p, s) \<Rightarrow> (Inl e, p, s, w)
              | (Inr q, p, s) \<Rightarrow>
                  (case send (io_fate io) route q w of
                     (None, w) \<Rightarrow> (Inl NETWORK_FAILED, p, s, w)
                   | (Some (ErrorReply status), w) \<Rightarrow>
                       if status = 401 then (let (p, s) = clearPendingRotation durable io p s in (Inl AUTH_DENIED, p, s, w))
                       else (Inl (REFRESH_FAILED status), p, s, w)
                   | (Some UnreadableReply, w) \<Rightarrow> (Inl MALFORMED_REPLY, p, s, w)
                   | (Some (TokenReply token expiry), w) \<Rightarrow>
                       (let s = s\<lparr>ss_refresh := stored_after (io_refresh io) (ss_refresh s) (Some (pr_successorRefreshToken q))\<rparr>
                        in if io_refresh io \<noteq> Written then (Inl STORE_FAILED, p, s, w)
                           else
                             (let (p, s) = clearPendingRotation durable io p s
                              in (Inr token, p\<lparr>ap_cachedToken := Some token, ap_cachedExpiry := expiry\<rparr>, s, w)))))))"

section \<open>Client and server\<close>

text \<open>
  The client with its durable secrets, the server's tables and the server's clock. Between two rotations of
  the client anything may happen that does not use its secrets: other sessions and revocations, the passing
  of time, the loss of the client's memory.
\<close>

record refresh_world =
  rw_now :: int
  rw_provider :: provider
  rw_secrets :: secret_store
  rw_db :: auth_db

definition token_hashes :: "auth_db \<Rightarrow> jsstr set" where
  "token_hashes db = rt_tokenHash ` set (au_refresh db)"

definition stranger :: "session_env \<Rightarrow> ident \<Rightarrow> secret_store \<Rightarrow> auth_db \<Rightarrow> session_op \<Rightarrow> bool" where
  "stranger env i s db op \<longleftrightarrow>
     (case op of RotateOp _ cur _ _ _ _ _ \<Rightarrow> lookupRefreshFamilyId env db cur \<noteq> Some i | _ \<Rightarrow> True) \<and>
     (case ss_pending s of
        None \<Rightarrow> True
      | Some q \<Rightarrow> sv_sha env (pr_successorRefreshToken q) \<in> token_hashes (snd (session_step env db op)) \<longrightarrow>
          sv_sha env (pr_successorRefreshToken q) \<in> token_hashes db)"

definition rotation_of ::
    "session_env \<Rightarrow> rotation_io \<Rightarrow> jsstr \<Rightarrow> jsstr \<Rightarrow> jsstr \<Rightarrow> nat list \<Rightarrow> jsstr \<Rightarrow> refresh_world \<Rightarrow>
     (token_error + jsstr) \<times> provider \<times> secret_store \<times> auth_db" where
  "rotation_of env io rot suc ru bytes au w =
     rotateOnce True io rot suc (refresh_route env (Some (rw_now w)) ru bytes au) (rw_provider w) (rw_secrets w) (rw_db w)"

inductive refresh_step :: "session_env \<Rightarrow> ident \<Rightarrow> refresh_world \<Rightarrow> refresh_world \<Rightarrow> bool" for env i where
  asks: "refresh_step env i w (w\<lparr>rw_provider := snd (getAccessToken t (rw_provider w))\<rparr>)"
| rotates: "refresh_step env i w (w\<lparr>rw_provider := p\<lparr>ap_inFlight := False\<rparr>, rw_secrets := s, rw_db := db\<rparr>)"
    if "ap_inFlight (rw_provider w)" and "rotation_of env io rot suc ru bytes au w = (res, p, s, db)"
      and "io_fate io \<noteq> Refused 401" and "io_fate io \<noteq> ServerFailed"
      and "sv_sha env suc \<notin> token_hashes (rw_db w)" and "fresh_access env (rw_db w) (rw_now w) bytes au"
| restarts: "refresh_step env i w (w\<lparr>rw_provider := new_provider\<rparr>)"
| passes: "refresh_step env i w (w\<lparr>rw_now := t\<rparr>)" if "rw_now w \<le> t"
| others: "refresh_step env i w (w\<lparr>rw_db := snd (session_step env (rw_db w) op)\<rparr>)" if "stranger env i (rw_secrets w) (rw_db w) op"

section \<open>What strangers leave alone\<close>

definition family_like :: "family_row \<Rightarrow> family_row \<Rightarrow> bool" where
  "family_like f f' \<longleftrightarrow> fa_userId f' = fa_userId f \<and> fa_deviceId f' = fa_deviceId f \<and>
     fa_currentGeneration f' = fa_currentGeneration f \<and> fa_expiresAt f' = fa_expiresAt f \<and>
     (fa_status f' = fa_status f \<or> fa_status f' = FamilyRevoked)"

definition family_kept :: "ident \<Rightarrow> auth_db \<Rightarrow> auth_db \<Rightarrow> bool" where
  "family_kept i db db' \<longleftrightarrow>
     filter (\<lambda>r. rt_familyId r = i) (au_refresh db') = filter (\<lambda>r. rt_familyId r = i) (au_refresh db) \<and>
     (\<forall>f. map_of (au_families db) i = Some f \<longrightarrow> (\<exists>f'. map_of (au_families db') i = Some f' \<and> family_like f f'))"

lemma family_like_refl [simp]: "family_like f f"
  by (simp add: family_like_def)

lemma family_like_trans: "family_like f g \<Longrightarrow> family_like g h \<Longrightarrow> family_like f h"
  by (auto simp: family_like_def)

lemma family_kept_same:
  "au_refresh db' = au_refresh db \<Longrightarrow> map_of (au_families db') i = map_of (au_families db) i \<Longrightarrow> family_kept i db db'"
  by (simp add: family_kept_def)

lemma family_kept_trans: "family_kept i a b \<Longrightarrow> family_kept i b c \<Longrightarrow> family_kept i a c"
  unfolding family_kept_def using family_like_trans by fastforce

lemma family_kept_rows: "family_kept i db (revoke_device_rows d now db)"
proof -
  have "au_refresh (revoke_device_rows d now db) = au_refresh db" by (simp add: revoke_device_rows_def)
  then show ?thesis by (auto simp: family_kept_def family_like_def revoke_device_rows_families)
qed

lemma family_kept_created:
  assumes "create_family env db u d h ttl now fu ru = Inr ((fid, e), db')" and "map_of (au_families db) i = Some f"
  shows "family_kept i db db'"
  using assms(1)
proof (rule create_family_Inr)
  fix r
  assume new: "map_of (au_families db) fid = None" and r: "rt_familyId r = fid"
    and db': "db' = db\<lparr>au_families := au_families db @ [(fid, \<lparr>fa_userId = u, fa_deviceId = d, fa_status = FamilyActive,
         fa_currentGeneration = 0, fa_expiresAt = e, fa_revokedAt = None\<rparr>)], au_refresh := au_refresh db @ [r]\<rparr>"
  have "i \<noteq> fid" using new assms(2) by auto
  then show ?thesis using r assms(2) by (simp add: family_kept_def db')
qed

lemma rotating_family:
  assumes "prepareRotation env cur rot suc = Inr p" "refresh_join db (pp_currentTokenHash p) = Some (r, f, u, d)"
  shows "lookupRefreshFamilyId env db cur = Some (rt_familyId r)"
proof -
  have "parseToken RefreshTokenDomain cur \<noteq> None" using assms(1) by (auto simp: prepareRotation_def split: option.split_asm)
  then obtain v where v: "parseToken RefreshTokenDomain cur = Some v" by blast
  then have "hashParsed (sv_sha env) RefreshTokenDomain cur = Some (sv_sha env cur)"
    using parseToken_Some [OF v] by (simp add: hashParsed_def)
  moreover have "find (\<lambda>x. rt_tokenHash x = sv_sha env cur) (au_refresh db) = Some r"
    using assms(2) prepareRotation_Inr(1) [OF assms(1)] by (auto simp: refresh_join_def bind_eq_Some_conv)
  ultimately show ?thesis by (simp add: lookupRefreshFamilyId_def)
qed

lemma family_kept_rotated:
  assumes inv: "sess_inv db" and run: "rotateInTransaction env db p now ru bytes au = Inr (out, db')"
    and other: "\<And>r f u d. refresh_join db (pp_currentTokenHash p) = Some (r, f, u, d) \<Longrightarrow> rt_familyId r \<noteq> i"
  shows "family_kept i db db'"
  using run
proof (cases rule: rotateInTransaction_Inr)
  case (reuse r f u d)
  then show ?thesis using other [OF reuse(1)] by (intro family_kept_same) (simp_all add: markReuse_def map_of_update_families option.map_ident)
next
  case (retry r f u d e tok)
  then show ?thesis using issueAccess_tables [OF retry(5)] by (intro family_kept_same) simp_all
next
  case (first r f u d)
  have i: "rt_familyId r \<noteq> i" by (rule other [OF first(1)])
  have "consume_if p now r x = x" if "x \<in> set (au_refresh db)" "rt_familyId x = i" for x
  proof -
    have "inj_on rt_id (set (au_refresh db))" using inv by (simp add: sess_inv_def distinct_map)
    moreover have "x \<noteq> r" using that i by blast
    ultimately have "rt_id x \<noteq> rt_id r" using that refresh_join_Some(1) [OF first(1)] by (simp add: inj_on_eq_iff)
    then show ?thesis by (simp add: consume_if_def)
  qed
  then have "map (consume_if p now r) (filter (\<lambda>x. rt_familyId x = i) (au_refresh db)) = filter (\<lambda>x. rt_familyId x = i) (au_refresh db)"
    by (intro map_idI) simp
  then have same: "filter (\<lambda>x. rt_familyId x = i) (map (consume_if p now r) (au_refresh db)) = filter (\<lambda>x. rt_familyId x = i) (au_refresh db)"
    by (simp add: filter_map comp_def)
  from first(6) show ?thesis
  proof (rule rotate_first_Inr)
    fix n fe e tok
    assume acc: "issueAccess env (update_families (\<lambda>i x. i = rt_familyId r \<and> fa_status x = FamilyActive \<and> fa_currentGeneration x = rt_generation r)
        (\<lambda>x. x\<lparr>fa_currentGeneration := rt_generation r + 1, fa_expiresAt := fe\<rparr>)
        (db\<lparr>au_refresh := map (consume_if p now r) (au_refresh db) @ [n]\<rparr>)) (rt_familyId r) (fa_userId f) (fa_deviceId f) now fe bytes au =
        Inr ((e, tok), db')" and n: "rt_familyId n = rt_familyId r"
    show ?thesis using issueAccess_tables [OF acc] same n i by (simp add: family_kept_def map_of_update_families)
  qed
qed

lemma stranger_keeps:
  assumes inv: "sess_inv db" and f: "map_of (au_families db) i = Some f" and str: "stranger env i s db op"
  shows "family_kept i db (snd (session_step env db op))"
proof (cases op)
  case (RotateOp clock cur rot suc ru bytes au)
  show ?thesis
  proof (cases rule: rotateRefresh_cases [of env clock db cur rot suc ru bytes au])
    case (commits p now out db')
    have "rt_familyId r \<noteq> i" if "refresh_join db (pp_currentTokenHash p) = Some (r, f, u, d)" for r f u d
      using str rotating_family [OF commits(1) that] RotateOp by (auto simp: stranger_def)
    from family_kept_rotated [OF inv commits(3) this] show ?thesis using commits(4) RotateOp by simp
  qed (use RotateOp in \<open>simp add: family_kept_same\<close>)
next
  case (CreateSessionOp clock u d tok ttl fu ru bytes au)
  show ?thesis
  proof (cases rule: settled_op_cases [of db "createInitialSessionInCurrentTransaction env clock db u d tok ttl fu ru bytes au"])
    case (2 a db')
    from 2(1) show ?thesis
    proof (rule createInitialSession_Inr)
      fix now fid e e' tok' db1
      assume run: "create_family env db u d (sv_sha env tok) ttl now fu ru = Inr ((fid, e), db1)"
        "issueAccess env db1 fid u d now e bytes au = Inr ((e', tok'), db')"
      have "family_kept i db1 db'" using issueAccess_tables [OF run(2)] by (intro family_kept_same) simp_all
      with family_kept_created [OF run(1) f] show ?thesis using family_kept_trans 2(2) CreateSessionOp by simp
    qed
  qed (use CreateSessionOp in \<open>simp add: family_kept_same\<close>)
next
  case (CreateFamilyOp clock u d h ttl fu ru)
  show ?thesis
  proof (cases rule: settled_op_cases [of db "createInitialFamilyFromHashInCurrentTransaction env clock db u d h ttl fu ru"])
    case (2 a db')
    then obtain now where run: "create_family env db u d h ttl now fu ru = Inr ((fst a, snd a), db')"
      by (auto elim!: createInitialFamily_Inr)
    show ?thesis using family_kept_created [OF run f] 2(2) CreateFamilyOp by simp
  qed (use CreateFamilyOp in \<open>simp add: family_kept_same\<close>)
next
  case (RevokeDeviceOp clock d)
  then show ?thesis
    by (auto simp: settled_op_def bind_result_eq_Inr revokeDevice_Inr family_kept_rows family_kept_same split: sum.splits)
next
  case (RevokeMembershipOp clock m)
  show ?thesis
  proof (cases rule: revokeMembership_cases [of clock m db])
    case (commits now x db')
    have "family_kept i db db'"
      by (rule revoke_devices_induct [OF commits(4)]) (auto intro: family_kept_trans family_kept_rows family_kept_same)
    then show ?thesis using commits(3) RevokeMembershipOp by simp
  qed (use RevokeMembershipOp in \<open>simp add: family_kept_same\<close>)
qed

section \<open>The client's token and its row\<close>

lemma find_by_key: "distinct (map g xs) \<Longrightarrow> x \<in> set xs \<Longrightarrow> find (\<lambda>y. g y = g x) xs = Some x"
  by (induction xs) (auto simp: rev_image_eqI)

lemma refresh_join_intro:
  assumes "sess_inv db" "r \<in> set (au_refresh db)" "map_of (au_families db) (rt_familyId r) = Some f"
    "map_of (au_users db) (fa_userId f) = Some u" "map_of (au_devices db) (fa_deviceId f) = Some d"
  shows "refresh_join db (rt_tokenHash r) = Some (r, f, u, d)"
  using assms find_by_key [of rt_tokenHash "au_refresh db" r] by (simp add: refresh_join_def sess_inv_def)

definition in_doubt :: "session_env \<Rightarrow> auth_db \<Rightarrow> pending_rotation \<Rightarrow> refresh_row \<Rightarrow> family_row \<Rightarrow> bool" where
  "in_doubt env db q r f \<longleftrightarrow> rt_consumedAt r \<noteq> None \<and> stored_ok r f \<and> refresh_body q \<and>
     (\<exists>p. prepareRotation env (pr_refreshToken q) (pr_rotationId q) (pr_successorRefreshToken q) = Inr p \<and>
          exactRetry db p r (fa_currentGeneration f) = Inr True)"

text \<open>
  The relation between the client's secrets and the server's row for them: while the family lives, either
  the stored token is unused and a pending successor unknown to the server, or the token was used for
  exactly the pending rotation.
\<close>

definition steady :: "session_env \<Rightarrow> ident \<Rightarrow> int \<Rightarrow> secret_store \<Rightarrow> auth_db \<Rightarrow> bool" where
  "steady env i now s db \<longleftrightarrow> (\<exists>tok r f u d. ss_refresh s = Some tok \<and> refresh_join db (sv_sha env tok) = Some (r, f, u, d) \<and>
     rt_familyId r = i \<and> fa_status f \<noteq> FamilyReuseDetected \<and>
     (live_context now f u d \<longrightarrow>
        rt_consumedAt r = None \<and> (\<forall>q. ss_pending s = Some q \<and> pr_refreshToken q = tok \<longrightarrow> sv_sha env (pr_successorRefreshToken q) \<notin> token_hashes db) \<or>
        (\<exists>q. ss_pending s = Some q \<and> pr_refreshToken q = tok \<and> in_doubt env db q r f)))"

lemma steadyI:
  assumes "ss_refresh s = Some tok" "refresh_join db (sv_sha env tok) = Some (r, f, u, d)" "rt_familyId r = i" "fa_status f \<noteq> FamilyReuseDetected"
    "live_context now f u d \<Longrightarrow>
        rt_consumedAt r = None \<and> (\<forall>q. ss_pending s = Some q \<and> pr_refreshToken q = tok \<longrightarrow> sv_sha env (pr_successorRefreshToken q) \<notin> token_hashes db) \<or>
        (\<exists>q. ss_pending s = Some q \<and> pr_refreshToken q = tok \<and> in_doubt env db q r f)"
  shows "steady env i now s db"
  using assms unfolding steady_def by blast

lemma exactRetry_kept:
  assumes "filter (\<lambda>x. rt_familyId x = rt_familyId r) (au_refresh db') = filter (\<lambda>x. rt_familyId x = rt_familyId r) (au_refresh db)"
  shows "exactRetry db' p r g = exactRetry db p r g"
proof -
  have "successorExists db'' (rt_familyId r) n h \<longleftrightarrow>
      list_ex (\<lambda>x. rt_generation x = n \<and> rt_tokenHash x = h) (filter (\<lambda>x. rt_familyId x = rt_familyId r) (au_refresh db''))" for db'' n h
    by (auto simp: successorExists_def list_ex_iff)
  then have "successorExists db' (rt_familyId r) n h = successorExists db (rt_familyId r) n h" for n h using assms by simp
  then show ?thesis by (simp add: exactRetry_def split: option.split)
qed

lemma steady_others:
  assumes inv: "sess_inv db" and hex: "hex_digest env" and st: "steady env i now s db" and str: "stranger env i s db op"
  shows "steady env i now s (snd (session_step env db op))"
proof -
  let ?db = "snd (session_step env db op)"
  from st obtain tok r f u d where tok: "ss_refresh s = Some tok" and join: "refresh_join db (sv_sha env tok) = Some (r, f, u, d)"
    and r: "rt_familyId r = i" "fa_status f \<noteq> FamilyReuseDetected"
    and cond: "live_context now f u d \<longrightarrow>
        rt_consumedAt r = None \<and> (\<forall>q. ss_pending s = Some q \<and> pr_refreshToken q = tok \<longrightarrow> sv_sha env (pr_successorRefreshToken q) \<notin> token_hashes db) \<or>
        (\<exists>q. ss_pending s = Some q \<and> pr_refreshToken q = tok \<and> in_doubt env db q r f)"
    unfolding steady_def by blast
  note j = refresh_join_Some [OF join]
  have kept: "family_kept i db ?db" using stranger_keeps [OF inv _ str] j(3) r(1) by simp
  then obtain f' where f': "map_of (au_families ?db) i = Some f'" and like: "family_like f f'"
    using j(3) r(1) unfolding family_kept_def by blast
  have rows: "filter (\<lambda>x. rt_familyId x = i) (au_refresh ?db) = filter (\<lambda>x. rt_familyId x = i) (au_refresh db)"
    using kept by (simp add: family_kept_def)
  then have "r \<in> set (filter (\<lambda>x. rt_familyId x = i) (au_refresh ?db))" using j(1) r(1) by simp
  then have "r \<in> set (au_refresh ?db)" by simp
  moreover have users: "au_users ?db = au_users db" using session_step_revokes [of db env op] by (simp add: revokes_only_def)
  moreover have "\<forall>x. case map_of (au_devices db) x of None \<Rightarrow> map_of (au_devices ?db) x = None
      | Some y \<Rightarrow> (\<exists>z. map_of (au_devices ?db) x = Some z \<and> dv_userId z = dv_userId y \<and> (dv_status z = dv_status y \<or> dv_status z = DeviceRevoked))"
    using session_step_revokes [of db env op] unfolding revokes_only_def by (elim conjE)
  then obtain d' where d': "map_of (au_devices ?db) (fa_deviceId f) = Some d'" "dv_status d' = dv_status d \<or> dv_status d' = DeviceRevoked"
    using j(5) by (auto dest!: spec [of _ "fa_deviceId f"])
  ultimately have join': "refresh_join ?db (sv_sha env tok) = Some (r, f', u, d')"
    using refresh_join_intro [OF session_step_inv [OF inv hex], of r op f' u d'] f' like j r(1) by (simp add: family_like_def)
  show ?thesis
  proof (rule steadyI [OF tok join' r(1)])
    assume "live_context now f' u d'"
    then have same: "live_context now f u d" "fa_status f' = fa_status f" using like d' by (auto simp: live_context_def family_like_def)
    have doubt: "in_doubt env ?db q r f' \<longleftrightarrow> in_doubt env db q r f" for q
      using exactRetry_kept [of r ?db db] rows like r(1) by (simp add: in_doubt_def stored_ok_def family_like_def)
    have fresh: "sv_sha env (pr_successorRefreshToken q) \<notin> token_hashes ?db"
      if "ss_pending s = Some q" "sv_sha env (pr_successorRefreshToken q) \<notin> token_hashes db" for q
      using str that by (auto simp: stranger_def)
    show "rt_consumedAt r = None \<and> (\<forall>q. ss_pending s = Some q \<and> pr_refreshToken q = tok \<longrightarrow> sv_sha env (pr_successorRefreshToken q) \<notin> token_hashes ?db) \<or>
        (\<exists>q. ss_pending s = Some q \<and> pr_refreshToken q = tok \<and> in_doubt env ?db q r f')"
      using cond same(1) fresh by (auto simp: doubt)
  qed (use like r(2) in \<open>auto simp: family_like_def\<close>)
qed

section \<open>What a rotation of the client does\<close>

lemma unused_never_reused:
  assumes run: "rotateInTransaction env db p now ru bytes au = Inr (Reuse, db')" and inv: "sess_inv db"
    and join: "refresh_join db (pp_currentTokenHash p) = Some (r, f, u, d)" "rt_consumedAt r = None"
  shows "pp_successorTokenHash p \<in> token_hashes db"
proof -
  note j = refresh_join_Some [OF join(1)]
  have "token_ok db r" using inv j(1) by (simp add: sess_inv_def)
  then have gen: "fa_currentGeneration f = rt_generation r" using j(3) join(2) by (simp add: token_ok_def)
  have first: "rotate_first env db p now r f ru bytes au \<noteq> Inr (Reuse, db')" by (auto elim: rotate_first_Inr)
  show ?thesis
  proof (rule ccontr)
    assume "pp_successorTokenHash p \<notin> token_hashes db"
    then have "\<not> list_ex (\<lambda>x. rt_tokenHash x = pp_successorTokenHash p) (au_refresh db)"
      by (auto simp: token_hashes_def list_ex_iff image_iff)
    then show False using run join gen first
      by (auto simp: rotateInTransaction_def bind_result_eq_Inr requireGeneration_def requireStoredUuid_def split: if_split_asm)
  qed
qed

lemma rotated_family:
  assumes run: "rotateRefresh env clock db cur rot suc ru bytes au = (Inr res, db')" and join: "refresh_join db (sv_sha env cur) = Some (r, f, u, d)"
  shows "rr_familyId res = rt_familyId r"
proof (cases rule: rotateRefresh_cases [of env clock db cur rot suc ru bytes au])
  case (commits p now out db1)
  have out: "out = Rotated res" using commits(4) run by (auto split: rotation_outcome.splits)
  have j: "refresh_join db (pp_currentTokenHash p) = Some (r, f, u, d)" using join prepareRotation_Inr(1) [OF commits(1)] by simp
  from commits(3) show ?thesis
  proof (cases rule: rotateInTransaction_Inr)
    case (first r' f' u' d')
    then show ?thesis using out j by (auto elim!: rotate_first_Inr)
  qed (use out j in auto)
qed (use run in simp)

text \<open>The successor of a rotation in doubt is the family's live token.\<close>

lemma doubt_successor:
  assumes inv: "sess_inv db" and hex: "hex_digest env" and join: "refresh_join db h = Some (r, f, u, d)" and doubt: "in_doubt env db q r f"
  obtains n where "refresh_join db (sv_sha env (pr_successorRefreshToken q)) = Some (n, f, u, d)" "rt_familyId n = rt_familyId r"
    "rt_consumedAt n = None" "pr_refreshToken q \<noteq> pr_successorRefreshToken q"
proof -
  note j = refresh_join_Some [OF join]
  obtain p where p: "prepareRotation env (pr_refreshToken q) (pr_rotationId q) (pr_successorRefreshToken q) = Inr p"
    and ex: "exactRetry db p r (fa_currentGeneration f) = Inr True" using doubt by (auto simp: in_doubt_def)
  note h = prepareRotation_Inr [OF p]
  have "fa_currentGeneration f = rt_generation r + 1 \<and> successorExists db (rt_familyId r) (rt_generation r + 1) (pp_successorTokenHash p)"
    using ex by (auto simp: exactRetry_def bind_result_eq_Inr split: if_split_asm option.split_asm)
  then obtain n where n: "n \<in> set (au_refresh db)" "rt_familyId n = rt_familyId r" "rt_generation n = fa_currentGeneration f"
      "rt_tokenHash n = sv_sha env (pr_successorRefreshToken q)"
    using h(3) by (auto simp: successorExists_def list_ex_iff)
  have "token_ok db n" using inv n(1) by (simp add: sess_inv_def)
  then have "rt_consumedAt n = None" using n(2,3) j(3) by (simp add: token_ok_def)
  then show thesis using that refresh_join_intro [OF inv n(1)] n j h(4) by simp
qed

text \<open>The route's answer to a steady client: an error that changes nothing, or a rotation now in doubt.\<close>

lemma route_outcome:
  assumes inv: "sess_inv db" and hex: "hex_digest env" and join: "refresh_join db (sv_sha env (pr_refreshToken q)) = Some (r, f, u, d)"
    and cond: "live_context now f u d \<longrightarrow>
       rt_consumedAt r = None \<and> sv_sha env (pr_successorRefreshToken q) \<notin> token_hashes db \<or> in_doubt env db q r f"
    and fresh: "fresh_access env db now bytes au"
    and run: "refresh_route env (Some now) ru bytes au q db = (reply, db')"
  obtains (error) st where "reply = ErrorReply st" "db' = db" "in_doubt env db q r f \<longrightarrow> \<not> live_context now f u d"
    | (token) tok e r' f' u' d' where "reply = TokenReply tok e" "refresh_join db' (sv_sha env (pr_refreshToken q)) = Some (r', f', u', d')"
      "rt_familyId r' = rt_familyId r" "fa_status f' = FamilyActive" "in_doubt env db' q r' f'" "sess_inv db'"
proof (cases "refresh_body q")
  case False
  then show thesis using run by (intro error [of 400]) (auto simp: refresh_route_def in_doubt_def)
next
  case body: True
  let ?cur = "pr_refreshToken q" and ?rot = "pr_rotationId q" and ?suc = "pr_successorRefreshToken q"
  have route: "refresh_route env (Some now) ru bytes au q db = (case rotateRefresh env (Some now) db ?cur ?rot ?suc ru bytes au of
           (Inr rotated, db') \<Rightarrow> (TokenReply (rr_accessToken rotated) (rr_accessExpiresAt rotated), db')
         | (Inl _, db') \<Rightarrow> (ErrorReply 401, db'))"
    using body by (simp add: refresh_route_def)
  have doubt_live: "\<exists>res db'. rotateRefresh env (Some now) db ?cur ?rot ?suc ru bytes au = (Inr res, db')"
    if doubt: "in_doubt env db q r f" and live: "live_context now f u d"
  proof -
    obtain p where p: "prepareRotation env ?cur ?rot ?suc = Inr p" and ex: "exactRetry db p r (fa_currentGeneration f) = Inr True"
      using doubt by (auto simp: in_doubt_def)
    have j: "refresh_join db (pp_currentTokenHash p) = Some (r, f, u, d)" using join prepareRotation_Inr(1) [OF p] by simp
    have "rt_consumedAt r \<noteq> None" "stored_ok r f" using doubt by (simp_all add: in_doubt_def)
    from retry_succeeds [OF j live this(1) ex this(2) fresh hex] obtain e tok db' where
      "rotateInTransaction env db p now ru bytes au = Inr (Rotated \<lparr>rr_accessExpiresAt = e, rr_accessToken = tok,
        rr_familyId = rt_familyId r, rr_generation = rt_generation r + 1, rr_wasRetry = True\<rparr>, db')" by metis
    then show ?thesis by (simp add: rotateRefresh_def p readClock_def)
  qed
  show thesis
  proof (cases rule: rotateRefresh_cases [of env "Some now" db ?cur ?rot ?suc ru bytes au])
    case (fails e)
    then show thesis using run doubt_live by (intro error [of 401]) (auto simp: route)
  next
    case (commits p t out db1)
    have jp: "refresh_join db (pp_currentTokenHash p) = Some (r, f, u, d)" using join prepareRotation_Inr(1) [OF commits(1)] by simp
    have live: "live_context now f u d" using commits(2,3) jp by (cases rule: rotateInTransaction_Inr [OF commits(3)]) auto
    have db': "db' = db1" using run commits(4) by (auto simp: route split: rotation_outcome.split_asm)
    have inv': "sess_inv db1" using session_step_inv [OF inv hex, of "RotateOp (Some now) ?cur ?rot ?suc ru bytes au"] commits(4) by simp
    have "out \<noteq> Reuse"
    proof
      assume out: "out = Reuse"
      then have "sv_sha env ?suc \<in> token_hashes db" if "rt_consumedAt r = None"
        using unused_never_reused [OF _ inv jp that] commits(3) prepareRotation_Inr(3) [OF commits(1)] by simp
      then show False using cond live doubt_live commits(4) out by (auto simp: in_doubt_def)
    qed
    then obtain res where res: "rotateRefresh env (Some now) db ?cur ?rot ?suc ru bytes au = (Inr res, db1)"
      using commits(4) by (cases out) auto
    from hex res show thesis
    proof (rule rotated_is_retryable)
      fix p' r' f' u' d'
      assume p': "prepareRotation env ?cur ?rot ?suc = Inr p'" and j': "refresh_join db1 (pp_currentTokenHash p') = Some (r', f', u', d')"
        and s': "fa_status f' = FamilyActive" "rt_consumedAt r' \<noteq> None" "exactRetry db1 p' r' (fa_currentGeneration f') = Inr True"
          "stored_ok r' f'" "rt_familyId r' = rr_familyId res"
      have "rr_familyId res = rt_familyId r"
        using rotated_family [OF res] join by simp
      then show thesis using res run db' p' j' s' body inv' prepareRotation_Inr(1) [OF p']
        by (intro token [of "rr_accessToken res" "rr_accessExpiresAt res" r' f' u' d']) (auto simp: route in_doubt_def)
    qed
  qed
qed

section \<open>The client stays in step with the server\<close>

text \<open>The request the client is about to send is the one its store remembers.\<close>

lemma resolve_steady:
  assumes st: "steady env i now s db" and tok: "ss_refresh s = Some tok" and fresh: "sv_sha env suc \<notin> token_hashes db"
    and run: "resolvePendingRotation True io rot suc tok p s = (res, p', s')"
  shows "steady env i now s' db" "ss_refresh s' = Some tok" "res = Inr q \<Longrightarrow> ss_pending s' = Some q \<and> pr_refreshToken q = tok"
proof -
  let ?q = "\<lparr>pr_refreshToken = tok, pr_rotationId = rot, pr_successorRefreshToken = suc\<rparr>"
  from st obtain r f u d where join: "refresh_join db (sv_sha env tok) = Some (r, f, u, d)" "rt_familyId r = i" "fa_status f \<noteq> FamilyReuseDetected"
    and cond: "live_context now f u d \<longrightarrow>
        rt_consumedAt r = None \<and> (\<forall>q. ss_pending s = Some q \<and> pr_refreshToken q = tok \<longrightarrow> sv_sha env (pr_successorRefreshToken q) \<notin> token_hashes db) \<or>
        (\<exists>q. ss_pending s = Some q \<and> pr_refreshToken q = tok \<and> in_doubt env db q r f)"
    using tok unfolding steady_def by auto
  have minted: "steady env i now (s\<lparr>ss_pending := x\<rparr>) db"
    if x: "x = ss_pending s \<or> x = Some ?q" and none: "\<forall>q. ss_pending s = Some q \<longrightarrow> pr_refreshToken q \<noteq> tok" for x
  proof (rule steadyI [where tok = tok and r = r and f = f and u = u and d = d])
    assume "live_context now f u d"
    then have "rt_consumedAt r = None" using cond none by auto
    moreover have "sv_sha env (pr_successorRefreshToken q) \<notin> token_hashes db" if "x = Some q" "pr_refreshToken q = tok" for q
    proof -
      have "ss_pending s \<noteq> Some q" using none that(2) by blast
      then have "q = ?q" using x that(1) by auto
      then show ?thesis using fresh by simp
    qed
    ultimately show "rt_consumedAt r = None \<and> (\<forall>q. ss_pending (s\<lparr>ss_pending := x\<rparr>) = Some q \<and> pr_refreshToken q = tok \<longrightarrow>
          sv_sha env (pr_successorRefreshToken q) \<notin> token_hashes db) \<or>
        (\<exists>q. ss_pending (s\<lparr>ss_pending := x\<rparr>) = Some q \<and> pr_refreshToken q = tok \<and> in_doubt env db q r f)" by simp
  qed (use tok join in simp_all)
  have "s' = s \<and> (\<forall>q. res = Inr q \<longrightarrow> ss_pending s = Some q \<and> pr_refreshToken q = tok) \<or>
      (\<forall>q. ss_pending s = Some q \<longrightarrow> pr_refreshToken q \<noteq> tok) \<and> (\<exists>x. s' = s\<lparr>ss_pending := x\<rparr> \<and>
         (res = Inr ?q \<and> x = Some ?q \<or> isl res \<and> (x = ss_pending s \<or> x = Some ?q)))"
    using run
    by (auto simp: resolvePendingRotation_def loadPending_def savePending_def stored_after_def Let_def split: if_split_asm option.split_asm)
  then consider "s' = s" "\<forall>q. res = Inr q \<longrightarrow> ss_pending s = Some q \<and> pr_refreshToken q = tok"
    | x where "\<forall>q. ss_pending s = Some q \<longrightarrow> pr_refreshToken q \<noteq> tok" "s' = s\<lparr>ss_pending := x\<rparr>"
      "res = Inr ?q \<and> x = Some ?q \<or> isl res \<and> (x = ss_pending s \<or> x = Some ?q)" by blast
  then have "steady env i now s' db \<and> ss_refresh s' = Some tok \<and> (\<forall>q. res = Inr q \<longrightarrow> ss_pending s' = Some q \<and> pr_refreshToken q = tok)"
  proof cases
    case (2 x)
    then show ?thesis using minted [of x] tok by auto
  qed (use st tok in auto)
  then show "steady env i now s' db" "ss_refresh s' = Some tok" "res = Inr q \<Longrightarrow> ss_pending s' = Some q \<and> pr_refreshToken q = tok"
    by blast+
qed

text \<open>What becomes of the store after each kind of answer.\<close>

lemma steady_doubt:
  assumes "ss_refresh s = Some tok" "ss_pending s = Some q" "pr_refreshToken q = tok" "refresh_join db (sv_sha env tok) = Some (r, f, u, d)"
    "rt_familyId r = i" "fa_status f = FamilyActive" "in_doubt env db q r f"
  shows "steady env i now s db"
  by (rule steadyI [where tok = tok and r = r and f = f and u = u and d = d]) (use assms in auto)

lemma steady_successor:
  assumes inv: "sess_inv db" and hex: "hex_digest env" and join: "refresh_join db (sv_sha env (pr_refreshToken q)) = Some (r, f, u, d)"
    and doubt: "rt_familyId r = i" "fa_status f = FamilyActive" "in_doubt env db q r f" and x: "x = None \<or> x = Some q"
  shows "steady env i now (s\<lparr>ss_refresh := Some (pr_successorRefreshToken q), ss_pending := x\<rparr>) db"
  using inv hex join doubt(3)
proof (rule doubt_successor)
  fix n
  assume n: "refresh_join db (sv_sha env (pr_successorRefreshToken q)) = Some (n, f, u, d)" "rt_familyId n = rt_familyId r"
    "rt_consumedAt n = None" "pr_refreshToken q \<noteq> pr_successorRefreshToken q"
  show ?thesis by (rule steadyI [where tok = "pr_successorRefreshToken q" and r = n and f = f and u = u and d = d]) (use n doubt x in auto)
qed

lemma steady_denied:
  assumes "steady env i now s db" "ss_refresh s = Some tok" "ss_pending s = Some q" "pr_refreshToken q = tok"
    "refresh_join db (sv_sha env tok) = Some (r, f, u, d)" "in_doubt env db q r f \<longrightarrow> \<not> live_context now f u d"
  shows "steady env i now (s\<lparr>ss_pending := None\<rparr>) db"
  using assms unfolding steady_def by auto

lemma rotation_steady:
  assumes inv: "sess_inv (rw_db w)" and hex: "hex_digest env" and st: "steady env i (rw_now w) (rw_secrets w) (rw_db w)"
    and run: "rotation_of env io rot suc ru bytes au w = (res, p, s, db)"
    and fate: "io_fate io \<noteq> Refused 401" "io_fate io \<noteq> ServerFailed"
    and fresh: "sv_sha env suc \<notin> token_hashes (rw_db w)" "fresh_access env (rw_db w) (rw_now w) bytes au"
  shows "steady env i (rw_now w) s db \<and> sess_inv db"
proof -
  let ?db = "rw_db w" and ?now = "rw_now w" and ?route = "refresh_route env (Some (rw_now w)) ru bytes au"
  obtain tok where tok: "ss_refresh (rw_secrets w) = Some tok" using st by (auto simp: steady_def)
  show ?thesis
  proof (cases "io_get io")
    case True
    obtain e p1 s1 where res1: "resolvePendingRotation True io rot suc tok (rw_provider w) (rw_secrets w) = (e, p1, s1)" by (metis prod_cases3)
    note r1 = resolve_steady [OF st tok fresh(1) res1]
    show ?thesis
    proof (cases e)
      case (Inl x)
      then show ?thesis using run True tok res1 r1(1) inv by (auto simp: rotation_of_def rotateOnce_def)
    next
      case (Inr q)
      note q = r1(3) [OF Inr] and q1 = conjunct1 [OF r1(3) [OF Inr]] and q2 = conjunct2 [OF r1(3) [OF Inr]]
      obtain reply db1 where route: "?route q ?db = (reply, db1)" by fastforce
      obtain r f u d where join: "refresh_join ?db (sv_sha env (pr_refreshToken q)) = Some (r, f, u, d)" "rt_familyId r = i" "fa_status f \<noteq> FamilyReuseDetected"
        and cond: "live_context ?now f u d \<longrightarrow>
          rt_consumedAt r = None \<and> sv_sha env (pr_successorRefreshToken q) \<notin> token_hashes ?db \<or> in_doubt env ?db q r f"
        using r1(1,2) q unfolding steady_def by auto
      have rotate: "rotation_of env io rot suc ru bytes au w =
         (case send (io_fate io) ?route q ?db of
            (None, w) \<Rightarrow> (Inl NETWORK_FAILED, p1, s1, w)
          | (Some (ErrorReply status), w) \<Rightarrow>
              if status = 401 then (let (p, s) = clearPendingRotation True io p1 s1 in (Inl AUTH_DENIED, p, s, w))
              else (Inl (REFRESH_FAILED status), p1, s1, w)
          | (Some UnreadableReply, w) \<Rightarrow> (Inl MALFORMED_REPLY, p1, s1, w)
          | (Some (TokenReply token expiry), w) \<Rightarrow>
              (let s = s1\<lparr>ss_refresh := stored_after (io_refresh io) (ss_refresh s1) (Some (pr_successorRefreshToken q))\<rparr>
               in if io_refresh io \<noteq> Written then (Inl STORE_FAILED, p1, s, w)
                  else (let (p, s) = clearPendingRotation True io p1 s
                        in (Inr token, p\<lparr>ap_cachedToken := Some token, ap_cachedExpiry := expiry\<rparr>, s, w))))"
        using True tok res1 Inr by (simp add: rotation_of_def rotateOnce_def)
      have keep: "steady env i ?now s1 ?db \<and> sess_inv ?db" using r1(1) inv by blast
      from inv hex join(1) cond fresh(2) route show ?thesis
      proof (cases rule: route_outcome)
        case (error st)
        have "s = s1 \<or> s = s1\<lparr>ss_pending := None\<rparr>" "db = ?db"
          using run fate unfolding rotate
          by (cases "io_fate io"; auto simp: route error clearPendingRotation_def stored_after_def Let_def split: if_split_asm)+
        then show ?thesis using keep steady_denied [OF r1(1,2) q1 q2 join(1) [unfolded q2] error(3)] by auto
      next
        case (token t e r' f' u' d')
        note doubt = token(2) token(3) [unfolded join(2)] token(4,5)
        have after: "steady env i ?now s1 db1 \<and> sess_inv db1" using steady_doubt [OF r1(2) q1 q2 doubt(1) [unfolded q2] doubt(2-4)] token(6) by simp
        have saved: "steady env i ?now (s1\<lparr>ss_refresh := Some (pr_successorRefreshToken q), ss_pending := x\<rparr>) db1"
          if "x = None \<or> x = Some q" for x
          using steady_successor [OF token(6) hex doubt that] .
        have "s = s1 \<and> (db = ?db \<or> db = db1) \<or>
            db = db1 \<and> (\<exists>x. (x = None \<or> x = Some q) \<and> s = s1\<lparr>ss_refresh := Some (pr_successorRefreshToken q), ss_pending := x\<rparr>)"
          using run fate q r1(2) unfolding rotate
          by (cases "io_fate io"; auto simp: route token(1) clearPendingRotation_def stored_after_def Let_def split: if_split_asm)
        then show ?thesis using after keep saved token(6) by auto
      qed
    qed
  qed (use run inv st in \<open>auto simp: rotation_of_def rotateOnce_def\<close>)
qed

text \<open>Time only closes a family.\<close>

lemma live_earlier: "live_context t f u d \<Longrightarrow> now \<le> t \<Longrightarrow> live_context now f u d"
  by (auto simp: live_context_def)

lemma steady_later:
  assumes "steady env i now s db" "now \<le> t"
  shows "steady env i t s db"
proof -
  from assms(1) obtain tok r f u d where *: "ss_refresh s = Some tok" "refresh_join db (sv_sha env tok) = Some (r, f, u, d)"
      "rt_familyId r = i" "fa_status f \<noteq> FamilyReuseDetected"
    and cond: "live_context now f u d \<longrightarrow>
        rt_consumedAt r = None \<and> (\<forall>q. ss_pending s = Some q \<and> pr_refreshToken q = tok \<longrightarrow> sv_sha env (pr_successorRefreshToken q) \<notin> token_hashes db) \<or>
        (\<exists>q. ss_pending s = Some q \<and> pr_refreshToken q = tok \<and> in_doubt env db q r f)"
    unfolding steady_def by blast
  show ?thesis by (rule steadyI [OF *]) (use cond live_earlier [OF _ assms(2)] in blast)
qed

lemma refresh_step_steady:
  assumes "refresh_step env i w w'" and hex: "hex_digest env"
    and "steady env i (rw_now w) (rw_secrets w) (rw_db w) \<and> sess_inv (rw_db w)"
  shows "steady env i (rw_now w') (rw_secrets w') (rw_db w') \<and> sess_inv (rw_db w')"
  using assms(1,3)
proof cases
  case (rotates io rot suc ru bytes au res p s db)
  then show ?thesis using rotation_steady [OF conjunct2 [OF assms(3)] hex conjunct1 [OF assms(3)] rotates(3-7)] by simp
next
  case (passes t)
  then show ?thesis using steady_later [OF conjunct1 [OF assms(3)] passes(2)] assms(3) by simp
next
  case (others op)
  then show ?thesis using steady_others [OF _ hex] session_step_inv [OF _ hex] assms(3) by simp
qed simp_all

lemma reachable_steady:
  assumes "rtranclp (refresh_step env i) w w'" and hex: "hex_digest env"
    and "steady env i (rw_now w) (rw_secrets w) (rw_db w) \<and> sess_inv (rw_db w)"
  shows "steady env i (rw_now w') (rw_secrets w') (rw_db w') \<and> sess_inv (rw_db w')"
  using assms(1,3) by (induction rule: rtranclp_induct) (auto intro: refresh_step_steady [OF _ hex, THEN conjunct1]
      refresh_step_steady [OF _ hex, THEN conjunct2])

text \<open>
  C20. A client never loses its session to its own retries. From a client that holds the unused token of a
  family, whatever fails - requests and replies lost, replies unreadable, reads and writes of the secret
  store, crashes at any point, other errors of a proxy - and whatever other sessions and revocations do
  meanwhile without its secrets, the server never takes one of the client's rotations for theft: the family
  is at most revoked or expired, and the store always holds a token of that family.
\<close>

theorem client_never_burns_its_family:
  assumes "sess_inv (rw_db w)" "hex_digest env" and "ss_refresh (rw_secrets w) = Some tok" "ss_pending (rw_secrets w) = None"
    and "refresh_join (rw_db w) (sv_sha env tok) = Some (r, f, u, d)" "rt_consumedAt r = None" "fa_status f = FamilyActive"
    and "rtranclp (refresh_step env (rt_familyId r)) w w'"
  shows "\<exists>f' tok' r'. map_of (au_families (rw_db w')) (rt_familyId r) = Some f' \<and> fa_status f' \<noteq> FamilyReuseDetected \<and>
     ss_refresh (rw_secrets w') = Some tok' \<and> r' \<in> set (au_refresh (rw_db w')) \<and> rt_tokenHash r' = sv_sha env tok' \<and>
     rt_familyId r' = rt_familyId r"
proof -
  have "steady env (rt_familyId r) (rw_now w) (rw_secrets w) (rw_db w)"
    by (rule steadyI [where tok = tok and r = r and f = f and u = u and d = d]) (use assms in simp_all)
  then have "steady env (rt_familyId r) (rw_now w') (rw_secrets w') (rw_db w')"
    using reachable_steady [OF assms(8,2)] assms(1) by blast
  then obtain tok' r' f' u' d' where "ss_refresh (rw_secrets w') = Some tok'" "rt_familyId r' = rt_familyId r" "fa_status f' \<noteq> FamilyReuseDetected"
    and join: "refresh_join (rw_db w') (sv_sha env tok') = Some (r', f', u', d')" unfolding steady_def by blast
  then show ?thesis using refresh_join_Some [OF join] by auto
qed

text \<open>
  C21. A rotation in doubt is settled by the next attempt: when the server committed a rotation the client
  did not hear of, then while the family lives the next attempt that goes through returns an access token,
  stores the successor, which is the family's live token, and forgets the pending rotation.
\<close>

theorem interrupted_rotation_recovers:
  assumes inv: "sess_inv db" and hex: "hex_digest env" and store: "ss_refresh s = Some tok" "ss_pending s = Some q" "pr_refreshToken q = tok"
    and join: "refresh_join db (sv_sha env tok) = Some (r, f, u, d)" and doubt: "in_doubt env db q r f" and live: "live_context now f u d"
    and fresh: "fresh_access env db now bytes au"
    and io: "io_get io" "io_load io" "io_fate io = Replied" "io_refresh io = Written" "io_clear io = Written"
  shows "\<exists>token p' db' n. rotateOnce True io rot suc (refresh_route env (Some now) ru bytes au) p s db =
       (Inr token, p', \<lparr>ss_refresh = Some (pr_successorRefreshToken q), ss_pending = None\<rparr>, db') \<and>
     n \<in> set (au_refresh db') \<and> rt_tokenHash n = sv_sha env (pr_successorRefreshToken q) \<and> rt_familyId n = rt_familyId r \<and> rt_consumedAt n = None"
proof -
  obtain reply db' where route: "refresh_route env (Some now) ru bytes au q db = (reply, db')" by fastforce
  from inv hex join [folded store(3)] disjI2 [OF doubt, THEN impI] fresh route show ?thesis
  proof (cases rule: route_outcome)
    case (token t e r' f' u' d')
    obtain n where "refresh_join db' (sv_sha env (pr_successorRefreshToken q)) = Some (n, f', u', d')" "rt_familyId n = rt_familyId r'"
        "rt_consumedAt n = None"
      by (rule doubt_successor [OF token(6) hex token(2,5)])
    then have "n \<in> set (au_refresh db') \<and> rt_tokenHash n = sv_sha env (pr_successorRefreshToken q) \<and> rt_familyId n = rt_familyId r \<and> rt_consumedAt n = None"
      using refresh_join_Some(1,2) token(3) by auto
    moreover have "\<exists>p'. rotateOnce True io rot suc (refresh_route env (Some now) ru bytes au) p s db =
       (Inr t, p', \<lparr>ss_refresh = Some (pr_successorRefreshToken q), ss_pending = None\<rparr>, db')"
      using store io
      by (auto simp: rotateOnce_def resolvePendingRotation_def loadPending_def route token(1) clearPendingRotation_def stored_after_def Let_def)
    ultimately show ?thesis by blast
  qed (use doubt live in auto)
qed

text \<open>
  C22. A transaction that fails on the server at the wrong moment costs the session. The route answers 401 for
  every error, a busy database included; if that answers the retry of a rotation the server had committed,
  the client drops the pending rotation, and its next attempt, with a new successor, is taken for theft and
  burns the family.
\<close>

theorem failed_transaction_burns_the_family:
  assumes inv: "sess_inv db" and hex: "hex_digest env" and store: "ss_refresh s = Some tok" "ss_pending s = Some q" "pr_refreshToken q = tok"
    and join: "refresh_join db (sv_sha env tok) = Some (r, f, u, d)" and doubt: "in_doubt env db q r f" and live: "live_context now f u d"
    and io: "io_get io" "io_load io" "io_fate io = ServerFailed" "io_clear io = Written"
    and retry: "io_get io'" "io_load io'" "io_save io' = Written" "io_fate io' = Replied"
    and minted: "prepareRotation env tok rot' suc' = Inr p'" "rot' \<noteq> pr_rotationId q" "body_field rot'" "body_field suc'"
  shows "\<exists>p1 s1 p2 s2 db2. rotateOnce True io rot suc (refresh_route env (Some now) ru bytes au) p s db = (Inl AUTH_DENIED, p1, s1, db) \<and>
     rotateOnce True io' rot' suc' (refresh_route env (Some now) ru' bytes' au') p1 s1 db = (Inl AUTH_DENIED, p2, s2, db2) \<and>
     (\<exists>f2. map_of (au_families db2) (rt_familyId r) = Some f2 \<and> fa_status f2 = FamilyReuseDetected)"
proof -
  let ?q = "\<lparr>pr_refreshToken = tok, pr_rotationId = rot', pr_successorRefreshToken = suc'\<rparr>"
  let ?p1 = "p\<lparr>ap_memoryPending := None\<rparr>" and ?s1 = "s\<lparr>ss_pending := None\<rparr>" and ?db2 = "markReuse (rt_familyId r) now db"
  have first: "rotateOnce True io rot suc (refresh_route env (Some now) ru bytes au) p s db = (Inl AUTH_DENIED, ?p1, ?s1, db)"
    using store io by (simp add: rotateOnce_def resolvePendingRotation_def loadPending_def clearPendingRotation_def stored_after_def)
  obtain p0 where p0: "prepareRotation env tok (pr_rotationId q) (pr_successorRefreshToken q) = Inr p0"
    and ex: "exactRetry db p0 r (fa_currentGeneration f) = Inr True" and ok: "rt_consumedAt r \<noteq> None" "stored_ok r f" "refresh_body q"
    using doubt store(3) by (auto simp: in_doubt_def)
  have "rt_rotationId r = Some (pr_rotationId q)"
    using ex prepareRotation_Inr(2) [OF p0] by (auto simp: exactRetry_def split: if_split_asm)
  then have no: "exactRetry db p' r (fa_currentGeneration f) = Inr False"
    using prepareRotation_Inr(2) [OF minted(1)] minted(2) by (simp add: exactRetry_def)
  have "refresh_join db (pp_currentTokenHash p') = Some (r, f, u, d)" using join prepareRotation_Inr(1) [OF minted(1)] by simp
  then have "rotateInTransaction env db p' now ru' bytes' au' = Inr (Reuse, ?db2)"
    using consumed_never_expires [OF ok(1) _ live no] ok(2) by (simp add: stored_ok_def)
  then have "rotateRefresh env (Some now) db tok rot' suc' ru' bytes' au' = (Inl REFRESH_REUSE_DETECTED, ?db2)"
    by (simp add: rotateRefresh_def minted(1) readClock_def)
  moreover have "refresh_body ?q" using ok(3) store(3) minted(3,4) by (simp add: refresh_body_def)
  ultimately have "refresh_route env (Some now) ru' bytes' au' ?q db = (ErrorReply 401, ?db2)" by (simp add: refresh_route_def)
  then have "\<exists>p2 s2. rotateOnce True io' rot' suc' (refresh_route env (Some now) ru' bytes' au') ?p1 ?s1 db = (Inl AUTH_DENIED, p2, s2, ?db2)"
    using store retry
    by (simp add: rotateOnce_def resolvePendingRotation_def loadPending_def savePending_def clearPendingRotation_def stored_after_def Let_def)
  moreover have "\<exists>f2. map_of (au_families ?db2) (rt_familyId r) = Some f2 \<and> fa_status f2 = FamilyReuseDetected"
    using refresh_join_Some(3) [OF join] by (simp add: markReuse_def map_of_update_families)
  ultimately show ?thesis using first by blast
qed

section \<open>A small client\<close>

text \<open>
  The demo server's session and its client. The client's first rotation reaches the server, but the reply is
  lost.
\<close>

definition demo_secrets :: secret_store where
  "demo_secrets = \<lparr>ss_refresh = Some (demo_token RefreshTokenDomain 1), ss_pending = None\<rparr>"

definition demo_world :: refresh_world where
  "demo_world = \<lparr>rw_now = 1000, rw_provider = new_provider\<lparr>ap_inFlight := True\<rparr>, rw_secrets = demo_secrets, rw_db = demo_open\<rparr>"

definition demo_io :: "fate \<Rightarrow> rotation_io" where
  "demo_io x = \<lparr>io_get = True, io_load = True, io_save = Written, io_fate = x, io_refresh = Written, io_clear = Written\<rparr>"

definition demo_lost :: "(token_error + jsstr) \<times> provider \<times> secret_store \<times> auth_db" where
  "demo_lost = rotation_of demo_env (demo_io ReplyLost) (demo_token RefreshRotationIdDomain 1) (demo_token RefreshTokenDomain 2)
     (demo_uuid 7) (replicate 32 4) (demo_uuid 8) demo_world"

definition demo_doubt :: pending_rotation where
  "demo_doubt = \<lparr>pr_refreshToken = demo_token RefreshTokenDomain 1, pr_rotationId = demo_token RefreshRotationIdDomain 1,
     pr_successorRefreshToken = demo_token RefreshTokenDomain 2\<rparr>"

lemma demo_live:
  "case refresh_join demo_open (sv_sha demo_env (demo_token RefreshTokenDomain 1)) of
     Some (r, f, u, d) \<Rightarrow> rt_consumedAt r = None \<and> fa_status f = FamilyActive | None \<Rightarrow> False"
  by code_simp

lemma demo_fresh:
  "fresh_access demo_env demo_open 1000 (replicate 32 4) (demo_uuid 8)"
  "sv_sha demo_env (demo_token RefreshTokenDomain 2) \<notin> token_hashes demo_open"
  by code_simp+

lemma demo_lost_state:
  "case demo_lost of (res, p, s, db) \<Rightarrow> res = Inl NETWORK_FAILED \<and> ss_refresh s = Some (demo_token RefreshTokenDomain 1) \<and>
     ss_pending s = Some demo_doubt \<and> db = snd (demo_rotate 1 demo_open)"
  by code_simp

lemma demo_lost_store:
  "ss_refresh (fst (snd (snd demo_lost))) = Some (demo_token RefreshTokenDomain 1)" "ss_pending (fst (snd (snd demo_lost))) = Some demo_doubt"
proof -
  obtain res p s db where eq: "demo_lost = (res, p, s, db)" by (rule prod_cases4)
  show "ss_refresh (fst (snd (snd demo_lost))) = Some (demo_token RefreshTokenDomain 1)" "ss_pending (fst (snd (snd demo_lost))) = Some demo_doubt"
    using demo_lost_state unfolding eq by simp_all
qed

lemma demo_doubts:
  "case (refresh_join (snd (demo_rotate 1 demo_open)) (sv_sha demo_env (demo_token RefreshTokenDomain 1)),
       prepareRotation demo_env (demo_token RefreshTokenDomain 1) (demo_token RefreshRotationIdDomain 1) (demo_token RefreshTokenDomain 2),
       prepareRotation demo_env (demo_token RefreshTokenDomain 1) (demo_token RefreshRotationIdDomain 2) (demo_token RefreshTokenDomain 3)) of
     (Some (r, f, u, d), Inr p, Inr p') \<Rightarrow> rt_consumedAt r \<noteq> None \<and> stored_ok r f \<and> refresh_body demo_doubt \<and> live_context 2000 f u d \<and>
       exactRetry (snd (demo_rotate 1 demo_open)) p r (fa_currentGeneration f) = Inr True
   | _ \<Rightarrow> False"
  by code_simp

lemma demo_rotated_inv: "sess_inv (snd (demo_rotate 1 demo_open))"
  using session_step_inv [OF demo_open_inv demo_hex, of "RotateOp (Some 1000) (demo_token RefreshTokenDomain 1) (demo_token RefreshRotationIdDomain 1)
     (demo_token RefreshTokenDomain (1 + 1)) (demo_uuid 7) (replicate 32 4) (demo_uuid 8)"]
  by (simp add: demo_rotate_def split_beta)

lemma demo_in_doubt:
  obtains r f u d p' where "refresh_join (snd (demo_rotate 1 demo_open)) (sv_sha demo_env (demo_token RefreshTokenDomain 1)) = Some (r, f, u, d)"
    "in_doubt demo_env (snd (demo_rotate 1 demo_open)) demo_doubt r f" "live_context 2000 f u d"
    "prepareRotation demo_env (demo_token RefreshTokenDomain 1) (demo_token RefreshRotationIdDomain 2) (demo_token RefreshTokenDomain 3) = Inr p'"
  using demo_doubts by (auto simp: in_doubt_def demo_doubt_def split: option.split_asm prod.split_asm sum.split_asm)

theorem client_never_burns_its_family_witness:
  "\<exists>w i f. refresh_step demo_env i demo_world w \<and> ss_pending (rw_secrets w) = Some demo_doubt \<and>
     map_of (au_families (rw_db w)) i = Some f \<and> fa_status f \<noteq> FamilyReuseDetected"
proof -
  obtain p s db where lost: "demo_lost = (Inl NETWORK_FAILED, p, s, db)" and s: "ss_pending s = Some demo_doubt"
    using demo_lost_state by (auto split: prod.split_asm)
  obtain r f u d where r: "refresh_join demo_open (sv_sha demo_env (demo_token RefreshTokenDomain 1)) = Some (r, f, u, d)"
      "rt_consumedAt r = None" "fa_status f = FamilyActive"
    using demo_live by (auto split: option.split_asm prod.split_asm)
  let ?w = "demo_world\<lparr>rw_provider := p\<lparr>ap_inFlight := False\<rparr>, rw_secrets := s, rw_db := db\<rparr>"
  have step: "refresh_step demo_env (rt_familyId r) demo_world ?w"
    by (rule rotates [OF _ lost [unfolded demo_lost_def]]) (use demo_fresh in \<open>simp_all add: demo_world_def demo_io_def\<close>)
  have "rtranclp (refresh_step demo_env (rt_familyId r)) demo_world ?w" using step by (rule r_into_rtranclp)
  from client_never_burns_its_family [OF _ demo_hex _ _ _ r(2,3) this, of "demo_token RefreshTokenDomain 1" u d]
  obtain f' where "map_of (au_families (rw_db ?w)) (rt_familyId r) = Some f'" "fa_status f' \<noteq> FamilyReuseDetected"
    using r(1) demo_open_inv by (auto simp: demo_world_def demo_secrets_def)
  then show ?thesis using step s by (intro exI [of _ ?w] exI [of _ "rt_familyId r"] exI [of _ f']) simp
qed

theorem interrupted_rotation_recovers_witness:
  "\<exists>token p db. rotateOnce True (demo_io Replied) [] [] (refresh_route demo_env (Some 2000) (demo_uuid 9) (replicate 32 8) (demo_uuid 9)) new_provider
       (fst (snd (snd demo_lost))) (snd (demo_rotate 1 demo_open)) =
     (Inr token, p, \<lparr>ss_refresh = Some (demo_token RefreshTokenDomain 2), ss_pending = None\<rparr>, db)"
proof (rule demo_in_doubt)
  fix r f u d p'
  assume r: "refresh_join (snd (demo_rotate 1 demo_open)) (sv_sha demo_env (demo_token RefreshTokenDomain 1)) = Some (r, f, u, d)"
    "in_doubt demo_env (snd (demo_rotate 1 demo_open)) demo_doubt r f" "live_context 2000 f u d"
  have q: "pr_refreshToken demo_doubt = demo_token RefreshTokenDomain 1" "pr_successorRefreshToken demo_doubt = demo_token RefreshTokenDomain 2"
    by (simp_all add: demo_doubt_def)
  have "fresh_access demo_env (snd (demo_rotate 1 demo_open)) 2000 (replicate 32 8) (demo_uuid 9)"
    by (rule demo_rotated) simp
  from interrupted_rotation_recovers [OF demo_rotated_inv demo_hex demo_lost_store q(1) r this, of "demo_io Replied"]
  show ?thesis unfolding q(2) by (simp add: demo_io_def) blast
qed

theorem failed_transaction_burns_the_family_witness:
  "\<exists>p1 s1 p2 s2 db2 i f. rotateOnce True (demo_io ServerFailed) [] [] (refresh_route demo_env (Some 2000) [] [] []) new_provider
       (fst (snd (snd demo_lost))) (snd (demo_rotate 1 demo_open)) = (Inl AUTH_DENIED, p1, s1, snd (demo_rotate 1 demo_open)) \<and>
     rotateOnce True (demo_io Replied) (demo_token RefreshRotationIdDomain 2) (demo_token RefreshTokenDomain 3)
       (refresh_route demo_env (Some 2000) [] [] []) p1 s1 (snd (demo_rotate 1 demo_open)) = (Inl AUTH_DENIED, p2, s2, db2) \<and>
     map_of (au_families db2) i = Some f \<and> fa_status f = FamilyReuseDetected"
proof (rule demo_in_doubt)
  fix r f u d p'
  assume r: "refresh_join (snd (demo_rotate 1 demo_open)) (sv_sha demo_env (demo_token RefreshTokenDomain 1)) = Some (r, f, u, d)"
    "in_doubt demo_env (snd (demo_rotate 1 demo_open)) demo_doubt r f" "live_context 2000 f u d"
    and p': "prepareRotation demo_env (demo_token RefreshTokenDomain 1) (demo_token RefreshRotationIdDomain 2) (demo_token RefreshTokenDomain 3) = Inr p'"
  have q: "pr_refreshToken demo_doubt = demo_token RefreshTokenDomain 1" by (simp add: demo_doubt_def)
  have len: "demo_token RefreshRotationIdDomain 2 \<noteq> pr_rotationId demo_doubt" "body_field (demo_token RefreshRotationIdDomain 2)"
    "body_field (demo_token RefreshTokenDomain 3)" by code_simp+
  have io: "io_get (demo_io x)" "io_load (demo_io x)" "io_fate (demo_io x) = x" "io_save (demo_io x) = Written" "io_clear (demo_io x) = Written" for x
    by (simp_all add: demo_io_def)
  show ?thesis
    using failed_transaction_burns_the_family [OF demo_rotated_inv demo_hex demo_lost_store q r io(1,2,3,5) io(1,2,4,3) p' len,
        of "[]" "[]" "[]" "[]" "[]" new_provider "[]" "[]" "[]"] by blast
qed

end
