(* ===== verification/JsonText.thy ===== *)
theory JsonText
  imports Transport CanonicalJson
begin

text \<open>
  JSON text read back and text as bytes, as far as the sources rely on them: \<^verbatim>\<open>JSON.parse\<close> over UTF-16 code
  units (\<open>CanonicalJson\<close> has \<^verbatim>\<open>JSON.stringify\<close>), \<^verbatim>\<open>TextEncoder\<close> and the fatal \<^verbatim>\<open>TextDecoder\<close>. Numbers are
  read as exact rationals.
\<close>

section \<open>Parsing\<close>

definition json_space :: "code_unit \<Rightarrow> bool" where
  "json_space c \<longleftrightarrow> c = 32 \<or> c = 9 \<or> c = 10 \<or> c = 13"

abbreviation skip :: "jsstr \<Rightarrow> jsstr" where
  "skip \<equiv> dropWhile json_space"

definition hex_value :: "code_unit \<Rightarrow> nat option" where
  "hex_value c =
     (if 48 \<le> c \<and> c \<le> 57 then Some (c - 48) else if 97 \<le> c \<and> c \<le> 102 then Some (c - 87)
      else if 65 \<le> c \<and> c \<le> 70 then Some (c - 55) else None)"

definition hex4 :: "code_unit \<Rightarrow> code_unit \<Rightarrow> code_unit \<Rightarrow> code_unit \<Rightarrow> code_unit option" where
  "hex4 a b c d =
     (case (hex_value a, hex_value b, hex_value c, hex_value d) of
        (Some w, Some x, Some y, Some z) \<Rightarrow> Some (4096 * w + 256 * x + 16 * y + z) | _ \<Rightarrow> None)"

definition short_escape :: "code_unit \<Rightarrow> code_unit option" where
  "short_escape e =
     (if e = 34 \<or> e = 92 \<or> e = 47 then Some e else if e = 98 then Some 8 else if e = 102 then Some 12
      else if e = 110 then Some 10 else if e = 114 then Some 13 else if e = 116 then Some 9 else None)"

text \<open>The characters after an opening quote, and what follows the closing one.\<close>

fun parse_chars :: "jsstr \<Rightarrow> (jsstr \<times> jsstr) option" where
  "parse_chars [] = None"
| "parse_chars (c # s) =
     (if c = 34 then Some ([], s)
      else if c < 32 then None
      else if c \<noteq> 92 then map_option (\<lambda>(v, r). (c # v, r)) (parse_chars s)
      else
        (case s of
           [] \<Rightarrow> None
         | e # s1 \<Rightarrow>
             if e = 117 then
               (case s1 of
                  a # b # c' # d # s2 \<Rightarrow>
                    (case hex4 a b c' d of
                       None \<Rightarrow> None
                     | Some u \<Rightarrow> map_option (\<lambda>(v, r). (u # v, r)) (parse_chars s2))
                | _ \<Rightarrow> None)
             else
               (case short_escape e of
                  None \<Rightarrow> None
                | Some u \<Rightarrow> map_option (\<lambda>(v, r). (u # v, r)) (parse_chars s1))))"

definition digit :: "code_unit \<Rightarrow> bool" where
  "digit c \<longleftrightarrow> 48 \<le> c \<and> c \<le> 57"

definition digits_value :: "jsstr \<Rightarrow> nat" where
  "digits_value ds = foldl (\<lambda>n c. 10 * n + (c - 48)) 0 ds"

definition parse_fraction :: "jsstr \<Rightarrow> (rat \<times> jsstr) option" where
  "parse_fraction s =
     (case s of
        c # r \<Rightarrow>
          if c = 46 then
            (let ds = takeWhile digit r
             in if ds = [] then None else Some (of_nat (digits_value ds) / 10 ^ length ds, dropWhile digit r))
          else Some (0, s)
      | [] \<Rightarrow> Some (0, s))"

definition parse_exponent :: "jsstr \<Rightarrow> (int \<times> jsstr) option" where
  "parse_exponent s =
     (case s of
        c # r \<Rightarrow>
          if c = 69 \<or> c = 101 then
            (let (negative, r') = (case r of d # t \<Rightarrow> if d = 45 then (True, t) else if d = 43 then (False, t) else (False, r) | [] \<Rightarrow> (False, r));
                 ds = takeWhile digit r'
             in if ds = [] then None
                else Some (if negative then - int (digits_value ds) else int (digits_value ds), dropWhile digit r'))
          else Some (0, s)
      | [] \<Rightarrow> Some (0, s))"

definition parse_number :: "jsstr \<Rightarrow> (json \<times> jsstr) option" where
  "parse_number s =
     (let (negative, s1) = (case s of c # r \<Rightarrow> if c = 45 then (True, r) else (False, s) | [] \<Rightarrow> (False, s));
          whole = takeWhile digit s1
      in if whole = [] \<or> (hd whole = 48 \<and> length whole > 1) then None
         else
           Option.bind (parse_fraction (dropWhile digit s1)) (\<lambda>(f, s2).
           Option.bind (parse_exponent s2) (\<lambda>(e, s3).
             (let q = (of_nat (digits_value whole) + f) * (if e < 0 then 1 / 10 ^ nat (- e) else 10 ^ nat e)
              in Some (number_json (if negative then - q else q), s3)))))"

definition members_of :: "(jsstr \<times> json) list \<Rightarrow> (jsstr \<times> json) list" where
  "members_of kvs = foldl (\<lambda>m (k, v). map_set m k v) [] kvs"

fun parse_value :: "nat \<Rightarrow> jsstr \<Rightarrow> (json \<times> jsstr) option"
  and parse_items :: "nat \<Rightarrow> jsstr \<Rightarrow> (json list \<times> jsstr) option"
  and parse_members :: "nat \<Rightarrow> jsstr \<Rightarrow> ((jsstr \<times> json) list \<times> jsstr) option" where
  "parse_value 0 s = None"
| "parse_value (Suc n) s =
     (case skip s of
        [] \<Rightarrow> None
      | c # r \<Rightarrow>
          if c = 34 then map_option (\<lambda>(v, r'). (JStr v, r')) (parse_chars r)
          else if c = 123 then
            (case skip r of
               [] \<Rightarrow> None
             | d # r' \<Rightarrow> if d = 125 then Some (JObj [], r')
                        else map_option (\<lambda>(m, r''). (JObj (members_of m), r'')) (parse_members n (d # r')))
          else if c = 91 then
            (case skip r of
               [] \<Rightarrow> None
             | d # r' \<Rightarrow> if d = 93 then Some (JArr [], r')
                        else map_option (\<lambda>(vs, r''). (JArr vs, r'')) (parse_items n (d # r')))
          else if take 4 (c # r) = js ''null'' then Some (JNull, drop 4 (c # r))
          else if take 4 (c # r) = js ''true'' then Some (JBool True, drop 4 (c # r))
          else if take 5 (c # r) = js ''false'' then Some (JBool False, drop 5 (c # r))
          else parse_number (c # r))"
| "parse_items 0 s = None"
| "parse_items (Suc n) s =
     Option.bind (parse_value n s) (\<lambda>(v, r).
       case skip r of
         [] \<Rightarrow> None
       | d # r' \<Rightarrow>
           if d = 93 then Some ([v], r')
           else if d = 44 then map_option (\<lambda>(vs, r''). (v # vs, r'')) (parse_items n r') else None)"
| "parse_members 0 s = None"
| "parse_members (Suc n) s =
     (case skip s of
        [] \<Rightarrow> None
      | c # r \<Rightarrow>
          if c \<noteq> 34 then None
          else
            Option.bind (parse_chars r) (\<lambda>(k, r1).
            case skip r1 of
              [] \<Rightarrow> None
            | e # r2 \<Rightarrow>
                if e \<noteq> 58 then None
                else
                  Option.bind (parse_value n r2) (\<lambda>(v, r3).
                  case skip r3 of
                    [] \<Rightarrow> None
                  | d # r4 \<Rightarrow>
                      if d = 125 then Some ([(k, v)], r4)
                      else if d = 44 then map_option (\<lambda>(m, r'). ((k, v) # m, r')) (parse_members n r4) else None)))"

text \<open>Every level of nesting costs two units of fuel and at least one code unit of the text.\<close>

definition json_parse :: "jsstr \<Rightarrow> json option" where
  "json_parse s = Option.bind (parse_value (2 * length s + 1) s) (\<lambda>(v, r). if skip r = [] then Some v else None)"

section \<open>UTF-8\<close>

text \<open>\<^verbatim>\<open>new TextEncoder().encode(s)\<close>: a surrogate without its partner is replaced by U+FFFD.\<close>

definition scalar_unit :: "code_unit \<Rightarrow> nat" where
  "scalar_unit c = (if high_surrogate c \<or> low_surrogate c then 65533 else c)"

fun scalar_values :: "jsstr \<Rightarrow> nat list" where
  "scalar_values [] = []"
| "scalar_values [c] = [scalar_unit c]"
| "scalar_values (c # d # cs) =
     (if high_surrogate c \<and> low_surrogate d
      then (65536 + (c - 55296) * 1024 + (d - 56320)) # scalar_values cs else scalar_unit c # scalar_values (d # cs))"

definition utf8_encode :: "jsstr \<Rightarrow> nat list" where
  "utf8_encode s = concat (map utf8 (scalar_values s))"

definition continuation :: "nat \<Rightarrow> bool" where
  "continuation b \<longleftrightarrow> 128 \<le> b \<and> b < 192"

definition scalar :: "nat \<Rightarrow> bool" where
  "scalar c \<longleftrightarrow> c < 1114112 \<and> \<not> (55296 \<le> c \<and> c \<le> 57343)"

fun decode_points :: "nat list \<Rightarrow> nat list option" where
  "decode_points [] = Some []"
| "decode_points (a # bs) =
     (if a < 128 then map_option (Cons a) (decode_points bs)
      else if a < 194 then None
      else if a < 224 then
        (case bs of
           b # r \<Rightarrow> if continuation b then map_option (Cons ((a - 192) * 64 + (b - 128))) (decode_points r) else None
         | _ \<Rightarrow> None)
      else if a < 240 then
        (case bs of
           b # c # r \<Rightarrow>
             (let p = (a - 224) * 4096 + (b - 128) * 64 + (c - 128)
              in if continuation b \<and> continuation c \<and> 2048 \<le> p \<and> scalar p then map_option (Cons p) (decode_points r) else None)
         | _ \<Rightarrow> None)
      else if a < 245 then
        (case bs of
           b # c # d # r \<Rightarrow>
             (let p = (a - 240) * 262144 + (b - 128) * 4096 + (c - 128) * 64 + (d - 128)
              in if continuation b \<and> continuation c \<and> continuation d \<and> 65536 \<le> p \<and> scalar p
                 then map_option (Cons p) (decode_points r) else None)
         | _ \<Rightarrow> None)
      else None)"

definition utf16_units :: "nat \<Rightarrow> jsstr" where
  "utf16_units p = (if p < 65536 then [p] else [55296 + (p - 65536) div 1024, 56320 + (p - 65536) mod 1024])"

text \<open>\<^verbatim>\<open>new TextDecoder('utf-8', { fatal: true })\<close>, which drops a leading byte order mark.\<close>

definition utf8_decode :: "nat list \<Rightarrow> jsstr option" where
  "utf8_decode bytes =
     map_option (\<lambda>ps. concat (map utf16_units ps)) (decode_points (if take 3 bytes = [239, 187, 191] then drop 3 bytes else bytes))"

section \<open>Reading back strings and numbers\<close>

lemma hex_value_lower [simp]: "d < 16 \<Longrightarrow> hex_value (hex_lower d) = Some d"
  by (auto simp: hex_value_def hex_lower_def)

lemma hex_digits:
  assumes "c < (65536::nat)"
  shows "4096 * (c div 4096) + 256 * (c div 256 mod 16) + 16 * (c div 16 mod 16) + c mod 16 = c" "c div 4096 < 16"
proof -
  have "c = 16 * (c div 16) + c mod 16" "c div 16 = 16 * (c div 256) + c div 16 mod 16" "c div 256 = 16 * (c div 4096) + c div 256 mod 16"
    using div_mult2_eq [of c 16 16] div_mult2_eq [of c 256 16] by simp_all
  then show "4096 * (c div 4096) + 256 * (c div 256 mod 16) + 16 * (c div 16 mod 16) + c mod 16 = c" by linarith
  show "c div 4096 < 16" using assms by (simp add: less_mult_imp_div_less)
qed

lemma parse_unit: "parse_chars (quote_unit c @ r) = map_option (\<lambda>(v, r). (c # v, r)) (parse_chars r)"
proof (cases "c = 34 \<or> c = 92 \<or> c = 8 \<or> c = 9 \<or> c = 10 \<or> c = 12 \<or> c = 13")
  case True
  then show ?thesis by (elim disjE) (simp_all add: quote_unit_def short_escape_def)
next
  case False
  show ?thesis
  proof (cases "c < 32 \<or> high_surrogate c \<or> low_surrogate c")
    case True
    then have "c < 65536" by (auto simp: high_surrogate_def low_surrogate_def)
    then show ?thesis using False True hex_digits [of c] by (simp add: quote_unit_def unicode_escape_def hex4_def)
  qed (use False in \<open>simp add: quote_unit_def\<close>)
qed

lemma parse_pair:
  "high_surrogate c \<Longrightarrow> low_surrogate d \<Longrightarrow>
   parse_chars (c # d # r) = map_option (\<lambda>(v, r). (c # d # v, r)) (parse_chars r)"
  by (cases "parse_chars r") (auto simp: high_surrogate_def low_surrogate_def)

lemma parse_quoted: "parse_chars (quote_body s @ 34 # rest) = Some (s, rest)"
proof (induction s rule: quote_body.induct)
  case (2 c)
  then show ?case by (simp add: parse_unit del: parse_chars.simps(2)) simp
next
  case (3 c d cs)
  then show ?case by (simp add: parse_unit parse_pair del: parse_chars.simps(2))
qed simp

definition number_ends :: "jsstr \<Rightarrow> bool" where
  "number_ends r \<longleftrightarrow> (case r of [] \<Rightarrow> True | c # _ \<Rightarrow> \<not> digit c \<and> c \<noteq> 46 \<and> c \<noteq> 69 \<and> c \<noteq> 101)"

lemma digits_value_append: "digits_value (ds @ [c]) = 10 * digits_value ds + (c - 48)"
  by (simp add: digits_value_def)

lemma decimal_digits: "decimal n \<noteq> []" "list_all digit (decimal n)" "digits_value (decimal n) = n"
    "hd (decimal n) = 48 \<Longrightarrow> n = 0"
proof (induction n rule: decimal.induct)
  case (1 n)
  { case 1
    show ?case by (subst decimal.simps) simp
  next
    case 2
    have "digit (48 + n mod 10)" by (auto simp: digit_def)
    then show ?case using "1.IH"(2) by (subst decimal.simps) (cases "n < 10", simp_all)
  next
    case 3
    show ?case using "1.IH"(3) by (subst decimal.simps) (simp add: digits_value_append, simp add: digits_value_def)
  next
    case 4
    show ?case
    proof (cases "n < 10")
      case True
      then show ?thesis using 4 decimal.simps [of n] by simp
    next
      case False
      then have "hd (decimal (n div 10)) = 48" using 4 decimal.simps [of n] "1.IH"(1) by (simp add: hd_append)
      then have "n div 10 = 0" using "1.IH"(4) False by simp
      then show ?thesis using False by simp
    qed
  }
qed

lemma decimal_single: "hd (decimal n) = 48 \<Longrightarrow> length (decimal n) = 1"
  using decimal_digits(4) [of n] decimal.simps [of n] by simp

lemma take_digits:
  assumes "list_all digit ds" "number_ends r"
  shows "takeWhile digit (ds @ r) = ds" "dropWhile digit (ds @ r) = r"
  using assms by (induction ds) (auto simp: number_ends_def split: list.splits)

lemma number_json_int [simp]: "number_json (of_int n) = JInt n"
  by (simp add: number_json_def)

lemma parse_int:
  assumes "number_ends r"
  shows "parse_number (int_text n @ r) = Some (JInt n, r)"
proof -
  have ends: "parse_fraction r = Some (0, r)" "parse_exponent r = Some (0, r)"
    using assms by (auto simp: parse_fraction_def parse_exponent_def number_ends_def split: list.split)
  note d = decimal_digits [of "nat \<bar>n\<bar>"] and s = decimal_single [of "nat \<bar>n\<bar>"]
  note t = take_digits [OF d(2) assms]
  have first: "hd (decimal (nat \<bar>n\<bar>)) \<noteq> 45"
    using d(1,2) by (cases "decimal (nat \<bar>n\<bar>)") (auto simp: digit_def)
  have int: "number_json (if n < 0 then - rat_of_nat (nat \<bar>n\<bar>) else rat_of_nat (nat \<bar>n\<bar>)) = JInt n"
    using number_json_int [of n] by (cases "n < 0") (simp_all add: of_nat_nat)
  show ?thesis
  proof (cases "n < 0")
    case True
    then show ?thesis using d(1,3) s t ends int by (auto simp: parse_number_def int_text_def js_def Let_def)
  next
    case False
    obtain c ds where cs: "decimal (nat \<bar>n\<bar>) = c # ds" using d(1) by (cases "decimal (nat \<bar>n\<bar>)") auto
    then show ?thesis using False d(3) s t ends int first by (auto simp: parse_number_def int_text_def Let_def)
  qed
qed

section \<open>Reading back values\<close>

fun json_plain :: "json \<Rightarrow> bool" where
  "json_plain (JFrac q) = False"
| "json_plain (JArr vs) = list_all json_plain vs"
| "json_plain (JObj kvs) = (distinct (map fst kvs) \<and> list_all (\<lambda>(k, v). json_plain v) kvs)"
| "json_plain _ = True"

text \<open>How the text of a value starts: never like white space, a comma or a closing bracket.\<close>

definition value_start :: "jsstr \<Rightarrow> bool" where
  "value_start s \<longleftrightarrow> (case s of [] \<Rightarrow> False | c # _ \<Rightarrow> \<not> json_space c \<and> c \<noteq> 93 \<and> c \<noteq> 125)"

lemma int_text_start: "\<exists>c r. int_text n = c # r \<and> (c = 45 \<or> digit c)"
proof -
  obtain c ds where "decimal (nat n) = c # ds" using decimal_digits(1) by (cases "decimal (nat n)") auto
  moreover have "list_all digit (decimal (nat n))" by (rule decimal_digits)
  ultimately show ?thesis by (cases "n < 0") (auto simp: int_text_def js_def)
qed

lemma json_text_start: "json_plain v \<Longrightarrow> value_start (json_text ftext v @ r)"
proof (cases v)
  case (JInt n)
  then show ?thesis using int_text_start [of n] by (auto simp: value_start_def json_space_def digit_def)
qed (auto simp: value_start_def json_space_def js_def quote_def)

lemma skip_start [simp]: "value_start s \<Longrightarrow> skip s = s"
  by (cases s) (auto simp: value_start_def)

lemma json_text_nonempty: "json_plain v \<Longrightarrow> 0 < length (json_text ftext v)"
  using json_text_start [of v ftext "[]"] by (auto simp: value_start_def)

lemma members_of_distinct: "distinct (map fst kvs) \<Longrightarrow> members_of kvs = kvs"
proof (induction kvs rule: rev_induct)
  case (snoc x xs)
  obtain k v where x: "x = (k, v)" by (cases x)
  have "map_of xs k = None" using snoc.prems x by (simp add: map_of_eq_None_iff)
  then show ?case using snoc x by (simp add: members_of_def map_set_def)
qed (simp add: members_of_def)

lemma parse_items_text:
  assumes "\<And>v n r. v \<in> set vs \<Longrightarrow> number_ends r \<Longrightarrow> 2 * length (json_text ftext v) \<le> n \<Longrightarrow> parse_value n (json_text ftext v @ r) = Some (v, r)"
    and "list_all json_plain vs" "vs \<noteq> []" "2 * length (commas (map (json_text ftext) vs)) + 1 \<le> n"
  shows "parse_items n (commas (map (json_text ftext) vs) @ 93 # rest) = Some (vs, rest)"
  using assms
proof (induction vs arbitrary: n)
  case (Cons v vs)
  obtain k where n: "n = Suc k" using Cons.prems(4) by (cases n) auto
  have ends: "number_ends (93 # r)" "number_ends (44 # r)" for r by (simp_all add: number_ends_def digit_def)
  show ?case
  proof (cases vs)
    case Nil
    have "parse_value k (json_text ftext v @ 93 # rest) = Some (v, 93 # rest)"
      using Cons.prems(1) [of v "93 # rest" k] Cons.prems(4) ends n Nil by simp
    then show ?thesis by (simp add: n Nil json_space_def)
  next
    case (Cons w ws)
    have "parse_value k (json_text ftext v @ 44 # r) = Some (v, 44 # r)" for r
      using Cons.prems(1) [of v "44 # r" k] Cons.prems(4) ends n Cons by simp
    moreover have "parse_items k (commas (map (json_text ftext) vs) @ 93 # rest) = Some (vs, rest)"
      using Cons.prems json_text_nonempty [of v ftext] n Cons by (intro Cons.IH) auto
    ultimately show ?thesis using Cons by (simp add: n json_space_def)
  qed
qed simp

abbreviation member_text :: "(rat \<Rightarrow> jsstr) \<Rightarrow> jsstr \<times> json \<Rightarrow> jsstr" where
  "member_text ftext \<equiv> \<lambda>(k, v). quote k @ 58 # json_text ftext v"

lemma parse_members_text:
  assumes "\<And>k v n r. (k, v) \<in> set kvs \<Longrightarrow> number_ends r \<Longrightarrow> 2 * length (json_text ftext v) \<le> n \<Longrightarrow> parse_value n (json_text ftext v @ r) = Some (v, r)"
    and "list_all (\<lambda>(k, v). json_plain v) kvs" "kvs \<noteq> []" "2 * length (commas (map (member_text ftext) kvs)) + 1 \<le> n"
  shows "parse_members n (commas (map (member_text ftext) kvs) @ 125 # rest) = Some (kvs, rest)"
  using assms
proof (induction kvs arbitrary: n)
  case (Cons kv kvs)
  obtain k v where kv: "kv = (k, v)" by (cases kv)
  obtain m where n: "n = Suc m" using Cons.prems(4) by (cases n) auto
  have ends: "number_ends (125 # r)" "number_ends (44 # r)" for r by (simp_all add: number_ends_def digit_def)
  have key: "parse_chars (quote_body k @ 34 # r) = Some (k, r)" for r by (rule parse_quoted)
  have val: "parse_value m (json_text ftext v @ r) = Some (v, r)" if "number_ends r" for r
    using Cons.prems(1) [of k v r m] Cons.prems(4) that n kv by (cases kvs) (auto simp: quote_def)
  show ?case
  proof (cases kvs)
    case Nil
    then show ?thesis using key [of "58 # json_text ftext v @ 125 # rest"] val [OF ends(1), of rest]
      by (simp add: n kv quote_def json_space_def)
  next
    case (Cons w ws)
    have "parse_members m (commas (map (member_text ftext) kvs) @ 125 # rest) = Some (kvs, rest)"
      using Cons.prems n Cons kv by (intro Cons.IH) (auto simp: quote_def)
    then show ?thesis
      using key [of "58 # json_text ftext v @ 44 # commas (map (member_text ftext) kvs) @ 125 # rest"] Cons
        val [OF ends(2), of "commas (map (member_text ftext) kvs) @ 125 # rest"]
      by (simp add: n kv quote_def json_space_def)
  qed
qed simp

lemma parse_value_text:
  "json_plain v \<Longrightarrow> number_ends r \<Longrightarrow> 2 * length (json_text ftext v) \<le> n \<Longrightarrow> parse_value n (json_text ftext v @ r) = Some (v, r)"
proof (induction v arbitrary: n r rule: json.induct)
  case (JArr vs)
  obtain m where n: "n = Suc m" using JArr.prems(3) by (cases n) auto
  show ?case
  proof (cases vs)
    case Nil
    then show ?thesis by (simp add: n json_space_def)
  next
    case (Cons w ws)
    have "value_start (commas (map (json_text ftext) vs) @ 93 # r)"
      using JArr.prems(1) json_text_start [of w ftext] Cons by (cases ws) auto
    then obtain c t where ct: "commas (map (json_text ftext) vs) @ 93 # r = c # t" "\<not> json_space c" "c \<noteq> 93"
      by (auto simp: value_start_def split: list.split_asm)
    have "parse_items m (commas (map (json_text ftext) vs) @ 93 # r) = Some (vs, r)"
      using JArr Cons n by (intro parse_items_text) (auto simp: list_all_iff)
    then show ?thesis using ct by (simp add: n json_space_def)
  qed
next
  case (JObj kvs)
  obtain m where n: "n = Suc m" using JObj.prems(3) by (cases n) auto
  show ?case
  proof (cases kvs)
    case Nil
    then show ?thesis by (simp add: n json_space_def)
  next
    case (Cons w ws)
    obtain t where ct: "commas (map (member_text ftext) kvs) @ 125 # r = 34 # t"
      using Cons by (cases w; cases ws) (auto simp: quote_def)
    have IH: "parse_value n (json_text ftext v @ r) = Some (v, r)"
      if "(k, v) \<in> set kvs" "number_ends r" "2 * length (json_text ftext v) \<le> n" for k v n r
      using JObj.IH [OF that(1), of v] JObj.prems(1) that by (auto simp: list_all_iff)
    have "parse_members m (commas (map (member_text ftext) kvs) @ 125 # r) = Some (kvs, r)"
      by (rule parse_members_text [OF IH]) (use JObj.prems Cons n in \<open>auto simp: list_all_iff\<close>)
    then show ?thesis using ct members_of_distinct [of kvs] JObj.prems(1) by (simp add: n json_space_def)
  qed
next
  case (JInt i)
  obtain m where n: "n = Suc m" using JInt.prems(3) int_text_start [of i] by (cases n) auto
  obtain c t where c: "int_text i = c # t" "c = 45 \<or> digit c" using int_text_start [of i] by blast
  then have "parse_number (c # t @ r) = Some (JInt i, r)" using parse_int [OF JInt.prems(2), of i] by simp
  then show ?case using c by (auto simp: n json_space_def digit_def js_def)
next
  case (JStr s)
  obtain m where n: "n = Suc m" using JStr.prems(3) by (cases n) (auto simp: quote_def)
  show ?case using parse_quoted [of s r] by (simp add: n quote_def json_space_def)
next
  case JNull
  then obtain m where "n = Suc m" by (cases n) (auto simp: js_def)
  then show ?case by (simp add: js_def json_space_def)
next
  case (JBool b)
  then obtain m where "n = Suc m" by (cases n; cases b) (auto simp: js_def)
  then show ?case by (cases b) (simp_all add: js_def json_space_def)
qed simp_all

lemma json_text_roundtrip: "json_plain v \<Longrightarrow> json_parse (json_text ftext v) = Some v"
  using parse_value_text [of v "[]" ftext "2 * length (json_text ftext v) + 1"]
  by (simp add: json_parse_def number_ends_def)

section \<open>Bytes of printed text\<close>

definition units_ok :: "jsstr \<Rightarrow> bool" where
  "units_ok s \<longleftrightarrow> list_all (\<lambda>c. c < 65536) s"

fun json_units :: "json \<Rightarrow> bool" where
  "json_units (JFrac q) = False"
| "json_units (JStr s) = units_ok s"
| "json_units (JArr vs) = list_all json_units vs"
| "json_units (JObj kvs) = list_all (\<lambda>(k, v). units_ok k \<and> json_units v) kvs"
| "json_units _ = True"

text \<open>Text without surrogates out of place, over 16-bit units.\<close>

definition well_formed :: "jsstr \<Rightarrow> bool" where
  "well_formed s \<longleftrightarrow> code_points s \<noteq> None \<and> units_ok s"

lemma code_points_append: "code_points a = Some x \<Longrightarrow> code_points (a @ b) = map_option ((@) x) (code_points b)"
proof (induction a arbitrary: x rule: code_points.induct)
  case (2 c)
  then show ?case by (cases b) (auto split: if_split_asm intro!: map_option_cong)
next
  case (3 c d cs)
  then show ?case by (cases "code_points b") (auto split: if_split_asm)
qed (cases "code_points b", simp_all)

lemma well_formed_append: "well_formed a \<Longrightarrow> well_formed b \<Longrightarrow> well_formed (a @ b)"
  by (auto simp: well_formed_def units_ok_def code_points_append)

lemma well_formed_plain: "list_all (\<lambda>c. c < 55296) s \<Longrightarrow> well_formed s"
proof -
  have "list_all (\<lambda>c. c < 55296) s \<Longrightarrow> code_points s \<noteq> None" by (induction s rule: code_points.induct) auto
  then show "list_all (\<lambda>c. c < 55296) s \<Longrightarrow> well_formed s"
    by (auto simp: well_formed_def units_ok_def list_all_iff)
qed

lemma hex_lower_less: "d < 16 \<Longrightarrow> hex_lower d < 55296"
  by (simp add: hex_lower_def)

lemma well_formed_unit:
  assumes c: "c < 65536"
  shows "well_formed (quote_unit c)"
proof (cases "55296 \<le> c \<and> \<not> high_surrogate c \<and> \<not> low_surrogate c")
  case True
  then have "code_points [c] = Some [c]" by (auto simp: high_surrogate_def low_surrogate_def)
  moreover have "quote_unit c = [c]" using True by (simp add: quote_unit_def)
  ultimately show ?thesis using c by (simp add: well_formed_def units_ok_def del: code_points.simps)
next
  case False
  have "list_all (\<lambda>c. c < 55296) (unicode_escape c)"
    using hex_lower_less [OF hex_digits(2) [OF c]] hex_lower_less [of "c div 256 mod 16"]
      hex_lower_less [of "c div 16 mod 16"] hex_lower_less [of "c mod 16"]
    by (simp add: unicode_escape_def)
  then have "list_all (\<lambda>c. c < 55296) (quote_unit c)" using False by (auto simp: quote_unit_def)
  then show ?thesis by (rule well_formed_plain)
qed

lemma well_formed_quote_body: "units_ok s \<Longrightarrow> well_formed (quote_body s)"
proof (induction s rule: quote_body.induct)
  case (3 c d cs)
  show ?case
  proof (cases "high_surrogate c \<and> low_surrogate d")
    case True
    then have "well_formed [c, d]" using "3.prems" by (simp add: well_formed_def units_ok_def high_surrogate_def low_surrogate_def)
    then have "well_formed ([c, d] @ quote_body cs)"
      using "3.IH"(1) [OF True] "3.prems" by (intro well_formed_append) (simp_all add: units_ok_def)
    then show ?thesis using True by simp
  next
    case False
    then show ?thesis
      using "3.IH"(2) "3.prems" well_formed_unit [of c] by (auto simp: well_formed_append units_ok_def)
  qed
qed (auto simp: well_formed_plain well_formed_unit units_ok_def)

lemma well_formed_Cons: "c < 55296 \<Longrightarrow> well_formed s \<Longrightarrow> well_formed (c # s)"
  using well_formed_append [of "[c]" s] well_formed_plain [of "[c]"] by simp

lemma well_formed_snoc: "c < 55296 \<Longrightarrow> well_formed s \<Longrightarrow> well_formed (s @ [c])"
  using well_formed_append [of s "[c]"] well_formed_plain [of "[c]"] by simp

lemma well_formed_commas: "list_all well_formed ss \<Longrightarrow> well_formed (commas ss)"
  by (induction ss rule: commas.induct) (auto intro!: well_formed_append well_formed_Cons, simp add: well_formed_plain)

lemma well_formed_quote: "units_ok s \<Longrightarrow> well_formed (quote s)"
  by (simp add: quote_def well_formed_Cons well_formed_snoc well_formed_quote_body)

lemma well_formed_int: "well_formed (int_text n)"
proof (rule well_formed_plain)
  have "list_all (\<lambda>c. c < 55296) (decimal m)" for m
    using decimal_digits(2) [of m] by (auto simp: list_all_iff digit_def)
  then show "list_all (\<lambda>c. c < 55296) (int_text n)" by (auto simp: int_text_def js_def)
qed

lemma well_formed_text: "json_units v \<Longrightarrow> well_formed (json_text ftext v)"
proof (induction v rule: json.induct)
  case (JArr vs)
  then show ?case by (simp add: well_formed_Cons well_formed_snoc well_formed_commas list_all_iff)
next
  case (JObj kvs)
  then have "well_formed (member_text ftext kv)" if "kv \<in> set kvs" for kv
    using that by (cases kv) (auto simp: list_all_iff intro!: well_formed_append well_formed_quote well_formed_Cons)
  then show ?case by (simp add: well_formed_Cons well_formed_snoc well_formed_commas list_all_iff)
qed (auto simp: js_def well_formed_int well_formed_quote intro: well_formed_plain)

text \<open>Bytes read back.\<close>

lemma code_points_units:
  "code_points s = Some ps \<Longrightarrow> units_ok s \<Longrightarrow> concat (map utf16_units ps) = s \<and> list_all scalar ps"
proof (induction s arbitrary: ps rule: code_points.induct)
  case (3 c d cs)
  show ?case
  proof (cases "high_surrogate c \<and> low_surrogate d")
    case True
    then have sur: "55296 \<le> c" "c \<le> 56319" "56320 \<le> d" "d \<le> 57343" by (simp_all add: high_surrogate_def low_surrogate_def)
    then obtain qs where qs: "code_points cs = Some qs" "ps = (65536 + (c - 55296) * 1024 + (d - 56320)) # qs"
      using "3.prems"(1) by auto
    obtain x where x: "x = 65536 + (c - 55296) * 1024 + (d - 56320)" by blast
    have "x - 65536 = (c - 55296) * 1024 + (d - 56320)" "d - 56320 < 1024" using sur x by simp_all
    then have "(x - 65536) div 1024 = c - 55296" "(x - 65536) mod 1024 = d - 56320" by simp_all
    moreover have "(c - 55296) * 1024 \<le> 1023 * 1024" using sur by (intro mult_le_mono1) simp
    ultimately have "utf16_units x = [c, d]" "scalar x" using sur x by (simp_all add: utf16_units_def scalar_def)
    then show ?thesis using "3.IH"(1) [OF conjI [OF sur(1,2)] conjI [OF sur(3,4)] qs(1)] "3.prems"(2) qs(2) x by (simp add: units_ok_def)
  next
    case False
    then obtain qs where "code_points (d # cs) = Some qs" "ps = c # qs" "\<not> (55296 \<le> c \<and> c \<le> 57343)"
      using "3.prems"(1) by (auto simp: high_surrogate_def low_surrogate_def split: if_split_asm)
    then show ?thesis
      using "3.IH"(2) [of qs] "3.prems"(2) False
      by (auto simp: high_surrogate_def low_surrogate_def utf16_units_def [of c] scalar_def units_ok_def)
  qed
qed (auto simp: utf16_units_def scalar_def units_ok_def split: if_split_asm)

lemma base64_digits:
  fixes p :: nat
  shows "p div 64 * 64 + p mod 64 = p" "p div 4096 * 4096 + p div 64 mod 64 * 64 + p mod 64 = p"
    "p div 262144 * 262144 + p div 4096 mod 64 * 4096 + p div 64 mod 64 * 64 + p mod 64 = p"
proof -
  have "p div 64 = 64 * (p div 4096) + p div 64 mod 64" "p div 4096 = 64 * (p div 262144) + p div 4096 mod 64"
    using div_mult2_eq [of p 64 64] div_mult2_eq [of p 4096 64] by simp_all
  moreover have "p = 64 * (p div 64) + p mod 64" by simp
  ultimately show "p div 64 * 64 + p mod 64 = p" "p div 4096 * 4096 + p div 64 mod 64 * 64 + p mod 64 = p"
    "p div 262144 * 262144 + p div 4096 mod 64 * 4096 + p div 64 mod 64 * 64 + p mod 64 = p" by linarith+
qed

lemma decode_two:
  "2 \<le> a \<Longrightarrow> a < 32 \<Longrightarrow> b < 64 \<Longrightarrow> decode_points ((192 + a) # (128 + b) # bs) = map_option (Cons (a * 64 + b)) (decode_points bs)"
  by (simp add: continuation_def)

lemma decode_utf8:
  assumes p: "scalar p"
  shows "decode_points (utf8 p @ bs) = map_option (Cons p) (decode_points bs)"
proof -
  consider "p < 128" | "128 \<le> p" "p < 2048" | "2048 \<le> p" "p < 65536" | "65536 \<le> p" by linarith
  then show ?thesis
  proof cases
    case 2
    then have "2 \<le> p div 64" "p div 64 < 32" by auto
    from decode_two [OF this, of "p mod 64" bs] show ?thesis using 2 by (simp add: utf8_def del: decode_points.simps)
  next
    case 3
    then have "p div 4096 < 16" by auto
    then show ?thesis using 3 p base64_digits(2) [of p] by (simp add: utf8_def continuation_def Let_def)
  next
    case 4
    then have "p div 262144 < 5" using p by (auto simp: scalar_def)
    then show ?thesis using 4 p base64_digits(3) [of p] by (simp add: utf8_def continuation_def Let_def)
  qed (simp add: utf8_def)
qed

lemma decode_points_utf8: "list_all scalar ps \<Longrightarrow> decode_points (concat (map utf8 ps)) = Some ps"
  by (induction ps) (simp_all add: decode_utf8)

lemma scalar_values_well_formed: "code_points s = Some ps \<Longrightarrow> scalar_values s = ps"
proof (induction s arbitrary: ps rule: scalar_values.induct)
  case (3 c d cs)
  then show ?case
    by (cases "high_surrogate c \<and> low_surrogate d")
      (auto simp: high_surrogate_def low_surrogate_def scalar_unit_def split: if_split_asm)
qed (auto simp: scalar_unit_def high_surrogate_def low_surrogate_def split: if_split_asm)

lemma utf8_roundtrip:
  assumes "well_formed s" "take 3 (utf8_encode s) \<noteq> [239, 187, 191]"
  shows "utf8_decode (utf8_encode s) = Some s"
proof -
  obtain ps where ps: "code_points s = Some ps" using assms(1) by (auto simp: well_formed_def)
  then have u: "concat (map utf16_units ps) = s" "list_all scalar ps"
    using code_points_units assms(1) by (auto simp: well_formed_def)
  have "utf8_encode s = concat (map utf8 ps)" by (simp add: utf8_encode_def scalar_values_well_formed [OF ps])
  then show ?thesis using assms(2) decode_points_utf8 [OF u(2)] u(1) by (simp add: utf8_decode_def)
qed

lemma utf8_point_bytes:
  assumes "scalar p"
  shows "list_all (\<lambda>b. b < 256) (utf8 p)"
proof -
  have m: "x mod 64 < 128" for x :: nat using mod_less_divisor [of 64 x] by linarith
  have "p < 2048 \<Longrightarrow> p div 64 < 64" "p < 65536 \<Longrightarrow> p div 4096 < 32" "p div 262144 < 8"
    using assms by (simp_all add: less_mult_imp_div_less scalar_def)
  then show ?thesis using m [of p] m [of "p div 64"] m [of "p div 4096"] by (simp add: utf8_def)
qed

lemma utf8_bytes: "list_all scalar ps \<Longrightarrow> \<forall>b \<in> set (concat (map utf8 ps)). b < 256"
  using utf8_point_bytes by (fastforce simp: list_all_iff)

lemma utf8_encode_bytes:
  assumes "well_formed s"
  shows "\<forall>b \<in> set (utf8_encode s). b < 256"
proof -
  obtain ps where ps: "code_points s = Some ps" using assms by (auto simp: well_formed_def)
  then have "list_all scalar ps" using code_points_units assms by (auto simp: well_formed_def)
  then show ?thesis using utf8_bytes by (simp add: utf8_encode_def scalar_values_well_formed [OF ps])
qed

text \<open>The text of an object starts with a brace, so its bytes carry no byte order mark.\<close>

lemma json_bytes_roundtrip:
  assumes "json_plain (JObj kvs)" "json_units (JObj kvs)"
  shows "Option.bind (utf8_decode (utf8_encode (json_text ftext (JObj kvs)))) json_parse = Some (JObj kvs)"
proof -
  have "scalar_values (123 # x) = 123 # scalar_values x" for x
    by (cases x) (simp_all add: scalar_unit_def high_surrogate_def low_surrogate_def)
  then have "take 3 (utf8_encode (json_text ftext (JObj kvs))) \<noteq> [239, 187, 191]"
    by (simp add: utf8_encode_def utf8_def)
  then show ?thesis
    using utf8_roundtrip [OF well_formed_text [OF assms(2)]] json_text_roundtrip [OF assms(1)] by simp
qed

end
