(* ===== verification/Envelope.thy ===== *)
theory Envelope
  imports JsonText Base64
begin

text \<open>
  The payload of a revision, from the device that writes it to the device that reads it:
  \<^verbatim>\<open>buildRevisionEnvelope\<close> of \<^verbatim>\<open>packages/sync-core/src/revision-envelope.ts\<close> and
  \<^verbatim>\<open>decodeRevisionPayload\<close> of \<^verbatim>\<open>payload-codec.ts\<close>. Parameters: SHA-256 in hexadecimal over bytes
  (\<open>sha\<close>), zod's UUID format (\<open>uuid\<close>), Unicode normalisation and lower case (\<open>nfc\<close>, \<open>lower\<close>), and the
  decimal text of a fraction (\<open>ftext\<close>, which no payload has).
\<close>

section \<open>Inputs and results\<close>

datatype envelope_operation = OpInitialImport | OpCreate | OpUpdate | OpRename | OpDelete

fun operation_text :: "envelope_operation \<Rightarrow> jsstr" where
  "operation_text OpInitialImport = js ''initial-import''"
| "operation_text OpCreate = js ''create''"
| "operation_text OpUpdate = js ''update''"
| "operation_text OpRename = js ''rename''"
| "operation_text OpDelete = js ''delete''"

record envelope_identity =
  ei_vaultId :: ident
  ei_fileId :: ident
  ei_memberId :: ident
  ei_deviceId :: ident

record envelope_input =
  in_identity :: envelope_identity
  in_revisionId :: ident
  in_parents :: "ident list"
  in_operation :: envelope_operation
  in_path :: jsstr
  in_previousPath :: "jsstr option"
  in_kind :: "content_kind option"
  in_content :: "jsstr option"
  in_binaryContentBase64 :: "jsstr option"
  in_idempotencyKey :: ident
  in_maxPayloadBytes :: "nat option"

record built_envelope =
  be_header :: protected_header
  be_payloadBase64 :: jsstr
  be_contentHash :: jsstr
  be_revisionId :: ident
  be_fileId :: ident
  be_idempotencyKey :: ident

datatype envelope_error =
    InvalidPath path_error
  | RenameWithoutPreviousPath
  | InvalidBase64 codec_error
  | InvalidRevision validation_error
  | RevisionPayloadTooLarge jsstr nat nat

definition DEFAULT_MAX_REVISION_PAYLOAD_BYTES :: nat where
  "DEFAULT_MAX_REVISION_PAYLOAD_BYTES = 512 * 1024"

definition PROTOCOL_VERSION :: "nat \<times> nat" where
  "PROTOCOL_VERSION = (1, 0)"

fun lift_error :: "('e \<Rightarrow> 'f) \<Rightarrow> 'e + 'a \<Rightarrow> 'f + 'a" where
  "lift_error f (Inl e) = Inl (f e)"
| "lift_error f (Inr x) = Inr x"

section \<open>Building\<close>

definition hashPlaintext :: "(nat list \<Rightarrow> jsstr) \<Rightarrow> jsstr \<Rightarrow> jsstr" where
  "hashPlaintext sha content = sha (utf8_encode (canonicalizeMarkdown content))"

text \<open>\<^verbatim>\<open>base.previousPath\<close>, written for a rename only.\<close>

definition previous_member ::
    "(jsstr \<Rightarrow> jsstr) \<Rightarrow> (jsstr \<Rightarrow> jsstr) \<Rightarrow> envelope_input \<Rightarrow> envelope_error + (jsstr \<times> json) list" where
  "previous_member nfc lower input =
     (if in_operation input = OpRename
      then (case in_previousPath input of
              None \<Rightarrow> Inl RenameWithoutPreviousPath
            | Some p \<Rightarrow> bind_result (lift_error InvalidPath (canonicalizeVaultPath nfc lower p)) (\<lambda>q.
                          Inr [(js ''previousPath'', JStr q)]))
      else Inr [])"

definition buildInnerPayload ::
    "(nat list \<Rightarrow> jsstr) \<Rightarrow> (jsstr \<Rightarrow> jsstr) \<Rightarrow> (jsstr \<Rightarrow> jsstr) \<Rightarrow> envelope_input \<Rightarrow> jsstr \<Rightarrow>
     envelope_error + (jsstr \<times> json) list" where
  "buildInnerPayload sha nfc lower input path =
     (if in_operation input = OpDelete
      then Inr [(js ''schemaVersion'', JInt 1), (js ''operation'', JStr (js ''delete'')), (js ''path'', JStr path),
                (js ''content'', JNull), (js ''plaintextHash'', JNull)]
      else if in_kind input = Some Binary
      then (let contentBase64 = (case in_binaryContentBase64 input of None \<Rightarrow> [] | Some b \<Rightarrow> b)
            in bind_result (previous_member nfc lower input) (\<lambda>previous.
               bind_result (lift_error InvalidBase64 (base64ToBytes contentBase64)) (\<lambda>bytes.
                 Inr ([(js ''schemaVersion'', JInt 1), (js ''operation'', JStr (operation_text (in_operation input))),
                       (js ''kind'', JStr (js ''binary'')), (js ''path'', JStr path)] @ previous @
                      [(js ''contentBase64'', JStr contentBase64), (js ''blobByteHash'', JStr (sha bytes))]))))
      else (let content = canonicalizeMarkdown (case in_content input of None \<Rightarrow> [] | Some c \<Rightarrow> c)
            in bind_result (previous_member nfc lower input) (\<lambda>previous.
                 Inr ([(js ''schemaVersion'', JInt 1), (js ''operation'', JStr (operation_text (in_operation input))),
                       (js ''path'', JStr path)] @ previous @
                      [(js ''content'', JStr content), (js ''plaintextHash'', JStr (hashPlaintext sha content))]))))"

definition legacyRecipe :: "json option \<Rightarrow> json" where
  "legacyRecipe content =
     (case content of
        Some (JStr s) \<Rightarrow> JObj [(js ''version'', JInt 1),
          (js ''parts'', JArr (if s = [] then [] else [JObj [(js ''type'', JStr (js ''literal'')), (js ''text'', JStr s)]]))]
      | _ \<Rightarrow> JNull)"

definition build_header :: "envelope_input \<Rightarrow> ident list \<Rightarrow> protected_header" where
  "build_header input parents =
     \<lparr>protocol = PROTOCOL_VERSION, vaultId = ei_vaultId (in_identity input), fileId = ei_fileId (in_identity input),
      revisionId = in_revisionId input, parentRevisionIds = parents,
      expectedMemberId = ei_memberId (in_identity input), expectedDeviceId = ei_deviceId (in_identity input)\<rparr>"

definition buildRevisionEnvelope ::
    "(nat list \<Rightarrow> jsstr) \<Rightarrow> (ident \<Rightarrow> bool) \<Rightarrow> (jsstr \<Rightarrow> jsstr) \<Rightarrow> (jsstr \<Rightarrow> jsstr) \<Rightarrow> (rat \<Rightarrow> jsstr) \<Rightarrow> envelope_input \<Rightarrow>
     envelope_error + built_envelope" where
  "buildRevisionEnvelope sha uuid nfc lower ftext input =
     bind_result (lift_error InvalidPath (canonicalizeVaultPath nfc lower (in_path input))) (\<lambda>path.
     (let parentRevisionIds = sort (remdups (in_parents input));
          header = build_header input parentRevisionIds
      in bind_result (buildInnerPayload sha nfc lower input path) (\<lambda>inner.
     (let payload = JObj (if length parentRevisionIds \<ge> 2
                          then inner @ [(js ''recipe'', legacyRecipe (map_of inner (js ''content'')))] else inner)
      in bind_result (lift_error InvalidRevision
             (validateRevisionPayloadAgainstHeader uuid nfc lower (header_json header) payload)) (\<lambda>_.
     (let bytes = utf8_encode (json_text ftext payload);
          maxPayloadBytes = (case in_maxPayloadBytes input of None \<Rightarrow> DEFAULT_MAX_REVISION_PAYLOAD_BYTES | Some m \<Rightarrow> m)
      in if length bytes > maxPayloadBytes
         then Inl (RevisionPayloadTooLarge path (length bytes) maxPayloadBytes)
         else bind_result (lift_error InvalidBase64 (bytesToBase64 bytes)) (\<lambda>b64.
              Inr \<lparr>be_header = header, be_payloadBase64 = b64, be_contentHash = sha bytes,
                   be_revisionId = in_revisionId input, be_fileId = ei_fileId (in_identity input),
                   be_idempotencyKey = in_idempotencyKey input\<rparr>)))))))"

section \<open>Decoding\<close>

record decoded_payload =
  dp_operation :: operation
  dp_path :: jsstr
  dp_previousPath :: "jsstr option"
  dp_kind :: content_kind
  dp_content :: "jsstr option"
  dp_binaryContent :: "nat list option"

datatype decode_error =
    NotUtf8Json | NotAnObject | UnsupportedSchemaVersion | UnknownOperation
  | PathNotString | PathNotCanonical | PathReservedOrInvalid
  | BinaryTombstone | BinaryContentNotString | BinaryContentNotBase64
  | TombstoneWithContent | ContentNotString | DecodeFailed codec_error

fun decode_operation :: "json option \<Rightarrow> operation option" where
  "decode_operation (Some (JStr s)) =
     (if s = js ''delete'' then Some Delete else content_operation (Some (JStr s)))"
| "decode_operation _ = None"

definition assertCanonicalPath ::
    "(jsstr \<Rightarrow> jsstr) \<Rightarrow> (jsstr \<Rightarrow> jsstr) \<Rightarrow> json option \<Rightarrow> decode_error + jsstr" where
  "assertCanonicalPath nfc lower j =
     (case j of
        Some (JStr value) \<Rightarrow>
          (case canonicalizeVaultPath nfc lower value of
             Inl _ \<Rightarrow> Inl PathReservedOrInvalid
           | Inr q \<Rightarrow> if q \<noteq> value then Inl PathNotCanonical else Inr value)
      | _ \<Rightarrow> Inl PathNotString)"

definition decodeBase64 :: "jsstr \<Rightarrow> decode_error + nat list" where
  "decodeBase64 base64 =
     (if \<not> isCanonicalBase64 base64 then Inl BinaryContentNotBase64 else lift_error DecodeFailed (base64ToBytes base64))"

definition decode_members ::
    "(jsstr \<Rightarrow> jsstr) \<Rightarrow> (jsstr \<Rightarrow> jsstr) \<Rightarrow> (jsstr \<rightharpoonup> json) \<Rightarrow> decode_error + decoded_payload" where
  "decode_members nfc lower m =
     (if m (js ''schemaVersion'') \<noteq> Some (JInt 1) then Inl UnsupportedSchemaVersion
      else
        (case decode_operation (m (js ''operation'')) of
           None \<Rightarrow> Inl UnknownOperation
         | Some op \<Rightarrow>
             bind_result (assertCanonicalPath nfc lower (m (js ''path''))) (\<lambda>path.
             bind_result
               (case m (js ''previousPath'') of
                  None \<Rightarrow> Inr None
                | Some JNull \<Rightarrow> Inr None
                | Some v \<Rightarrow> bind_result (assertCanonicalPath nfc lower (Some v)) (\<lambda>p. Inr (Some p))) (\<lambda>previousPath.
             if m (js ''kind'') = Some (JStr (js ''binary''))
             then (if op = Delete then Inl BinaryTombstone
                   else (case m (js ''contentBase64'') of
                           Some (JStr b) \<Rightarrow> bind_result (decodeBase64 b) (\<lambda>bytes.
                             Inr \<lparr>dp_operation = op, dp_path = path, dp_previousPath = previousPath, dp_kind = Binary,
                                  dp_content = None, dp_binaryContent = Some bytes\<rparr>)
                         | _ \<Rightarrow> Inl BinaryContentNotString))
             else bind_result
                    (if op = Delete
                     then (if m (js ''content'') \<noteq> Some JNull \<and> m (js ''content'') \<noteq> None then Inl TombstoneWithContent
                           else Inr None)
                     else (case m (js ''content'') of Some (JStr s) \<Rightarrow> Inr (Some s) | _ \<Rightarrow> Inl ContentNotString)) (\<lambda>content.
                    Inr \<lparr>dp_operation = op, dp_path = path, dp_previousPath = previousPath, dp_kind = Markdown,
                         dp_content = content, dp_binaryContent = None\<rparr>)))))"

text \<open>The argument is text or bytes.\<close>

definition decodeRevisionPayload ::
    "(jsstr \<Rightarrow> jsstr) \<Rightarrow> (jsstr \<Rightarrow> jsstr) \<Rightarrow> jsstr + nat list \<Rightarrow> decode_error + decoded_payload" where
  "decodeRevisionPayload nfc lower input =
     (case Option.bind (case input of Inl text \<Rightarrow> Some text | Inr bytes \<Rightarrow> utf8_decode bytes) json_parse of
        None \<Rightarrow> Inl NotUtf8Json
      | Some (JObj kvs) \<Rightarrow> decode_members nfc lower (map_of kvs)
      | Some _ \<Rightarrow> Inl NotAnObject)"

section \<open>What a payload is meant to say\<close>

fun as_operation :: "envelope_operation \<Rightarrow> operation" where
  "as_operation OpInitialImport = InitialImport"
| "as_operation OpCreate = Create"
| "as_operation OpUpdate = Update"
| "as_operation OpRename = Rename"
| "as_operation OpDelete = Delete"

definition meant_previous :: "(jsstr \<Rightarrow> jsstr) \<Rightarrow> (jsstr \<Rightarrow> jsstr) \<Rightarrow> envelope_input \<Rightarrow> jsstr option" where
  "meant_previous nfc lower input =
     (if in_operation input = OpRename
      then Option.bind (in_previousPath input) (\<lambda>p.
             case canonicalizeVaultPath nfc lower p of Inl _ \<Rightarrow> None | Inr q \<Rightarrow> Some q) else None)"

definition meant_payload :: "(jsstr \<Rightarrow> jsstr) \<Rightarrow> (jsstr \<Rightarrow> jsstr) \<Rightarrow> envelope_input \<Rightarrow> jsstr \<Rightarrow> decoded_payload" where
  "meant_payload nfc lower input path =
     (if in_operation input = OpDelete
      then \<lparr>dp_operation = Delete, dp_path = path, dp_previousPath = None, dp_kind = Markdown,
            dp_content = None, dp_binaryContent = None\<rparr>
      else if in_kind input = Some Binary
      then \<lparr>dp_operation = as_operation (in_operation input), dp_path = path,
            dp_previousPath = meant_previous nfc lower input, dp_kind = Binary, dp_content = None,
            dp_binaryContent = (case base64ToBytes (case in_binaryContentBase64 input of None \<Rightarrow> [] | Some b \<Rightarrow> b) of
              Inl _ \<Rightarrow> None | Inr bytes \<Rightarrow> Some bytes)\<rparr>
      else \<lparr>dp_operation = as_operation (in_operation input), dp_path = path,
            dp_previousPath = meant_previous nfc lower input, dp_kind = Markdown,
            dp_content = Some (canonicalizeMarkdown (case in_content input of None \<Rightarrow> [] | Some c \<Rightarrow> c)),
            dp_binaryContent = None\<rparr>)"

text \<open>Strings of the platform have 16-bit units.\<close>

definition input_units :: "envelope_input \<Rightarrow> bool" where
  "input_units input \<longleftrightarrow> units_ok (in_path input) \<and> (\<forall>p. in_previousPath input = Some p \<longrightarrow> units_ok p) \<and>
     (\<forall>c. in_content input = Some c \<longrightarrow> units_ok c)"

section \<open>Lemmas\<close>

lemma lift_error_Inr [simp]: "lift_error f r = Inr x \<longleftrightarrow> r = Inr x"
  by (cases r) auto

lemma canonicalizeVaultPath_nfc: "canonicalizeVaultPath nfc lower p = Inr q \<Longrightarrow> q = nfc p"
  by (auto simp: canonicalizeVaultPath_def normalizedVaultPath_def bind_result_eq_Inr Let_def split: if_split_asm)

lemma units_ok_subset: "units_ok s \<Longrightarrow> set t \<subseteq> set s \<Longrightarrow> units_ok t"
  by (auto simp: units_ok_def list_all_iff)

lemma set_lf_line_endings: "set (lf_line_endings s) \<subseteq> insert 10 (set s)"
proof (induction s rule: lf_line_endings.induct)
  case (2 c cs)
  then show ?case by (cases cs) (force split: if_splits)+
qed simp

lemma lf_line_endings_units: "units_ok s \<Longrightarrow> units_ok (lf_line_endings s)"
  using set_lf_line_endings [of s] by (fastforce simp: units_ok_def list_all_iff)

lemma canonicalizeMarkdown_units:
  assumes "units_ok s"
  shows "units_ok (canonicalizeMarkdown s)"
proof -
  have "units_ok (strip_bom s)" using assms by (auto simp: strip_bom_def units_ok_def split: list.splits)
  then have "units_ok (strip_trailing_newlines (lf_line_endings (strip_bom s)))"
    using units_ok_subset [OF lf_line_endings_units set_strip_trailing] by blast
  then show ?thesis by (simp add: canonicalizeMarkdown_def Let_def units_ok_def)
qed

lemma sha256_hex_units: "sha256_hex s \<Longrightarrow> units_ok s"
  by (auto simp: sha256_hex_def units_ok_def list_all_iff)

lemma base64_char_less: "base64_char c \<Longrightarrow> c < 65536"
  by (auto simp: base64_char_def)

lemma canonical_base64_units: "isCanonicalBase64 s \<Longrightarrow> units_ok s"
  by (auto simp: isCanonicalBase64_body units_ok_def list_all_iff base64_char_less)

lemma js_units: "units_ok (js s)"
proof -
  have "(of_char c :: nat) < 65536" for c using nat_of_char_less_256 [of c] by linarith
  then show ?thesis by (simp add: units_ok_def js_def list_all_iff)
qed

text \<open>What an accepted payload says of the members it was built from.\<close>

lemma strict_object_members:
  "strict_object keys (JObj kvs) = Some m \<Longrightarrow> m = map_of kvs \<and> (\<forall>k. k \<notin> set keys \<longrightarrow> map_of kvs k = None)"
  by (auto simp: strict_object_def list_all_iff map_of_eq_None_iff split: if_split_asm)

lemma content_members:
  assumes "parse_content_payload nfc lower (JObj kvs) = Some p"
  shows "\<exists>q. map_of kvs (js ''path'') = Some (JStr q) \<and> canonical_path nfc lower q"
    "map_of kvs (js ''previousPath'') = Some (JStr r) \<Longrightarrow> canonical_path nfc lower r"
    "map_of kvs (js ''plaintextHash'') = Some (JStr h) \<Longrightarrow> sha256_hex h"
    "map_of kvs (js ''contentBase64'') = None" "map_of kvs (js ''blobByteHash'') = None"
  using assms
  by (auto simp: parse_content_payload_def bind_eq_Some_conv parse_path_Some parse_optional_path_def js_def
      dest!: strict_object_members split: if_split_asm)

lemma binary_members:
  assumes "parse_binary_payload nfc lower (JObj kvs) = Some p"
  shows "\<exists>q. map_of kvs (js ''path'') = Some (JStr q) \<and> canonical_path nfc lower q"
    "map_of kvs (js ''previousPath'') = Some (JStr r) \<Longrightarrow> canonical_path nfc lower r"
    "map_of kvs (js ''plaintextHash'') = None"
    "map_of kvs (js ''contentBase64'') = Some (JStr b) \<Longrightarrow> isCanonicalBase64 b"
    "map_of kvs (js ''blobByteHash'') = Some (JStr h) \<Longrightarrow> sha256_hex h"
  using assms
  by (auto simp: parse_binary_payload_def bind_eq_Some_conv parse_path_Some parse_optional_path_def js_def
      dest!: strict_object_members split: if_split_asm)

lemma tombstone_members:
  assumes "parse_tombstone_payload nfc lower (JObj kvs) = Some p"
  shows "\<exists>q. map_of kvs (js ''path'') = Some (JStr q) \<and> canonical_path nfc lower q"
    "map_of kvs (js ''previousPath'') = None" "map_of kvs (js ''plaintextHash'') = Some JNull"
    "map_of kvs (js ''contentBase64'') = None" "map_of kvs (js ''blobByteHash'') = None"
  using assms
  by (auto simp: parse_tombstone_payload_def bind_eq_Some_conv parse_path_Some js_def
      dest!: strict_object_members split: if_split_asm)

lemma payload_members:
  assumes "parse_payload nfc lower (JObj kvs) = Some p"
  shows "map_of kvs (js ''path'') = Some (JStr q) \<Longrightarrow> canonical_path nfc lower q"
    "map_of kvs (js ''previousPath'') = Some (JStr r) \<Longrightarrow> canonical_path nfc lower r"
    "map_of kvs (js ''contentBase64'') = Some (JStr b) \<Longrightarrow> isCanonicalBase64 b"
    "map_of kvs (js ''plaintextHash'') = Some (JStr h) \<Longrightarrow> sha256_hex h"
    "map_of kvs (js ''blobByteHash'') = Some (JStr h) \<Longrightarrow> sha256_hex h"
proof -
  consider (content) "parse_content_payload nfc lower (JObj kvs) = Some p"
    | (binary) "parse_binary_payload nfc lower (JObj kvs) = Some p"
    | (tombstone) "parse_tombstone_payload nfc lower (JObj kvs) = Some p"
    using assms by (auto simp: parse_payload_def split: option.splits)
  note c = this
  show "map_of kvs (js ''path'') = Some (JStr q) \<Longrightarrow> canonical_path nfc lower q"
    using c content_members(1) binary_members(1) tombstone_members(1) by cases fastforce+
  show "map_of kvs (js ''previousPath'') = Some (JStr r) \<Longrightarrow> canonical_path nfc lower r"
    using c content_members(2) binary_members(2) tombstone_members(2) by cases fastforce+
  show "map_of kvs (js ''contentBase64'') = Some (JStr b) \<Longrightarrow> isCanonicalBase64 b"
    using c content_members(4) binary_members(4) tombstone_members(4) by cases fastforce+
  show "map_of kvs (js ''plaintextHash'') = Some (JStr h) \<Longrightarrow> sha256_hex h"
    using c content_members(3) binary_members(3) tombstone_members(3) by cases fastforce+
  show "map_of kvs (js ''blobByteHash'') = Some (JStr h) \<Longrightarrow> sha256_hex h"
    using c content_members(5) binary_members(5) tombstone_members(5) by cases fastforce+
qed

text \<open>The members of a built payload, and what the decoder makes of them.\<close>

lemma decode_operation_text: "decode_operation (Some (JStr (operation_text op))) = Some (as_operation op)"
  by (cases op) (simp_all add: js_def)

lemma assertCanonicalPath_canonical: "canonical_path nfc lower q \<Longrightarrow> assertCanonicalPath nfc lower (Some (JStr q)) = Inr q"
  by (simp add: assertCanonicalPath_def canonical_path_def)

lemma previous_member_cases:
  assumes "previous_member nfc lower input = Inr prev"
  obtains "prev = []" "meant_previous nfc lower input = None"
  | p q where "in_previousPath input = Some p" "canonicalizeVaultPath nfc lower p = Inr q"
      "prev = [(js ''previousPath'', JStr q)]" "meant_previous nfc lower input = Some q"
  using assms by (auto simp: previous_member_def meant_previous_def bind_result_eq_Inr split: if_split_asm option.splits)

lemma inner_cases [consumes 1, case_names tombstone binary markdown]:
  assumes "buildInnerPayload sha nfc lower input path = Inr inner"
  obtains "in_operation input = OpDelete"
      "inner = [(js ''schemaVersion'', JInt 1), (js ''operation'', JStr (js ''delete'')), (js ''path'', JStr path),
        (js ''content'', JNull), (js ''plaintextHash'', JNull)]"
  | prev b bytes where "in_operation input \<noteq> OpDelete" "in_kind input = Some Binary"
      "previous_member nfc lower input = Inr prev"
      "b = (case in_binaryContentBase64 input of None \<Rightarrow> [] | Some b \<Rightarrow> b)" "base64ToBytes b = Inr bytes"
      "inner = [(js ''schemaVersion'', JInt 1), (js ''operation'', JStr (operation_text (in_operation input))),
         (js ''kind'', JStr (js ''binary'')), (js ''path'', JStr path)] @ prev @
         [(js ''contentBase64'', JStr b), (js ''blobByteHash'', JStr (sha bytes))]"
  | prev c where "in_operation input \<noteq> OpDelete" "in_kind input \<noteq> Some Binary"
      "previous_member nfc lower input = Inr prev"
      "c = canonicalizeMarkdown (case in_content input of None \<Rightarrow> [] | Some c \<Rightarrow> c)"
      "inner = [(js ''schemaVersion'', JInt 1), (js ''operation'', JStr (operation_text (in_operation input))),
         (js ''path'', JStr path)] @ prev @ [(js ''content'', JStr c), (js ''plaintextHash'', JStr (hashPlaintext sha c))]"
  using assms by (auto simp: buildInnerPayload_def Let_def bind_result_eq_Inr split: if_split_asm)

lemma as_operation_Delete: "as_operation op = Delete \<longleftrightarrow> op = OpDelete"
  by (cases op) auto

lemma decode_inner:
  assumes inner: "buildInnerPayload sha nfc lower input path = Inr inner"
    and payload: "parse_payload nfc lower (JObj (inner @ extra)) = Some p"
    and extra: "fst ` set extra \<subseteq> {js ''recipe''}"
  shows "decode_members nfc lower (map_of (inner @ extra)) = Inr (meant_payload nfc lower input path)"
proof -
  have none: "map_of extra k = None" if "k \<noteq> js ''recipe''" for k
    using extra that by (auto simp: map_of_eq_None_iff)
  note m = payload_members [OF payload]
  note simps = decode_members_def meant_payload_def assertCanonicalPath_canonical decode_operation_text
    as_operation_Delete decodeBase64_def none
  from inner show ?thesis
  proof (cases rule: inner_cases)
    case tombstone
    then show ?thesis using m(1) by (auto simp: simps js_def)
  next
    case (binary prev b bytes)
    then show ?thesis using m
      by (cases rule: previous_member_cases [OF binary(3)]) (auto simp: simps js_def simp del: decode_operation.simps)
  next
    case (markdown prev c)
    then show ?thesis using m
      by (cases rule: previous_member_cases [OF markdown(3)]) (auto simp: simps js_def simp del: decode_operation.simps)
  qed
qed

definition recipe_member :: "envelope_input \<Rightarrow> (jsstr \<times> json) list \<Rightarrow> (jsstr \<times> json) list" where
  "recipe_member input inner =
     (if length (sort (remdups (in_parents input))) \<ge> 2
      then [(js ''recipe'', legacyRecipe (map_of inner (js ''content'')))] else [])"

lemma recipe_member_key: "fst ` set (recipe_member input inner) \<subseteq> {js ''recipe''}"
  by (auto simp: recipe_member_def)

lemma legacyRecipe_plain:
  "json_plain (legacyRecipe c)" "(\<And>s. c = Some (JStr s) \<Longrightarrow> units_ok s) \<Longrightarrow> json_units (legacyRecipe c)"
  by (auto simp: legacyRecipe_def js_units js_def split: option.split json.split) (auto simp: units_ok_def)

lemma recipe_member_plain:
  assumes "\<And>s. map_of inner (js ''content'') = Some (JStr s) \<Longrightarrow> units_ok s"
  shows "list_all (\<lambda>(k, v). json_plain v) (recipe_member input inner)"
    "list_all (\<lambda>(k, v). units_ok k \<and> json_units v) (recipe_member input inner)"
  using assms by (auto simp: recipe_member_def legacyRecipe_plain js_units)

lemma inner_shape:
  assumes inner: "buildInnerPayload sha nfc lower input path = Inr inner"
    and payload: "parse_payload nfc lower (JObj (inner @ extra)) = Some p"
    and input: "input_units input" and nfc: "\<And>s. units_ok s \<Longrightarrow> units_ok (nfc s)" and path: "units_ok path"
  shows "distinct (map fst inner)" "js ''recipe'' \<notin> fst ` set inner"
    "list_all (\<lambda>(k, v). json_plain v \<and> units_ok k \<and> json_units v) inner"
proof -
  note m = payload_members [OF payload]
  have op: "units_ok (operation_text op)" for op by (cases op) (simp_all add: js_units)
  have prev: "units_ok q" if "in_previousPath input = Some p" "canonicalizeVaultPath nfc lower p = Inr q" for p q
    using input nfc canonicalizeVaultPath_nfc [OF that(2)] that(1) by (simp add: input_units_def)
  have content: "units_ok (canonicalizeMarkdown (case in_content input of None \<Rightarrow> [] | Some c \<Rightarrow> c))"
    using input by (intro canonicalizeMarkdown_units) (auto simp: input_units_def units_ok_def split: option.split)
  note hash = sha256_hex_units [OF m(4)] sha256_hex_units [OF m(5)] canonical_base64_units [OF m(3)]
  from inner have "distinct (map fst inner) \<and> js ''recipe'' \<notin> fst ` set inner \<and>
    list_all (\<lambda>(k, v). json_plain v \<and> units_ok k \<and> json_units v) inner"
  proof (cases rule: inner_cases)
    case tombstone
    have "distinct (map fst inner) \<and> js ''recipe'' \<notin> fst ` set inner" by (simp add: tombstone(2) js_def)
    then show ?thesis using path by (simp add: tombstone(2) js_units)
  next
    case (binary prev b bytes)
    have keys: "distinct (map fst inner) \<and> js ''recipe'' \<notin> fst ` set inner"
      by (cases rule: previous_member_cases [OF binary(3)]) (simp_all add: binary(6) js_def)
    have "map_of prev (js ''contentBase64'') = None" "map_of prev (js ''blobByteHash'') = None"
      by (cases rule: previous_member_cases [OF binary(3)], simp_all add: js_def)+
    then have "units_ok b" "units_ok (sha bytes)"
      using hash(2,3) by (simp_all add: binary(6) js_def map_add_def)
    with keys show ?thesis
      by (cases rule: previous_member_cases [OF binary(3)]) (simp_all add: binary(6) js_units path op prev)
  next
    case (markdown prev c)
    have keys: "distinct (map fst inner) \<and> js ''recipe'' \<notin> fst ` set inner"
      by (cases rule: previous_member_cases [OF markdown(3)]) (simp_all add: markdown(5) js_def)
    have "units_ok (hashPlaintext sha c)"
      using hash(1) by (cases rule: previous_member_cases [OF markdown(3)]) (simp_all add: markdown(5) js_def)
    with keys content show ?thesis
      by (cases rule: previous_member_cases [OF markdown(3)]) (simp_all add: markdown(4,5) js_units path op prev)
  qed
  then show "distinct (map fst inner)" "js ''recipe'' \<notin> fst ` set inner"
    "list_all (\<lambda>(k, v). json_plain v \<and> units_ok k \<and> json_units v) inner" by blast+
qed

lemma built_Inr:
  assumes "buildRevisionEnvelope sha uuid nfc lower ftext input = Inr env"
  obtains path inner h p bytes where
    "canonicalizeVaultPath nfc lower (in_path input) = Inr path"
    "buildInnerPayload sha nfc lower input path = Inr inner"
    "validateRevisionPayloadAgainstHeader uuid nfc lower (header_json (be_header env))
       (JObj (inner @ recipe_member input inner)) = Inr (h, p)"
    "bytes = utf8_encode (json_text ftext (JObj (inner @ recipe_member input inner)))"
    "length bytes \<le> (case in_maxPayloadBytes input of None \<Rightarrow> DEFAULT_MAX_REVISION_PAYLOAD_BYTES | Some m \<Rightarrow> m)"
    "bytesToBase64 bytes = Inr (be_payloadBase64 env)" "be_contentHash env = sha bytes"
    "be_header env = build_header input (sort (remdups (in_parents input)))"
proof -
  let ?extra = "recipe_member input"
  have payload: "(if length (sort (remdups (in_parents input))) \<ge> 2
      then inner @ [(js ''recipe'', legacyRecipe (map_of inner (js ''content'')))] else inner) = inner @ ?extra inner" for inner
    by (simp add: recipe_member_def)
  obtain path where path: "canonicalizeVaultPath nfc lower (in_path input) = Inr path"
    using assms by (auto simp: buildRevisionEnvelope_def bind_result_eq_Inr)
  obtain inner where inner: "buildInnerPayload sha nfc lower input path = Inr inner"
    using assms by (auto simp: buildRevisionEnvelope_def path Let_def bind_result_eq_Inr)
  note built = assms [unfolded buildRevisionEnvelope_def path inner Let_def lift_error.simps bind_result.simps payload]
  obtain hp where valid: "validateRevisionPayloadAgainstHeader uuid nfc lower
      (header_json (build_header input (sort (remdups (in_parents input))))) (JObj (inner @ ?extra inner)) = Inr hp"
    using built by (auto simp only: bind_result_eq_Inr lift_error_Inr)
  from built show thesis
    unfolding valid lift_error.simps bind_result.simps using that [of path inner "fst hp" "snd hp"] path inner valid
    by (auto simp: bind_result_eq_Inr split: if_split_asm)
qed

lemma validated_parts:
  "validateRevisionPayloadAgainstHeader uuid nfc lower hj pj = Inr (h, p) \<Longrightarrow>
   parse_header uuid hj = Some h \<and> parse_payload nfc lower pj = Some p"
  by (auto simp: validateRevisionPayloadAgainstHeader_def Let_def split: option.splits if_splits)

text \<open>What a change has to satisfy to be sent; everything else is refused.\<close>

definition change_ok :: "(jsstr \<Rightarrow> jsstr) \<Rightarrow> (jsstr \<Rightarrow> jsstr) \<Rightarrow> envelope_input \<Rightarrow> jsstr \<Rightarrow> bool" where
  "change_ok nfc lower input path \<longleftrightarrow>
     canonicalizeVaultPath nfc lower (in_path input) = Inr path \<and> canonical_path nfc lower path \<and>
     (in_operation input = OpRename \<longrightarrow> (\<exists>p q. in_previousPath input = Some p \<and>
        canonicalizeVaultPath nfc lower p = Inr q \<and> canonical_path nfc lower q \<and> q \<noteq> path)) \<and>
     (in_kind input = Some Binary \<longrightarrow>
        isCanonicalBase64 (case in_binaryContentBase64 input of None \<Rightarrow> [] | Some b \<Rightarrow> b)) \<and>
     (in_operation input \<in> {OpCreate, OpInitialImport} \<longleftrightarrow> in_parents input = [])"

lemma content_operation_text: "op \<noteq> OpDelete \<Longrightarrow> content_operation (Some (JStr (operation_text op))) = Some (as_operation op)"
  by (cases op) (simp_all add: js_def)

lemma meant_rename: "change_ok nfc lower input path \<Longrightarrow> in_operation input \<noteq> OpDelete \<Longrightarrow>
    rename_ok (as_operation (in_operation input)) path (meant_previous nfc lower input) \<and>
    (\<forall>q. meant_previous nfc lower input = Some q \<longrightarrow> canonical_path nfc lower q)"
  by (cases "in_operation input") (auto simp: change_ok_def meant_previous_def rename_ok_def)

lemma canonical_base64_decodes: "isCanonicalBase64 s \<Longrightarrow> \<exists>bytes. base64ToBytes s = Inr bytes"
  by (auto simp: isCanonicalBase64_body base64ToBytes_body)

lemma usesLf_canonical: "usesLfLineEndings (canonicalizeMarkdown c)"
  using set_strip_trailing [of "lf_line_endings (strip_bom c)"] lf_line_endings_no_cr [of "strip_bom c"]
  by (auto simp: usesLfLineEndings_def canonicalizeMarkdown_def Let_def)

lemma change_previous:
  assumes "change_ok nfc lower input path"
  shows "previous_member nfc lower input =
    Inr (case meant_previous nfc lower input of None \<Rightarrow> [] | Some q \<Rightarrow> [(js ''previousPath'', JStr q)])"
  using assms by (auto simp: change_ok_def previous_member_def meant_previous_def)

lemma change_builds:
  assumes ok: "change_ok nfc lower input path"
  shows "\<exists>inner. buildInnerPayload sha nfc lower input path = Inr inner"
proof -
  have "in_kind input = Some Binary \<Longrightarrow>
      \<exists>bytes. base64ToBytes (case in_binaryContentBase64 input of None \<Rightarrow> [] | Some b \<Rightarrow> b) = Inr bytes"
    using ok canonical_base64_decodes by (simp add: change_ok_def)
  then show ?thesis by (auto simp: buildInnerPayload_def Let_def change_previous [OF ok])
qed

lemma change_payload:
  assumes ok: "change_ok nfc lower input path" and sha: "\<And>bytes. sha256_hex (sha bytes)"
    and inner: "buildInnerPayload sha nfc lower input path = Inr inner"
  shows "\<exists>p. parse_payload nfc lower (JObj (inner @ recipe_member input inner)) = Some p \<and>
    payload_operation p = as_operation (in_operation input)"
proof -
  have path: "canonical_path nfc lower path" using ok by (simp add: change_ok_def)
  have recipe: "recipe_member input inner = [] \<or> (\<exists>r. recipe_member input inner = [(js ''recipe'', r)])"
    by (simp add: recipe_member_def)
  note parsers = parse_content_payload_def parse_binary_payload_def parse_tombstone_payload_def parse_payload_def
    strict_object_def parse_optional_path_def parse_path_def
  from inner show ?thesis
  proof (cases rule: inner_cases)
    case tombstone
    have "parse_payload nfc lower (JObj (inner @ recipe_member input inner)) = Some (Tombstone path)"
      using recipe path by (auto simp: tombstone(2) parsers js_def)
    then show ?thesis using tombstone(1) by simp
  next
    case (binary prev b bytes)
    have "isCanonicalBase64 b" using ok binary(2,4) by (simp add: change_ok_def)
    then have "parse_payload nfc lower (JObj (inner @ recipe_member input inner)) =
        Some (BinaryPayload (as_operation (in_operation input)) path (meant_previous nfc lower input) b (sha bytes))"
      using recipe path meant_rename [OF ok binary(1)] sha content_operation_text [OF binary(1)]
        binary(3) [unfolded change_previous [OF ok]]
      by (cases "meant_previous nfc lower input") (auto simp: binary(6) parsers js_def simp del: content_operation.simps)
    then show ?thesis by simp
  next
    case (markdown prev c)
    have "parse_content_payload nfc lower (JObj (inner @ recipe_member input inner)) =
        Some (ContentPayload (as_operation (in_operation input)) path (meant_previous nfc lower input) c (hashPlaintext sha c))"
      using recipe path meant_rename [OF ok markdown(1)] sha content_operation_text [OF markdown(1)] usesLf_canonical
        markdown(3) [unfolded change_previous [OF ok]]
      by (cases "meant_previous nfc lower input")
        (auto simp: markdown(4,5) parse_content_payload_def strict_object_def parse_optional_path_def parse_path_def js_def
          hashPlaintext_def simp del: content_operation.simps)
    then have "parse_payload nfc lower (JObj (inner @ recipe_member input inner)) =
        Some (ContentPayload (as_operation (in_operation input)) path (meant_previous nfc lower input) c (hashPlaintext sha c))"
      by (simp add: parse_payload_def)
    then show ?thesis by simp
  qed
qed

lemma payload_json:
  assumes inner: "buildInnerPayload sha nfc lower input path = Inr inner"
    and payload: "parse_payload nfc lower (JObj (inner @ recipe_member input inner)) = Some p"
    and path: "canonicalizeVaultPath nfc lower (in_path input) = Inr path"
    and units: "input_units input" "\<And>s. units_ok s \<Longrightarrow> units_ok (nfc s)"
  shows "json_plain (JObj (inner @ recipe_member input inner))" "json_units (JObj (inner @ recipe_member input inner))"
proof -
  have "units_ok path" using units path canonicalizeVaultPath_nfc by (fastforce simp: input_units_def)
  note shape = inner_shape [OF inner payload units this]
  have content: "units_ok s" if "map_of inner (js ''content'') = Some (JStr s)" for s
    using shape(3) map_of_SomeD [OF that] by (auto simp: list_all_iff)
  have recipe: "list_all (\<lambda>(k, v). json_plain v) (recipe_member input inner)"
      "list_all (\<lambda>(k, v). units_ok k \<and> json_units v) (recipe_member input inner)"
    by (rule recipe_member_plain, erule content)+
  have "distinct (map fst (inner @ recipe_member input inner))" using shape(1,2) by (simp add: recipe_member_def)
  then show "json_plain (JObj (inner @ recipe_member input inner))" "json_units (JObj (inner @ recipe_member input inner))"
    using shape(3) recipe by (auto simp: list_all_iff)
qed

text \<open>A change that is fit to be sent is built, or too large.\<close>

lemma change_built:
  fixes limit input
  defines "limit \<equiv> (case in_maxPayloadBytes input of None \<Rightarrow> DEFAULT_MAX_REVISION_PAYLOAD_BYTES | Some m \<Rightarrow> m)"
  assumes ok: "change_ok nfc lower input path"
    and header: "header_ok uuid (build_header input (sort (remdups (in_parents input))))"
    and units: "input_units input" "\<And>s. units_ok s \<Longrightarrow> units_ok (nfc s)" and sha: "\<And>bytes. sha256_hex (sha bytes)"
    and inner: "buildInnerPayload sha nfc lower input path = Inr inner"
    and n: "n = length (utf8_encode (json_text ftext (JObj (inner @ recipe_member input inner))))"
  shows "n \<le> limit \<Longrightarrow> \<exists>env. buildRevisionEnvelope sha uuid nfc lower ftext input = Inr env"
    "limit < n \<Longrightarrow> buildRevisionEnvelope sha uuid nfc lower ftext input = Inl (RevisionPayloadTooLarge path n limit)"
proof -
  have path: "canonicalizeVaultPath nfc lower (in_path input) = Inr path" using ok by (simp add: change_ok_def)
  obtain p where p: "parse_payload nfc lower (JObj (inner @ recipe_member input inner)) = Some p"
      "payload_operation p = as_operation (in_operation input)"
    using change_payload [OF ok sha inner] by blast
  have roots: "payload_operation p \<in> {Create, InitialImport} \<longleftrightarrow> in_parents input = []" "payload_operation p \<noteq> Reconcile"
    using ok p(2) by (cases "in_operation input"; simp add: change_ok_def)+
  have valid: "validateRevisionPayloadAgainstHeader uuid nfc lower
      (header_json (build_header input (sort (remdups (in_parents input))))) (JObj (inner @ recipe_member input inner)) =
      Inr (build_header input (sort (remdups (in_parents input))), p)"
    using header roots p(1)
    by (auto simp: validateRevisionPayloadAgainstHeader_def parse_header_json build_header_def Let_def)
  let ?bytes = "utf8_encode (json_text ftext (JObj (inner @ recipe_member input inner)))"
  have "\<forall>x \<in> set ?bytes. x < 256"
    using utf8_encode_bytes [OF well_formed_text [OF payload_json(2) [OF inner p(1) path units]]] by simp
  from base64_roundtrip [OF this] obtain b64 where b64: "bytesToBase64 ?bytes = Inr b64" by blast
  have recipe: "(if length (sort (remdups (in_parents input))) \<ge> 2
      then inner @ [(js ''recipe'', legacyRecipe (map_of inner (js ''content'')))] else inner) = inner @ recipe_member input inner"
    by (simp add: recipe_member_def)
  note built = buildRevisionEnvelope_def path inner Let_def lift_error.simps bind_result.simps recipe valid b64
    limit_def [symmetric] n [symmetric]
  show "n \<le> limit \<Longrightarrow> \<exists>env. buildRevisionEnvelope sha uuid nfc lower ftext input = Inr env"
    unfolding built by simp
  show "limit < n \<Longrightarrow> buildRevisionEnvelope sha uuid nfc lower ftext input = Inl (RevisionPayloadTooLarge path n limit)"
    unfolding built by simp
qed

text \<open>How large a payload can get.\<close>

lemma utf8_encode_nonempty: "utf8_encode (c # s) \<noteq> []"
proof -
  have "scalar_values (c # s) \<noteq> []" by (cases s) simp_all
  then obtain v vs where "scalar_values (c # s) = v # vs" by (cases "scalar_values (c # s)") auto
  then have "utf8_encode (c # s) = utf8 v @ concat (map utf8 vs)" by (simp add: utf8_encode_def)
  moreover have "utf8 v \<noteq> []" by (simp add: utf8_def)
  ultimately show ?thesis by simp
qed

lemma length_utf8_encode: "length (utf8_encode s) \<le> 4 * length s"
proof -
  have "length (concat (map utf8 ps)) \<le> 4 * length ps" for ps
    by (induction ps) (auto simp: utf8_def)
  moreover have "length (scalar_values s) \<le> length s" by (induction s rule: scalar_values.induct) auto
  ultimately show ?thesis unfolding utf8_encode_def by (meson le_trans mult_le_mono2)
qed

lemma length_quote: "length (quote s) \<le> 6 * length s + 2"
proof -
  have u: "length (quote_unit c) \<le> 6" for c by (simp add: quote_unit_def unicode_escape_def)
  have "length (quote_body s) \<le> 6 * length s"
  proof (induction s rule: quote_body.induct)
    case (3 c d cs)
    then show ?case using u [of c] by (cases "high_surrogate c \<and> low_surrogate d") auto
  qed (simp_all add: u)
  then show ?thesis by (simp add: quote_def)
qed

text \<open>A note with Windows line ends and a character outside the basic plane, and an attachment.\<close>

definition sample_input :: envelope_input where
  "sample_input =
     \<lparr>in_identity = \<lparr>ei_vaultId = [1], ei_fileId = [2], ei_memberId = [5], ei_deviceId = [6]\<rparr>, in_revisionId = [3],
      in_parents = [], in_operation = OpCreate, in_path = js ''a.md'', in_previousPath = None, in_kind = None,
      in_content = Some [0x17C, 13, 10, 0xD83D, 0xDE00], in_binaryContentBase64 = None, in_idempotencyKey = [3],
      in_maxPayloadBytes = None\<rparr>"

lemma sample_ok:
  "change_ok (\<lambda>s. s) ascii_lower sample_input (js ''a.md'')" "input_units sample_input"
  "header_ok (\<lambda>_. True) (build_header sample_input (sort (remdups (in_parents sample_input))))"
  "sha256_hex (replicate 64 48)"
proof -
  have "canonicalizeVaultPath (\<lambda>s. s) ascii_lower (js ''a.md'') = Inr (js ''a.md'')" by code_simp
  then show "change_ok (\<lambda>s. s) ascii_lower sample_input (js ''a.md'')"
    by (simp add: change_ok_def sample_input_def canonical_path_def)
  show "input_units sample_input" by (simp add: input_units_def units_ok_def sample_input_def js_def)
  show "header_ok (\<lambda>_. True) (build_header sample_input (sort (remdups (in_parents sample_input))))"
    by (simp add: header_ok_def build_header_def sample_input_def PROTOCOL_VERSION_def parents_ok_def MAX_SAFE_INTEGER_def)
  show "sha256_hex (replicate 64 48)" by (simp add: sha256_hex_def list_all_iff)
qed

definition sample_inner :: "(jsstr \<times> json) list" where
  "sample_inner = [(js ''schemaVersion'', JInt 1), (js ''operation'', JStr (js ''create'')), (js ''path'', JStr (js ''a.md'')),
    (js ''content'', JStr [0x17C, 10, 0xD83D, 0xDE00, 10]), (js ''plaintextHash'', JStr (replicate 64 48))]"

lemma sample_inner_built:
  "buildInnerPayload (\<lambda>_. replicate 64 48) (\<lambda>s. s) ascii_lower sample_input (js ''a.md'') = Inr sample_inner"
proof -
  have "canonicalizeMarkdown [0x17C, 13, 10, 0xD83D, 0xDE00] = [0x17C, 10, 0xD83D, 0xDE00, 10]"
    by (simp add: canonicalizeMarkdown_def strip_bom_def strip_trailing_newlines_def)
  then show ?thesis
    by (simp add: buildInnerPayload_def sample_input_def previous_member_def hashPlaintext_def sample_inner_def)
qed

lemma sample_built:
  "\<exists>env. buildRevisionEnvelope (\<lambda>_. replicate 64 48) (\<lambda>_. True) (\<lambda>s. s) ascii_lower (\<lambda>_. []) sample_input = Inr env"
proof -
  have one: "length (int_text 1) = 1" by code_simp
  have "length (json_text (\<lambda>_. []) (JObj sample_inner)) \<le> 2000"
    using length_quote [of "js ''schemaVersion''"] length_quote [of "js ''operation''"] length_quote [of "js ''create''"]
      length_quote [of "js ''path''"] length_quote [of "js ''a.md''"] length_quote [of "js ''content''"]
      length_quote [of "[0x17C, 10, 0xD83D, 0xDE00, 10]"] length_quote [of "js ''plaintextHash''"]
      length_quote [of "replicate 64 48"]
    by (simp add: one js_def sample_inner_def)
  then have "length (utf8_encode (json_text (\<lambda>_. []) (JObj sample_inner))) \<le> DEFAULT_MAX_REVISION_PAYLOAD_BYTES"
    using length_utf8_encode [of "json_text (\<lambda>_. []) (JObj sample_inner)"] by (simp add: DEFAULT_MAX_REVISION_PAYLOAD_BYTES_def)
  then show ?thesis
    by (intro change_built(1) [OF sample_ok(1,3,2) _ sample_ok(4) sample_inner_built refl]) (simp_all add: sample_input_def recipe_member_def)
qed

text \<open>What a decoded payload satisfies.\<close>

lemma assertCanonicalPath_Inr: "assertCanonicalPath nfc lower j = Inr x \<Longrightarrow> canonical_path nfc lower x"
  by (auto simp: assertCanonicalPath_def canonical_path_def split: option.splits json.splits sum.splits if_split_asm)

lemma decode_members_Inr:
  assumes "decode_members nfc lower m = Inr d"
  shows "canonical_path nfc lower (dp_path d)" "dp_previousPath d = Some q \<Longrightarrow> canonical_path nfc lower q"
    "dp_operation d = Delete \<Longrightarrow> dp_content d = None \<and> dp_binaryContent d = None"
    "dp_operation d \<noteq> Delete \<Longrightarrow> (dp_content d = None) \<noteq> (dp_binaryContent d = None)"
proof -
  have version: "m (js ''schemaVersion'') = Some (JInt 1)"
    using assms by (simp add: decode_members_def split: if_split_asm)
  obtain op where op: "decode_operation (m (js ''operation'')) = Some op"
    using assms by (cases "decode_operation (m (js ''operation''))") (simp_all add: decode_members_def split: if_split_asm)
  obtain path prev where b: "assertCanonicalPath nfc lower (m (js ''path'')) = Inr path"
      "(case m (js ''previousPath'') of None \<Rightarrow> Inr None | Some JNull \<Rightarrow> Inr None
        | Some v \<Rightarrow> bind_result (assertCanonicalPath nfc lower (Some v)) (\<lambda>p. Inr (Some p))) = Inr prev"
      and rest: "(if m (js ''kind'') = Some (JStr (js ''binary''))
             then (if op = Delete then Inl BinaryTombstone
                   else (case m (js ''contentBase64'') of
                           Some (JStr b) \<Rightarrow> bind_result (decodeBase64 b) (\<lambda>bytes.
                             Inr \<lparr>dp_operation = op, dp_path = path, dp_previousPath = prev, dp_kind = Binary,
                                  dp_content = None, dp_binaryContent = Some bytes\<rparr>)
                         | _ \<Rightarrow> Inl BinaryContentNotString))
             else bind_result
                    (if op = Delete
                     then (if m (js ''content'') \<noteq> Some JNull \<and> m (js ''content'') \<noteq> None then Inl TombstoneWithContent
                           else Inr None)
                     else (case m (js ''content'') of Some (JStr s) \<Rightarrow> Inr (Some s) | _ \<Rightarrow> Inl ContentNotString)) (\<lambda>content.
                    Inr \<lparr>dp_operation = op, dp_path = path, dp_previousPath = prev, dp_kind = Markdown,
                         dp_content = content, dp_binaryContent = None\<rparr>)) = Inr d"
    using assms unfolding decode_members_def version op option.case simp_thms if_False bind_result_eq_Inr
    by (elim exE conjE) (rule that)
  have d: "dp_operation d = op \<and> dp_path d = path \<and> dp_previousPath d = prev \<and>
      (op = Delete \<longrightarrow> dp_content d = None \<and> dp_binaryContent d = None) \<and>
      (op \<noteq> Delete \<longrightarrow> (dp_content d = None) \<noteq> (dp_binaryContent d = None))"
    using rest by (auto simp: bind_result_eq_Inr split: if_split_asm option.split_asm json.split_asm)
  have "prev = Some q \<Longrightarrow> canonical_path nfc lower q"
    using b(2) by (auto simp: bind_result_eq_Inr assertCanonicalPath_Inr split: option.split_asm json.split_asm)
  then show "dp_previousPath d = Some q \<Longrightarrow> canonical_path nfc lower q" using d by simp
  show "canonical_path nfc lower (dp_path d)" using assertCanonicalPath_Inr [OF b(1)] d by simp
  show "dp_operation d = Delete \<Longrightarrow> dp_content d = None \<and> dp_binaryContent d = None"
    "dp_operation d \<noteq> Delete \<Longrightarrow> (dp_content d = None) \<noteq> (dp_binaryContent d = None)"
    using d by auto
qed

text \<open>The guards of \<^verbatim>\<open>normalizedVaultPath\<close> hold of a canonical path itself, not only of its source.\<close>

lemma canonical_path_guards:
  assumes "canonicalizeVaultPath nfc lower q = Inr q"
  shows "q \<noteq> []" "hd q \<noteq> 47" "92 \<notin> set q" "\<not> windows_drive_path q"
    "\<forall>c \<in> set q. \<not> (c \<le> 0x1F \<or> 0x7F \<le> c \<and> c \<le> 0x9F)"
  using assms
  by (cases q; auto simp: canonicalizeVaultPath_def normalizedVaultPath_def bind_result_eq_Inr Let_def
      starts_with_def containsControlCharacter_def list_ex_iff split: if_split_asm)+

section \<open>Properties\<close>

text \<open>
  C28. Every device reads what a device wrote: whatever change \<^verbatim>\<open>buildRevisionEnvelope\<close> accepts, the
  base64 it ships decodes on the client and on the server to the bytes whose hash it names, these are
  within the size limit, the header is accepted by the server's schema, and \<^verbatim>\<open>decodeRevisionPayload\<close>
  gives back exactly the change: the operation, the canonical path and previous path, the canonical
  text or the attachment's bytes.
\<close>

theorem envelope_read_back:
  assumes built: "buildRevisionEnvelope sha uuid nfc lower ftext input = Inr env"
    and units: "input_units input" "\<And>s. units_ok s \<Longrightarrow> units_ok (nfc s)"
  shows "\<exists>path bytes. canonicalizeVaultPath nfc lower (in_path input) = Inr path \<and>
    base64ToBytes (be_payloadBase64 env) = Inr bytes \<and> bufferFromBase64 (be_payloadBase64 env) = bytes \<and>
    be_contentHash env = sha bytes \<and>
    length bytes \<le> (case in_maxPayloadBytes input of None \<Rightarrow> DEFAULT_MAX_REVISION_PAYLOAD_BYTES | Some m \<Rightarrow> m) \<and>
    parse_header uuid (header_json (be_header env)) = Some (be_header env) \<and>
    decodeRevisionPayload nfc lower (Inr bytes) = Inr (meant_payload nfc lower input path)"
proof -
  obtain path inner h p bytes where b:
    "canonicalizeVaultPath nfc lower (in_path input) = Inr path"
    "buildInnerPayload sha nfc lower input path = Inr inner"
    "validateRevisionPayloadAgainstHeader uuid nfc lower (header_json (be_header env))
       (JObj (inner @ recipe_member input inner)) = Inr (h, p)"
    "bytes = utf8_encode (json_text ftext (JObj (inner @ recipe_member input inner)))"
    "length bytes \<le> (case in_maxPayloadBytes input of None \<Rightarrow> DEFAULT_MAX_REVISION_PAYLOAD_BYTES | Some m \<Rightarrow> m)"
    "bytesToBase64 bytes = Inr (be_payloadBase64 env)" "be_contentHash env = sha bytes"
    "be_header env = build_header input (sort (remdups (in_parents input)))"
    using built by (rule built_Inr)
  let ?kvs = "inner @ recipe_member input inner"
  have header: "parse_header uuid (header_json (be_header env)) = Some (be_header env)"
    and payload: "parse_payload nfc lower (JObj ?kvs) = Some p"
    using validated_parts [OF b(3)] by (auto simp: parse_header_json split: if_split_asm)
  note plain = payload_json [OF b(2) payload b(1) units]
  have "Option.bind (utf8_decode bytes) json_parse = Some (JObj ?kvs)"
    using json_bytes_roundtrip [OF plain] b(4) by simp
  then have "decodeRevisionPayload nfc lower (Inr bytes) = Inr (meant_payload nfc lower input path)"
    using decode_inner [OF b(2) payload recipe_member_key] by (simp add: decodeRevisionPayload_def)
  moreover have "\<forall>x \<in> set bytes. x < 256" using utf8_encode_bytes [OF well_formed_text [OF plain(2)]] b(4) by simp
  from base64_roundtrip [OF this] have "base64ToBytes (be_payloadBase64 env) = Inr bytes" "bufferFromBase64 (be_payloadBase64 env) = bytes"
    using b(6) by auto
  ultimately show ?thesis using b(1,5,7) header by blast
qed



theorem envelope_read_back_witness:
  "\<exists>env bytes. buildRevisionEnvelope (\<lambda>_. replicate 64 48) (\<lambda>_. True) (\<lambda>s. s) ascii_lower (\<lambda>_. []) sample_input = Inr env \<and>
    base64ToBytes (be_payloadBase64 env) = Inr bytes \<and>
    decodeRevisionPayload (\<lambda>s. s) ascii_lower (Inr bytes) = Inr \<lparr>dp_operation = Create, dp_path = js ''a.md'',
      dp_previousPath = None, dp_kind = Markdown, dp_content = Some [0x17C, 10, 0xD83D, 0xDE00, 10], dp_binaryContent = None\<rparr>"
proof -
  obtain env where env: "buildRevisionEnvelope (\<lambda>_. replicate 64 48) (\<lambda>_. True) (\<lambda>s. s) ascii_lower (\<lambda>_. []) sample_input = Inr env"
    using sample_built by blast
  have "canonicalizeVaultPath (\<lambda>s. s) ascii_lower (in_path sample_input) = Inr (js ''a.md'')"
    using sample_ok(1) by (simp add: change_ok_def)
  moreover have "meant_payload (\<lambda>s. s) ascii_lower sample_input (js ''a.md'') = \<lparr>dp_operation = Create, dp_path = js ''a.md'',
      dp_previousPath = None, dp_kind = Markdown, dp_content = Some [0x17C, 10, 0xD83D, 0xDE00, 10], dp_binaryContent = None\<rparr>"
    by (simp add: meant_payload_def meant_previous_def sample_input_def canonicalizeMarkdown_def strip_bom_def
        strip_trailing_newlines_def)
  ultimately show ?thesis using envelope_read_back [OF env sample_ok(2)] env by auto
qed

text \<open>
  C29. Nothing else stops an edit that meets the rules: the path and, for a rename, the previous path
  are canonicalizable to paths that are canonical themselves (one pass is enough: Unicode
  normalisation can break this for a path like the Kelvin sign and a colon), a rename moves to another
  path, an attachment's base64 is well formed, a root has no parent and everything else has one, and
  the header meets the schema. Then the payload exists, its size is the number of bytes of its JSON
  text in UTF-8, and the envelope is built if and only if that size is within the limit; otherwise the
  error names the path, exactly this size, and the limit. The digest is any that yields 64 hexadecimal
  digits, the strings have 16-bit units and normalisation keeps them so.
\<close>

theorem envelope_refused_only_for_size:
  assumes "change_ok nfc lower input path"
    and "header_ok uuid (build_header input (sort (remdups (in_parents input))))"
    and "input_units input" "\<And>s. units_ok s \<Longrightarrow> units_ok (nfc s)" and "\<And>bytes. sha256_hex (sha bytes)"
    and "limit = (case in_maxPayloadBytes input of None \<Rightarrow> DEFAULT_MAX_REVISION_PAYLOAD_BYTES | Some m \<Rightarrow> m)"
  shows "\<exists>inner size. buildInnerPayload sha nfc lower input path = Inr inner \<and>
    size = length (utf8_encode (json_text ftext (JObj (inner @ recipe_member input inner)))) \<and>
    (if size \<le> limit
     then \<exists>env. buildRevisionEnvelope sha uuid nfc lower ftext input = Inr env
     else buildRevisionEnvelope sha uuid nfc lower ftext input = Inl (RevisionPayloadTooLarge path size limit))"
proof -
  obtain inner where inner: "buildInnerPayload sha nfc lower input path = Inr inner" using change_builds [OF assms(1)] by blast
  note built = change_built [OF assms(1-5) inner refl, of ftext, folded assms(6)]
  show ?thesis
    by (rule exI [of _ inner], rule exI, intro conjI, rule inner, rule refl) (simp add: built not_le)
qed

theorem envelope_refused_only_for_size_witness:
  "\<exists>size > 0. size = length (utf8_encode (json_text (\<lambda>_. []) (JObj sample_inner))) \<and>
     buildRevisionEnvelope (\<lambda>_. replicate 64 48) (\<lambda>_. True) (\<lambda>s. s) ascii_lower (\<lambda>_. [])
       (sample_input\<lparr>in_maxPayloadBytes := Some 0\<rparr>) = Inl (RevisionPayloadTooLarge (js ''a.md'') size 0)"
proof -
  let ?input = "sample_input\<lparr>in_maxPayloadBytes := Some 0\<rparr>"
  have same: "change_ok (\<lambda>s. s) ascii_lower ?input p = change_ok (\<lambda>s. s) ascii_lower sample_input p"
    "build_header ?input ps = build_header sample_input ps" "input_units ?input = input_units sample_input"
    "buildInnerPayload sha (\<lambda>s. s) ascii_lower ?input p = buildInnerPayload sha (\<lambda>s. s) ascii_lower sample_input p"
    "in_parents ?input = in_parents sample_input" "in_maxPayloadBytes ?input = Some 0" for p ps sha
    by (simp_all add: change_ok_def build_header_def input_units_def buildInnerPayload_def previous_member_def Let_def)
  have recipe: "recipe_member ?input inner = []" for inner by (simp add: recipe_member_def sample_input_def)
  obtain inner size where r: "buildInnerPayload (\<lambda>_. replicate 64 48) (\<lambda>s. s) ascii_lower ?input (js ''a.md'') = Inr inner"
    "size = length (utf8_encode (json_text (\<lambda>_. []) (JObj (inner @ recipe_member ?input inner))))"
    "if size \<le> 0 then \<exists>env. buildRevisionEnvelope (\<lambda>_. replicate 64 48) (\<lambda>_. True) (\<lambda>s. s) ascii_lower (\<lambda>_. []) ?input = Inr env
     else buildRevisionEnvelope (\<lambda>_. replicate 64 48) (\<lambda>_. True) (\<lambda>s. s) ascii_lower (\<lambda>_. []) ?input =
       Inl (RevisionPayloadTooLarge (js ''a.md'') size 0)"
    using envelope_refused_only_for_size [of "\<lambda>s. s" ascii_lower ?input "js ''a.md''" "\<lambda>_. True" "\<lambda>_. replicate 64 48" 0 "\<lambda>_. []"]
      sample_ok unfolding same by (metis option.case(2))
  have "inner = sample_inner" using r(1) sample_inner_built unfolding same by simp
  moreover have "length (utf8_encode (json_text (\<lambda>_. []) (JObj sample_inner))) > 0"
    using utf8_encode_nonempty by simp
  ultimately show ?thesis using r(2,3) by (simp add: recipe)
qed

text \<open>
  C30. Whatever bytes or text a peer or the server sends, a payload that decodes cannot steer a write out
  of place: its path and previous path are relative (no leading slash, no drive letter), have no
  backslash and no control character, no segment of them is empty, a dot or two dots, a path in a
  reserved folder is one of the named appearance files and never a script, a deletion carries no
  content, and everything else carries exactly one of text and attachment bytes.
\<close>

theorem hostile_payload_confined:
  assumes "decodeRevisionPayload nfc lower input = Inr d" and "lower_ascii lower"
    and "q = dp_path d \<or> dp_previousPath d = Some q"
  shows "q \<noteq> [] \<and> hd q \<noteq> 47 \<and> 92 \<notin> set q \<and> \<not> windows_drive_path q \<and>
    (\<forall>c \<in> set q. \<not> (c \<le> 0x1F \<or> 0x7F \<le> c \<and> c \<le> 0x9F)) \<and>
    (\<forall>s \<in> set (split_on 47 q). s \<noteq> [] \<and> s \<noteq> js ''.'' \<and> s \<noteq> js ''..'') \<and>
    (lower (hd (split_on 47 q)) \<in> RESERVED_ROOTS lower \<longrightarrow>
       appearance_segments (split_on 47 (normalizeSeparators q)) \<and>
       pathExtension lower (normalizeSeparators q) \<in> THEME_EXTENSIONS - {js ''js''}) \<and>
    (dp_operation d = Delete \<longrightarrow> dp_content d = None \<and> dp_binaryContent d = None) \<and>
    (dp_operation d \<noteq> Delete \<longrightarrow> (dp_content d = None) \<noteq> (dp_binaryContent d = None))"
proof -
  obtain m where m: "decode_members nfc lower m = Inr d"
    using assms(1) by (auto simp: decodeRevisionPayload_def split: option.splits json.splits sum.splits)
  note decoded = decode_members_Inr [OF m]
  have canonical: "canonicalizeVaultPath nfc lower q = Inr q" using decoded(1,2) assms(3) by (auto simp: canonical_path_def)
  note q = canonical_path_confined [OF canonical] and guards = canonical_path_guards [OF canonical]
  have "js ''js'' \<notin> THEME_EXTENSIONS" by (simp add: THEME_EXTENSIONS_def js_def)
  then have "isSyncableConfigPath lower q \<Longrightarrow> appearance_segments (split_on 47 (normalizeSeparators q)) \<and>
       pathExtension lower (normalizeSeparators q) \<in> THEME_EXTENSIONS - {js ''js''}"
    using isSyncableConfigPath_scope(1,2) [OF _ assms(2)] by (metis DiffI singletonD)
  then show ?thesis using q guards decoded(3,4) by (intro conjI) simp_all
qed

text \<open>A decodable payload, and the same payload with a path out of the vault.\<close>

definition sample_tombstone :: "jsstr \<Rightarrow> json" where
  "sample_tombstone path = JObj [(js ''schemaVersion'', JInt 1), (js ''operation'', JStr (js ''delete'')), (js ''path'', JStr path)]"

lemma sample_tombstone_parsed: "units_ok path \<Longrightarrow> json_parse (json_text (\<lambda>_. []) (sample_tombstone path)) = Some (sample_tombstone path)"
  unfolding sample_tombstone_def by (rule json_text_roundtrip) (simp add: js_def)

lemma backslash_path_refused:
  "decodeRevisionPayload (\<lambda>s. s) ascii_lower (Inl (json_text (\<lambda>_. []) (sample_tombstone (js ''..'' @ 92 # js ''x'')))) = Inl PathReservedOrInvalid"
proof -
  have "units_ok (js ''..'' @ 92 # js ''x'')" using js_units [of "''..''"] js_units [of "''x''"] by (simp add: units_ok_def)
  note parsed = sample_tombstone_parsed [OF this]
  have "decode_members (\<lambda>s. s) ascii_lower (map_of (case sample_tombstone (js ''..'' @ 92 # js ''x'') of JObj kvs \<Rightarrow> kvs | _ \<Rightarrow> []))
      = Inl PathReservedOrInvalid"
    by (simp add: sample_tombstone_def decode_members_def assertCanonicalPath_def canonicalizeVaultPath_def
        normalizedVaultPath_def starts_with_def js_def)
  then show ?thesis using parsed by (simp add: decodeRevisionPayload_def sample_tombstone_def)
qed

theorem hostile_payload_confined_witness:
  "\<exists>d. decodeRevisionPayload (\<lambda>s. s) ascii_lower (Inl (json_text (\<lambda>_. []) (sample_tombstone (js ''a.md'')))) = Inr d \<and>
     dp_path d = js ''a.md'' \<and> 92 \<notin> set (dp_path d) \<and> js ''..'' \<notin> set (split_on 47 (dp_path d)) \<and> dp_content d = None"
proof -
  let ?d = "\<lparr>dp_operation = Delete, dp_path = js ''a.md'', dp_previousPath = None, dp_kind = Markdown,
    dp_content = None, dp_binaryContent = None\<rparr>"
  have "canonical_path (\<lambda>s. s) ascii_lower (js ''a.md'')" using sample_ok(1) by (simp add: change_ok_def)
  from assertCanonicalPath_canonical [OF this]
  have "decode_members (\<lambda>s. s) ascii_lower (map_of (case sample_tombstone (js ''a.md'') of JObj kvs \<Rightarrow> kvs | _ \<Rightarrow> [])) = Inr ?d"
    by (simp add: decode_members_def sample_tombstone_def js_def)
  then have d: "decodeRevisionPayload (\<lambda>s. s) ascii_lower (Inl (json_text (\<lambda>_. []) (sample_tombstone (js ''a.md'')))) = Inr ?d"
    using sample_tombstone_parsed [OF js_units, of "''a.md''"] by (simp add: decodeRevisionPayload_def sample_tombstone_def)
  from hostile_payload_confined [OF this lower_ascii_ascii_lower, of "js ''a.md''"] show ?thesis
    by (intro exI [of _ ?d] conjI d) fastforce+
qed

end
