(* ===== verification/Producer.thy ===== *)
theory Producer
  imports SyncState_Theorems Envelope "HOL-Library.Multiset"
begin

text \<open>
  The bridge from vault changes to the queue: \<^verbatim>\<open>OutboxLocalChangeRepository\<close> of
  \<^verbatim>\<open>apps/obsidian-plugin/src/sync/outbox-repository.ts\<close> over the durable sync state, with the envelopes of
  \<open>Envelope\<close>. Every method runs under one mutex of the repository; no other operation of the sync state runs
  between its steps. The identifiers a method draws are arguments, and so are the outcomes of its accesses to
  the disk. Console output and the observer's own fields of an operation (\<^verbatim>\<open>observedAt\<close>, the previous hash) are
  left out.
\<close>

section \<open>Data\<close>




record push_identity =
  pi_vaultId :: ident
  pi_memberId :: ident
  pi_deviceId :: ident

text \<open>
  The options of the repository. \<open>pe_walks\<close> says whether the optional \<^verbatim>\<open>quarantinedParents\<close> was given; the
  last five members are the parameters of \<open>buildRevisionEnvelope\<close>.
\<close>

record producer_env =
  pe_identity :: push_identity
  pe_maxPayloadBytes :: "nat option"
  pe_walks :: bool
  pe_authored :: bool
  pe_sha :: "nat list \<Rightarrow> jsstr"
  pe_uuid :: "ident \<Rightarrow> bool"
  pe_nfc :: "jsstr \<Rightarrow> jsstr"
  pe_lower :: "jsstr \<Rightarrow> jsstr"
  pe_ftext :: "rat \<Rightarrow> jsstr"


datatype commit_error = StateFailed sync_error | BuildFailed envelope_error | CommitRefused

fun then_do :: "('e + 'a) \<times> 's \<Rightarrow> ('a \<Rightarrow> 's \<Rightarrow> ('e + 'b) \<times> 's) \<Rightarrow> ('e + 'b) \<times> 's" where
  "then_do (Inl e, d) f = (Inl e, d)"
| "then_do (Inr a, d) f = f a d"

fun state_call :: "'a outcome \<Rightarrow> (commit_error + 'a) \<times> durable" where
  "state_call (r, d) = (lift_error StateFailed r, d)"

section \<open>The producer's bookkeeping\<close>

definition upsertMapping :: "file_mapping list \<Rightarrow> file_mapping \<Rightarrow> file_mapping list" where
  "upsertMapping mappings upsert =
     filter (\<lambda>m. fm_fileId m \<noteq> fm_fileId upsert \<and> fm_collisionKey m \<noteq> fm_collisionKey upsert) mappings @ [upsert]"







section \<open>Parents that the server knows\<close>




section \<open>The repository's methods\<close>

definition saveState :: "sync_config \<Rightarrow> io \<Rightarrow> producer_state \<Rightarrow> durable \<Rightarrow> unit outcome" where
  "saveState cfg io state d = saveProducer cfg io (state\<lparr>pr_mappings := map mappingMetadata (pr_mappings state)\<rparr>) d"

text \<open>An entry is a file, the hash it was verified with, and its stat.\<close>

definition recordStats :: "sync_config \<Rightarrow> io \<Rightarrow> (ident \<times> jsstr \<times> json) list \<Rightarrow> durable \<Rightarrow> unit outcome" where
  "recordStats cfg io entries d =
     and_then (loadProducer cfg io d) (\<lambda>state d.
       (let entry = (\<lambda>m. case find (\<lambda>(f, _). f = fm_fileId m) (rev entries) of
                           Some (_, hash, stat) \<Rightarrow> if hash = fm_contentHash m then Some stat else None
                         | None \<Rightarrow> None);
            mappings = map (\<lambda>m. case entry m of None \<Rightarrow> m | Some stat \<Rightarrow> m\<lparr>fm_stat := Some stat\<rparr>) (pr_mappings state)
        in if list_ex (\<lambda>m. entry m \<noteq> None) (pr_mappings state)
           then saveState cfg io (state\<lparr>pr_mappings := mappings\<rparr>) d else (Inr (), d)))"

fun recover_loop :: "sync_config \<Rightarrow> (ident \<Rightarrow> io) \<Rightarrow> ident list \<Rightarrow> producer_recovery list \<Rightarrow> durable \<Rightarrow> unit outcome" where
  "recover_loop cfg ios active [] d = (Inr (), d)"
| "recover_loop cfg ios active (r # rs) d =
     (if jr_id r \<in> set active then recover_loop cfg ios active rs d
      else and_then (recoverProducerQueue cfg (ios (jr_id r)) (jr_id r) d) (\<lambda>_ d. recover_loop cfg ios active rs d))"

definition recoverLocked :: "sync_config \<Rightarrow> io \<Rightarrow> (ident \<Rightarrow> io) \<Rightarrow> ident list \<Rightarrow> durable \<Rightarrow> unit outcome" where
  "recoverLocked cfg io ios active d =
     and_then (ensureLoaded cfg io d) (\<lambda>st d. recover_loop cfg ios active (or_else (ps_producerRecovery st) []) d)"

definition files_of :: "ident list \<Rightarrow> producer_state \<Rightarrow> producer_state" where
  "files_of ids state =
     \<lparr>pr_mappings = filter (\<lambda>m. fm_fileId m \<in> set ids) (pr_mappings state),
      pr_heads = filter (\<lambda>(i, _). i \<in> set ids) (pr_heads state)\<rparr>"

text \<open>The result is the set of active applies with the new record.\<close>

definition checkpointApply ::
    "sync_config \<Rightarrow> io \<Rightarrow> (ident \<Rightarrow> io) \<Rightarrow> ident list \<Rightarrow> ident \<Rightarrow> ident \<Rightarrow> jsstr list \<Rightarrow> durable \<Rightarrow> ident list outcome" where
  "checkpointApply cfg io ios active fresh fid paths d =
     and_then (recoverLocked cfg io ios active d) (\<lambda>_ d.
     and_then (loadProducer cfg io d) (\<lambda>before d.
       (let affected = fold (\<lambda>i ids. set_add ids i)
              (map fm_fileId (filter (\<lambda>m. fm_path m \<in> set paths) (pr_mappings before))) [fid];
            entry = \<lparr>jr_id = fresh, jr_kind = ApplyRecord, jr_applyState = None, jr_fileIds = affected,
              jr_state = files_of affected before, jr_discardRevisionIds = []\<rparr>
        in and_then (startProducerRecovery cfg io entry None d) (\<lambda>_ d. (Inr (set_add active fresh), d)))))"

definition rollbackApply ::
    "sync_config \<Rightarrow> io \<Rightarrow> (ident \<Rightarrow> io) \<Rightarrow> ident list \<Rightarrow> ident \<Rightarrow> durable \<Rightarrow> unit outcome" where
  "rollbackApply cfg io ios active fresh d = recoverLocked cfg io ios (removeAll fresh active) d"

definition completeApply :: "sync_config \<Rightarrow> io \<Rightarrow> ident list \<Rightarrow> ident \<Rightarrow> durable \<Rightarrow> ident list outcome" where
  "completeApply cfg io active fresh d =
     and_then (completeProducerRecovery cfg io fresh d) (\<lambda>_ d. (Inr (removeAll fresh active), d))"

definition listMappings ::
    "sync_config \<Rightarrow> io \<Rightarrow> (ident \<Rightarrow> io) \<Rightarrow> ident list \<Rightarrow> durable \<Rightarrow> file_mapping list outcome" where
  "listMappings cfg io ios active d =
     and_then (recoverLocked cfg io ios active d) (\<lambda>_ d.
     and_then (loadProducer cfg io d) (\<lambda>state d. (Inr (pr_mappings state), d)))"

definition headFor :: "sync_config \<Rightarrow> io \<Rightarrow> ident \<Rightarrow> durable \<Rightarrow> ident option outcome" where
  "headFor cfg io fid d = and_then (loadProducer cfg io d) (\<lambda>state d. (Inr (map_of (pr_heads state) fid), d))"

definition versionFor :: "sync_config \<Rightarrow> io \<Rightarrow> ident \<Rightarrow> durable \<Rightarrow> (ident \<times> jsstr) option outcome" where
  "versionFor cfg io fid d =
     and_then (loadProducer cfg io d) (\<lambda>state d.
       (Inr (case (find (\<lambda>m. fm_fileId m = fid) (pr_mappings state), map_of (pr_heads state) fid) of
               (Some m, Some h) \<Rightarrow> Some (h, fm_contentHash m) | _ \<Rightarrow> None), d))"

definition build_change :: "producer_env \<Rightarrow> envelope_input \<Rightarrow> durable \<Rightarrow> (commit_error + built_envelope) \<times> durable" where
  "build_change env input d =
     (lift_error BuildFailed (buildRevisionEnvelope (pe_sha env) (pe_uuid env) (pe_nfc env) (pe_lower env) (pe_ftext env) input), d)"

definition file_identity :: "producer_env \<Rightarrow> ident \<Rightarrow> envelope_identity" where
  "file_identity env fid =
     \<lparr>ei_vaultId = pi_vaultId (pe_identity env), ei_fileId = fid, ei_memberId = pi_memberId (pe_identity env),
      ei_deviceId = pi_deviceId (pe_identity env)\<rparr>"

definition update_input :: "producer_env \<Rightarrow> file_mapping \<Rightarrow> ident \<Rightarrow> ident list \<Rightarrow> nat option \<Rightarrow> envelope_input" where
  "update_input env m rid parents limit =
     \<lparr>in_identity = file_identity env (fm_fileId m), in_revisionId = rid, in_parents = parents, in_operation = OpUpdate,
      in_path = fm_path m, in_previousPath = None, in_kind = None, in_content = fm_content m,
      in_binaryContentBase64 = None, in_idempotencyKey = rid, in_maxPayloadBytes = limit\<rparr>"

definition outbox_envelope :: "ident \<Rightarrow> built_envelope \<Rightarrow> envelope" where
  "outbox_envelope operation built =
     \<lparr>ob_operationId = operation, ob_revisionId = be_revisionId built, ob_fileId = be_fileId built,
      ob_contentHash = be_contentHash built, ob_header = Some (header_json (be_header built)),
      ob_idempotencyKey = be_idempotencyKey built, ob_payloadBase64 = be_payloadBase64 built,
      ob_enqueuedAt = None, ob_payloadExternalized = None, ob_backedUpAt = None\<rparr>"

text \<open>\<open>fresh\<close> and \<open>record\<close> are the identifiers the methods draw for the revision and the record.\<close>

definition commitHeadResolution ::
    "producer_env \<Rightarrow> sync_config \<Rightarrow> io \<Rightarrow> (ident \<Rightarrow> io) \<Rightarrow> ident list \<Rightarrow> ident \<Rightarrow> ident \<Rightarrow> file_mapping \<Rightarrow> ident \<Rightarrow> ident list \<Rightarrow>
     ident list \<Rightarrow> ident option \<Rightarrow> durable \<Rightarrow> (commit_error + unit) \<times> durable" where
  "commitHeadResolution env cfg io ios active fresh recordId mapping expectedHead pendingIds parents existing d =
     then_do (state_call (recoverLocked cfg io ios active d)) (\<lambda>_ d.
     then_do (state_call (loadProducer cfg io d)) (\<lambda>current d.
       if map_of (pr_heads current) (fm_fileId mapping) \<noteq> Some expectedHead then (Inr (), d)
       else
         (let rid = or_else existing fresh
          in then_do (case existing of
                        Some _ \<Rightarrow> (Inr None, d)
                      | None \<Rightarrow> then_do (build_change env (update_input env mapping rid parents None) d)
                                  (\<lambda>built d. (Inr (Some (outbox_envelope rid built)), d))) (\<lambda>replacement d.
             then_do (state_call (commitProducerChange cfg io
                 \<lparr>jr_id = recordId, jr_kind = ResolutionRecord, jr_applyState = None, jr_fileIds = [fm_fileId mapping],
                  jr_state = \<lparr>pr_mappings = [mapping], pr_heads = [(fm_fileId mapping, rid)]\<rparr>,
                  jr_discardRevisionIds = pendingIds\<rparr> replacement d)) (\<lambda>_ d. (Inr (), d))))))"

text \<open>The enqueue and the save of the files are two writes, with the outcomes \<open>io\<close> and \<open>ioSave\<close>.\<close>

definition commitMergedChange ::
    "producer_env \<Rightarrow> sync_config \<Rightarrow> io \<Rightarrow> io \<Rightarrow> ident \<Rightarrow> file_mapping \<Rightarrow> ident \<Rightarrow> ident list \<Rightarrow> durable \<Rightarrow>
     (commit_error + bool) \<times> durable" where
  "commitMergedChange env cfg io ioSave fresh mapping remoteRevisionId remoteParents d =
     then_do (state_call (loadProducer cfg io d)) (\<lambda>state d.
     then_do (state_call (ensureLoaded cfg io d)) (\<lambda>st d.
       case map_of (pr_heads state) (fm_fileId mapping) of
         None \<Rightarrow> (Inr False, d)
       | Some localHead \<Rightarrow>
           if \<not> (pe_authored env \<and> hasAuthoredRevision st localHead) then (Inr False, d)
           else
             (let parents = (if localHead \<in> set remoteParents \<or> localHead = remoteRevisionId
                             then [remoteRevisionId] else [localHead, remoteRevisionId])
              in then_do (build_change env (update_input env mapping fresh parents (pe_maxPayloadBytes env)) d) (\<lambda>built d.
                 then_do (state_call (enqueueAutomaticMerge cfg io (outbox_envelope fresh built) d)) (\<lambda>_ d.
                 then_do (state_call (saveState cfg ioSave
                     \<lparr>pr_mappings = upsertMapping (pr_mappings state) mapping,
                      pr_heads = map_set (pr_heads state) (fm_fileId mapping) fresh\<rparr> d)) (\<lambda>_ d. (Inr True, d)))))))"





definition adoptRemoteMapping :: "sync_config \<Rightarrow> io \<Rightarrow> file_mapping \<Rightarrow> ident \<Rightarrow> durable \<Rightarrow> unit outcome" where
  "adoptRemoteMapping cfg io mapping headRevisionId d =
     and_then (loadProducer cfg io d) (\<lambda>state d. saveState cfg io
       \<lparr>pr_mappings = upsertMapping (pr_mappings state) mapping,
        pr_heads = map_set (pr_heads state) (fm_fileId mapping) headRevisionId\<rparr> d)"

definition forgetRemoteMapping :: "sync_config \<Rightarrow> io \<Rightarrow> jsstr \<Rightarrow> ident \<Rightarrow> durable \<Rightarrow> unit outcome" where
  "forgetRemoteMapping cfg io key fid d =
     and_then (loadProducer cfg io d) (\<lambda>state d. saveState cfg io
       \<lparr>pr_mappings = filter (\<lambda>m. fm_collisionKey m \<noteq> key \<and> fm_fileId m \<noteq> fid) (pr_mappings state),
        pr_heads = map_delete (pr_heads state) fid\<rparr> d)"

section \<open>The walk\<close>








section \<open>One record carries the whole commit\<close>




lemma set_set_add [simp]: "set (set_add ids i) = insert i (set ids)"
  by (auto simp: set_add_def)

lemma set_fold_set_add [simp]: "set (fold (\<lambda>i ids. set_add ids i) xs ids) = set ids \<union> set xs"
  by (induction xs arbitrary: ids) auto













section \<open>A commit and the queue\<close>

lemma then_do_Inr: "then_do r f = (Inr b, d') \<longleftrightarrow> (\<exists>a d. r = (Inr a, d) \<and> f a d = (Inr b, d'))"
  by (cases "(r, f)" rule: then_do.cases) auto

lemma state_call_Inr [simp]: "state_call r = (Inr a, d) \<longleftrightarrow> r = (Inr a, d)"
  by (cases r) simp


















section \<open>Properties\<close>



end
