(* ===== verification/Spec2Isabelle.thy ===== *)
theory Spec2Isabelle
  imports Merge_Theorems Waits SyncRunner_Theorems Wire Rejoin AccessTokens Producer
begin

text \<open>
  Verification library for Havemind, a self-hosted server that keeps the vaults of an Obsidian plugin in
  sync and the plugin's side of that synchronisation.

  \<^bold>\<open>The program.\<close> A vault is a set of files; every file has a history of revisions that forms an acyclic
  graph whose childless revisions are its heads. A client turns local edits into revisions and queues
  them in its durable sync state; its runner pushes the queue in batches and pulls the event log of the
  vault from a cursor. The server checks a batch (size, identity, order), commits revision by revision,
  each under a compare-and-swap of the file's heads, charges a quota, stores the payload under its hash
  and wakes the peers that hold a long poll. Concurrent edits of a note are merged by a three-way line
  merge that both sides run independently. Who may talk to the server is decided by refresh token
  families: devices are onboarded by an invitation and a code read aloud, rotate their tokens, rejoin
  under a grant, and are shut out by a revocation.

  \<^bold>\<open>The theories.\<close> Paths are relative to \<^verbatim>\<open>src/\<close>.

  \<^item> \<open>Prelude\<close>: JavaScript strings as UTF-16 code units, the result type \<open>'e + 'a\<close> with \<open>bind_result\<close>, loops
    over lists, insertion-ordered maps, and the locale \<open>invariant_machine\<close> (a step function that keeps an
    invariant), which every stateful component interprets.
  \<^item> Three-way merge, \<^verbatim>\<open>packages/sync-core/src/diff3.ts\<close>. \<open>Lcs\<close> is \<^verbatim>\<open>lcsMatches\<close> with its table, \<open>Diff3\<close> the
    hunks, the merge loop and \<^verbatim>\<open>mergeText\<close>. \<open>Diff3_Correct\<close> states what the loop needs of a diff (locale
    \<open>line_diff\<close>, interpreted on \<open>diffHunks\<close>), \<open>Merge_Correct\<close> proves the loop in the locale \<open>merge_inputs\<close>
    and \<open>Merge_Theorems\<close> states the results over texts: a merge is a three-way merge, loses no added
    line, commutes, always returns.
  \<^item> Protocol, \<^verbatim>\<open>packages/protocol/src\<close>: \<open>Canonical\<close> (\<^verbatim>\<open>canonicalization.ts\<close>, \<^verbatim>\<open>appearance-scope.ts\<close>), \<open>Schema\<close>
    (\<^verbatim>\<open>revision-schema.ts\<close>, schemas as parsers of JSON values), \<open>Base64\<close> (\<^verbatim>\<open>base64.ts\<close>). \<open>JsonText\<close> is the
    platform's JSON and UTF-8, printed and parsed, and \<open>Envelope\<close> (\<^verbatim>\<open>packages/sync-core/src/revision-envelope.ts\<close>,
    \<^verbatim>\<open>payload-codec.ts\<close>) the payload from the device that writes it to the one that reads it.
  \<^item> Server store: \<open>RevisionStore\<close> (\<^verbatim>\<open>apps/server/src/revision-repository.ts\<close>, \<^verbatim>\<open>quota.ts\<close>), its invariant in
    \<open>RevisionStore_Inv\<close> and its properties in \<open>Store_Theorems\<close>; \<open>Blobs\<close> (\<^verbatim>\<open>blob-store.ts\<close>, \<^verbatim>\<open>blob-gc.ts\<close>) with
    writes as sequences of file-system operations that a crash may cut.
  \<^item> Server routes: \<open>OrderBatch\<close> (the topological order of a batch), \<open>SyncRoutes\<close> (\<^verbatim>\<open>sync/sync-routes.ts\<close>),
    \<open>Throttles\<close> (\<^verbatim>\<open>device-throttles.ts\<close>, with the refinement of an abstract token bucket), \<open>Waits\<close>
    (\<^verbatim>\<open>vault-wake-registry.ts\<close> and the long-poll route as a machine); \<open>Push_Theorems\<close> joins routes, store
    and blobs.
  \<^item> Client: \<open>ClientState\<close> and \<open>SyncState\<close> (\<^verbatim>\<open>apps/obsidian-plugin/src/runtime/sync-state.ts\<close> and
    \<^verbatim>\<open>producer-recovery.ts\<close>) with \<open>SyncState_Inv\<close> and \<open>SyncState_Theorems\<close>; \<open>SyncRunner\<close>
    (\<^verbatim>\<open>sync/sync-runner.ts\<close>) with \<open>SyncRunner_Theorems\<close> (push, cycles) and \<open>SyncPull\<close> (pull; the locale
    \<open>pull_contract\<close> is what the runner relies on in its ports, interpreted on the durable state);
    \<open>Transport\<close> (\<^verbatim>\<open>runtime/sync-transport.ts\<close>); \<open>Producer\<close> (\<^verbatim>\<open>sync/outbox-repository.ts\<close>), which turns a
    change of the vault into an envelope, the file map and the queue entry. \<open>Wire\<close> composes transport and routes through the JSON replies.
  \<^item> Identity, \<^verbatim>\<open>apps/server/src/auth\<close>: \<open>Tokens\<close> (\<^verbatim>\<open>tokens.ts\<close>, \<^verbatim>\<open>verification-pin.ts\<close>), \<open>Sessions\<close>
    (\<^verbatim>\<open>session-repository.ts\<close>, \<^verbatim>\<open>membership-revocation.ts\<close>) with \<open>Sessions_Inv\<close> and \<open>Sessions_Theorems\<close>,
    \<open>Invitations\<close> (\<^verbatim>\<open>invitations.ts\<close>) with \<open>Invitations_Theorems\<close> (and the locale \<open>metered_machine\<close>, a budget
    that every hit lowers), \<open>Rejoin\<close> (\<^verbatim>\<open>rejoin-grants.ts\<close>). \<open>AccessTokens\<close> joins the client's provider
    (\<^verbatim>\<open>runtime/access-token.ts\<close>) to the route \<^verbatim>\<open>POST /auth/refresh\<close> and the session repository.

  \<^bold>\<open>How code becomes definitions.\<close> Interfaces and table rows are records, unions are datatypes, thrown
  errors are the left side of a sum, with one constructor for each code and for a violated constraint or
  a \<^verbatim>\<open>RangeError\<close>. SQLite tables are association lists in insertion order; a transaction that throws
  returns no new state, so it is rolled back. A method is one function from its arguments and the state
  to its result and the next state. Loops are structural recursions, or \<open>function\<close>s with a measure: the merge loop ends because it consumes lines, the batch loop because it consumes the outbox,
  a pull page because it consumes events, and the pull loop is bounded by the pages it is given. The one function with
  fuel is \<open>parse_value\<close>, the parser of JSON text: \<open>json_parse\<close> gives it twice the length of the text plus one, and
  \<open>json_text_roundtrip\<close> shows that this is enough for every text the program prints. Numbers
  of JavaScript are integers with the code's own checks for safe integers; lengths in bytes are those of
  the UTF-8 encoding.

  \<^bold>\<open>Time, failure and interleaving.\<close> The clock, UUIDs and random bytes are arguments, in the order in which
  the code draws them. The outcome of every access to a disk or a secret store is an argument as well: it
  may fail. A failed save of the plugin's document or a failed blob call leaves the file as it was, which is
  what an atomic replace promises; a failed write of a secret may also have taken effect. Where a route awaits, the model has an interference
  point at which any state change that keeps the invariants may happen; inside a SQLite transaction there
  is none. A crash is the loss of what is only in memory, or for blobs the loss of unsynced writes.
  Machines of operations (\<open>sessions\<close>, \<open>onboarding\<close>, \<open>rejoins\<close>, \<open>store\<close>, \<open>waits\<close>, the client) and the step
  relation \<open>refresh_step\<close> quantify over all their interleavings.

  \<^bold>\<open>Parameters.\<close> SHA-256 (assumed to give 64 hexadecimal digits, never to be injective; where a collision
  matters the statement names hashes), Unicode normalisation and lower-casing, the collation of a listing,
  and the other side of a port: the vault of the pull, the server of the runner. Their hypotheses appear in
  the statements, and every property with hypotheses has a witness that applies it to a concrete state.

  \<^bold>\<open>Bounds of the model.\<close> Token counts of the throttles are rational numbers instead of floats. Stored
  dates are the instants their texts denote, so the comparison of texts in \<^verbatim>\<open>ORDER BY\<close> is that of instants.
  A request is not delivered twice or after the client gave it up: in \<open>AccessTokens\<close> it arrives during the
  attempt that sent it or never. Constraints of tables outside the model appear as the list \<open>au_pinned\<close> of
  rows that must not be deleted.

  \<^bold>\<open>Not modelled.\<close> Fastify, SQLite, Obsidian and the HTTP layers as such; the other HTTP handlers of the
  auth services, which parse a body and map errors of the modelled services; first-run setup and agent
  enrolment; migrations, backup, configuration and the command lines, which are input and output; the
  plugin's vault adapter and observer, configuration sync and views, which live in Obsidian's API; the
  headless agent; the startup scan of the vault (\<^verbatim>\<open>reconciliation.ts\<close>), which feeds the modelled repository
  through the observer.
\<close>

end
